(* ===== verification/Prelude.thy ===== *)
theory Prelude
  imports Main "HOL-Library.AList"
begin

text \<open>
  Vocabulary shared by every component of the development.

  \<^item> \<open>outcome\<close>: what a Rust call that may panic returns; \<open>Panicked\<close> carries the panic
    message, so a panicking branch is a value of the model.
  \<^item> hash maps are association lists with distinct keys (\<open>AList.update\<close>,
    \<open>AList.delete\<close>, \<open>map_of\<close>): the order of the list stands for the iteration order
    of the Rust map, which the code never relies on, and the theorems hold for any order.
  \<^item> 64-bit counters that only step by one from zero are \<open>nat\<close>; where the code uses a
    saturating operation or the sentinel \<open>u64::MAX\<close>, the bound is written out.
\<close>

named_theorems outcome_simps \<open>evaluation of chained outcomes\<close>
named_theorems alist_simps \<open>lookup after update and delete in association lists\<close>

subsection \<open>Outcomes\<close>

datatype 'a outcome = Done 'a | Panicked string

fun bind_outcome :: "'a outcome \<Rightarrow> ('a \<Rightarrow> 'b outcome) \<Rightarrow> 'b outcome" where
  "bind_outcome (Done a) f = f a"
| "bind_outcome (Panicked m) f = Panicked m"

fun map_outcome :: "('a \<Rightarrow> 'b) \<Rightarrow> 'a outcome \<Rightarrow> 'b outcome" where
  "map_outcome f (Done a) = Done (f a)"
| "map_outcome f (Panicked m) = Panicked m"

fun is_done :: "'a outcome \<Rightarrow> bool" where
  "is_done (Done a) = True"
| "is_done (Panicked m) = False"

lemma bind_outcome_Done [outcome_simps]:
  "bind_outcome x f = Done b \<longleftrightarrow> (\<exists>a. x = Done a \<and> f a = Done b)"
  by (cases x) auto

lemma map_outcome_Done [outcome_simps]:
  "map_outcome f x = Done b \<longleftrightarrow> (\<exists>a. x = Done a \<and> b = f a)"
  by (cases x) auto

lemma is_done_iff [outcome_simps]: "is_done x \<longleftrightarrow> (\<exists>a. x = Done a)"
  by (cases x) auto

subsection \<open>64-bit bounds\<close>

definition u64_max :: nat where
  "u64_max = 18446744073709551615"

definition sat_add_u64 :: "nat \<Rightarrow> nat \<Rightarrow> nat" where
  "sat_add_u64 a b = min u64_max (a + b)"

lemma sat_add_u64_le: "sat_add_u64 a b \<le> u64_max"
  by (simp add: sat_add_u64_def)

lemma sat_add_u64_exact: "a + b \<le> u64_max \<Longrightarrow> sat_add_u64 a b = a + b"
  by (simp add: sat_add_u64_def)

subsection \<open>Association lists as hash maps\<close>

definition keys_of :: "('k \<times> 'v) list \<Rightarrow> 'k list" where
  "keys_of m = map fst m"

definition has_key :: "('k \<times> 'v) list \<Rightarrow> 'k \<Rightarrow> bool" where
  "has_key m k \<longleftrightarrow> map_of m k \<noteq> None"

definition get_or :: "'v \<Rightarrow> ('k \<times> 'v) list \<Rightarrow> 'k \<Rightarrow> 'v" where
  "get_or d m k = (case map_of m k of None \<Rightarrow> d | Some v \<Rightarrow> v)"

lemma map_of_update [simp, alist_simps]:
  "map_of (AList.update k v m) k' = (if k' = k then Some v else map_of m k')"
  by (simp add: update_conv')

lemma map_of_delete [simp, alist_simps]:
  "map_of (AList.delete k m) k' = (if k' = k then None else map_of m k')"
  by (simp add: delete_conv')

lemma has_key_update [simp, alist_simps]: "has_key (AList.update k v m) k' \<longleftrightarrow> k' = k \<or> has_key m k'"
  by (simp add: has_key_def)

lemma has_key_delete [simp, alist_simps]: "has_key (AList.delete k m) k' \<longleftrightarrow> k' \<noteq> k \<and> has_key m k'"
  by (simp add: has_key_def)

lemma has_key_set: "has_key m k \<longleftrightarrow> k \<in> fst ` set m"
  by (simp add: has_key_def map_of_eq_None_iff)

lemma get_or_update [simp, alist_simps]:
  "get_or d (AList.update k v m) k' = (if k' = k then v else get_or d m k')"
  by (simp add: get_or_def)

lemma distinct_keys_update [simp]: "distinct (map fst m) \<Longrightarrow> distinct (map fst (AList.update k v m))"
  by (rule distinct_update)

lemma distinct_keys_delete [simp]: "distinct (map fst m) \<Longrightarrow> distinct (map fst (AList.delete k m))"
  by (rule distinct_delete)

subsection \<open>Numbered lists\<close>

text \<open>\<open>enumerate\<close> numbers a list from an offset; queue slots carry their offset this way.\<close>

lemma enumerate_fst_ge: "x \<in> set (enumerate c xs) \<Longrightarrow> c \<le> fst x"
  by (auto simp: in_set_enumerate_eq)

lemma enumerate_Nil_iff [simp]: "enumerate c xs = [] \<longleftrightarrow> xs = []"
  by (cases xs) auto

lemma dropWhile_enumerate:
  "dropWhile (\<lambda>(o', _). o' \<le> off) (enumerate c xs) = enumerate (c + (Suc off - c)) (drop (Suc off - c) xs)"
proof (induction xs arbitrary: c)
  case Nil
  then show ?case by simp
next
  case (Cons x xs)
  show ?case
  proof (cases "c \<le> off")
    case True
    then have "Suc off - c = Suc (Suc off - Suc c)" by simp
    with True Cons.IH [of "Suc c"] show ?thesis by simp
  next
    case False
    then show ?thesis by simp
  qed
qed

subsection \<open>List search\<close>

lemma find_Some_set: "List.find P xs = Some x \<Longrightarrow> x \<in> set xs \<and> P x"
  by (induction xs) (auto split: if_splits)

lemma find_None_iff_all: "List.find P xs = None \<longleftrightarrow> (\<forall>x \<in> set xs. \<not> P x)"
  by (induction xs) auto

definition push_unique :: "'a \<Rightarrow> 'a list \<Rightarrow> 'a list" where
  "push_unique x xs = (if x \<in> set xs then xs else xs @ [x])"

lemma set_push_unique [simp]: "set (push_unique x xs) = insert x (set xs)"
  by (auto simp: push_unique_def)

lemma distinct_push_unique [simp]: "distinct xs \<Longrightarrow> distinct (push_unique x xs)"
  by (simp add: push_unique_def)

lemma push_unique_idem [simp]: "push_unique x (push_unique x xs) = push_unique x xs"
  by (simp add: push_unique_def)

end
