(* ===== verification/Schemas.thy ===== *)
theory Schemas
  imports Prelude "HOL-Library.Word"
begin

text \<open>
  JSON values (\<open>src/src/json.rs\<close>) and message schemas as data (\<open>src/src/schema.rs\<close>).

  A JSON number is an integer or the bit pattern of a finite 64-bit float.  An object is an
  association list with distinct keys.  \<open>serde\<close> collects what the libraries provide and the sources
  only call: printing, parsing, the JSON text of a float, the \<open>Display\<close> form of a float (which has no
  decimal point for a whole number) and the float of an integer.

  A schema identifier compares and hashes by its name (\<open>sid_eq\<close>), whichever representation it has;
  the other theories therefore use the name, a \<open>string\<close>, for the identifier.
\<close>

subsection \<open>JSON\<close>

datatype json =
    JNull
  | JBool bool
  | JInt int
  | JFloat "64 word"
  | JStr string
  | JArr "json list"
  | JObj "(string \<times> json) list"

record serde =
  sd_print :: "json \<Rightarrow> string"
  sd_parse :: "string \<Rightarrow> json option"
  sd_float_text :: "64 word \<Rightarrow> string"
  sd_float_display :: "64 word \<Rightarrow> string"
  sd_float_of_int :: "int \<Rightarrow> 64 word"

text \<open>The accessors of the JSON tree the sources use.\<close>

fun json_get :: "json \<Rightarrow> string \<Rightarrow> json option" where
  "json_get (JObj m) k = map_of m k"
| "json_get _ k = None"

fun json_as_str :: "json \<Rightarrow> string option" where
  "json_as_str (JStr s) = Some s"
| "json_as_str _ = None"

fun json_as_bool :: "json \<Rightarrow> bool option" where
  "json_as_bool (JBool b) = Some b"
| "json_as_bool _ = None"

fun json_as_i64 :: "json \<Rightarrow> int option" where
  "json_as_i64 (JInt i) = (if - (2 ^ 63) \<le> i \<and> i < 2 ^ 63 then Some i else None)"
| "json_as_i64 _ = None"

fun json_as_f64 :: "serde \<Rightarrow> json \<Rightarrow> (64 word) option" where
  "json_as_f64 sd (JFloat b) = Some b"
| "json_as_f64 sd (JInt i) = Some (sd_float_of_int sd i)"
| "json_as_f64 sd _ = None"

definition json_from_str :: "string \<Rightarrow> json" where
  "json_from_str s = JStr s"

text \<open>A float that is not finite has no JSON number: it serialises as null.\<close>

definition f64_finite :: "64 word \<Rightarrow> bool" where
  "f64_finite b \<longleftrightarrow> (drop_bit 52 b) mod 2048 \<noteq> 2047"

definition json_from_f64 :: "64 word \<Rightarrow> json" where
  "json_from_f64 b = (if f64_finite b then JFloat b else JNull)"

definition json_from_i64 :: "64 word \<Rightarrow> json" where
  "json_from_i64 n = JInt (sint n)"

definition json_from_u64 :: "64 word \<Rightarrow> json" where
  "json_from_u64 n = JInt (uint n)"

definition json_from_bool :: "bool \<Rightarrow> json" where
  "json_from_bool b = JBool b"

definition json_from_map :: "(string \<times> json) list \<Rightarrow> json" where
  "json_from_map m = JObj m"

text \<open>Serialising a value may fail (\<open>None\<close>); \<open>Json::of\<close> panics then.  Decoding hands its error on.\<close>

definition json_of :: "('a \<Rightarrow> json option) \<Rightarrow> 'a \<Rightarrow> json outcome" where
  "json_of serialise x =
     (case serialise x of Some v \<Rightarrow> Done v | None \<Rightarrow> Panicked ''Json::of: failed to serialize value'')"

definition json_decode :: "(json \<Rightarrow> 'e + 'a) \<Rightarrow> json \<Rightarrow> 'e + 'a" where
  "json_decode deserialise j = deserialise j"

text \<open>An integer read back from the tree is the one put in; a \<open>u64\<close> only below the sign bit.\<close>

lemma json_i64_reads_back: "json_as_i64 (json_from_i64 n) = Some (sint n)"
  using sint_ge [of n] sint_lt [of n] by (simp add: json_from_i64_def)

lemma json_u64_reads_back: "json_as_i64 (json_from_u64 n) = (if uint n < 2 ^ 63 then Some (uint n) else None)"
proof -
  have "- (2 ^ 63) \<le> uint n" by (rule order_trans [OF _ uint_ge_0]) simp
  then show ?thesis by (simp add: json_from_u64_def)
qed

text \<open>Decimal text of integers and booleans (\<open>to_string\<close>).\<close>

fun nat_text :: "nat \<Rightarrow> string" where
  "nat_text n = (if n < 10 then [char_of (48 + n)] else nat_text (n div 10) @ [char_of (48 + n mod 10)])"

declare nat_text.simps [simp del]

definition int_text :: "int \<Rightarrow> string" where
  "int_text i = (if i < 0 then CHR ''-'' # nat_text (nat (- i)) else nat_text (nat i))"

definition bool_text :: "bool \<Rightarrow> string" where
  "bool_text b = (if b then ''true'' else ''false'')"

lemma nat_text_not_empty [simp]: "nat_text n \<noteq> []"
  by (subst nat_text.simps) simp

lemma int_text_not_empty [simp]: "int_text i \<noteq> []"
  by (simp add: int_text_def)

lemma bool_text_not_empty [simp]: "bool_text b \<noteq> []"
  by (simp add: bool_text_def)

definition nat_of_digits :: "string \<Rightarrow> nat" where
  "nat_of_digits s = foldl (\<lambda>n c. 10 * n + (of_char c - 48)) 0 s"

lemma nat_of_digits_nat_text [simp]: "nat_of_digits (nat_text n) = n"
proof (induction n rule: nat_text.induct)
  case (1 n)
  have char: "m < 10 \<Longrightarrow> (of_char (char_of (48 + m :: nat)) :: nat) = 48 + m" for m
    by simp
  show ?case
  proof (cases "n < 10")
    case True
    with char [OF True] show ?thesis by (subst nat_text.simps) (simp add: nat_of_digits_def)
  next
    case False
    with 1 have "foldl (\<lambda>n c. 10 * n + (of_char c - 48)) 0 (nat_text (n div 10)) = n div 10"
      by (simp add: nat_of_digits_def)
    moreover have "(of_char (char_of (48 + n mod 10 :: nat)) :: nat) = 48 + n mod 10"
      by (rule char) simp
    ultimately show ?thesis
      using False by (subst nat_text.simps) (simp add: nat_of_digits_def)
  qed
qed

lemma nat_text_inject [simp]: "nat_text a = nat_text b \<longleftrightarrow> a = b"
  by (metis nat_of_digits_nat_text)

lemma nat_text_head: "nat_text n \<noteq> CHR ''-'' # s"
proof (induction n arbitrary: s rule: nat_text.induct)
  case (1 n)
  show ?case
  proof (cases "n < 10")
    case True
    then have "n \<in> {0, 1, 2, 3, 4, 5, 6, 7, 8, 9}" by auto
    with True show ?thesis by (subst nat_text.simps) (auto simp: char_of_def)
  next
    case False
    then have "nat_text n = nat_text (n div 10) @ [char_of (48 + n mod 10)]"
      by (subst nat_text.simps) simp
    with 1 [OF False] show ?thesis by (cases "nat_text (n div 10)") auto
  qed
qed

lemma int_text_inject [simp]: "int_text a = int_text b \<longleftrightarrow> a = b"
  by (auto simp: int_text_def nat_text_head nat_text_head [symmetric])

subsection \<open>Schema descriptors\<close>

datatype schema_kind = Command | Event

datatype field_ty = TBool | TInt | TFloat | TStr | TUuid | TJson | TList field_ty

record f64_range =
  rg_min :: "(64 word) option"
  rg_max :: "(64 word) option"

definition range_between :: "64 word \<Rightarrow> 64 word \<Rightarrow> f64_range" where
  "range_between lo hi = \<lparr>rg_min = Some lo, rg_max = Some hi\<rparr>"

datatype field_role = ShardKey

record field_def =
  fd_name :: string
  fd_ty :: field_ty
  fd_unit :: "string option"
  fd_range :: "f64_range option"
  fd_role :: "field_role option"
  fd_description :: "string option"

definition field_required :: "string \<Rightarrow> field_ty \<Rightarrow> field_def" where
  "field_required name ty =
     \<lparr>fd_name = name, fd_ty = ty, fd_unit = None, fd_range = None, fd_role = None, fd_description = None\<rparr>"

definition with_unit :: "string \<Rightarrow> field_def \<Rightarrow> field_def" where
  "with_unit unit f = f\<lparr>fd_unit := Some unit\<rparr>"

definition with_description :: "string \<Rightarrow> field_def \<Rightarrow> field_def" where
  "with_description d f = f\<lparr>fd_description := Some d\<rparr>"

definition with_range :: "f64_range \<Rightarrow> field_def \<Rightarrow> field_def" where
  "with_range r f = f\<lparr>fd_range := Some r\<rparr>"

definition with_role :: "field_role \<Rightarrow> field_def \<Rightarrow> field_def" where
  "with_role r f = f\<lparr>fd_role := Some r\<rparr>"

definition as_shard_key :: "field_def \<Rightarrow> field_def" where
  "as_shard_key f = f\<lparr>fd_role := Some ShardKey\<rparr>"

record schema_def =
  sch_name :: string
  sch_kind :: schema_kind
  sch_fields :: "field_def list"
  sch_description :: "string option"

definition field_with_role :: "field_role \<Rightarrow> schema_def \<Rightarrow> string option" where
  "field_with_role role d = map_option fd_name (List.find (\<lambda>f. fd_role f = Some role) (sch_fields d))"

subsection \<open>Schema identifiers\<close>

datatype schema_ident = StaticName string | DynamicName string

fun sid_str :: "schema_ident \<Rightarrow> string" where
  "sid_str (StaticName n) = n"
| "sid_str (DynamicName n) = n"

definition sid_new :: "string \<Rightarrow> schema_ident" where
  "sid_new n = DynamicName n"

definition sid_static :: "string \<Rightarrow> schema_ident" where
  "sid_static n = StaticName n"

definition sid_eq :: "schema_ident \<Rightarrow> schema_ident \<Rightarrow> bool" where
  "sid_eq a b \<longleftrightarrow> sid_str a = sid_str b"

text \<open>\<open>split_once('@')\<close> keeps what stands before the first at-sign.\<close>

definition sid_parse :: "string \<Rightarrow> schema_ident option" where
  "sid_parse s = Some (sid_new (takeWhile (\<lambda>c. c \<noteq> CHR ''@'') s))"

definition schema_def_id :: "schema_def \<Rightarrow> schema_ident" where
  "schema_def_id d = sid_new (sch_name d)"

text \<open>
  The identifier of a Rust type: the constant name when the derive supplies one, else the
  per-type cache, filled from the descriptor on the first call.
\<close>

definition cached_schema_id ::
  "string \<Rightarrow> schema_def \<Rightarrow> (string \<times> schema_ident) list \<Rightarrow> schema_ident \<times> (string \<times> schema_ident) list" where
  "cached_schema_id type_id d cache =
     (case map_of cache type_id of
        None \<Rightarrow> (let i = sid_new (sch_name d) in (i, AList.update type_id i cache))
      | Some i \<Rightarrow> (i, cache))"

definition schema_id_of ::
  "string option \<Rightarrow> string \<Rightarrow> schema_def \<Rightarrow> (string \<times> schema_ident) list
   \<Rightarrow> schema_ident \<times> (string \<times> schema_ident) list" where
  "schema_id_of schema_name type_id d cache =
     (case schema_name of Some n \<Rightarrow> (sid_static n, cache) | None \<Rightarrow> cached_schema_id type_id d cache)"

subsection \<open>Actor manifests\<close>

datatype actor_kind = EventSourced | Service

record actor_manifest =
  mf_handles :: "string list"
  mf_emits :: "string list"
  mf_kind :: "actor_kind option"

definition manifest_new :: actor_manifest where
  "manifest_new = \<lparr>mf_handles = [], mf_emits = [], mf_kind = None\<rparr>"

definition handles_id :: "string \<Rightarrow> actor_manifest \<Rightarrow> actor_manifest" where
  "handles_id s m = m\<lparr>mf_handles := push_unique s (mf_handles m)\<rparr>"

definition emits_id :: "string \<Rightarrow> actor_manifest \<Rightarrow> actor_manifest" where
  "emits_id s m = m\<lparr>mf_emits := push_unique s (mf_emits m)\<rparr>"

definition manifest_kind :: "actor_kind \<Rightarrow> actor_manifest \<Rightarrow> actor_manifest" where
  "manifest_kind k m = m\<lparr>mf_kind := Some k\<rparr>"

text \<open>
  One Rust type per schema name, process-wide (\<open>claim_schema_type\<close> in \<open>registry.rs\<close>): the claims
  table maps a schema name to the type that owns it.  A typed manifest declaration claims first and
  panics on a conflict.
\<close>

datatype schema_error = InvalidDescriptor | DuplicateType string

definition claim_schema_type ::
  "string \<Rightarrow> string \<Rightarrow> (string \<times> string) list \<Rightarrow> (schema_error + unit) \<times> (string \<times> string) list" where
  "claim_schema_type name type_id claims =
     (case map_of claims name of
        None \<Rightarrow> (Inr (), AList.update name type_id claims)
      | Some owner \<Rightarrow> if owner = type_id then (Inr (), claims) else (Inl (DuplicateType name), claims))"

definition expect_claim :: "string \<Rightarrow> string \<Rightarrow> (string \<times> string) list \<Rightarrow> (string \<times> string) list outcome" where
  "expect_claim name type_id claims =
     (case claim_schema_type name type_id claims of
        (Inr _, c) \<Rightarrow> Done c
      | (Inl _, c) \<Rightarrow> Panicked ''schema TypeId claim failed (one Rust type per schema name)'')"

definition handles_typed ::
  "string \<Rightarrow> string \<Rightarrow> actor_manifest \<Rightarrow> (string \<times> string) list \<Rightarrow> (actor_manifest \<times> (string \<times> string) list) outcome" where
  "handles_typed name type_id m claims =
     map_outcome (\<lambda>c. (handles_id name m, c)) (expect_claim name type_id claims)"

definition emits_typed ::
  "string \<Rightarrow> string \<Rightarrow> actor_manifest \<Rightarrow> (string \<times> string) list \<Rightarrow> (actor_manifest \<times> (string \<times> string) list) outcome" where
  "emits_typed name type_id m claims =
     map_outcome (\<lambda>c. (emits_id name m, c)) (expect_claim name type_id claims)"

subsection \<open>Descriptors as JSON\<close>

text \<open>
  The derived serde codec of the descriptors: enums externally tagged with the renamed variants,
  absent optional fields skipped on output and defaulted on input.  Only the object form of a
  struct is decoded.
\<close>

definition opt_entry :: "string \<Rightarrow> ('a \<Rightarrow> json) \<Rightarrow> 'a option \<Rightarrow> (string \<times> json) list" where
  "opt_entry k f x = (case x of None \<Rightarrow> [] | Some a \<Rightarrow> [(k, f a)])"

definition dec_req :: "string \<Rightarrow> (json \<Rightarrow> 'a option) \<Rightarrow> (string \<times> json) list \<Rightarrow> 'a option" where
  "dec_req k f m = (case map_of m k of None \<Rightarrow> None | Some j \<Rightarrow> f j)"

definition dec_opt :: "string \<Rightarrow> (json \<Rightarrow> 'a option) \<Rightarrow> (string \<times> json) list \<Rightarrow> 'a option option" where
  "dec_opt k f m =
     (case map_of m k of
        None \<Rightarrow> Some None
      | Some j \<Rightarrow> if j = JNull then Some None else map_option Some (f j))"

fun unit_variant :: "json \<Rightarrow> string option" where
  "unit_variant (JStr s) = Some s"
| "unit_variant (JObj [(s, JNull)]) = Some s"
| "unit_variant _ = None"

fun kind_to_json :: "schema_kind \<Rightarrow> json" where
  "kind_to_json Command = JStr ''command''"
| "kind_to_json Event = JStr ''event''"

definition kind_of_json :: "json \<Rightarrow> schema_kind option" where
  "kind_of_json j =
     (case unit_variant j of
        None \<Rightarrow> None
      | Some s \<Rightarrow> if s = ''command'' then Some Command else if s = ''event'' then Some Event else None)"

fun field_ty_to_json :: "field_ty \<Rightarrow> json" where
  "field_ty_to_json TBool = JStr ''bool''"
| "field_ty_to_json TInt = JStr ''int''"
| "field_ty_to_json TFloat = JStr ''float''"
| "field_ty_to_json TStr = JStr ''str''"
| "field_ty_to_json TUuid = JStr ''uuid''"
| "field_ty_to_json TJson = JStr ''json''"
| "field_ty_to_json (TList t) = JObj [(''list'', field_ty_to_json t)]"

definition unit_field_ty :: "string \<Rightarrow> field_ty option" where
  "unit_field_ty s =
     map_of [(''bool'', TBool), (''int'', TInt), (''float'', TFloat), (''str'', TStr), (''uuid'', TUuid),
             (''json'', TJson)] s"

fun field_ty_of_json :: "json \<Rightarrow> field_ty option" where
  "field_ty_of_json (JStr s) = unit_field_ty s"
| "field_ty_of_json (JObj [(s, j)]) =
     (if s = ''list'' then map_option TList (field_ty_of_json j)
      else if j = JNull then unit_field_ty s else None)"
| "field_ty_of_json _ = None"

definition range_to_json :: "f64_range \<Rightarrow> json" where
  "range_to_json r =
     JObj (opt_entry ''min'' json_from_f64 (rg_min r) @ opt_entry ''max'' json_from_f64 (rg_max r))"

fun range_of_json :: "serde \<Rightarrow> json \<Rightarrow> f64_range option" where
  "range_of_json sd (JObj m) =
     (case (dec_opt ''min'' (json_as_f64 sd) m, dec_opt ''max'' (json_as_f64 sd) m) of
        (Some lo, Some hi) \<Rightarrow> Some \<lparr>rg_min = lo, rg_max = hi\<rparr>
      | _ \<Rightarrow> None)"
| "range_of_json sd _ = None"

fun role_to_json :: "field_role \<Rightarrow> json" where
  "role_to_json ShardKey = JStr ''ShardKey''"

definition role_of_json :: "json \<Rightarrow> field_role option" where
  "role_of_json j = (if unit_variant j = Some ''ShardKey'' then Some ShardKey else None)"

definition field_to_json :: "field_def \<Rightarrow> json" where
  "field_to_json f =
     JObj ([(''name'', JStr (fd_name f)), (''ty'', field_ty_to_json (fd_ty f))]
       @ opt_entry ''unit'' JStr (fd_unit f) @ opt_entry ''range'' range_to_json (fd_range f)
       @ opt_entry ''role'' role_to_json (fd_role f) @ opt_entry ''description'' JStr (fd_description f))"

fun field_of_json :: "serde \<Rightarrow> json \<Rightarrow> field_def option" where
  "field_of_json sd (JObj m) =
     (case (dec_req ''name'' json_as_str m, dec_req ''ty'' field_ty_of_json m,
            dec_opt ''unit'' json_as_str m, dec_opt ''range'' (range_of_json sd) m,
            dec_opt ''role'' role_of_json m, dec_opt ''description'' json_as_str m) of
        (Some n, Some t, Some u, Some r, Some ro, Some d) \<Rightarrow>
          Some \<lparr>fd_name = n, fd_ty = t, fd_unit = u, fd_range = r, fd_role = ro, fd_description = d\<rparr>
      | _ \<Rightarrow> None)"
| "field_of_json sd _ = None"

fun fields_of_json :: "serde \<Rightarrow> json \<Rightarrow> field_def list option" where
  "fields_of_json sd (JArr js) = those (map (field_of_json sd) js)"
| "fields_of_json sd _ = None"

definition schema_to_json :: "schema_def \<Rightarrow> json" where
  "schema_to_json d =
     JObj ([(''name'', JStr (sch_name d)), (''kind'', kind_to_json (sch_kind d)),
            (''fields'', JArr (map field_to_json (sch_fields d)))]
       @ opt_entry ''description'' JStr (sch_description d))"

fun schema_from_json :: "serde \<Rightarrow> json \<Rightarrow> schema_error + schema_def" where
  "schema_from_json sd (JObj m) =
     (case (dec_req ''name'' json_as_str m, dec_req ''kind'' kind_of_json m,
            (case map_of m ''fields'' of None \<Rightarrow> Some [] | Some j \<Rightarrow> fields_of_json sd j),
            dec_opt ''description'' json_as_str m) of
        (Some n, Some k, Some fs, Some d) \<Rightarrow>
          Inr \<lparr>sch_name = n, sch_kind = k, sch_fields = fs, sch_description = d\<rparr>
      | _ \<Rightarrow> Inl InvalidDescriptor)"
| "schema_from_json sd _ = Inl InvalidDescriptor"

definition range_finite :: "f64_range \<Rightarrow> bool" where
  "range_finite r \<longleftrightarrow> pred_option f64_finite (rg_min r) \<and> pred_option f64_finite (rg_max r)"

definition fields_finite :: "schema_def \<Rightarrow> bool" where
  "fields_finite d \<longleftrightarrow> list_all (\<lambda>f. pred_option range_finite (fd_range f)) (sch_fields d)"

lemma kind_roundtrip: "kind_of_json (kind_to_json k) = Some k"
  by (cases k) (simp_all add: kind_of_json_def)

lemma field_ty_roundtrip: "field_ty_of_json (field_ty_to_json t) = Some t"
  by (induction t) (simp_all add: unit_field_ty_def)

lemma role_roundtrip: "role_of_json (role_to_json r) = Some r"
  by (cases r) (simp add: role_of_json_def)

lemma range_roundtrip: "range_finite r \<Longrightarrow> range_of_json sd (range_to_json r) = Some r"
  by (cases r; cases "rg_min r"; cases "rg_max r")
    (simp_all add: range_to_json_def opt_entry_def dec_opt_def range_finite_def json_from_f64_def)

lemma to_json_not_null:
  "role_to_json r \<noteq> JNull" "range_to_json g \<noteq> JNull"
  by (cases r) (simp_all add: range_to_json_def)

lemma field_roundtrip:
  assumes "pred_option range_finite (fd_range f)"
  shows "field_of_json sd (field_to_json f) = Some f"
proof -
  have ex: "dec_opt ''unit'' json_as_str m = Some (fd_unit f)"
    "dec_opt ''range'' (range_of_json sd) m = Some (fd_range f)"
    "dec_opt ''role'' role_of_json m = Some (fd_role f)"
    "dec_opt ''description'' json_as_str m = Some (fd_description f)"
    "dec_req ''name'' json_as_str m = Some (fd_name f)"
    "dec_req ''ty'' field_ty_of_json m = Some (fd_ty f)"
    if "JObj m = field_to_json f" for m
    using that assms
    by (auto simp: field_to_json_def opt_entry_def dec_opt_def dec_req_def role_roundtrip range_roundtrip
        to_json_not_null to_json_not_null [symmetric] field_ty_roundtrip map_of_append split: option.splits)
  obtain m where m: "field_to_json f = JObj m" by (simp add: field_to_json_def)
  show ?thesis by (simp add: m ex [OF m [symmetric]])
qed

lemma fields_roundtrip:
  "list_all (\<lambda>f. pred_option range_finite (fd_range f)) fs \<Longrightarrow>
   those (map (field_of_json sd \<circ> field_to_json) fs) = Some fs"
  by (induction fs) (simp_all add: field_roundtrip)

lemma schema_roundtrip:
  "fields_finite d \<Longrightarrow> schema_from_json sd (schema_to_json d) = Inr d"
  by (cases "sch_description d")
    (simp_all add: schema_to_json_def fields_finite_def fields_roundtrip kind_roundtrip dec_req_def dec_opt_def
      opt_entry_def)

text \<open>
  C27. A schema descriptor survives the JSON door: exporting it with \<open>to_json\<close> and parsing it back
  with \<open>from_json\<close> gives the same descriptor, provided its range bounds are finite (serde writes a
  non-finite bound as null, which reads back as no bound).
\<close>

theorem schema_json_roundtrip:
  assumes "fields_finite d"
  shows "schema_from_json sd (schema_to_json d) = Inr d"
  using assms by (rule schema_roundtrip)

definition demo_serde :: serde where
  "demo_serde = \<lparr>sd_print = (\<lambda>j. case j of JStr s \<Rightarrow> s | _ \<Rightarrow> ''null''), sd_parse = (\<lambda>s. Some (JStr s)),
     sd_float_text = (\<lambda>b. ''0.0''), sd_float_display = (\<lambda>b. ''0''), sd_float_of_int = (\<lambda>i. 0)\<rparr>"

definition demo_schema :: schema_def where
  "demo_schema = \<lparr>sch_name = ''StockReserved'', sch_kind = Event,
     sch_fields = [as_shard_key (field_required ''sku'' TStr),
       with_range (range_between 0 4621819117588971520) (with_unit ''pcs'' (field_required ''qty'' TInt)),
       field_required ''tags'' (TList TStr)],
     sch_description = Some ''reserved''\<rparr>"

theorem schema_json_roundtrip_witness:
  "schema_from_json demo_serde (schema_to_json demo_schema) = Inr demo_schema"
  by (rule schema_json_roundtrip) (simp add: fields_finite_def demo_schema_def as_shard_key_def with_range_def
      with_unit_def field_required_def range_finite_def range_between_def f64_finite_def)

subsection \<open>Identifiers and claims\<close>

text \<open>
  Schema identity is the name.  Identifiers of the two representations compare equal exactly
  when their names do, an old \<open>name@version\<close> string parses to the identifier of the bare name, and
  parsing never fails.
\<close>

lemma schema_identity_is_name:
  "sid_eq (sid_static n) (sid_new m) = (n = m) \<and>
   (CHR ''@'' \<notin> set n \<longrightarrow>
      (\<exists>i. sid_parse (n @ CHR ''@'' # v) = Some i \<and> sid_eq i (sid_static n)) \<and>
      (\<exists>i. sid_parse n = Some i \<and> sid_eq i (sid_static n)))"
proof -
  have "CHR ''@'' \<notin> set n \<Longrightarrow> takeWhile (\<lambda>c. c \<noteq> CHR ''@'') (n @ CHR ''@'' # v) = n"
    by (induction n) auto
  moreover have "CHR ''@'' \<notin> set n \<Longrightarrow> takeWhile (\<lambda>c. c \<noteq> CHR ''@'') n = n"
    by (induction n) auto
  ultimately show ?thesis by (simp add: sid_eq_def sid_static_def sid_new_def sid_parse_def)
qed

lemma schema_identity_is_name_witness:
  "\<exists>i. sid_parse ''Add@3'' = Some i \<and> sid_eq i (sid_static ''Add'')"
  using schema_identity_is_name [of "''Add''" "''Add''" "''3''"] by auto

lemma claim_keeps_owner:
  "map_of claims name = Some owner \<Longrightarrow> map_of (snd (claim_schema_type n t claims)) name = Some owner"
  by (auto simp: claim_schema_type_def split: option.splits)

fun claim_all :: "(string \<times> string) list \<Rightarrow> (string \<times> string) list \<Rightarrow> (string \<times> string) list" where
  "claim_all [] claims = claims"
| "claim_all ((n, t) # cs) claims = claim_all cs (snd (claim_schema_type n t claims))"

lemma claim_all_keeps_owner:
  "map_of claims name = Some owner \<Longrightarrow> map_of (claim_all cs claims) name = Some owner"
  by (induction cs arbitrary: claims) (auto simp: claim_keeps_owner)

text \<open>
  One Rust type per schema name.  After a type has claimed a free name, no sequence of further
  claims changes the owner: the owner can claim again freely, every other type is refused with
  \<open>DuplicateType\<close>, and a manifest declaration through it panics.
\<close>

lemma schema_claims_are_exclusive:
  assumes "map_of claims name = None"
  shows "fst (claim_schema_type name t claims) = Inr () \<and>
    (let c = claim_all cs (snd (claim_schema_type name t claims)) in
       claim_schema_type name t c = (Inr (), c) \<and>
       (u \<noteq> t \<longrightarrow> claim_schema_type name u c = (Inl (DuplicateType name), c) \<and>
          \<not> is_done (handles_typed name u m c)))"
proof -
  have first: "fst (claim_schema_type name t claims) = Inr ()"
    "map_of (snd (claim_schema_type name t claims)) name = Some t"
    using assms by (simp_all add: claim_schema_type_def)
  have "map_of (claim_all cs (snd (claim_schema_type name t claims))) name = Some t"
    using first(2) by (rule claim_all_keeps_owner)
  then show ?thesis
    using first(1) by (simp add: Let_def claim_schema_type_def [of name] handles_typed_def expect_claim_def)
qed

end
