(* ===== verification/Clocks.thy ===== *)
theory Clocks
  imports Prelude
begin

text \<open>
  The injected clock (\<open>src/src/clock.rs\<close>): timestamps with their order, durations, and the fake
  clock of deterministic runs.  The wall clock is the argument \<open>epoch_millis\<close>: the milliseconds since
  the epoch, or \<open>None\<close> when the system time lies before it.
\<close>

datatype timestamp = Timestamp nat

fun as_millis :: "timestamp \<Rightarrow> nat" where
  "as_millis (Timestamp ms) = ms"

definition from_millis :: "nat \<Rightarrow> timestamp" where
  "from_millis ms = Timestamp ms"

lemma as_millis_from_millis [simp]: "as_millis (from_millis ms) = ms"
  by (simp add: from_millis_def)

instantiation timestamp :: linorder
begin

definition less_eq_timestamp :: "timestamp \<Rightarrow> timestamp \<Rightarrow> bool" where
  "less_eq_timestamp a b \<longleftrightarrow> as_millis a \<le> as_millis b"

definition less_timestamp :: "timestamp \<Rightarrow> timestamp \<Rightarrow> bool" where
  "less_timestamp a b \<longleftrightarrow> as_millis a < as_millis b"

instance
proof
  fix x y z :: timestamp
  show "x < y \<longleftrightarrow> x \<le> y \<and> \<not> y \<le> x" by (auto simp: less_eq_timestamp_def less_timestamp_def)
  show "x \<le> x" by (simp add: less_eq_timestamp_def)
  show "x \<le> y \<Longrightarrow> y \<le> z \<Longrightarrow> x \<le> z" by (simp add: less_eq_timestamp_def)
  show "x \<le> y \<Longrightarrow> y \<le> x \<Longrightarrow> x = y" by (cases x; cases y) (simp add: less_eq_timestamp_def)
  show "x \<le> y \<or> y \<le> x" by (auto simp: less_eq_timestamp_def)
qed

end

lemmas timestamp_order_simps = less_eq_timestamp_def less_timestamp_def

text \<open>
  A \<open>Duration\<close> is a number of nanoseconds; \<open>as_millis() as u64\<close> truncates to milliseconds and to 64
  bits.
\<close>

type_synonym duration = nat

definition dur_millis :: "nat \<Rightarrow> duration" where
  "dur_millis ms = ms * 1000000"

definition dur_as_millis_u64 :: "duration \<Rightarrow> nat" where
  "dur_as_millis_u64 d = (d div 1000000) mod 2 ^ 64"

lemma dur_as_millis_u64_millis [simp]: "ms < 2 ^ 64 \<Longrightarrow> dur_as_millis_u64 (dur_millis ms) = ms"
  by (simp add: dur_as_millis_u64_def dur_millis_def)

subsection \<open>The clock service\<close>

datatype clock_error = ClockError

datatype clock_backend = SystemClock | FakeClock nat

record clock_service =
  clk_backend :: clock_backend
  clk_fake :: bool

definition clock_system :: clock_service where
  "clock_system = \<lparr>clk_backend = SystemClock, clk_fake = False\<rparr>"

definition clock_fake :: "nat \<Rightarrow> clock_service" where
  "clock_fake start = \<lparr>clk_backend = FakeClock start, clk_fake = True\<rparr>"

fun backend_now_millis :: "nat option \<Rightarrow> clock_backend \<Rightarrow> nat" where
  "backend_now_millis epoch_millis SystemClock = (case epoch_millis of None \<Rightarrow> 0 | Some ms \<Rightarrow> ms mod 2 ^ 64)"
| "backend_now_millis epoch_millis (FakeClock ms) = ms"

definition clock_now :: "nat option \<Rightarrow> clock_service \<Rightarrow> timestamp" where
  "clock_now epoch_millis c = from_millis (backend_now_millis epoch_millis (clk_backend c))"

fun fake_set_millis :: "nat \<Rightarrow> clock_backend \<Rightarrow> clock_backend" where
  "fake_set_millis ms (FakeClock _) = FakeClock ms"
| "fake_set_millis ms SystemClock = SystemClock"

fun fake_advance :: "duration \<Rightarrow> clock_backend \<Rightarrow> clock_backend" where
  "fake_advance d (FakeClock ms) = FakeClock (sat_add_u64 ms (dur_as_millis_u64 d))"
| "fake_advance d SystemClock = SystemClock"

text \<open>
  \<open>wait_until\<close> as a function of what the watch channel delivers: \<open>Some v\<close> is a change to reading \<open>v\<close>,
  \<open>None\<close> is the channel closing.  The result \<open>None\<close> means the waiter is still waiting.
\<close>

definition max_wakes :: nat where
  "max_wakes = 2000"

fun wait_loop :: "nat \<Rightarrow> nat \<Rightarrow> nat \<Rightarrow> nat option list \<Rightarrow> (clock_error + unit) option" where
  "wait_loop millis cur wakes changes =
     (if cur \<ge> millis then Some (Inr ())
      else case changes of
        [] \<Rightarrow> None
      | None # _ \<Rightarrow> Some (Inl ClockError)
      | Some v # rest \<Rightarrow>
          if wakes + 1 > max_wakes then Some (Inl ClockError) else wait_loop millis v (wakes + 1) rest)"

declare wait_loop.simps [simp del]

definition wait_until :: "nat \<Rightarrow> nat \<Rightarrow> nat option list \<Rightarrow> (clock_error + unit) option" where
  "wait_until millis cur changes = wait_loop millis cur 0 changes"

lemma wait_loop_returns:
  "wakes \<le> max_wakes \<Longrightarrow> max_wakes < wakes + length changes \<Longrightarrow> \<exists>r. wait_loop millis cur wakes changes = Some r"
proof (induction changes arbitrary: cur wakes)
  case Nil
  then show ?case by simp
next
  case (Cons ch changes)
  show ?case
  proof (cases ch)
    case None
    then show ?thesis by (subst wait_loop.simps) simp
  next
    case (Some v)
    have "wakes + 1 \<le> max_wakes \<Longrightarrow> \<exists>r. wait_loop millis v (wakes + 1) changes = Some r"
      using Cons.IH [of "wakes + 1" v] Cons.prems(2) by simp
    with Some show ?thesis by (subst wait_loop.simps) auto
  qed
qed

lemma wait_loop_ok:
  "wait_loop millis cur wakes changes = Some (Inr ()) \<Longrightarrow>
   cur \<ge> millis \<or> (\<exists>v. Some v \<in> set changes \<and> v \<ge> millis)"
proof (induction changes arbitrary: cur wakes)
  case Nil
  then show ?case by (subst (asm) wait_loop.simps) (simp split: if_splits)
next
  case (Cons ch changes)
  show ?case
  proof (cases "cur \<ge> millis")
    case False
    with Cons.prems obtain v where "ch = Some v" "wait_loop millis v (wakes + 1) changes = Some (Inr ())"
      by (subst (asm) wait_loop.simps) (auto split: option.splits if_splits)
    with Cons.IH [of v "wakes + 1"] show ?thesis by auto
  qed simp
qed

text \<open>
  C28. The bounded wait of the fake clock.  It never hangs while the clock keeps changing: any
  sequence of more than 2000 changes makes it return, and it returns success only when the initial
  reading or one of the delivered readings is at least the target.
\<close>

theorem fake_wait_bounded:
  "(2000 < length changes \<longrightarrow> (\<exists>r. wait_until millis cur changes = Some r)) \<and>
   (wait_until millis cur changes = Some (Inr ()) \<longrightarrow>
      cur \<ge> millis \<or> (\<exists>v. Some v \<in> set changes \<and> v \<ge> millis))"
  using wait_loop_returns [of 0 changes millis cur] wait_loop_ok [of millis cur 0 changes]
  by (auto simp: wait_until_def max_wakes_def)

theorem fake_wait_bounded_witness:
  "(\<exists>r. wait_until 20 1 (replicate 3000 (Some 10)) = Some r) \<and>
   wait_until 20 1 [Some 10, Some 20] = Some (Inr ())"
proof
  show "\<exists>r. wait_until 20 1 (replicate 3000 (Some 10)) = Some r"
    using fake_wait_bounded [of "replicate 3000 (Some 10)" 20 1] by simp
  show "wait_until 20 1 [Some 10, Some 20] = Some (Inr ())"
    by (simp add: wait_until_def wait_loop.simps max_wakes_def)
qed

end
