(* ===== verification/Payloads.thy ===== *)
theory Payloads
  imports Schemas Clocks
begin

text \<open>
  Envelopes and payloads (\<open>src/src/envelope.rs\<close>).

  A live typed value is known to the runtime through the \<open>PayloadValue\<close> trait only: its Rust type,
  the answers of \<open>field\<close>, and the JSON tree its encoding prints (\<open>live_value\<close>).  The once-cells of a
  payload cell memoise deterministic functions of the value, so the model recomputes them.  Uuids
  are the 128-bit numbers of their two halves, as \<open>nat\<close>.
\<close>

subsection \<open>Payloads\<close>

record live_value =
  lv_type :: string
  lv_fields :: "(string \<times> string) list"
  lv_json :: json

datatype any_payload = PValue live_value | PBytes string | PJson json

datatype payload = Unique any_payload | Shared any_payload

fun clone_payload_value :: "any_payload \<Rightarrow> any_payload" where
  "clone_payload_value (PValue v) = PValue v"
| "clone_payload_value (PBytes b) = PBytes b"
| "clone_payload_value (PJson j) = PJson j"

fun payload_clone :: "payload \<Rightarrow> payload" where
  "payload_clone (Unique c) = Unique (clone_payload_value c)"
| "payload_clone (Shared c) = Shared c"

definition payload_value :: "live_value \<Rightarrow> payload" where
  "payload_value v = Unique (PValue v)"

definition payload_bytes :: "string \<Rightarrow> payload" where
  "payload_bytes b = Unique (PBytes b)"

definition payload_json_view :: "json \<Rightarrow> payload" where
  "payload_json_view j = Unique (PJson j)"

definition payload_default :: payload where
  "payload_default = payload_json_view JNull"

fun is_shared :: "payload \<Rightarrow> bool" where
  "is_shared (Unique c) = False"
| "is_shared (Shared c) = True"

fun make_shared :: "payload \<Rightarrow> payload" where
  "make_shared (Unique c) = Shared c"
| "make_shared (Shared c) = Shared c"

fun to_shared :: "payload \<Rightarrow> payload" where
  "to_shared (Shared c) = Shared c"
| "to_shared (Unique c) = make_shared (payload_clone (Unique c))"

fun payload_inner :: "payload \<Rightarrow> any_payload" where
  "payload_inner (Unique c) = c"
| "payload_inner (Shared c) = c"

fun any_json_text :: "serde \<Rightarrow> any_payload \<Rightarrow> string" where
  "any_json_text sd (PValue v) = sd_print sd (lv_json v)"
| "any_json_text sd (PBytes b) = b"
| "any_json_text sd (PJson j) = sd_print sd j"

definition json_text :: "serde \<Rightarrow> payload \<Rightarrow> string" where
  "json_text sd p = any_json_text sd (payload_inner p)"

definition payload_json :: "serde \<Rightarrow> payload \<Rightarrow> json" where
  "payload_json sd p =
     (case payload_inner p of
        PJson j \<Rightarrow> j
      | c \<Rightarrow> (case sd_parse sd (any_json_text sd c) of None \<Rightarrow> JNull | Some j \<Rightarrow> j))"

fun json_string_of :: "serde \<Rightarrow> json \<Rightarrow> string option" where
  "json_string_of sd (JStr s) = Some s"
| "json_string_of sd (JInt i) = Some (int_text i)"
| "json_string_of sd (JFloat b) = Some (sd_float_text sd b)"
| "json_string_of sd (JBool b) = Some (bool_text b)"
| "json_string_of sd _ = None"

fun any_field :: "serde \<Rightarrow> string \<Rightarrow> any_payload \<Rightarrow> string option" where
  "any_field sd name (PValue v) = map_of (lv_fields v) name"
| "any_field sd name (PBytes b) =
     (case sd_parse sd b of
        None \<Rightarrow> None
      | Some view \<Rightarrow> (case json_get view name of None \<Rightarrow> None | Some j \<Rightarrow> json_string_of sd j))"
| "any_field sd name (PJson view) =
     (case json_get view name of None \<Rightarrow> None | Some j \<Rightarrow> json_string_of sd j)"

definition payload_field :: "serde \<Rightarrow> string \<Rightarrow> payload \<Rightarrow> string option" where
  "payload_field sd name p = any_field sd name (payload_inner p)"

text \<open>
  Downcasting to a registered type: a live value answers iff its type is the one asked for, bytes and
  trees decode through the type's deserialiser \<open>decode\<close>.
\<close>

fun downcast :: "serde \<Rightarrow> string \<Rightarrow> (json \<Rightarrow> live_value option) \<Rightarrow> any_payload \<Rightarrow> live_value option" where
  "downcast sd ty decode (PValue v) = (if lv_type v = ty then Some v else None)"
| "downcast sd ty decode (PBytes b) = (case sd_parse sd b of None \<Rightarrow> None | Some j \<Rightarrow> decode j)"
| "downcast sd ty decode (PJson j) = decode j"

fun value_ref :: "string \<Rightarrow> any_payload \<Rightarrow> live_value option" where
  "value_ref ty (PValue v) = (if lv_type v = ty then Some v else None)"
| "value_ref ty _ = None"

text \<open>The erased door: bytes that are not JSON text panic.\<close>

definition assert_json_text :: "serde \<Rightarrow> string \<Rightarrow> unit outcome" where
  "assert_json_text sd b =
     (if sd_parse sd b = None then Panicked ''PayloadBytes: erased ingress delivered non-JSON bytes'' else Done ())"

definition bytes_of_json :: "serde \<Rightarrow> json \<Rightarrow> string" where
  "bytes_of_json sd j = sd_print sd j"

subsection \<open>Addresses, traces, events, envelopes\<close>

datatype address = APath string | ASlot nat | ASchema string

record trace_ctx =
  tr_trace :: nat
  tr_causality :: nat

record event =
  ev_schema :: string
  ev_payload :: payload

definition event_eq :: "serde \<Rightarrow> event \<Rightarrow> event \<Rightarrow> bool" where
  "event_eq sd a b \<longleftrightarrow>
     ev_schema a = ev_schema b \<and> payload_json sd (ev_payload a) = payload_json sd (ev_payload b)"

definition event_new :: "string \<Rightarrow> payload \<Rightarrow> event" where
  "event_new s p = \<lparr>ev_schema = s, ev_payload = p\<rparr>"

definition event_from_bytes :: "string \<Rightarrow> string \<Rightarrow> event" where
  "event_from_bytes s b = \<lparr>ev_schema = s, ev_payload = payload_bytes b\<rparr>"

definition event_from_json_view :: "string \<Rightarrow> json \<Rightarrow> event" where
  "event_from_json_view s j = \<lparr>ev_schema = s, ev_payload = payload_json_view j\<rparr>"

definition event_with_shared_payload :: "string \<Rightarrow> payload \<Rightarrow> event" where
  "event_with_shared_payload s p = \<lparr>ev_schema = s, ev_payload = p\<rparr>"

definition as_fact :: "serde \<Rightarrow> string \<Rightarrow> string \<Rightarrow> (json \<Rightarrow> live_value option) \<Rightarrow> event \<Rightarrow> live_value option" where
  "as_fact sd schema ty decode e =
     (if ev_schema e \<noteq> schema then None else downcast sd ty decode (payload_inner (ev_payload e)))"

record recorded_origin =
  ro_journal :: string
  ro_seq :: nat

record envelope =
  en_schema :: string
  en_dest :: address
  en_from :: "string option"
  en_reply_to :: "address option"
  en_trace :: trace_ctx
  en_payload :: payload
  en_origin :: "recorded_origin option"

definition envelope_raw :: "string \<Rightarrow> address \<Rightarrow> payload \<Rightarrow> trace_ctx \<Rightarrow> envelope" where
  "envelope_raw schema dest p tr =
     \<lparr>en_schema = schema, en_dest = dest, en_from = None, en_reply_to = None, en_trace = tr,
      en_payload = p, en_origin = None\<rparr>"

definition shared_from :: "string \<Rightarrow> address \<Rightarrow> envelope \<Rightarrow> trace_ctx \<Rightarrow> envelope" where
  "shared_from schema dest source tr =
     (envelope_raw schema dest (to_shared (en_payload source)) tr)\<lparr>en_origin := en_origin source\<rparr>"

definition envelope_from_bytes :: "serde \<Rightarrow> string \<Rightarrow> address \<Rightarrow> string \<Rightarrow> trace_ctx \<Rightarrow> envelope outcome" where
  "envelope_from_bytes sd schema dest b tr =
     map_outcome (\<lambda>_. envelope_raw schema dest (payload_bytes b) tr) (assert_json_text sd b)"

definition from_bytes_wrapped :: "serde \<Rightarrow> string \<Rightarrow> address \<Rightarrow> json \<Rightarrow> trace_ctx \<Rightarrow> envelope outcome" where
  "from_bytes_wrapped sd schema dest j tr = envelope_from_bytes sd schema dest (bytes_of_json sd j) tr"

definition with_recorded_origin :: "string \<Rightarrow> nat \<Rightarrow> envelope \<Rightarrow> envelope" where
  "with_recorded_origin journal seq e = e\<lparr>en_origin := Some \<lparr>ro_journal = journal, ro_seq = seq\<rparr>\<rparr>"

definition envelope_from :: "string \<Rightarrow> envelope \<Rightarrow> envelope" where
  "envelope_from p e = e\<lparr>en_from := Some p\<rparr>"

definition envelope_reply_to :: "address \<Rightarrow> envelope \<Rightarrow> envelope" where
  "envelope_reply_to a e = e\<lparr>en_reply_to := Some a\<rparr>"

fun envelope_as_json :: "envelope \<Rightarrow> json option" where
  "envelope_as_json e = (case payload_inner (en_payload e) of PJson j \<Rightarrow> Some j | _ \<Rightarrow> None)"

lemma payload_inner_sharing [simp]:
  "payload_inner (make_shared p) = payload_inner p" "payload_inner (payload_clone p) = payload_inner p"
  "payload_inner (to_shared p) = payload_inner p"
  by (cases p; cases "payload_inner p"; simp)+

lemma sharing_flags [simp]:
  "is_shared (make_shared p)" "is_shared (to_shared p)" "is_shared (payload_clone p) = is_shared p"
  "make_shared (make_shared p) = make_shared p"
  by (cases p; simp)+

lemma sharing_views [simp]:
  "json_text sd (make_shared p) = json_text sd p" "json_text sd (to_shared p) = json_text sd p"
  "payload_json sd (make_shared p) = payload_json sd p" "payload_json sd (to_shared p) = payload_json sd p"
  "payload_field sd n (make_shared p) = payload_field sd n p" "payload_field sd n (to_shared p) = payload_field sd n p"
  by (simp_all add: json_text_def payload_json_def payload_field_def)

subsection \<open>Uuid-shaped ids\<close>

unbundle bit_operations_syntax

text \<open>The process-wide generator: the counter and the high-water mark of the millisecond reading.\<close>

record id_gen =
  ig_counter :: "64 word"
  ig_last_millis :: "64 word"

definition id_gen_init :: id_gen where
  "id_gen_init = \<lparr>ig_counter = 1, ig_last_millis = 0\<rparr>"

definition next_uuid_halves :: "64 word \<Rightarrow> id_gen \<Rightarrow> (64 word \<times> 64 word) \<times> id_gen" where
  "next_uuid_halves raw_millis g =
     (let last = ig_last_millis g;
          millis = (if raw_millis > last then raw_millis else last);
          counter = ig_counter g AND 0x3FFFFFFFFFFFFFFF;
          high = push_bit 16 millis OR 0x7000 OR (drop_bit 50 counter AND 0xFFF);
          low = 0x8000000000000000 OR (counter AND 0x3FFFFFFFFFFFFFFF)
      in ((high, low), \<lparr>ig_counter = ig_counter g + 1, ig_last_millis = millis\<rparr>))"

definition uuid_of_halves :: "64 word \<times> 64 word \<Rightarrow> nat" where
  "uuid_of_halves hl = unat (fst hl) * 2 ^ 64 + unat (snd hl)"

definition next_uuid_shaped_id :: "64 word \<Rightarrow> id_gen \<Rightarrow> nat \<times> id_gen" where
  "next_uuid_shaped_id raw_millis g =
     (let (hl, g') = next_uuid_halves raw_millis g in (uuid_of_halves hl, g'))"

text \<open>The millisecond timestamp embedded in a version-7 uuid: its top 48 bits.\<close>

definition as_millis_ts :: "64 word \<times> 64 word \<Rightarrow> timestamp" where
  "as_millis_ts hl = from_millis (unat (drop_bit 16 (fst hl)))"

definition trace_root :: "64 word \<Rightarrow> 64 word \<Rightarrow> id_gen \<Rightarrow> trace_ctx \<times> id_gen" where
  "trace_root m1 m2 g =
     (let (t, g1) = next_uuid_shaped_id m1 g; (c, g2) = next_uuid_shaped_id m2 g1
      in (\<lparr>tr_trace = t, tr_causality = c\<rparr>, g2))"

definition trace_caused :: "64 word \<Rightarrow> trace_ctx \<Rightarrow> id_gen \<Rightarrow> trace_ctx \<times> id_gen" where
  "trace_caused m tr g =
     (let (c, g1) = next_uuid_shaped_id m g in (\<lparr>tr_trace = tr_trace tr, tr_causality = c\<rparr>, g1))"

fun next_ids :: "(64 word) list \<Rightarrow> id_gen \<Rightarrow> (64 word \<times> 64 word) list" where
  "next_ids [] g = []"
| "next_ids (m # ms) g = (let (hl, g') = next_uuid_halves m g in hl # next_ids ms g')"

lemma id_constants:
  "(0x3FFFFFFFFFFFFFFF :: 64 word) = mask 62" "(0x8000000000000000 :: 64 word) = push_bit 63 1"
  "(0x7000 :: 64 word) = push_bit 12 (mask 3)" "(0xFFF :: 64 word) = mask 12"
  by (simp_all add: mask_eq_exp_minus_1)

lemmas id_bits = bit_take_bit_iff bit_drop_bit_eq bit_push_bit_iff bit_or_iff bit_and_iff bit_mask_iff bit_1_iff

lemma id_low_counter:
  "take_bit 62 (snd (fst (next_uuid_halves m g))) = take_bit 62 (ig_counter g)"
  unfolding next_uuid_halves_def Let_def id_constants
  by (rule bit_word_eqI) (auto simp: id_bits)

lemma id_variant: "drop_bit 62 (snd (fst (next_uuid_halves m g))) = 2"
proof -
  have two: "(2 :: 64 word) = push_bit 1 1" by simp
  show ?thesis
    unfolding next_uuid_halves_def Let_def id_constants two
    by (rule bit_word_eqI) (auto simp: id_bits)
qed

lemma id_version: "take_bit 4 (drop_bit 12 (fst (fst (next_uuid_halves m g)))) = 7"
proof -
  have seven: "(7 :: 64 word) = mask 3" by (simp add: mask_eq_exp_minus_1)
  show ?thesis
    unfolding next_uuid_halves_def Let_def id_constants seven
    by (rule bit_word_eqI) (auto simp: id_bits)
qed

lemma id_millis:
  "drop_bit 16 (fst (fst (next_uuid_halves m g))) = take_bit 48 (max m (ig_last_millis g))"
  unfolding next_uuid_halves_def Let_def id_constants
  by (rule bit_word_eqI) (auto simp: id_bits max_def)

lemma next_uuid_state:
  "ig_counter (snd (next_uuid_halves m g)) = ig_counter g + 1"
  "ig_last_millis (snd (next_uuid_halves m g)) = max m (ig_last_millis g)"
  by (auto simp: next_uuid_halves_def Let_def max_def)

lemma next_ids_Cons:
  "next_ids (m # ms) g = fst (next_uuid_halves m g) # next_ids ms (snd (next_uuid_halves m g))"
  by (simp add: case_prod_beta Let_def)

declare next_ids.simps(2) [simp del]

lemma next_ids_length [simp]: "length (next_ids ms g) = length ms"
  by (induction ms arbitrary: g) (simp_all add: next_ids_Cons)

lemma next_ids_low:
  "i < length ms \<Longrightarrow> take_bit 62 (snd (next_ids ms g ! i)) = take_bit 62 (ig_counter g + of_nat i)"
proof (induction ms arbitrary: g i)
  case Nil
  then show ?case by simp
next
  case (Cons m ms)
  then show ?case
    by (cases i) (simp_all add: next_ids_Cons id_low_counter next_uuid_state ac_simps)
qed

lemma add_mod_inj:
  fixes a i j M :: nat
  assumes "(a + i) mod M = (a + j) mod M" "i < M" "j < M"
  shows "i = j"
proof -
  have *: "y = x" if eq: "(a + x) mod M = (a + y) mod M" and lt: "x < M" and le: "y \<le> x" for x y
  proof -
    obtain q where "a + x = a + y + M * q"
      using mod_eq_nat1E [OF eq] le by auto
    with lt show "y = x" by (cases q) auto
  qed
  show ?thesis using * [of i j] * [of j i] assms by (cases "i \<le> j") auto
qed

lemma take_bit_62_inj:
  assumes "take_bit 62 (c + of_nat i) = take_bit 62 (c + of_nat j :: 64 word)" "i < 2 ^ 62" "j < 2 ^ 62"
  shows "i = j"
proof -
  have nat: "unat (take_bit 62 (c + of_nat k :: 64 word)) = (unat c + k) mod 2 ^ 62" for k
  proof -
    have "unat (c + of_nat k :: 64 word) = (unat c + k) mod 2 ^ 64"
      by (simp add: unat_word_ariths unat_of_nat mod_simps)
    moreover have "unat (take_bit 62 w) = unat w mod 2 ^ 62" for w :: "64 word"
      by (simp only: unsigned_take_bit_eq take_bit_nat_def)
    ultimately show ?thesis by (simp add: mod_mod_cancel)
  qed
  have "(unat c + i) mod 2 ^ 62 = (unat c + j) mod 2 ^ 62"
    using assms(1) nat [of i] nat [of j] by simp
  then show ?thesis using assms(2,3) by (rule add_mod_inj)
qed

lemma uuid_of_halves_inj: "uuid_of_halves a = uuid_of_halves b \<longleftrightarrow> a = b"
proof
  assume "uuid_of_halves a = uuid_of_halves b"
  then have "uuid_of_halves a div 2 ^ 64 = uuid_of_halves b div 2 ^ 64"
    "uuid_of_halves a mod 2 ^ 64 = uuid_of_halves b mod 2 ^ 64" by simp_all
  moreover have "unat (snd x) < 2 ^ 64" for x :: "64 word \<times> 64 word"
    using unsigned_less [of "snd x"] by simp
  ultimately have "unat (fst a) = unat (fst b)" "unat (snd a) = unat (snd b)"
    by (simp_all add: uuid_of_halves_def)
  then show "a = b" by (simp add: prod_eq_iff word_unat_eq_iff)
qed simp

lemma next_ids_distinct: "length ms \<le> 2 ^ 62 \<Longrightarrow> distinct (next_ids ms g)"
  unfolding distinct_conv_nth
proof (intro allI impI)
  fix i j
  assume len: "length ms \<le> 2 ^ 62" and ij: "i < length (next_ids ms g)" "j < length (next_ids ms g)" "i \<noteq> j"
  show "next_ids ms g ! i \<noteq> next_ids ms g ! j"
    using next_ids_low [of i ms g] next_ids_low [of j ms g] take_bit_62_inj [of "ig_counter g" i j] len ij by auto
qed

lemma next_ids_millis:
  "\<forall>m \<in> set (ig_last_millis g # ms). m < 2 ^ 48 \<Longrightarrow>
   sorted (map as_millis_ts (next_ids ms g)) \<and>
   (\<forall>x \<in> set (next_ids ms g). unat (ig_last_millis g) \<le> as_millis (as_millis_ts x))"
proof (induction ms arbitrary: g)
  case Nil
  then show ?case by simp
next
  case (Cons m ms)
  let ?g = "snd (next_uuid_halves m g)" and ?x = "fst (next_uuid_halves m g)"
  have mx: "ig_last_millis ?g = max m (ig_last_millis g)" by (rule next_uuid_state)
  have lt: "max m (ig_last_millis g) < 2 ^ 48" using Cons.prems by (simp add: max_def)
  have ts: "as_millis (as_millis_ts ?x) = unat (max m (ig_last_millis g))"
  proof -
    have "take_bit 48 (max m (ig_last_millis g)) = max m (ig_last_millis g)"
      using lt by (simp add: word_unat_eq_iff unsigned_take_bit_eq word_less_nat_alt take_bit_nat_eq_self)
    then show ?thesis by (simp add: as_millis_ts_def id_millis)
  qed
  have IH: "sorted (map as_millis_ts (next_ids ms ?g)) \<and>
      (\<forall>x \<in> set (next_ids ms ?g). unat (ig_last_millis ?g) \<le> as_millis (as_millis_ts x))"
    using Cons.IH [of ?g] Cons.prems lt mx by simp
  have le: "unat (ig_last_millis g) \<le> unat (max m (ig_last_millis g))"
    by (simp add: max_def word_le_nat_alt)
  have "\<forall>x \<in> set (next_ids ms ?g). as_millis_ts ?x \<le> as_millis_ts x"
    using IH ts mx by (simp add: less_eq_timestamp_def)
  then show ?case
    unfolding next_ids_Cons using IH ts mx le by (auto intro: order_trans)
qed

text \<open>
  C26. The id generator behind trace, causality and lease ids.  Up to \<open>2^62\<close> consecutive ids are
  pairwise distinct whatever the clock reads, stepping back included; every id carries version 7 and
  the RFC 4122 variant; and while the clock readings fit 48 bits the embedded millisecond timestamps
  never go backwards.
\<close>

theorem ids_unique_and_time_ordered:
  assumes "length ms \<le> 2 ^ 62"
  shows "distinct (map uuid_of_halves (next_ids ms g)) \<and>
    take_bit 4 (drop_bit 12 (fst (fst (next_uuid_halves m g)))) = 7 \<and>
    drop_bit 62 (snd (fst (next_uuid_halves m g))) = 2 \<and>
    ((\<forall>m \<in> set (ig_last_millis g # ms). m < 2 ^ 48) \<longrightarrow> sorted (map as_millis_ts (next_ids ms g)))"
  using next_ids_distinct [OF assms, of g] id_version [of m g] id_variant [of m g] next_ids_millis [of g ms]
  by (simp add: distinct_map inj_on_def uuid_of_halves_inj)

theorem ids_unique_and_time_ordered_witness:
  "distinct (map uuid_of_halves (next_ids [1000, 999, 1000] id_gen_init)) \<and>
   sorted (map as_millis_ts (next_ids [1000, 999, 1000] id_gen_init))"
  using ids_unique_and_time_ordered [of "[1000, 999, 1000]" id_gen_init]
  by (simp add: id_gen_init_def)

end
