(* ===== verification/Journals.thy ===== *)
theory Journals
  imports Payloads
begin

text \<open>
  The journal (\<open>src/src/journal.rs\<close>): entries and their wire form, one actor's in-memory journal, the
  in-memory store, and the contract of a journal store as a locale.  Sequence numbers are \<open>nat\<close> with
  the sentinel \<open>u64::MAX\<close> written out; \<open>ms_ingest\<close> is the store's global arrival counter.
  A store operation returns a sum, \<open>Inl\<close> the error.
\<close>

subsection \<open>Entries and their wire form\<close>

type_synonym seq_no = nat

definition seq_genesis :: seq_no where
  "seq_genesis = 0"

definition seq_before_genesis :: seq_no where
  "seq_before_genesis = u64_max"

definition is_before_genesis :: "seq_no \<Rightarrow> bool" where
  "is_before_genesis s \<longleftrightarrow> s = u64_max"

datatype event_origin = Recorded | CatchUp string seq_no

datatype journal_entry =
    JEvent (je_seq: seq_no) event event_origin nat
  | JSnapshot (je_seq: seq_no) json

fun je_as_event :: "journal_entry \<Rightarrow> event option" where
  "je_as_event (JEvent seq e origin ingest) = Some e"
| "je_as_event (JSnapshot seq state) = None"

fun is_snapshot :: "journal_entry \<Rightarrow> bool" where
  "is_snapshot (JSnapshot seq state) = True"
| "is_snapshot (JEvent seq e origin ingest) = False"

record wire_event =
  we_schema :: string
  we_payload :: string

datatype wire_entry =
    WEvent seq_no wire_event event_origin nat
  | WSnapshot seq_no json

datatype journal_error =
    SnapshotError | RestoreError | AppendError | LoadError | PurgeError | HintError | ScanError
  | DecodeError string seq_no

definition wire_of_event :: "serde \<Rightarrow> event \<Rightarrow> wire_event" where
  "wire_of_event sd e = \<lparr>we_schema = ev_schema e, we_payload = json_text sd (ev_payload e)\<rparr>"

definition event_of_wire :: "serde \<Rightarrow> wire_event \<Rightarrow> event outcome" where
  "event_of_wire sd w =
     map_outcome (\<lambda>_. event_from_bytes (we_schema w) (we_payload w)) (assert_json_text sd (we_payload w))"

fun wire_of_entry :: "serde \<Rightarrow> journal_entry \<Rightarrow> wire_entry" where
  "wire_of_entry sd (JEvent seq e origin ingest) = WEvent seq (wire_of_event sd e) origin ingest"
| "wire_of_entry sd (JSnapshot seq state) = WSnapshot seq state"

fun entry_of_wire :: "serde \<Rightarrow> wire_entry \<Rightarrow> journal_entry outcome" where
  "entry_of_wire sd (WEvent seq w origin ingest) =
     map_outcome (\<lambda>e. JEvent seq e origin ingest) (event_of_wire sd w)"
| "entry_of_wire sd (WSnapshot seq state) = Done (JSnapshot seq state)"

record journaled_event =
  jd_seq :: seq_no
  jd_event :: event
  jd_origin :: event_origin
  jd_ingest :: nat

definition recorded_payload_key :: "serde \<Rightarrow> string \<Rightarrow> string \<Rightarrow> journaled_event \<Rightarrow> bool" where
  "recorded_payload_key sd key_field key e \<longleftrightarrow>
     jd_origin e = Recorded \<and> payload_field sd key_field (ev_payload (jd_event e)) = Some key"

record scanned_event =
  sc_journal :: string
  sc_seq :: seq_no
  sc_ingest :: nat
  sc_event :: event

record replay =
  rp_snapshot :: "journal_entry option"
  rp_tail :: "event list"
  rp_events :: "journaled_event list"

subsection \<open>One actor's journal\<close>

record journal =
  jn_entries :: "journal_entry list"
  jn_event_count :: nat
  jn_last_snapshot_ms :: "nat option"

definition journal_new :: journal where
  "journal_new = \<lparr>jn_entries = [], jn_event_count = 0, jn_last_snapshot_ms = None\<rparr>"

definition jn_next_seq :: "journal \<Rightarrow> seq_no" where
  "jn_next_seq j = jn_event_count j"

definition jn_last_seq :: "journal \<Rightarrow> seq_no" where
  "jn_last_seq j = jn_event_count j - 1"

definition append_event_with_origin :: "event \<Rightarrow> event_origin \<Rightarrow> nat \<Rightarrow> journal \<Rightarrow> seq_no \<times> journal" where
  "append_event_with_origin e origin ingest j =
     (let seq = jn_next_seq j
      in (seq, j\<lparr>jn_entries := jn_entries j @ [JEvent seq e origin ingest],
                 jn_event_count := jn_event_count j + 1\<rparr>))"

definition append_event :: "event \<Rightarrow> nat \<Rightarrow> journal \<Rightarrow> seq_no \<times> journal" where
  "append_event e ingest j = append_event_with_origin e Recorded ingest j"

definition holds_origin :: "string \<Rightarrow> seq_no \<Rightarrow> journal \<Rightarrow> bool" where
  "holds_origin source source_seq j =
     list_ex (\<lambda>entry. case entry of
        JEvent _ _ (CatchUp s q) _ \<Rightarrow> s = source \<and> q = source_seq
      | _ \<Rightarrow> False) (jn_entries j)"

definition jn_append_snapshot :: "seq_no \<Rightarrow> json \<Rightarrow> nat \<Rightarrow> journal \<Rightarrow> journal" where
  "jn_append_snapshot seq state now_ms j =
     j\<lparr>jn_last_snapshot_ms := Some now_ms, jn_entries := jn_entries j @ [JSnapshot seq state]\<rparr>"

definition anchor_time_cadence :: "nat \<Rightarrow> journal \<Rightarrow> journal" where
  "anchor_time_cadence now_ms j =
     (if jn_last_snapshot_ms j = None then j\<lparr>jn_last_snapshot_ms := Some now_ms\<rparr> else j)"

definition since_snapshot_ms :: "timestamp \<Rightarrow> journal \<Rightarrow> nat option" where
  "since_snapshot_ms now j = map_option (\<lambda>ms. as_millis now - ms) (jn_last_snapshot_ms j)"

definition last_snapshot :: "journal \<Rightarrow> journal_entry option" where
  "last_snapshot j = List.find is_snapshot (rev (jn_entries j))"

definition jn_after :: "seq_no \<Rightarrow> journal \<Rightarrow> journal_entry list" where
  "jn_after seq j =
     filter (\<lambda>entry. je_as_event entry \<noteq> None \<and> (is_before_genesis seq \<or> je_seq entry > seq)) (jn_entries j)"

definition jn_len :: "journal \<Rightarrow> nat" where
  "jn_len j = length (jn_entries j)"

subsection \<open>The in-memory store\<close>

record mem_store =
  ms_journals :: "(string \<times> journal) list"
  ms_ingest :: nat

definition mem_new :: mem_store where
  "mem_new = \<lparr>ms_journals = [], ms_ingest = 0\<rparr>"

definition mem_journal :: "mem_store \<Rightarrow> string \<Rightarrow> journal" where
  "mem_journal st path = get_or journal_new (ms_journals st) path"

definition mem_put :: "string \<Rightarrow> journal \<Rightarrow> nat \<Rightarrow> mem_store \<Rightarrow> mem_store" where
  "mem_put path j ingest st = st\<lparr>ms_journals := AList.update path j (ms_journals st), ms_ingest := ingest\<rparr>"

definition entries_of :: "string \<Rightarrow> mem_store \<Rightarrow> journal_entry list" where
  "entries_of path st = (case map_of (ms_journals st) path of None \<Rightarrow> [] | Some j \<Rightarrow> jn_entries j)"

text \<open>The map over the batch: each event takes the next arrival number and the next sequence.\<close>

fun append_loop :: "event list \<Rightarrow> journal \<Rightarrow> nat \<Rightarrow> seq_no list \<times> journal \<times> nat" where
  "append_loop [] j ingest = ([], j, ingest)"
| "append_loop (e # es) j ingest =
     (let (seq, j1) = append_event e ingest j;
          (seqs, j2, ingest') = append_loop es j1 (ingest + 1)
      in (seq # seqs, j2, ingest'))"

definition mem_append :: "string \<Rightarrow> event list \<Rightarrow> mem_store \<Rightarrow> (journal_error + seq_no list) \<times> mem_store" where
  "mem_append path events st =
     (let (seqs, j, ingest) = append_loop events (mem_journal st path) (ms_ingest st)
      in (Inr seqs, mem_put path j ingest st))"

fun catchup_loop :: "scanned_event list \<Rightarrow> journal \<Rightarrow> nat \<Rightarrow> seq_no option list \<times> journal \<times> nat" where
  "catchup_loop [] j ingest = ([], j, ingest)"
| "catchup_loop (sc # scs) j ingest =
     (if holds_origin (sc_journal sc) (sc_seq sc) j then
        (let (seqs, j', ingest') = catchup_loop scs j ingest in (None # seqs, j', ingest'))
      else
        (let (seq, j1) = append_event_with_origin (sc_event sc) (CatchUp (sc_journal sc) (sc_seq sc)) ingest j;
             (seqs, j', ingest') = catchup_loop scs j1 (ingest + 1)
         in (Some seq # seqs, j', ingest')))"

definition mem_append_catchup ::
  "string \<Rightarrow> scanned_event list \<Rightarrow> mem_store \<Rightarrow> (journal_error + seq_no option list) \<times> mem_store" where
  "mem_append_catchup path events st =
     (let (seqs, j, ingest) = catchup_loop events (mem_journal st path) (ms_ingest st)
      in (Inr seqs, mem_put path j ingest st))"

fun scan_entry :: "string list \<Rightarrow> string \<Rightarrow> journal_entry \<Rightarrow> scanned_event option" where
  "scan_entry schemas path (JEvent seq e Recorded ingest) =
     (if ev_schema e \<in> set schemas
      then Some \<lparr>sc_journal = path, sc_seq = seq, sc_ingest = ingest, sc_event = e\<rparr> else None)"
| "scan_entry schemas path _ = None"

definition mem_scan :: "string list \<Rightarrow> mem_store \<Rightarrow> journal_error + scanned_event list" where
  "mem_scan schemas st =
     Inr (sort_key sc_ingest
       (concat (map (\<lambda>(path, j). List.map_filter (scan_entry schemas path) (jn_entries j)) (ms_journals st))))"

definition mem_append_snapshot ::
  "string \<Rightarrow> seq_no \<Rightarrow> json \<Rightarrow> nat \<Rightarrow> mem_store \<Rightarrow> (journal_error + unit) \<times> mem_store" where
  "mem_append_snapshot path seq state now_ms st =
     (Inr (), mem_put path (jn_append_snapshot seq state now_ms (mem_journal st path)) (ms_ingest st) st)"

fun journaled_of :: "journal_entry \<Rightarrow> journaled_event option" where
  "journaled_of (JEvent seq e origin ingest) =
     Some \<lparr>jd_seq = seq, jd_event = e, jd_origin = origin, jd_ingest = ingest\<rparr>"
| "journaled_of (JSnapshot seq state) = None"

definition mem_load :: "string \<Rightarrow> mem_store \<Rightarrow> journal_error + replay option" where
  "mem_load path st =
     (case map_of (ms_journals st) path of
        None \<Rightarrow> Inr None
      | Some j \<Rightarrow>
          (let snapshot = last_snapshot j;
               snap_seq = map_option je_seq snapshot;
               tail = List.map_filter je_as_event
                 (jn_after (case snap_seq of None \<Rightarrow> seq_before_genesis | Some s \<Rightarrow> s) j);
               events = List.map_filter journaled_of (jn_entries j)
           in Inr (Some \<lparr>rp_snapshot = snapshot, rp_tail = tail, rp_events = events\<rparr>)))"

definition mem_flush :: "mem_store \<Rightarrow> (journal_error + unit) \<times> mem_store" where
  "mem_flush st = (Inr (), st)"

definition mem_passivated :: "string \<Rightarrow> mem_store \<Rightarrow> (journal_error + unit) \<times> mem_store" where
  "mem_passivated path st = (Inr (), st)"

definition mem_purge :: "string \<Rightarrow> mem_store \<Rightarrow> (journal_error + unit) \<times> mem_store" where
  "mem_purge path st = (Inr (), st\<lparr>ms_journals := AList.delete path (ms_journals st)\<rparr>)"

definition mem_len :: "mem_store \<Rightarrow> nat" where
  "mem_len st = length (ms_journals st)"

definition mem_is_empty :: "mem_store \<Rightarrow> bool" where
  "mem_is_empty st = (ms_journals st = [])"

subsection \<open>Facts about one journal\<close>

text \<open>The journalled events of an entry list, and the well-formedness of one journal: its events carry
  the sequence numbers 0, 1, 2, ... in order.\<close>

definition events_in :: "journal_entry list \<Rightarrow> journaled_event list" where
  "events_in es = List.map_filter journaled_of es"

definition jn_ok :: "journal \<Rightarrow> bool" where
  "jn_ok j \<longleftrightarrow> map jd_seq (events_in (jn_entries j)) = [0..<jn_event_count j]"

lemma map_filter_append [simp]: "List.map_filter f (xs @ ys) = List.map_filter f xs @ List.map_filter f ys"
  by (simp add: List.map_filter_def)

lemma events_in_simps [simp]:
  "events_in [] = []" "events_in (xs @ ys) = events_in xs @ events_in ys"
  "events_in [JEvent s e org i] = [\<lparr>jd_seq = s, jd_event = e, jd_origin = org, jd_ingest = i\<rparr>]"
  "events_in [JSnapshot s st] = []"
  by (simp_all add: events_in_def List.map_filter_def)

lemma jn_ok_new [simp]: "jn_ok journal_new"
  by (simp add: jn_ok_def journal_new_def)

lemma jn_ok_append: "jn_ok j \<Longrightarrow> jn_ok (snd (append_event_with_origin e org i j))"
  by (simp add: jn_ok_def append_event_with_origin_def Let_def jn_next_seq_def)

lemma jn_ok_snapshot: "jn_ok j \<Longrightarrow> jn_ok (jn_append_snapshot seq st now j)"
  by (simp add: jn_ok_def jn_append_snapshot_def)

lemma jn_ok_length: "jn_ok j \<Longrightarrow> jn_event_count j = length (events_in (jn_entries j))"
  by (metis diff_zero jn_ok_def length_map length_upt)

lemma append_loop_facts:
  "append_loop es j ingest = (seqs, j', ingest') \<Longrightarrow>
   seqs = [jn_event_count j..<jn_event_count j + length es] \<and>
   jn_event_count j' = jn_event_count j + length es \<and> ingest' = ingest + length es \<and>
   events_in (jn_entries j') = events_in (jn_entries j) @
     map (\<lambda>(k, e). \<lparr>jd_seq = jn_event_count j + k, jd_event = e, jd_origin = Recorded, jd_ingest = ingest + k\<rparr>)
       (enumerate 0 es) \<and>
   last_snapshot j' = last_snapshot j \<and> jn_last_snapshot_ms j' = jn_last_snapshot_ms j"
proof (induction es arbitrary: j ingest seqs j' ingest')
  case Nil
  then show ?case by simp
next
  case (Cons e es)
  obtain seqs1 j2 where l: "append_loop es (snd (append_event e ingest j)) (ingest + 1) = (seqs1, j2, ingest')"
    and eq: "seqs = fst (append_event e ingest j) # seqs1" "j' = j2"
    using Cons.prems by (auto simp: Let_def split: prod.splits)
  have enum: "enumerate (Suc 0) es = map (\<lambda>(k, e). (Suc k, e)) (enumerate 0 es)"
    by (simp add: enumerate_eq_zip zip_map1 [symmetric] map_Suc_upt [symmetric] del: map_Suc_upt upt_Suc)
  show ?case
    using Cons.IH [OF l] eq
    by (simp add: append_event_def append_event_with_origin_def Let_def jn_next_seq_def last_snapshot_def
        enum case_prod_beta comp_def upt_conv_Cons del: upt_Suc)
qed

lemma append_loop_ok: "jn_ok j \<Longrightarrow> append_loop es j ingest = (seqs, j', ingest') \<Longrightarrow> jn_ok j'"
proof (induction es arbitrary: j ingest seqs)
  case (Cons e es)
  then show ?case
    by (auto simp: Let_def append_event_def split: prod.splits) (metis jn_ok_append snd_conv)
qed simp

lemma last_snapshot_append:
  "last_snapshot (jn_append_snapshot seq st now j) = Some (JSnapshot seq st)"
  by (simp add: last_snapshot_def jn_append_snapshot_def)

lemma last_snapshot_is: "last_snapshot j = Some x \<Longrightarrow> \<exists>q st. x = JSnapshot q st"
  unfolding last_snapshot_def by (drule find_Some_set) (cases x; simp)

lemma last_snapshot_none: "last_snapshot j = None \<longleftrightarrow> (\<forall>x \<in> set (jn_entries j). \<not> is_snapshot x)"
  by (simp add: last_snapshot_def find_None_iff_all)

lemma filter_events_in:
  "List.map_filter je_as_event (filter (\<lambda>entry. je_as_event entry \<noteq> None \<and> P (je_seq entry)) es) =
   map jd_event (filter (\<lambda>e. P (jd_seq e)) (events_in es))"
proof (induction es)
  case (Cons x es)
  then show ?case by (cases x) (simp_all add: events_in_def List.map_filter_simps)
qed (simp add: events_in_def List.map_filter_simps)

lemma jn_after_events:
  "List.map_filter je_as_event (jn_after q j) =
   map jd_event (filter (\<lambda>e. is_before_genesis q \<or> jd_seq e > q) (events_in (jn_entries j)))"
  unfolding jn_after_def by (rule filter_events_in)

subsection \<open>The contract of a journal store\<close>

text \<open>
  What the runtime relies on: the history of each path is numbered from zero without gaps, an append
  extends one path by exactly the given events and reports their numbers (or fails and changes no
  history), a snapshot changes no history, and a load shows the latest snapshot, the whole history and
  the events after the snapshot.
\<close>

definition after_snap :: "(seq_no \<times> json) option \<Rightarrow> journaled_event list \<Rightarrow> event list" where
  "after_snap snap h =
     (case snap of
        None \<Rightarrow> map jd_event h
      | Some (q, st) \<Rightarrow> map jd_event (filter (\<lambda>e. is_before_genesis q \<or> jd_seq e > q) h))"

locale journal_store =
  fixes inv :: "'s \<Rightarrow> bool"
    and hist :: "'s \<Rightarrow> string \<Rightarrow> journaled_event list"
    and snap :: "'s \<Rightarrow> string \<Rightarrow> (seq_no \<times> json) option"
    and append :: "string \<Rightarrow> event list \<Rightarrow> 's \<Rightarrow> (journal_error + seq_no list) \<times> 's"
    and snapshot :: "string \<Rightarrow> seq_no \<Rightarrow> json \<Rightarrow> nat \<Rightarrow> 's \<Rightarrow> (journal_error + unit) \<times> 's"
    and load :: "string \<Rightarrow> 's \<Rightarrow> journal_error + replay option"
  assumes hist_seqs: "inv s \<Longrightarrow> map jd_seq (hist s p) = [0..<length (hist s p)]"
    and append_inv: "inv s \<Longrightarrow> append p es s = (r, s') \<Longrightarrow> inv s' \<and> snap s' = snap s"
    and append_law: "inv s \<Longrightarrow> append p es s = (Inr seqs, s') \<Longrightarrow>
        seqs = [length (hist s p)..<length (hist s p) + length es] \<and>
        map jd_event (hist s' p) = map jd_event (hist s p) @ es \<and> (\<forall>q. q \<noteq> p \<longrightarrow> hist s' q = hist s q)"
    and append_fail: "inv s \<Longrightarrow> append p es s = (Inl e, s') \<Longrightarrow> hist s' = hist s"
    and snapshot_law: "inv s \<Longrightarrow> snapshot p seq st now s = (Inr (), s') \<Longrightarrow>
        inv s' \<and> hist s' = hist s \<and> snap s' = (snap s)(p := Some (seq, st))"
    and snapshot_fail: "inv s \<Longrightarrow> snapshot p seq st now s = (Inl e, s') \<Longrightarrow>
        inv s' \<and> hist s' = hist s \<and> snap s' = snap s"
    and load_law: "inv s \<Longrightarrow> load p s = Inr (Some rp) \<Longrightarrow>
        rp_events rp = hist s p \<and> rp_snapshot rp = map_option (\<lambda>(q, st). JSnapshot q st) (snap s p) \<and>
        rp_tail rp = after_snap (snap s p) (hist s p)"
    and load_none: "inv s \<Longrightarrow> load p s = Inr None \<Longrightarrow> hist s p = [] \<and> snap s p = None"
begin

lemma append_seqs: "inv s \<Longrightarrow> append p es s = (Inr seqs, s') \<Longrightarrow> length seqs = length es"
  using append_law by fastforce

text \<open>The tail of a load is what the history holds past the anchor.\<close>

lemma load_tail_drop:
  assumes "inv s" "load p s = Inr (Some rp)" "snap s p = Some (q, st)" "q < length (hist s p)"
    and "length (hist s p) \<le> u64_max"
  shows "rp_tail rp = drop (Suc q) (map jd_event (hist s p))"
proof -
  let ?h = "hist s p"
  have "\<not> is_before_genesis q" using assms(4,5) by (simp add: is_before_genesis_def)
  then have "rp_tail rp = map jd_event (filter (\<lambda>e. jd_seq e > q) ?h)"
    using load_law [OF assms(1,2)] assms(3) by (simp add: after_snap_def)
  moreover have "filter (\<lambda>e. jd_seq e > q) ?h = drop (Suc q) ?h"
  proof -
    have nth: "i < length ?h \<Longrightarrow> jd_seq (?h ! i) = i" for i
      using arg_cong [OF hist_seqs [OF assms(1), of p], of "\<lambda>l. l ! i"] by simp
    have "filter (\<lambda>e. jd_seq e > q) (take (Suc q) ?h @ drop (Suc q) ?h) = drop (Suc q) ?h"
      unfolding filter_append
      by (subst filter_False, force simp: in_set_conv_nth nth, simp, rule filter_True)
        (auto simp: in_set_conv_nth nth)
    then show ?thesis by simp
  qed
  ultimately show ?thesis by (simp add: drop_map)
qed

end

subsection \<open>The in-memory store keeps the contract\<close>

definition mem_ok :: "mem_store \<Rightarrow> bool" where
  "mem_ok st \<longleftrightarrow>
     distinct (map fst (ms_journals st)) \<and> (\<forall>p j. map_of (ms_journals st) p = Some j \<longrightarrow> jn_ok j)"

definition mem_hist :: "mem_store \<Rightarrow> string \<Rightarrow> journaled_event list" where
  "mem_hist st p = events_in (jn_entries (mem_journal st p))"

definition mem_snap :: "mem_store \<Rightarrow> string \<Rightarrow> (seq_no \<times> json) option" where
  "mem_snap st p =
     (case last_snapshot (mem_journal st p) of Some (JSnapshot q j) \<Rightarrow> Some (q, j) | _ \<Rightarrow> None)"

lemma mem_journal_put [simp]:
  "mem_journal (mem_put p j i st) q = (if q = p then j else mem_journal st q)"
  by (simp add: mem_journal_def mem_put_def)

lemma mem_ok_journal: "mem_ok st \<Longrightarrow> jn_ok (mem_journal st p)"
  by (auto simp: mem_ok_def mem_journal_def get_or_def split: option.splits)

lemma mem_ok_put: "mem_ok st \<Longrightarrow> jn_ok j \<Longrightarrow> mem_ok (mem_put p j i st)"
  by (auto simp: mem_ok_def mem_put_def)

lemma mem_ok_new: "mem_ok mem_new"
  by (simp add: mem_ok_def mem_new_def)

lemma mem_append_facts:
  assumes "mem_ok st" "mem_append p es st = (r, st')"
  shows "mem_ok st'" "mem_snap st' = mem_snap st"
    "r = Inr [length (mem_hist st p)..<length (mem_hist st p) + length es]"
    "map jd_event (mem_hist st' p) = map jd_event (mem_hist st p) @ es"
    "q \<noteq> p \<Longrightarrow> mem_hist st' q = mem_hist st q"
proof -
  obtain seqs j ingest where l: "append_loop es (mem_journal st p) (ms_ingest st) = (seqs, j, ingest)"
    by (cases "append_loop es (mem_journal st p) (ms_ingest st)") auto
  have r: "r = Inr seqs" "st' = mem_put p j ingest st"
    using assms(2) l by (auto simp: mem_append_def)
  note f = append_loop_facts [OF l]
  have ok: "jn_ok (mem_journal st p)" using assms(1) by (rule mem_ok_journal)
  show "mem_ok st'" using r append_loop_ok [OF ok l] assms(1) by (simp add: mem_ok_put)
  show "mem_snap st' = mem_snap st" using r f by (auto simp: mem_snap_def)
  show "r = Inr [length (mem_hist st p)..<length (mem_hist st p) + length es]"
    using r f jn_ok_length [OF ok] by (simp add: mem_hist_def)
  show "map jd_event (mem_hist st' p) = map jd_event (mem_hist st p) @ es"
    using r f by (simp add: mem_hist_def comp_def case_prod_beta)
  show "q \<noteq> p \<Longrightarrow> mem_hist st' q = mem_hist st q" using r by (simp add: mem_hist_def)
qed

lemma mem_load_facts:
  assumes "mem_load p st = Inr (Some rp)"
  shows "rp_events rp = mem_hist st p"
    "rp_snapshot rp = map_option (\<lambda>(q, j). JSnapshot q j) (mem_snap st p)"
    "rp_tail rp = after_snap (mem_snap st p) (mem_hist st p)"
proof -
  obtain j where j: "map_of (ms_journals st) p = Some j"
    using assms by (auto simp: mem_load_def split: option.splits)
  then have mj: "mem_journal st p = j" by (simp add: mem_journal_def get_or_def)
  have rp: "rp = \<lparr>rp_snapshot = last_snapshot j,
      rp_tail = List.map_filter je_as_event
        (jn_after (case map_option je_seq (last_snapshot j) of None \<Rightarrow> seq_before_genesis | Some s \<Rightarrow> s) j),
      rp_events = events_in (jn_entries j)\<rparr>"
    using assms j by (simp add: mem_load_def Let_def events_in_def)
  show "rp_events rp = mem_hist st p" using rp mj by (simp add: mem_hist_def)
  have sb: "is_before_genesis seq_before_genesis" by (simp add: is_before_genesis_def seq_before_genesis_def)
  show "rp_snapshot rp = map_option (\<lambda>(q, j). JSnapshot q j) (mem_snap st p)"
    using rp mj last_snapshot_is [of j] by (cases "last_snapshot j") (auto simp: mem_snap_def)
  show "rp_tail rp = after_snap (mem_snap st p) (mem_hist st p)"
    using rp mj last_snapshot_is [of j] sb
    by (cases "last_snapshot j") (auto simp: mem_snap_def mem_hist_def after_snap_def jn_after_events)
qed

lemma mem_hist_seqs:
  assumes "mem_ok s"
  shows "map jd_seq (mem_hist s p) = [0..<length (mem_hist s p)]"
proof -
  have ok: "jn_ok (mem_journal s p)" using assms by (rule mem_ok_journal)
  show ?thesis
    unfolding mem_hist_def jn_ok_length [OF ok, symmetric] using ok by (simp only: jn_ok_def)
qed

interpretation mem_store: journal_store mem_ok mem_hist mem_snap mem_append mem_append_snapshot mem_load
proof (unfold_locales, goal_cases)
  case (1 s p)
  then show ?case by (rule mem_hist_seqs)
next
  case (2 s p es r s')
  show ?case using mem_append_facts(1,2) [OF 2] by (rule conjI)
next
  case (3 s p es seqs s')
  have "seqs = [length (mem_hist s p)..<length (mem_hist s p) + length es]"
    using mem_append_facts(3) [OF 3] by (simp only: sum.inject)
  then show ?case using mem_append_facts(4,5) [OF 3] by blast
next
  case (4 s p es e s')
  show ?case using mem_append_facts(3) [OF 4] by (simp only: sum.distinct)
next
  case (5 s p seq st now s')
  then show ?case
    using jn_ok_snapshot [OF mem_ok_journal [of s p]]
    by (auto simp: mem_append_snapshot_def mem_ok_put mem_hist_def mem_snap_def last_snapshot_append
        jn_append_snapshot_def last_snapshot_def)
next
  case (6 s p seq st now e s')
  then show ?case by (simp add: mem_append_snapshot_def)
next
  case (7 s p rp)
  show ?case using mem_load_facts [OF 7(2)] by (intro conjI)
next
  case (8 s p)
  then have "mem_journal s p = journal_new"
    by (auto simp: mem_load_def mem_journal_def get_or_def Let_def split: option.splits)
  then show ?case by (simp add: mem_hist_def mem_snap_def journal_new_def last_snapshot_def)
qed

subsection \<open>Catch-up and scan\<close>

definition catchup_origins :: "journal \<Rightarrow> (string \<times> seq_no) list" where
  "catchup_origins j =
     List.map_filter (\<lambda>e. case jd_origin e of CatchUp s q \<Rightarrow> Some (s, q) | Recorded \<Rightarrow> None)
       (events_in (jn_entries j))"

definition scan_origin :: "scanned_event \<Rightarrow> string \<times> seq_no" where
  "scan_origin sc = (sc_journal sc, sc_seq sc)"

lemma holds_origin_iff: "holds_origin s q j \<longleftrightarrow> (s, q) \<in> set (catchup_origins j)"
proof -
  have "list_ex (\<lambda>entry. case entry of JEvent _ _ (CatchUp s' q') _ \<Rightarrow> s' = s \<and> q' = q | _ \<Rightarrow> False) es \<longleftrightarrow>
      (s, q) \<in> set (List.map_filter (\<lambda>e. case jd_origin e of CatchUp s q \<Rightarrow> Some (s, q) | Recorded \<Rightarrow> None)
        (events_in es))" for es
  proof (induction es)
    case (Cons x es)
    then show ?case
      by (cases x) (auto simp: events_in_def List.map_filter_simps split: event_origin.splits)
  qed (simp add: events_in_def List.map_filter_simps)
  then show ?thesis by (simp add: holds_origin_def catchup_origins_def)
qed

lemma catchup_origins_append [simp]:
  "catchup_origins (snd (append_event_with_origin e (CatchUp s q) i j)) = catchup_origins j @ [(s, q)]"
  by (simp add: catchup_origins_def append_event_with_origin_def Let_def List.map_filter_simps)

lemma catchup_loop_facts:
  "catchup_loop scs j i = (seqs, j', i') \<Longrightarrow>
   length seqs = length scs \<and> set (catchup_origins j') = set (catchup_origins j) \<union> scan_origin ` set scs \<and>
   (distinct (catchup_origins j) \<longrightarrow> distinct (catchup_origins j')) \<and>
   (jn_ok j \<longrightarrow> jn_ok j') \<and>
   (\<exists>new. jn_entries j' = jn_entries j @ new \<and> (\<forall>x \<in> set new. scan_entry schemas p x = None))"
proof (induction scs arbitrary: j i seqs j' i')
  case Nil
  then show ?case by simp
next
  case (Cons sc scs)
  show ?case
  proof (cases "holds_origin (sc_journal sc) (sc_seq sc) j")
    case True
    then obtain seqs1 where "catchup_loop scs j i = (seqs1, j', i')" "seqs = None # seqs1"
      using Cons.prems by (auto split: prod.splits)
    with Cons.IH True show ?thesis by (auto simp: holds_origin_iff scan_origin_def)
  next
    case False
    let ?a = "append_event_with_origin (sc_event sc) (CatchUp (sc_journal sc) (sc_seq sc)) i j"
    obtain seqs1 where l: "catchup_loop scs (snd ?a) (i + 1) = (seqs1, j', i')" and s: "seqs = Some (fst ?a) # seqs1"
      using Cons.prems False by (auto simp: Let_def split: prod.splits)
    have e: "jn_entries (snd ?a) = jn_entries j @
        [JEvent (jn_next_seq j) (sc_event sc) (CatchUp (sc_journal sc) (sc_seq sc)) i]"
      by (simp add: append_event_with_origin_def Let_def)
    show ?thesis
      using Cons.IH [OF l] s e False jn_ok_append [of j] by (auto simp: holds_origin_iff scan_origin_def)
  qed
qed

lemma catchup_loop_known:
  "scan_origin ` set scs \<subseteq> set (catchup_origins j) \<Longrightarrow>
   catchup_loop scs j i = (replicate (length scs) None, j, i)"
  by (induction scs arbitrary: i) (simp_all add: holds_origin_iff scan_origin_def)

lemma concat_map_update:
  assumes "f (p, j) = (case map_of m p of None \<Rightarrow> [] | Some j0 \<Rightarrow> f (p, j0))"
  shows "concat (map f (AList.update p j m)) = concat (map f m)"
  using assms by (induction m) (auto split: if_splits)

lemma catchup_invisible:
  assumes "mem_append_catchup p evs st = (r, st')"
  shows "mem_scan schemas st' = mem_scan schemas st"
proof -
  obtain seqs j i where l: "catchup_loop evs (mem_journal st p) (ms_ingest st) = (seqs, j, i)"
    by (cases "catchup_loop evs (mem_journal st p) (ms_ingest st)") auto
  then have st': "st' = mem_put p j i st" using assms by (simp add: mem_append_catchup_def)
  obtain new where new: "jn_entries j = jn_entries (mem_journal st p) @ new"
      "\<forall>x \<in> set new. scan_entry schemas p x = None"
    using catchup_loop_facts [OF l, of schemas p] by blast
  have "List.map_filter (scan_entry schemas p) new = []"
    using new(2) by (induction new) (simp_all add: List.map_filter_simps)
  then have "List.map_filter (scan_entry schemas p) (jn_entries j) =
      List.map_filter (scan_entry schemas p) (jn_entries (mem_journal st p))"
    using new(1) by simp
  then show ?thesis
    unfolding mem_scan_def st' mem_put_def
    by (simp, intro arg_cong [where f = "sort_key sc_ingest"] concat_map_update)
      (auto simp: mem_journal_def get_or_def journal_new_def List.map_filter_simps split: option.splits)
qed

lemma scan_entry_set:
  "sc \<in> set (List.map_filter (scan_entry schemas p) es) \<longleftrightarrow>
   (\<exists>d \<in> set (events_in es). jd_origin d = Recorded \<and> ev_schema (jd_event d) \<in> set schemas \<and>
      sc = \<lparr>sc_journal = p, sc_seq = jd_seq d, sc_ingest = jd_ingest d, sc_event = jd_event d\<rparr>)"
proof (induction es)
  case (Cons x es)
  show ?case
  proof (cases x)
    case (JEvent seq e origin ingest)
    with Cons show ?thesis
      by (cases origin) (auto simp: List.map_filter_simps events_in_def)
  next
    case (JSnapshot seq st)
    with Cons show ?thesis by (simp add: List.map_filter_simps events_in_def)
  qed
qed (simp add: List.map_filter_simps events_in_def)

text \<open>
  Catch-up is idempotent and leaves no trace in scans.  Appending the same scanned facts a second
  time appends nothing and reports every fact as already known; a journal whose checkpoint has no
  duplicate origin keeps that, each given fact being held afterwards; and no scan of any schemas sees
  a difference, so a projector's re-recorded facts never reach another projector.
\<close>

lemma catchup_idempotent_and_invisible:
  "(let st1 = snd (mem_append_catchup p evs st) in
     mem_append_catchup p evs st1 = (Inr (replicate (length evs) None), st1) \<and>
     (\<forall>sc \<in> set evs. holds_origin (sc_journal sc) (sc_seq sc) (mem_journal st1 p)) \<and>
     (distinct (catchup_origins (mem_journal st p)) \<longrightarrow> distinct (catchup_origins (mem_journal st1 p))) \<and>
     mem_scan schemas st1 = mem_scan schemas st)"
proof -
  obtain seqs j i where l: "catchup_loop evs (mem_journal st p) (ms_ingest st) = (seqs, j, i)"
    by (cases "catchup_loop evs (mem_journal st p) (ms_ingest st)") auto
  then have st1: "snd (mem_append_catchup p evs st) = mem_put p j i st"
    by (simp add: mem_append_catchup_def)
  note f = catchup_loop_facts [OF l, of schemas p]
  have known: "catchup_loop evs j i = (replicate (length evs) None, j, i)"
    using f by (intro catchup_loop_known) simp
  have "mem_append_catchup p evs (mem_put p j i st) = (Inr (replicate (length evs) None), mem_put p j i st)"
    using known by (simp add: mem_append_catchup_def) (simp add: mem_put_def)
  moreover have "mem_scan schemas (mem_put p j i st) = mem_scan schemas st"
    using catchup_invisible [of p evs st "fst (mem_append_catchup p evs st)" "mem_put p j i st"] st1
    by (metis prod.collapse)
  ultimately show ?thesis
    using f by (auto simp: st1 Let_def holds_origin_iff scan_origin_def)
qed

text \<open>
  A scan is complete, exact and in arrival order: it returns, sorted by arrival number, precisely
  the facts of the asked schemas that some journal recorded itself.
\<close>

lemma scan_exact_and_ordered:
  assumes "mem_ok st" "mem_scan schemas st = Inr scs"
  shows "sorted (map sc_ingest scs) \<and>
    (\<forall>sc. sc \<in> set scs \<longleftrightarrow>
      (\<exists>d \<in> set (mem_hist st (sc_journal sc)). jd_origin d = Recorded \<and> ev_schema (jd_event d) \<in> set schemas \<and>
         sc_seq sc = jd_seq d \<and> sc_ingest sc = jd_ingest d \<and> sc_event sc = jd_event d))"
proof -
  have d: "distinct (map fst (ms_journals st))" using assms(1) by (simp add: mem_ok_def)
  have scs: "scs = sort_key sc_ingest (concat (map (\<lambda>(p, j). List.map_filter (scan_entry schemas p) (jn_entries j))
      (ms_journals st)))"
    using assms(2) by (simp add: mem_scan_def)
  have "sc \<in> set scs \<longleftrightarrow> (\<exists>j. map_of (ms_journals st) (sc_journal sc) = Some j \<and>
      sc \<in> set (List.map_filter (scan_entry schemas (sc_journal sc)) (jn_entries j)))" for sc
  proof -
    have "sc \<in> set scs \<longleftrightarrow>
        (\<exists>(p, j) \<in> set (ms_journals st). sc \<in> set (List.map_filter (scan_entry schemas p) (jn_entries j)))"
      unfolding scs by auto
    also have "\<dots> \<longleftrightarrow> (\<exists>p j. map_of (ms_journals st) p = Some j \<and>
        sc \<in> set (List.map_filter (scan_entry schemas p) (jn_entries j)))"
      using d by (auto simp: map_of_eq_Some_iff)
    also have "\<dots> \<longleftrightarrow> (\<exists>j. map_of (ms_journals st) (sc_journal sc) = Some j \<and>
        sc \<in> set (List.map_filter (scan_entry schemas (sc_journal sc)) (jn_entries j)))"
    proof -
      have "sc \<in> set (List.map_filter (scan_entry schemas p) (jn_entries j)) \<Longrightarrow> p = sc_journal sc" for p j
        by (auto simp: scan_entry_set)
      then show ?thesis by blast
    qed
    finally show ?thesis .
  qed
  then have "sc \<in> set scs \<longleftrightarrow> (\<exists>d \<in> set (mem_hist st (sc_journal sc)). jd_origin d = Recorded \<and>
      ev_schema (jd_event d) \<in> set schemas \<and>
      sc_seq sc = jd_seq d \<and> sc_ingest sc = jd_ingest d \<and> sc_event sc = jd_event d)" for sc
    by (cases "map_of (ms_journals st) (sc_journal sc)"; cases sc)
      (auto simp: scan_entry_set mem_hist_def mem_journal_def get_or_def journal_new_def)
  then show ?thesis by (simp add: scs)
qed



end
