(* ===== verification/DaowStore.thy ===== *)
theory DaowStore
  imports Journals
begin

text \<open>
  The SQLite-backed store (\<open>src/src/journal_daow.rs\<close>): the migration chain, one authoritative in-memory
  journal per active path with the length of its durable prefix, the flush of the rest in one
  transaction, the cold read that activates a path, and the operations of the store.

  The database is its tables; a statement does what SQL says it does.  Whether a call on the pool
  succeeds is the pool's: \<open>dw_pool\<close> lists the answers of the next calls, later calls succeed.  A call may
  be refused, or take effect and report a failure all the same.  The lock of the buffers is held by one
  operation at a time, and the drain lock by one flush, load, scan, passivation or purge; the point
  between the capture of a flush and its transaction is a point between two definitions.
\<close>

subsection \<open>Configuration\<close>

record daow_config =
  dc_flush_interval :: duration

definition daow_config_default :: daow_config where
  "daow_config_default = \<lparr>dc_flush_interval = dur_millis 500\<rparr>"

record daow_args =
  da_config :: daow_config
  da_control :: bool

definition daow_args_new :: "daow_config \<Rightarrow> daow_args" where
  "daow_args_new config = \<lparr>da_config = config, da_control = False\<rparr>"

definition args_with_control :: "daow_args \<Rightarrow> daow_args" where
  "args_with_control a = a\<lparr>da_control := True\<rparr>"

subsection \<open>Tables\<close>

text \<open>A column of type \<open>INTEGER\<close> holds an \<open>i64\<close>; the casts from and to \<open>u64\<close> keep the bits.\<close>

definition i64_of :: "nat \<Rightarrow> int" where
  "i64_of n = (if n < 2 ^ 63 then int n else int n - 2 ^ 64)"

definition u64_of :: "int \<Rightarrow> nat" where
  "u64_of i = nat (i mod 2 ^ 64)"

record event_row =
  er_journal :: string
  er_seq :: int
  er_kind :: int
  er_schema :: string
  er_payload :: string
  er_origin :: string
  er_source :: "string option"
  er_source_seq :: "int option"
  er_ingest :: int

record snapshot_row =
  sr_journal :: string
  sr_seq :: int
  sr_state :: string

record sql_db =
  db_tracker :: "(int \<times> string) list option"
  db_events :: "event_row list option"
  db_snapshots :: "snapshot_row list option"

definition empty_db :: sql_db where
  "empty_db = \<lparr>db_tracker = None, db_events = None, db_snapshots = None\<rparr>"

subsection \<open>Migrations\<close>

record migration =
  mg_version :: int
  mg_name :: string
  mg_apply :: "sql_db \<Rightarrow> (journal_error + unit) \<times> sql_db"

definition chain_latest_version :: int where
  "chain_latest_version = 0"

definition latest_version :: int where
  "latest_version = chain_latest_version"

text \<open>Strict DDL: a table that exists already fails the statement.\<close>

definition migrate_v0 :: "sql_db \<Rightarrow> (journal_error + unit) \<times> sql_db" where
  "migrate_v0 db =
     (if db_events db \<noteq> None then (Inl RestoreError, db)
      else
        (let db1 = db\<lparr>db_events := Some []\<rparr>
         in if db_snapshots db1 \<noteq> None then (Inl RestoreError, db1)
            else (Inr (), db1\<lparr>db_snapshots := Some []\<rparr>)))"

definition migrations :: "migration list" where
  "migrations = [\<lparr>mg_version = 0, mg_name = ''create_journal_schema'', mg_apply = migrate_v0\<rparr>]"

definition bootstrap_tracking_table :: "sql_db \<Rightarrow> sql_db" where
  "bootstrap_tracking_table db = (if db_tracker db = None then db\<lparr>db_tracker := Some []\<rparr> else db)"

definition current_version :: "sql_db \<Rightarrow> int" where
  "current_version db =
     (case db_tracker db of
        None \<Rightarrow> -1
      | Some [] \<Rightarrow> -1
      | Some (v # vs) \<Rightarrow> fold max (map fst vs) (fst v))"

definition record_version :: "int \<Rightarrow> string \<Rightarrow> sql_db \<Rightarrow> sql_db" where
  "record_version v name db = db\<lparr>db_tracker := map_option (\<lambda>vs. vs @ [(v, name)]) (db_tracker db)\<rparr>"

fun apply_migration_chain :: "migration list \<Rightarrow> int \<Rightarrow> sql_db \<Rightarrow> (journal_error + unit) \<times> sql_db" where
  "apply_migration_chain [] current db = (Inr (), db)"
| "apply_migration_chain (m # ms) current db =
     (if current < mg_version m
      then (case mg_apply m db of
              (Inl err, db1) \<Rightarrow> (Inl err, db1)
            | (Inr _, db1) \<Rightarrow> apply_migration_chain ms current (record_version (mg_version m) (mg_name m) db1))
      else apply_migration_chain ms current db)"

text \<open>The transaction rolls back to the state after the bootstrap.\<close>

definition run_pending :: "sql_db \<Rightarrow> (journal_error + bool) \<times> sql_db" where
  "run_pending db =
     (let db1 = bootstrap_tracking_table db; current = current_version db1
      in if current \<ge> latest_version then (Inr False, db1)
         else (case apply_migration_chain migrations current db1 of
                 (Inr _, db2) \<Rightarrow> (Inr True, db2)
               | (Inl err, _) \<Rightarrow> (Inl err, db1)))"

subsection \<open>Buffers and the shared state\<close>

text \<open>The first \<open>bf_flushed\<close> entries of a buffer are durable.\<close>

record path_buffer =
  bf_journal :: journal
  bf_flushed :: nat
  bf_drop_when_durable :: bool
  bf_activating :: bool

definition buffer_new :: path_buffer where
  "buffer_new = \<lparr>bf_journal = journal_new, bf_flushed = 0, bf_drop_when_durable = False, bf_activating = False\<rparr>"

definition buffer_activating :: path_buffer where
  "buffer_activating = buffer_new\<lparr>bf_activating := True\<rparr>"

definition buffer_durable :: "journal \<Rightarrow> path_buffer" where
  "buffer_durable j =
     \<lparr>bf_journal = j, bf_flushed = jn_len j, bf_drop_when_durable = False, bf_activating = False\<rparr>"

datatype pool_answer = PoolOk | PoolRefused | PoolLostAnswer

record daow =
  dw_journals :: "(string \<times> path_buffer) list"
  dw_db :: sql_db
  dw_pool :: "pool_answer list"
  dw_control :: bool
  dw_reports :: "(string \<times> journal_error) list"
  dw_flush_interval :: duration
  dw_ingest :: nat

definition put_buffer :: "string \<Rightarrow> path_buffer \<Rightarrow> daow \<Rightarrow> daow" where
  "put_buffer path b s = s\<lparr>dw_journals := AList.update path b (dw_journals s)\<rparr>"

definition drop_buffer :: "string \<Rightarrow> daow \<Rightarrow> daow" where
  "drop_buffer path s = s\<lparr>dw_journals := AList.delete path (dw_journals s)\<rparr>"

definition pool_answer :: "daow \<Rightarrow> pool_answer \<times> daow" where
  "pool_answer s = (case dw_pool s of [] \<Rightarrow> (PoolOk, s) | a # as \<Rightarrow> (a, s\<lparr>dw_pool := as\<rparr>))"

text \<open>A call on a pooled connection: \<open>None\<close> is a failure, of the pool or of a statement.\<close>

definition with_conn :: "(sql_db \<Rightarrow> 'a option \<times> sql_db) \<Rightarrow> daow \<Rightarrow> 'a option \<times> daow" where
  "with_conn f s =
     (let (answer, s1) = pool_answer s; (r, db) = f (dw_db s1)
      in case answer of
           PoolRefused \<Rightarrow> (None, s1)
         | PoolLostAnswer \<Rightarrow> (None, s1\<lparr>dw_db := db\<rparr>)
         | PoolOk \<Rightarrow> (r, s1\<lparr>dw_db := db\<rparr>))"

definition report :: "string \<Rightarrow> journal_error \<Rightarrow> daow \<Rightarrow> daow" where
  "report op err s = (if dw_control s then s\<lparr>dw_reports := dw_reports s @ [(op, err)]\<rparr> else s)"

text \<open>Building: the migrations, then the arrival counter above the stored maximum.\<close>

definition max_ingest :: "sql_db \<Rightarrow> int option" where
  "max_ingest db =
     (case db_events db of
        None \<Rightarrow> None
      | Some [] \<Rightarrow> None
      | Some (r # rs) \<Rightarrow> Some (fold max (map er_ingest rs) (er_ingest r)))"

definition daow_build :: "daow_args \<Rightarrow> pool_answer list \<Rightarrow> sql_db \<Rightarrow> (journal_error + daow) \<times> sql_db" where
  "daow_build args pool db =
     (let s0 = \<lparr>dw_journals = [], dw_db = db, dw_pool = pool, dw_control = da_control args, dw_reports = [],
                dw_flush_interval = dc_flush_interval (da_config args), dw_ingest = 0\<rparr>
      in case with_conn (\<lambda>d. (case run_pending d of (Inl _, d') \<Rightarrow> (None, d') | (Inr b, d') \<Rightarrow> (Some b, d'))) s0 of
           (None, s1) \<Rightarrow> (Inl RestoreError, dw_db s1)
         | (Some _, s1) \<Rightarrow>
             (case with_conn (\<lambda>d. (Some (max_ingest d), d)) s1 of
                (None, s2) \<Rightarrow> (Inl RestoreError, dw_db s2)
              | (Some m, s2) \<Rightarrow>
                  (Inr (s2\<lparr>dw_ingest := (case m of None \<Rightarrow> 0 | Some i \<Rightarrow> u64_of i) + 1\<rparr>), dw_db s2)))"

subsection \<open>The ack path\<close>

text \<open>A path that is activating refuses; a path without a buffer gets an empty one.\<close>

definition mutable_buffer :: "string \<Rightarrow> daow \<Rightarrow> path_buffer option \<times> daow" where
  "mutable_buffer path s =
     (case map_of (dw_journals s) path of
        None \<Rightarrow> (Some buffer_new, put_buffer path buffer_new s)
      | Some b \<Rightarrow> (if bf_activating b then None else Some b, s))"

definition buffer_append :: "string \<Rightarrow> event list \<Rightarrow> daow \<Rightarrow> (journal_error + seq_no list) \<times> daow" where
  "buffer_append path events s =
     (case mutable_buffer path s of
        (None, s1) \<Rightarrow> (Inl AppendError, s1)
      | (Some b, s1) \<Rightarrow>
          (let (seqs, j, ingest) = append_loop events (bf_journal b) (dw_ingest s1)
           in (Inr seqs, put_buffer path (b\<lparr>bf_journal := j\<rparr>) (s1\<lparr>dw_ingest := ingest\<rparr>))))"

definition buffer_append_snapshot ::
  "string \<Rightarrow> seq_no \<Rightarrow> json \<Rightarrow> nat \<Rightarrow> daow \<Rightarrow> (journal_error + unit) \<times> daow" where
  "buffer_append_snapshot path seq state now_ms s =
     (case mutable_buffer path s of
        (None, s1) \<Rightarrow> (Inl SnapshotError, s1)
      | (Some b, s1) \<Rightarrow>
          (Inr (), put_buffer path (b\<lparr>bf_journal := jn_append_snapshot seq state now_ms (bf_journal b)\<rparr>) s1))"

subsection \<open>Flush\<close>

record pending_event_row =
  pe_seq :: seq_no
  pe_kind :: int
  pe_schema :: string
  pe_payload :: string
  pe_origin :: string
  pe_source :: "string option"
  pe_source_seq :: "int option"
  pe_ingest :: nat

record pending_snapshot_row =
  ps_seq :: seq_no
  ps_state :: string

record pending_flush =
  pf_path :: string
  pf_events :: "pending_event_row list"
  pf_snapshot :: "pending_snapshot_row option"
  pf_end :: nat
  pf_drop :: bool

definition kind_recorded :: int where
  "kind_recorded = 0"

definition kind_catchup :: int where
  "kind_catchup = 1"

text \<open>The derived JSON form of an origin, and its decoder.\<close>

fun origin_json :: "event_origin \<Rightarrow> json" where
  "origin_json Recorded = JStr ''Recorded''"
| "origin_json (CatchUp source q) =
     JObj [(''CatchUp'', JObj [(''source'', JStr source), (''source_seq'', JInt (int q))])]"

fun origin_of_json :: "json \<Rightarrow> event_origin option" where
  "origin_of_json (JStr tag) = (if tag = ''Recorded'' then Some Recorded else None)"
| "origin_of_json (JObj [(tag, JNull)]) = (if tag = ''Recorded'' then Some Recorded else None)"
| "origin_of_json (JObj [(tag, JObj members)]) =
     (if tag = ''CatchUp''
      then (case (map_of members ''source'', map_of members ''source_seq'') of
              (Some (JStr source), Some (JInt q)) \<Rightarrow>
                if 0 \<le> q \<and> q \<le> int u64_max then Some (CatchUp source (nat q)) else None
            | _ \<Rightarrow> None)
      else None)"
| "origin_of_json _ = None"

fun serialize_event :: "serde \<Rightarrow> journal_entry \<Rightarrow> pending_event_row option" where
  "serialize_event sd (JSnapshot q state) = None"
| "serialize_event sd (JEvent q e origin ingest) =
     (let wire = wire_of_event sd e;
          (kind, source, source_seq) = (case origin of
             Recorded \<Rightarrow> (kind_recorded, None, None)
           | CatchUp from from_seq \<Rightarrow> (kind_catchup, Some from, Some (i64_of from_seq)))
      in Some \<lparr>pe_seq = q, pe_kind = kind, pe_schema = ev_schema e, pe_payload = we_payload wire,
               pe_origin = sd_print sd (origin_json origin), pe_source = source, pe_source_seq = source_seq,
               pe_ingest = ingest\<rparr>)"

text \<open>Of the snapshots in a slice the last one travels.\<close>

fun slice_snapshot :: "serde \<Rightarrow> journal_entry list \<Rightarrow> pending_snapshot_row option \<Rightarrow> pending_snapshot_row option" where
  "slice_snapshot sd [] acc = acc"
| "slice_snapshot sd (JEvent q e origin ingest # es) acc = slice_snapshot sd es acc"
| "slice_snapshot sd (JSnapshot q state # es) acc =
     slice_snapshot sd es (Some \<lparr>ps_seq = q, ps_state = sd_print sd state\<rparr>)"

definition pending_of :: "serde \<Rightarrow> string \<Rightarrow> path_buffer \<Rightarrow> pending_flush option" where
  "pending_of sd path b =
     (let start = bf_flushed b; stop = jn_len (bf_journal b); slice = drop start (jn_entries (bf_journal b))
      in if start = stop then None
         else Some \<lparr>pf_path = path, pf_events = List.map_filter (serialize_event sd) slice,
                    pf_snapshot = slice_snapshot sd slice None, pf_end = stop,
                    pf_drop = bf_drop_when_durable b\<rparr>)"

definition collect_pending :: "serde \<Rightarrow> string option \<Rightarrow> daow \<Rightarrow> pending_flush list" where
  "collect_pending sd target s =
     List.map_filter (\<lambda>(path, b). pending_of sd path b)
       (filter (\<lambda>(path, b). target = None \<or> target = Some path) (dw_journals s))"

text \<open>The primary key is the pair of journal and sequence.\<close>

definition row_of :: "string \<Rightarrow> pending_event_row \<Rightarrow> event_row" where
  "row_of path r =
     \<lparr>er_journal = path, er_seq = i64_of (pe_seq r), er_kind = pe_kind r, er_schema = pe_schema r,
      er_payload = pe_payload r, er_origin = pe_origin r, er_source = pe_source r,
      er_source_seq = pe_source_seq r, er_ingest = i64_of (pe_ingest r)\<rparr>"

definition existing_row :: "event_row \<Rightarrow> event_row list \<Rightarrow> event_row option" where
  "existing_row row rows = List.find (\<lambda>r. er_journal r = er_journal row \<and> er_seq r = er_seq row) rows"

definition insert_event :: "event_row \<Rightarrow> event_row list \<Rightarrow> event_row list option" where
  "insert_event row rows = (case existing_row row rows of None \<Rightarrow> Some (rows @ [row]) | Some _ \<Rightarrow> None)"

definition verify_existing_event :: "event_row \<Rightarrow> event_row list \<Rightarrow> bool" where
  "verify_existing_event row rows = (existing_row row rows = Some row)"

fun write_rows :: "event_row list \<Rightarrow> event_row list \<Rightarrow> event_row list option" where
  "write_rows [] rows = Some rows"
| "write_rows (r # rs) rows =
     (case insert_event r rows of
        Some rows' \<Rightarrow> write_rows rs rows'
      | None \<Rightarrow> if verify_existing_event r rows then write_rows rs rows else None)"

definition upsert_snapshot :: "string \<Rightarrow> pending_snapshot_row \<Rightarrow> snapshot_row list \<Rightarrow> snapshot_row list" where
  "upsert_snapshot path p rows =
     filter (\<lambda>r. \<not> (sr_journal r = path \<and> sr_seq r = i64_of (ps_seq p))) rows @
     [\<lparr>sr_journal = path, sr_seq = i64_of (ps_seq p), sr_state = ps_state p\<rparr>]"

fun write_pending_statements ::
  "pending_flush list \<Rightarrow> event_row list \<times> snapshot_row list \<Rightarrow> (event_row list \<times> snapshot_row list) option" where
  "write_pending_statements [] t = Some t"
| "write_pending_statements (b # bs) (events, snaps) =
     (case write_rows (map (row_of (pf_path b)) (pf_events b)) events of
        None \<Rightarrow> None
      | Some events' \<Rightarrow>
          write_pending_statements bs
            (events', (case pf_snapshot b of None \<Rightarrow> snaps | Some p \<Rightarrow> upsert_snapshot (pf_path b) p snaps)))"

definition write_pending_tx :: "pending_flush list \<Rightarrow> sql_db \<Rightarrow> unit option \<times> sql_db" where
  "write_pending_tx pending db =
     (case (db_events db, db_snapshots db) of
        (Some events, Some snaps) \<Rightarrow>
          (case write_pending_statements pending (events, snaps) of
             None \<Rightarrow> (None, db)
           | Some (events', snaps') \<Rightarrow> (Some (), db\<lparr>db_events := Some events', db_snapshots := Some snaps'\<rparr>))
      | _ \<Rightarrow> (None, db))"

definition commit_one :: "pending_flush \<Rightarrow> daow \<Rightarrow> daow" where
  "commit_one c s =
     (case map_of (dw_journals s) (pf_path c) of
        None \<Rightarrow> s
      | Some b \<Rightarrow>
          (let b1 = b\<lparr>bf_flushed := pf_end c\<rparr>
           in if bf_drop_when_durable b \<and> pf_drop c
              then if jn_len (bf_journal b) = pf_end c then drop_buffer (pf_path c) s
                   else put_buffer (pf_path c) (b1\<lparr>bf_drop_when_durable := False\<rparr>) s
              else put_buffer (pf_path c) b1 s))"

definition commit_flush :: "pending_flush list \<Rightarrow> daow \<Rightarrow> daow" where
  "commit_flush completions s = fold commit_one completions s"

definition write_pending :: "pending_flush list \<Rightarrow> daow \<Rightarrow> (journal_error + unit) \<times> daow" where
  "write_pending pending s =
     (if pending = [] then (Inr (), s)
      else case with_conn (write_pending_tx pending) s of
             (None, s1) \<Rightarrow> (Inl AppendError, s1)
           | (Some _, s1) \<Rightarrow> (Inr (), commit_flush pending s1))"

definition flush_cycle :: "serde \<Rightarrow> daow \<Rightarrow> (journal_error + unit) \<times> daow" where
  "flush_cycle sd s = write_pending (collect_pending sd None s) s"

text \<open>One tick of the writer task.\<close>

definition writer_tick :: "serde \<Rightarrow> daow \<Rightarrow> daow" where
  "writer_tick sd s = (case flush_cycle sd s of (Inl err, s1) \<Rightarrow> report ''tick'' err s1 | (Inr _, s1) \<Rightarrow> s1)"

subsection \<open>Reading rows back\<close>

definition json_from_text :: "serde \<Rightarrow> string \<Rightarrow> journal_error + json" where
  "json_from_text sd text = (case sd_parse sd text of None \<Rightarrow> Inl LoadError | Some j \<Rightarrow> Inr j)"

definition origin_from_text :: "serde \<Rightarrow> string \<Rightarrow> event_origin option" where
  "origin_from_text sd text = (case sd_parse sd text of None \<Rightarrow> None | Some j \<Rightarrow> origin_of_json j)"

definition into_journaled :: "serde \<Rightarrow> event_row \<Rightarrow> (journal_error + journaled_event) outcome" where
  "into_journaled sd r =
     (case origin_from_text sd (er_origin r) of
        None \<Rightarrow> Done (Inl LoadError)
      | Some origin \<Rightarrow>
          map_outcome (\<lambda>e. Inr \<lparr>jd_seq = u64_of (er_seq r), jd_event = e, jd_origin = origin,
                                 jd_ingest = u64_of (er_ingest r)\<rparr>)
            (event_of_wire sd \<lparr>we_schema = er_schema r, we_payload = er_payload r\<rparr>))"

definition into_scanned :: "serde \<Rightarrow> event_row \<Rightarrow> scanned_event option outcome" where
  "into_scanned sd r =
     (if origin_from_text sd (er_origin r) = Some Recorded
      then map_outcome (\<lambda>e. Some \<lparr>sc_journal = er_journal r, sc_seq = u64_of (er_seq r),
                                   sc_ingest = u64_of (er_ingest r), sc_event = e\<rparr>)
             (event_of_wire sd \<lparr>we_schema = er_schema r, we_payload = er_payload r\<rparr>)
      else Done None)"

definition read_path_rows :: "string \<Rightarrow> sql_db \<Rightarrow> (event_row list \<times> (int \<times> string) option) option" where
  "read_path_rows path db =
     (case (db_events db, db_snapshots db) of
        (Some events, Some snaps) \<Rightarrow>
          Some (sort_key er_seq (filter (\<lambda>r. er_journal r = path) events),
                (case rev (sort_key sr_seq (filter (\<lambda>r. sr_journal r = path) snaps)) of
                   [] \<Rightarrow> None
                 | r # rs \<Rightarrow> Some (sr_seq r, sr_state r)))
      | _ \<Rightarrow> None)"

definition db_holds_origin :: "string \<Rightarrow> string \<Rightarrow> seq_no \<Rightarrow> sql_db \<Rightarrow> bool option" where
  "db_holds_origin path source source_seq db =
     map_option (list_ex (\<lambda>r. er_journal r = path \<and> er_kind r = kind_catchup \<and> er_source r = Some source \<and>
                               er_source_seq r = Some (i64_of source_seq)))
       (db_events db)"

text \<open>The rows are appended in their order; each gets the next sequence of the fresh journal.\<close>

fun rebuild_rows :: "serde \<Rightarrow> event_row list \<Rightarrow> journal \<Rightarrow> (journal_error + journal) outcome" where
  "rebuild_rows sd [] j = Done (Inr j)"
| "rebuild_rows sd (r # rs) j =
     (case into_journaled sd r of
        Panicked m \<Rightarrow> Panicked m
      | Done (Inl err) \<Rightarrow> Done (Inl err)
      | Done (Inr d) \<Rightarrow> rebuild_rows sd rs (snd (append_event_with_origin (jd_event d) (jd_origin d) (jd_ingest d) j)))"

definition rebuild_journal ::
  "serde \<Rightarrow> event_row list \<Rightarrow> (int \<times> string) option \<Rightarrow> (journal_error + journal) outcome" where
  "rebuild_journal sd rows snapshot =
     (case rebuild_rows sd rows journal_new of
        Panicked m \<Rightarrow> Panicked m
      | Done (Inl err) \<Rightarrow> Done (Inl err)
      | Done (Inr j) \<Rightarrow>
          (case snapshot of
             None \<Rightarrow> Done (Inr j)
           | Some (seq, text) \<Rightarrow>
               (case json_from_text sd text of
                  Inl err \<Rightarrow> Done (Inl err)
                | Inr state \<Rightarrow> Done (Inr (jn_append_snapshot (u64_of seq) state 0 j)))))"

definition build_replay :: "journal \<Rightarrow> replay option" where
  "build_replay j =
     (let snapshot = last_snapshot j; events = List.map_filter journaled_of (jn_entries j)
      in if events = [] \<and> snapshot = None then None
         else Some \<lparr>rp_snapshot = snapshot,
                    rp_tail = (case snapshot of
                        Some sn \<Rightarrow> map jd_event (filter (\<lambda>e. jd_seq e > je_seq sn) events)
                      | None \<Rightarrow> map jd_event events),
                    rp_events = events\<rparr>)"

text \<open>
  The cold read: a placeholder refuses appends until the rows are in; a read that fails leaves it.  The
  answer is whether anything was stored.
\<close>

definition seed_read :: "serde \<Rightarrow> string \<Rightarrow> daow \<Rightarrow> (journal_error + bool) outcome \<times> daow" where
  "seed_read sd path s =
     (case with_conn (\<lambda>db. (read_path_rows path db, db)) s of
        (None, s1) \<Rightarrow> (Done (Inl LoadError), s1)
      | (Some (rows, snapshot), s1) \<Rightarrow>
          if rows = [] \<and> snapshot = None then (Done (Inr False), drop_buffer path s1)
          else (case rebuild_journal sd rows snapshot of
                  Panicked m \<Rightarrow> (Panicked m, s1)
                | Done (Inl err) \<Rightarrow> (Done (Inl err), s1)
                | Done (Inr j) \<Rightarrow>
                    (Done (Inr True),
                     (case map_of (dw_journals s1) path of
                        Some b \<Rightarrow> if bf_activating b then put_buffer path (buffer_durable j) s1 else s1
                      | None \<Rightarrow> s1))))"

definition seed_buffer :: "serde \<Rightarrow> string \<Rightarrow> daow \<Rightarrow> (journal_error + bool) outcome \<times> daow" where
  "seed_buffer sd path s =
     (case map_of (dw_journals s) path of
        None \<Rightarrow> seed_read sd path (put_buffer path buffer_activating s)
      | Some b \<Rightarrow> if bf_activating b then seed_read sd path s else (Done (Inr True), s))"

subsection \<open>The store's operations\<close>

definition daow_append :: "string \<Rightarrow> event list \<Rightarrow> daow \<Rightarrow> (journal_error + seq_no list) \<times> daow" where
  "daow_append path events s = buffer_append path events s"

definition daow_append_snapshot ::
  "string \<Rightarrow> seq_no \<Rightarrow> json \<Rightarrow> nat \<Rightarrow> daow \<Rightarrow> (journal_error + unit) \<times> daow" where
  "daow_append_snapshot path seq state now_ms s = buffer_append_snapshot path seq state now_ms s"

text \<open>A catch-up stops at the first failure; what it appended before stays.\<close>

fun daow_append_catchup ::
  "string \<Rightarrow> scanned_event list \<Rightarrow> daow \<Rightarrow> (journal_error + seq_no option list) \<times> daow" where
  "daow_append_catchup path [] s = (Inr [], s)"
| "daow_append_catchup path (sc # scs) s =
     (case mutable_buffer path s of
        (None, s1) \<Rightarrow> (Inl AppendError, s1)
      | (Some b, s1) \<Rightarrow>
          if holds_origin (sc_journal sc) (sc_seq sc) (bf_journal b)
          then (case daow_append_catchup path scs s1 of
                  (Inl err, s2) \<Rightarrow> (Inl err, s2) | (Inr rest, s2) \<Rightarrow> (Inr (None # rest), s2))
          else (case with_conn (\<lambda>db. (db_holds_origin path (sc_journal sc) (sc_seq sc) db, db)) s1 of
                  (None, s2) \<Rightarrow> (Inl AppendError, s2)
                | (Some known, s2) \<Rightarrow>
                    if known
                    then (case daow_append_catchup path scs s2 of
                            (Inl err, s3) \<Rightarrow> (Inl err, s3) | (Inr rest, s3) \<Rightarrow> (Inr (None # rest), s3))
                    else (case mutable_buffer path s2 of
                            (None, s3) \<Rightarrow> (Inl AppendError, s3)
                          | (Some b3, s3) \<Rightarrow>
                              (let (seq, j) = append_event_with_origin (sc_event sc)
                                     (CatchUp (sc_journal sc) (sc_seq sc)) (dw_ingest s3) (bf_journal b3);
                                   s4 = put_buffer path (b3\<lparr>bf_journal := j\<rparr>) (s3\<lparr>dw_ingest := dw_ingest s3 + 1\<rparr>)
                               in case daow_append_catchup path scs s4 of
                                    (Inl err, s5) \<Rightarrow> (Inl err, s5) | (Inr rest, s5) \<Rightarrow> (Inr (Some seq # rest), s5)))))"

text \<open>The scan: the stored facts in arrival order, then what the buffers hold beyond them.\<close>

fun scan_rows :: "serde \<Rightarrow> event_row list \<Rightarrow> scanned_event list outcome" where
  "scan_rows sd [] = Done []"
| "scan_rows sd (r # rs) =
     bind_outcome (into_scanned sd r) (\<lambda>sc. map_outcome (\<lambda>rest. case sc of None \<Rightarrow> rest | Some x \<Rightarrow> x # rest) (scan_rows sd rs))"

definition recorded_rows :: "string list \<Rightarrow> sql_db \<Rightarrow> event_row list option" where
  "recorded_rows schemas db =
     map_option (\<lambda>rows. sort_key er_ingest (filter (\<lambda>r. er_kind r = kind_recorded \<and> er_schema r \<in> set schemas) rows))
       (db_events db)"

fun union_entries ::
  "string list \<Rightarrow> string \<Rightarrow> journal_entry list \<Rightarrow> scanned_event list \<times> (string \<times> seq_no) list
   \<Rightarrow> scanned_event list \<times> (string \<times> seq_no) list" where
  "union_entries schemas path [] acc = acc"
| "union_entries schemas path (x # xs) (found, seen) =
     (case scan_entry schemas path x of
        None \<Rightarrow> union_entries schemas path xs (found, seen)
      | Some sc \<Rightarrow>
          if (path, sc_seq sc) \<in> set seen then union_entries schemas path xs (found, seen)
          else union_entries schemas path xs (found @ [sc], (path, sc_seq sc) # seen))"

fun union_buffers ::
  "string list \<Rightarrow> (string \<times> path_buffer) list \<Rightarrow> scanned_event list \<times> (string \<times> seq_no) list
   \<Rightarrow> scanned_event list \<times> (string \<times> seq_no) list" where
  "union_buffers schemas [] acc = acc"
| "union_buffers schemas ((path, b) # bs) acc =
     union_buffers schemas bs (union_entries schemas path (jn_entries (bf_journal b)) acc)"

definition daow_scan ::
  "serde \<Rightarrow> string list \<Rightarrow> daow \<Rightarrow> (journal_error + scanned_event list) outcome \<times> daow" where
  "daow_scan sd schemas s =
     (case with_conn (\<lambda>db. (recorded_rows schemas db, db)) s of
        (None, s1) \<Rightarrow> (Done (Inl ScanError), s1)
      | (Some rows, s1) \<Rightarrow>
          (map_outcome (\<lambda>stored. Inr (sort_key sc_ingest
             (fst (union_buffers schemas (dw_journals s1) (stored, map (\<lambda>sc. (sc_journal sc, sc_seq sc)) stored)))))
             (scan_rows sd rows), s1))"

text \<open>A load of a path with a buffer is a reactivation: a pending release is called off.\<close>

definition cold_load ::
  "serde \<Rightarrow> string \<Rightarrow> daow \<Rightarrow> (journal_error + replay option) outcome \<times> daow" where
  "cold_load sd path s =
     (case seed_buffer sd path s of
        (Panicked m, s1) \<Rightarrow> (Panicked m, s1)
      | (Done (Inl err), s1) \<Rightarrow> (Done (Inl err), s1)
      | (Done (Inr _), s1) \<Rightarrow>
          (Done (Inr (case map_of (dw_journals s1) path of
                        None \<Rightarrow> None
                      | Some b \<Rightarrow> build_replay (bf_journal b))), s1))"

definition daow_load ::
  "serde \<Rightarrow> string \<Rightarrow> daow \<Rightarrow> (journal_error + replay option) outcome \<times> daow" where
  "daow_load sd path s =
     (case map_of (dw_journals s) path of
        Some b \<Rightarrow>
          if bf_activating b then cold_load sd path s
          else (Done (Inr (build_replay (bf_journal b))), put_buffer path (b\<lparr>bf_drop_when_durable := False\<rparr>) s)
      | None \<Rightarrow> cold_load sd path s)"

definition daow_flush :: "serde \<Rightarrow> daow \<Rightarrow> (journal_error + unit) \<times> daow" where
  "daow_flush sd s =
     (case write_pending (collect_pending sd None s) s of
        (Inl err, s1) \<Rightarrow> (Inl err, report ''flush'' err s1)
      | (Inr _, s1) \<Rightarrow> (Inr (), s1))"

definition mark_drop :: "string \<Rightarrow> daow \<Rightarrow> daow" where
  "mark_drop path s =
     (case map_of (dw_journals s) path of
        None \<Rightarrow> s
      | Some b \<Rightarrow> put_buffer path (b\<lparr>bf_drop_when_durable := True\<rparr>) s)"

definition daow_passivated :: "serde \<Rightarrow> string \<Rightarrow> daow \<Rightarrow> (journal_error + unit) \<times> daow" where
  "daow_passivated sd path s =
     (let pending = collect_pending sd (Some path) s
      in if pending = [] then (Inr (), drop_buffer path s)
         else case write_pending pending (mark_drop path s) of
                (Inl err, s1) \<Rightarrow> (Inl err, report ''passivated'' err s1)
              | (Inr _, s1) \<Rightarrow> (Inr (), s1))"

definition purge_rows :: "string \<Rightarrow> sql_db \<Rightarrow> unit option \<times> sql_db" where
  "purge_rows path db =
     (case (db_events db, db_snapshots db) of
        (Some events, Some snaps) \<Rightarrow>
          (Some (), db\<lparr>db_events := Some (filter (\<lambda>r. er_journal r \<noteq> path) events),
                      db_snapshots := Some (filter (\<lambda>r. sr_journal r \<noteq> path) snaps)\<rparr>)
      | _ \<Rightarrow> (None, db))"

definition daow_purge :: "string \<Rightarrow> daow \<Rightarrow> (journal_error + unit) \<times> daow" where
  "daow_purge path s =
     (case with_conn (purge_rows path) s of
        (None, s1) \<Rightarrow> (Inl PurgeError, s1)
      | (Some _, s1) \<Rightarrow> (Inr (), drop_buffer path s1))"

definition daow_name :: string where
  "daow_name = ''daow-sqlite''"

end
