(* ===== verification/DaowFacts.thy ===== *)
theory DaowFacts
  imports DaowStore
begin

text \<open>
  What the SQLite-backed store promises, as a contract that both backends keep, and the facts about its
  durability: a flush that fails, or whose answer is lost, changes no history; a flushed journal comes
  back from the database alone.

  A journal read back from the database holds the wire form of its events, so histories are compared
  in wire form.
\<close>

subsection \<open>Rows and entries\<close>

lemma u64_i64 [simp]: "n < 2 ^ 64 \<Longrightarrow> u64_of (i64_of n) = n"
  by (auto simp: u64_of_def i64_of_def)

lemma u64_int [simp]: "n < 2 ^ 63 \<Longrightarrow> u64_of (int n) = n"
  using u64_i64 [of n] by (simp add: i64_of_def)

lemma i64_small: "n < 2 ^ 63 \<Longrightarrow> i64_of n = int n"
  by (simp add: i64_of_def)

definition wire_norm :: "serde \<Rightarrow> event \<Rightarrow> event" where
  "wire_norm sd e = event_from_bytes (ev_schema e) (json_text sd (ev_payload e))"

definition jd_norm :: "serde \<Rightarrow> journaled_event \<Rightarrow> journaled_event" where
  "jd_norm sd d = d\<lparr>jd_event := wire_norm sd (jd_event d)\<rparr>"

lemma jd_norm_simps [simp]:
  "jd_seq (jd_norm sd d) = jd_seq d" "jd_origin (jd_norm sd d) = jd_origin d"
  "jd_ingest (jd_norm sd d) = jd_ingest d" "jd_event (jd_norm sd d) = wire_norm sd (jd_event d)"
  by (simp_all add: jd_norm_def)

lemma json_text_bytes [simp]: "json_text sd (payload_bytes b) = b"
  by (simp add: json_text_def payload_bytes_def)

lemma wire_norm_idem [simp]: "wire_norm sd (wire_norm sd e) = wire_norm sd e"
  by (simp add: wire_norm_def event_from_bytes_def)

lemma wire_norm_schema [simp]: "ev_schema (wire_norm sd e) = ev_schema e"
  by (simp add: wire_norm_def event_from_bytes_def)

lemma jd_norm_idem [simp]: "jd_norm sd (jd_norm sd d) = jd_norm sd d"
  by (simp add: jd_norm_def)

text \<open>What the database can hold: text the JSON library parses, origins it reads back, 63-bit numbers.\<close>

definition event_ok :: "serde \<Rightarrow> event \<Rightarrow> bool" where
  "event_ok sd e \<longleftrightarrow> sd_parse sd (json_text sd (ev_payload e)) \<noteq> None"

definition origin_ok :: "serde \<Rightarrow> event_origin \<Rightarrow> bool" where
  "origin_ok sd origin \<longleftrightarrow> origin_from_text sd (sd_print sd (origin_json origin)) = Some origin"

fun entry_ok :: "serde \<Rightarrow> journal_entry \<Rightarrow> bool" where
  "entry_ok sd (JEvent q e origin ingest) \<longleftrightarrow> event_ok sd e \<and> origin_ok sd origin \<and> q < 2 ^ 63 \<and> ingest < 2 ^ 63"
| "entry_ok sd (JSnapshot q state) \<longleftrightarrow> sd_parse sd (sd_print sd state) = Some state \<and> q < 2 ^ 63"

definition rows_of :: "serde \<Rightarrow> string \<Rightarrow> journal_entry list \<Rightarrow> event_row list" where
  "rows_of sd path es = map (row_of path) (List.map_filter (serialize_event sd) es)"

lemma serialize_event_Some: "\<exists>pe. serialize_event sd (JEvent q e origin ingest) = Some pe"
  by (cases origin) (simp_all add: Let_def)

declare serialize_event.simps(2) [simp del]

lemma rows_of_simps [simp]:
  "rows_of sd path [] = []"
  "rows_of sd path (xs @ ys) = rows_of sd path xs @ rows_of sd path ys"
  "rows_of sd path (JSnapshot q state # es) = rows_of sd path es"
  "rows_of sd path (JEvent q e origin ingest # es) =
     row_of path (the (serialize_event sd (JEvent q e origin ingest))) # rows_of sd path es"
  using serialize_event_Some [of sd q e origin ingest]
  by (auto simp: rows_of_def List.map_filter_simps)

lemma event_of_wire_norm:
  "event_ok sd e \<Longrightarrow> event_of_wire sd (wire_of_event sd e) = Done (wire_norm sd e)"
  by (simp add: event_of_wire_def wire_of_event_def event_ok_def assert_json_text_def wire_norm_def)

lemma row_fields:
  assumes "serialize_event sd x = Some pe"
  shows "er_journal (row_of path pe) = path" "er_seq (row_of path pe) = i64_of (je_seq x)"
  using assms by (cases x; auto simp: row_of_def serialize_event.simps(2) Let_def split: event_origin.splits)+

lemma row_read_back:
  assumes "entry_ok sd (JEvent q e origin ingest)" "serialize_event sd (JEvent q e origin ingest) = Some pe"
  shows "into_journaled sd (row_of path pe) =
      Done (Inr \<lparr>jd_seq = q, jd_event = wire_norm sd e, jd_origin = origin, jd_ingest = ingest\<rparr>)"
    "er_kind (row_of path pe) = (if origin = Recorded then kind_recorded else kind_catchup)"
    "er_schema (row_of path pe) = ev_schema e"
    "er_ingest (row_of path pe) = int ingest"
    "into_scanned sd (row_of path pe) =
       Done (if origin = Recorded
             then Some \<lparr>sc_journal = path, sc_seq = q, sc_ingest = ingest, sc_event = wire_norm sd e\<rparr> else None)"
proof -
  have w: "event_of_wire sd \<lparr>we_schema = ev_schema e, we_payload = we_payload (wire_of_event sd e)\<rparr> = Done (wire_norm sd e)"
    using event_of_wire_norm [of sd e] assms(1) by (simp add: wire_of_event_def)
  show "into_journaled sd (row_of path pe) =
      Done (Inr \<lparr>jd_seq = q, jd_event = wire_norm sd e, jd_origin = origin, jd_ingest = ingest\<rparr>)"
    "er_kind (row_of path pe) = (if origin = Recorded then kind_recorded else kind_catchup)"
    "er_schema (row_of path pe) = ev_schema e"
    "er_ingest (row_of path pe) = int ingest"
    "into_scanned sd (row_of path pe) =
       Done (if origin = Recorded
             then Some \<lparr>sc_journal = path, sc_seq = q, sc_ingest = ingest, sc_event = wire_norm sd e\<rparr> else None)"
    using assms w
    by (auto simp: into_journaled_def into_scanned_def row_of_def origin_ok_def Let_def i64_small serialize_event.simps(2)
        split: event_origin.splits)
qed

text \<open>Rebuilding from the rows of well-formed entries.\<close>

definition numbered :: "nat \<Rightarrow> journal_entry list \<Rightarrow> bool" where
  "numbered n es \<longleftrightarrow> map jd_seq (events_in es) = [n..<n + length (events_in es)]"

lemma numbered_Cons_event:
  "numbered n (JEvent q e origin i # es) \<longleftrightarrow> q = n \<and> numbered (Suc n) es"
proof -
  have "[n..<n + Suc k] = n # [Suc n..<Suc n + k]" for k by (simp add: upt_conv_Cons del: upt_Suc)
  then show ?thesis by (simp add: numbered_def events_in_def List.map_filter_simps del: upt_Suc)
qed

lemma numbered_Cons_snapshot: "numbered n (JSnapshot q st # es) \<longleftrightarrow> numbered n es"
  by (simp add: numbered_def events_in_def List.map_filter_simps)

text \<open>The entries a rebuild makes of the rows.\<close>

fun norm_entry :: "serde \<Rightarrow> journal_entry \<Rightarrow> journal_entry option" where
  "norm_entry sd (JEvent q e origin ingest) = Some (JEvent q (wire_norm sd e) origin ingest)"
| "norm_entry sd (JSnapshot q state) = None"

definition norm_entries :: "serde \<Rightarrow> journal_entry list \<Rightarrow> journal_entry list" where
  "norm_entries sd es = List.map_filter (norm_entry sd) es"

lemma norm_entries_simps [simp]:
  "norm_entries sd [] = []"
  "norm_entries sd (JEvent q e origin i # es) = JEvent q (wire_norm sd e) origin i # norm_entries sd es"
  "norm_entries sd (JSnapshot q state # es) = norm_entries sd es"
  by (simp_all add: norm_entries_def List.map_filter_simps)

lemma events_in_Cons [simp]:
  "events_in (JEvent q e origin i # es) = \<lparr>jd_seq = q, jd_event = e, jd_origin = origin, jd_ingest = i\<rparr> # events_in es"
  "events_in (JSnapshot q state # es) = events_in es"
  by (simp_all add: events_in_def List.map_filter_simps)

lemma norm_entries_events: "events_in (norm_entries sd es) = map (jd_norm sd) (events_in es)"
proof (induction es)
  case (Cons x es)
  then show ?case by (cases x) (simp_all add: jd_norm_def)
qed simp

lemma serialize_norm: "serialize_event sd (JEvent q (wire_norm sd e) origin i) = serialize_event sd (JEvent q e origin i)"
  by (simp add: serialize_event.simps(2) wire_of_event_def wire_norm_def event_from_bytes_def)

lemma norm_entries_rows: "rows_of sd path (norm_entries sd es) = rows_of sd path es"
proof (induction es)
  case (Cons x es)
  then show ?case by (cases x) (simp_all add: serialize_norm)
qed simp

lemma norm_entries_ok: "\<forall>x \<in> set es. entry_ok sd x \<Longrightarrow> \<forall>x \<in> set (norm_entries sd es). entry_ok sd x"
proof (induction es)
  case (Cons x es)
  then show ?case by (cases x) (simp_all add: event_ok_def wire_norm_def event_from_bytes_def)
qed simp

lemma norm_entries_events_only: "x \<in> set (norm_entries sd es) \<Longrightarrow> \<not> is_snapshot x"
proof (induction es)
  case (Cons y es)
  then show ?case by (cases y) auto
qed simp

lemma rebuild_rows_of:
  assumes "numbered (jn_event_count j) es" "\<forall>x \<in> set es. entry_ok sd x"
  shows "rebuild_rows sd (rows_of sd path es) j = Done (Inr (j\<lparr>jn_entries := jn_entries j @ norm_entries sd es,
    jn_event_count := jn_event_count j + length (events_in es)\<rparr>))"
  using assms
proof (induction es arbitrary: j)
  case (Cons x es)
  show ?case
  proof (cases x)
    case (JSnapshot q st)
    with Cons show ?thesis by (simp add: numbered_Cons_snapshot)
  next
    case (JEvent q e origin i)
    have q: "q = jn_event_count j" "numbered (Suc (jn_event_count j)) es"
      using Cons.prems(1) JEvent by (simp_all add: numbered_Cons_event)
    define j1 where "j1 = snd (append_event_with_origin (wire_norm sd e) origin i j)"
    have j1: "j1 = j\<lparr>jn_entries := jn_entries j @ [JEvent q (wire_norm sd e) origin i], jn_event_count := jn_event_count j + 1\<rparr>"
      by (simp add: j1_def append_event_with_origin_def Let_def jn_next_seq_def q(1))
    obtain pe where pe: "serialize_event sd x = Some pe" using JEvent serialize_event_Some by blast
    have read: "into_journaled sd (row_of path pe) =
        Done (Inr \<lparr>jd_seq = q, jd_event = wire_norm sd e, jd_origin = origin, jd_ingest = i\<rparr>)"
      using row_read_back(1) [of sd q e origin i pe path] pe JEvent Cons.prems(2) by simp
    have rows: "rows_of sd path (x # es) = row_of path pe # rows_of sd path es" using JEvent pe by simp
    have "rebuild_rows sd (rows_of sd path (x # es)) j = rebuild_rows sd (rows_of sd path es) j1"
      by (simp only: rows rebuild_rows.simps read outcome.case sum.case journaled_event.simps j1_def)
    also have "\<dots> = Done (Inr (j1\<lparr>jn_entries := jn_entries j1 @ norm_entries sd es,
        jn_event_count := jn_event_count j1 + length (events_in es)\<rparr>))"
      using Cons.IH [of j1] q(2) Cons.prems(2) by (simp add: j1)
    finally show ?thesis by (simp add: j1 JEvent)
  qed
qed simp

subsection \<open>What the database holds of a journal\<close>

definition entries_ok :: "serde \<Rightarrow> journal_entry list \<Rightarrow> bool" where
  "entries_ok sd es \<longleftrightarrow>
     numbered 0 es \<and> (\<forall>x \<in> set es. entry_ok sd x) \<and> sorted (map je_seq (filter is_snapshot es))"

definition last_snap :: "journal_entry list \<Rightarrow> (seq_no \<times> json) option" where
  "last_snap es = (case List.find is_snapshot (rev es) of Some (JSnapshot q st) \<Rightarrow> Some (q, st) | _ \<Rightarrow> None)"

definition snap_row :: "serde \<Rightarrow> string \<Rightarrow> seq_no \<times> json \<Rightarrow> snapshot_row" where
  "snap_row sd p x = \<lparr>sr_journal = p, sr_seq = i64_of (fst x), sr_state = sd_print sd (snd x)\<rparr>"

definition snaps_match :: "serde \<Rightarrow> string \<Rightarrow> snapshot_row list \<Rightarrow> journal_entry list \<Rightarrow> bool" where
  "snaps_match sd p sns es \<longleftrightarrow>
     (case last_snap es of
        None \<Rightarrow> filter (\<lambda>r. sr_journal r = p) sns = []
      | Some x \<Rightarrow> snap_row sd p x \<in> set sns \<and>
          (\<forall>r \<in> set (filter (\<lambda>r. sr_journal r = p) sns). sr_seq r < i64_of (fst x) \<or> r = snap_row sd p x))"

definition path_rows :: "string \<Rightarrow> event_row list \<Rightarrow> event_row list" where
  "path_rows p evs = filter (\<lambda>r. er_journal r = p) evs"

definition holds_prefix ::
  "serde \<Rightarrow> string \<Rightarrow> event_row list \<times> snapshot_row list \<Rightarrow> journal_entry list \<Rightarrow> bool" where
  "holds_prefix sd p t es \<longleftrightarrow> path_rows p (fst t) = rows_of sd p es \<and> snaps_match sd p (snd t) es"

fun tables :: "sql_db \<Rightarrow> (event_row list \<times> snapshot_row list) option" where
  "tables db = (case (db_events db, db_snapshots db) of (Some evs, Some sns) \<Rightarrow> Some (evs, sns) | _ \<Rightarrow> None)"

definition durable :: "serde \<Rightarrow> sql_db \<Rightarrow> string \<Rightarrow> journal_entry list \<Rightarrow> bool" where
  "durable sd db p es \<longleftrightarrow> (\<exists>t. tables db = Some t \<and> holds_prefix sd p t es)"

lemma last_snap_simps [simp]:
  "last_snap [] = None" "last_snap (es @ [JSnapshot q st]) = Some (q, st)"
  "last_snap (es @ [JEvent q e origin i]) = last_snap es"
  by (simp_all add: last_snap_def)

lemma last_snap_append:
  "last_snap (xs @ ys) = (case last_snap ys of None \<Rightarrow> last_snap xs | Some x \<Rightarrow> Some x)"
proof (induction ys rule: rev_induct)
  case (snoc y ys)
  then show ?case by (cases y) (simp_all flip: append_assoc)
qed simp

lemma last_snap_None: "last_snap es = None \<longleftrightarrow> (\<forall>x \<in> set es. \<not> is_snapshot x)"
proof (induction es rule: rev_induct)
  case (snoc y ys)
  then show ?case by (cases y) auto
qed simp

lemma last_snap_in: "last_snap es = Some (q, st) \<Longrightarrow> JSnapshot q st \<in> set es"
proof (induction es rule: rev_induct)
  case (snoc y ys)
  then show ?case by (cases y) auto
qed simp

lemma last_snapshot_is_snap: "last_snapshot j = map_option (\<lambda>(q, st). JSnapshot q st) (last_snap (jn_entries j))"
proof -
  have "List.find is_snapshot (rev es) = map_option (\<lambda>(q, st). JSnapshot q st) (last_snap es)" for es
  proof (induction es rule: rev_induct)
    case (snoc y ys)
    then show ?case by (cases y) simp_all
  qed simp
  then show ?thesis by (simp add: last_snapshot_def)
qed

lemma entries_ok_append: "entries_ok sd (xs @ ys) \<Longrightarrow> entries_ok sd xs"
proof -
  have "[0..<a + b] = [0..<a] @ [a..<a + b]" for a b :: nat by (rule upt_add_eq_append) simp
  then have "numbered 0 (xs @ ys) \<Longrightarrow> numbered 0 xs" by (simp add: numbered_def)
  then show "entries_ok sd (xs @ ys) \<Longrightarrow> entries_ok sd xs" by (simp add: entries_ok_def sorted_append)
qed

lemma entries_ok_take: "entries_ok sd es \<Longrightarrow> entries_ok sd (take k es)"
  by (rule entries_ok_append [of sd "take k es" "drop k es"]) simp

lemma entries_ok_nil [simp]: "entries_ok sd []"
  by (simp add: entries_ok_def numbered_def)

lemma entries_ok_last_snap:
  assumes "entries_ok sd es" "last_snap es = Some (q, st)"
  shows "q < 2 ^ 63" "sd_parse sd (sd_print sd st) = Some st" "x \<in> set es \<Longrightarrow> is_snapshot x \<Longrightarrow> je_seq x \<le> q"
proof -
  have m: "entry_ok sd (JSnapshot q st)" using assms last_snap_in unfolding entries_ok_def by blast
  then show "q < 2 ^ 63" "sd_parse sd (sd_print sd st) = Some st" by simp_all
  have "sorted (map je_seq (filter is_snapshot es)) \<Longrightarrow> last_snap es = Some (q, st) \<Longrightarrow> x \<in> set es \<Longrightarrow>
      is_snapshot x \<Longrightarrow> je_seq x \<le> q" for es x
  proof (induction es rule: rev_induct)
    case (snoc y ys)
    then show ?case by (cases y) (auto simp: sorted_append)
  qed simp
  then show "x \<in> set es \<Longrightarrow> is_snapshot x \<Longrightarrow> je_seq x \<le> q" using assms unfolding entries_ok_def by blast
qed

text \<open>The sequence column of a numbered journal counts up.\<close>

lemma rows_of_seqs:
  "\<forall>x \<in> set es. entry_ok sd x \<Longrightarrow> map er_seq (rows_of sd p es) = map (int \<circ> jd_seq) (events_in es)"
proof (induction es)
  case (Cons x es)
  show ?case
  proof (cases x)
    case (JEvent q e origin i)
    obtain pe where "serialize_event sd x = Some pe" using JEvent serialize_event_Some by blast
    then show ?thesis using Cons JEvent row_fields(2) [of sd x pe p] by (simp add: i64_small)
  qed (use Cons in simp)
qed simp

lemma rows_of_journal: "r \<in> set (rows_of sd p es) \<Longrightarrow> er_journal r = p"
  by (auto simp: rows_of_def row_of_def)

lemma rows_of_sorted:
  assumes "entries_ok sd es"
  shows "sorted (map er_seq (rows_of sd p es))" "distinct (map er_seq (rows_of sd p es))"
proof -
  have "map er_seq (rows_of sd p es) = map int [0..<length (events_in es)]"
    using assms rows_of_seqs [of es sd p] by (simp add: entries_ok_def numbered_def flip: map_map)
  then show "sorted (map er_seq (rows_of sd p es))" "distinct (map er_seq (rows_of sd p es))"
    by (simp_all add: sorted_map distinct_map sorted_wrt_map inj_on_def)
qed

text \<open>The read of a path's rows, and the journal rebuilt from them.\<close>

lemma last_sort_key:
  assumes "x \<in> set xs" "\<forall>y \<in> set xs. f y < f x \<or> y = x"
  shows "\<exists>ys. rev (sort_key f xs) = x # ys"
proof -
  have ne: "sort_key f xs \<noteq> []" using assms(1) by (metis empty_iff empty_set set_sort)
  define l where "l = last (sort_key f xs)"
  have l: "l \<in> set xs" using ne last_in_set [OF ne] by (simp add: l_def)
  have "f x \<le> f l"
  proof -
    obtain ys where ys: "sort_key f xs = ys @ [l]" using ne by (metis append_butlast_last_id l_def)
    have "sorted (map f (sort_key f xs))" by simp
    then have "\<forall>y \<in> set ys. f y \<le> f l" by (simp add: ys sorted_append)
    moreover have "x \<in> set (ys @ [l])" using assms(1) by (simp flip: ys)
    ultimately show ?thesis by auto
  qed
  then have "l = x" using assms(2) l by fastforce
  moreover obtain ys where "sort_key f xs = ys @ [l]" using ne by (metis append_butlast_last_id l_def)
  ultimately show ?thesis by simp
qed

lemma read_path:
  assumes "entries_ok sd es" "durable sd db p es"
  shows "read_path_rows p db =
    Some (rows_of sd p es, map_option (\<lambda>(q, st). (i64_of q, sd_print sd st)) (last_snap es))"
proof -
  obtain evs sns where t: "db_events db = Some evs" "db_snapshots db = Some sns"
    and rows: "path_rows p evs = rows_of sd p es" and sn: "snaps_match sd p sns es"
    using assms(2) by (auto simp: durable_def holds_prefix_def split: option.splits)
  have 1: "sort_key er_seq (filter (\<lambda>r. er_journal r = p) evs) = rows_of sd p es"
    using rows rows_of_sorted(1) [OF assms(1), of p] by (simp add: path_rows_def sort_key_id_if_sorted)
  show ?thesis
  proof (cases "last_snap es")
    case None
    with sn show ?thesis by (simp add: read_path_rows_def t 1 snaps_match_def)
  next
    case (Some x)
    let ?xs = "filter (\<lambda>r. sr_journal r = p) sns"
    have "snap_row sd p x \<in> set ?xs" "\<forall>y \<in> set ?xs. sr_seq y < sr_seq (snap_row sd p x) \<or> y = snap_row sd p x"
      using sn Some by (auto simp: snaps_match_def snap_row_def)
    then obtain ys where "rev (sort_key sr_seq ?xs) = snap_row sd p x # ys"
      using last_sort_key [of "snap_row sd p x" ?xs sr_seq] by blast
    then show ?thesis using Some by (simp add: read_path_rows_def t 1 snap_row_def split: prod.split)
  qed
qed

definition cold_journal :: "serde \<Rightarrow> journal_entry list \<Rightarrow> journal" where
  "cold_journal sd es =
     (let j = \<lparr>jn_entries = norm_entries sd es, jn_event_count = length (events_in es), jn_last_snapshot_ms = None\<rparr>
      in case last_snap es of None \<Rightarrow> j | Some (q, st) \<Rightarrow> jn_append_snapshot q st 0 j)"

lemma rebuild_cold:
  assumes "entries_ok sd es"
  shows "rebuild_journal sd (rows_of sd p es) (map_option (\<lambda>(q, st). (i64_of q, sd_print sd st)) (last_snap es)) =
    Done (Inr (cold_journal sd es))"
proof -
  have "rebuild_rows sd (rows_of sd p es) journal_new = Done (Inr \<lparr>jn_entries = norm_entries sd es,
      jn_event_count = length (events_in es), jn_last_snapshot_ms = None\<rparr>)"
    using assms rebuild_rows_of [of journal_new es sd p] by (simp add: entries_ok_def journal_new_def)
  then show ?thesis
    using entries_ok_last_snap(1,2) [OF assms]
    by (cases "last_snap es") (auto simp: rebuild_journal_def cold_journal_def Let_def json_from_text_def)
qed

lemma cold_journal_facts:
  "events_in (jn_entries (cold_journal sd es)) = map (jd_norm sd) (events_in es)"
  "last_snap (jn_entries (cold_journal sd es)) = last_snap es"
  "jn_event_count (cold_journal sd es) = length (events_in es)"
  "rows_of sd p (jn_entries (cold_journal sd es)) = rows_of sd p es"
proof -
  have n: "last_snap (norm_entries sd es) = None" using norm_entries_events_only by (auto simp: last_snap_None)
  show "events_in (jn_entries (cold_journal sd es)) = map (jd_norm sd) (events_in es)"
    "last_snap (jn_entries (cold_journal sd es)) = last_snap es"
    "jn_event_count (cold_journal sd es) = length (events_in es)"
    "rows_of sd p (jn_entries (cold_journal sd es)) = rows_of sd p es"
    by (cases "last_snap es"; auto simp: cold_journal_def Let_def jn_append_snapshot_def norm_entries_events
        norm_entries_rows n)+
qed

lemma cold_journal_ok:
  assumes "entries_ok sd es"
  shows "entries_ok sd (jn_entries (cold_journal sd es))"
proof -
  have "numbered 0 (jn_entries (cold_journal sd es))"
    using assms cold_journal_facts(1) [of sd es] by (simp add: entries_ok_def numbered_def comp_def)
  moreover have "\<forall>x \<in> set (jn_entries (cold_journal sd es)). entry_ok sd x"
    using assms norm_entries_ok [of es sd] entries_ok_last_snap(1,2) [OF assms]
    by (cases "last_snap es") (auto simp: entries_ok_def cold_journal_def Let_def jn_append_snapshot_def)
  moreover have "filter is_snapshot (norm_entries sd es) = []"
    using norm_entries_events_only by (simp add: filter_empty_conv)
  then have "sorted (map je_seq (filter is_snapshot (jn_entries (cold_journal sd es))))"
    by (cases "last_snap es") (auto simp: cold_journal_def Let_def jn_append_snapshot_def)
  ultimately show ?thesis by (simp add: entries_ok_def)
qed

lemma durable_cong:
  "rows_of sd p es = rows_of sd p es' \<Longrightarrow> last_snap es = last_snap es' \<Longrightarrow> durable sd db p es = durable sd db p es'"
  by (simp add: durable_def holds_prefix_def snaps_match_def)

lemma cold_journal_durable: "durable sd db p (jn_entries (cold_journal sd es)) = durable sd db p es"
  by (rule durable_cong) (simp_all add: cold_journal_facts)

subsection \<open>The flush transaction\<close>

lemma find_unique:
  "r \<in> set xs \<Longrightarrow> P r \<Longrightarrow> (\<And>x. x \<in> set xs \<Longrightarrow> P x \<Longrightarrow> x = r) \<Longrightarrow> List.find P xs = Some r"
proof (cases "List.find P xs")
  case (Some y)
  then show "(\<And>x. x \<in> set xs \<Longrightarrow> P x \<Longrightarrow> x = r) \<Longrightarrow> List.find P xs = Some r" by (simp add: find_Some_set)
next
  case None
  then have "\<forall>x \<in> set xs. \<not> P x" by (simp only: find_None_iff_all)
  then show "r \<in> set xs \<Longrightarrow> P r \<Longrightarrow> List.find P xs = Some r" by blast
qed

lemma write_rows_known:
  "(\<And>r. r \<in> set rs \<Longrightarrow> existing_row r evs = Some r) \<Longrightarrow> write_rows (rs @ rs') evs = write_rows rs' evs"
  by (induction rs) (auto simp: insert_event_def verify_existing_event_def)

lemma write_rows_new:
  assumes "distinct (map er_seq rs)" "\<And>r. r \<in> set rs \<Longrightarrow> er_journal r = p"
    "\<And>r x. r \<in> set rs \<Longrightarrow> x \<in> set (path_rows p evs) \<Longrightarrow> er_seq r \<noteq> er_seq x"
  shows "write_rows rs evs = Some (evs @ rs)"
  using assms
proof (induction rs arbitrary: evs)
  case (Cons r rs)
  have "existing_row r evs = None"
    using Cons.prems(2,3) [of r] by (fastforce simp: existing_row_def find_None_iff_all path_rows_def)
  moreover have "write_rows rs (evs @ [r]) = Some ((evs @ [r]) @ rs)"
  proof (rule Cons.IH)
    fix r' x
    assume r': "r' \<in> set rs" and "x \<in> set (path_rows p (evs @ [r]))"
    then consider "x \<in> set (path_rows p evs)" | "x = r" by (auto simp: path_rows_def split: if_splits)
    then show "er_seq r' \<noteq> er_seq x" using Cons.prems(1,3) r' by cases (auto simp: image_iff)
  qed (simp_all add: Cons.prems(1) [simplified] Cons.prems(2))
  ultimately show ?case by (simp add: insert_event_def)
qed simp

lemma rows_of_split:
  assumes "f \<le> k" "k \<le> length es"
  shows "drop f es = drop f (take k es) @ drop k es"
proof -
  have "drop f es = drop f (take k es @ drop k es)" by simp
  also have "\<dots> = drop f (take k es) @ drop k es" using assms by (subst drop_append) simp
  finally show ?thesis .
qed

lemma path_rows_append [simp]: "path_rows p (xs @ ys) = path_rows p xs @ path_rows p ys"
  by (simp add: path_rows_def)

lemma path_rows_rows_of [simp]: "path_rows q (rows_of sd p es) = (if q = p then rows_of sd p es else [])"
  using rows_of_journal by (fastforce simp: path_rows_def filter_id_conv filter_empty_conv)

text \<open>Rows the database holds already are verified, the others are inserted.\<close>

lemma write_rows_prefix:
  assumes ok: "entries_ok sd es" and fk: "f \<le> k" "k \<le> length es"
    and held: "path_rows p evs = rows_of sd p (take k es)"
  shows "write_rows (rows_of sd p (drop f es)) evs = Some (evs @ rows_of sd p (drop k es))"
proof -
  have all: "rows_of sd p es = rows_of sd p (take k es) @ rows_of sd p (drop k es)"
    by (simp flip: rows_of_simps(2))
  have d: "distinct (map er_seq (rows_of sd p (take k es) @ rows_of sd p (drop k es)))"
    using rows_of_sorted(2) [OF ok, of p] all by simp
  have "existing_row r evs = Some r" if r: "r \<in> set (rows_of sd p (drop f (take k es)))" for r
  proof -
    have "take k es = take f (take k es) @ drop f (take k es)" by (simp only: append_take_drop_id)
    then have "set (rows_of sd p (drop f (take k es))) \<subseteq> set (rows_of sd p (take k es))"
      by (metis rows_of_simps(2) set_append Un_upper2)
    with r have rp: "r \<in> set (path_rows p evs)" using held by auto
    have "er_journal x = er_journal r \<and> er_seq x = er_seq r \<Longrightarrow> x \<in> set evs \<Longrightarrow> x = r" for x
    proof -
      assume x: "er_journal x = er_journal r \<and> er_seq x = er_seq r" "x \<in> set evs"
      then have "x \<in> set (path_rows p evs)" using rp by (simp add: path_rows_def)
      moreover have "inj_on er_seq (set (path_rows p evs))" using d held by (simp add: distinct_map)
      ultimately show "x = r" using rp x(1) by (simp add: inj_on_def)
    qed
    then show ?thesis using rp unfolding existing_row_def by (intro find_unique) (auto simp: path_rows_def)
  qed
  then have "write_rows (rows_of sd p (drop f (take k es)) @ rows_of sd p (drop k es)) evs =
      write_rows (rows_of sd p (drop k es)) evs"
    by (rule write_rows_known)
  moreover have "write_rows (rows_of sd p (drop k es)) evs = Some (evs @ rows_of sd p (drop k es))"
    by (rule write_rows_new [of _ p])
      (use d rows_of_journal in \<open>auto simp: held distinct_map inj_on_def\<close>)
  ultimately show ?thesis by (simp add: rows_of_split [OF fk])
qed

lemma slice_snapshot_last:
  "slice_snapshot sd es acc =
     (case last_snap es of None \<Rightarrow> acc | Some (q, st) \<Rightarrow> Some \<lparr>ps_seq = q, ps_state = sd_print sd st\<rparr>)"
proof (induction es arbitrary: acc)
  case (Cons x es)
  have "last_snap (x # es) = (case last_snap es of None \<Rightarrow> last_snap [x] | Some y \<Rightarrow> Some y)"
    using last_snap_append [of "[x]" es] by simp
  with Cons show ?case by (cases x) (auto simp: last_snap_def split: option.splits prod.splits)
qed simp

definition write_snapshot ::
  "string \<Rightarrow> pending_snapshot_row option \<Rightarrow> snapshot_row list \<Rightarrow> snapshot_row list" where
  "write_snapshot p x sns = (case x of None \<Rightarrow> sns | Some r \<Rightarrow> upsert_snapshot p r sns)"

lemma snaps_match_step:
  assumes ok: "entries_ok sd es" and fk: "f \<le> k" "k \<le> length es"
    and held: "snaps_match sd p sns (take k es)"
  shows "snaps_match sd p (write_snapshot p (slice_snapshot sd (drop f es) None) sns) es"
proof (cases "last_snap (drop f es)")
  case None
  then have "last_snap (take f es) = last_snap es"
    using last_snap_append [of "take f es" "drop f es"] by simp
  moreover have "last_snap (drop f (take k es)) = None"
    using None rows_of_split [OF fk] by (simp add: last_snap_None)
  then have "last_snap (take k es) = last_snap (take f (take k es))"
    using last_snap_append [of "take f (take k es)" "drop f (take k es)"] by (simp only: append_take_drop_id option.case)
  ultimately have "last_snap (take k es) = last_snap es" using fk by (simp add: min_def)
  then show ?thesis using held None by (simp add: write_snapshot_def slice_snapshot_last snaps_match_def)
next
  case (Some x)
  obtain q st where x: "x = (q, st)" by (cases x)
  have ls: "last_snap es = Some (q, st)"
    using Some x last_snap_append [of "take f es" "drop f es"] by simp
  note le = entries_ok_last_snap(3) [OF ok ls] and q = entries_ok_last_snap(1) [OF ok ls]
  have old: "sr_seq r \<le> i64_of q" if "r \<in> set sns" "sr_journal r = p" for r
  proof (cases "last_snap (take k es)")
    case None
    with held that show ?thesis by (auto simp: snaps_match_def filter_empty_conv)
  next
    case (Some y)
    obtain q' st' where y: "y = (q', st')" by (cases y)
    have "JSnapshot q' st' \<in> set es" using Some y last_snap_in [of "take k es"] in_set_takeD by fastforce
    then have "q' \<le> q" using le by fastforce
    then have "i64_of q' \<le> i64_of q" using q by (simp add: i64_small)
    moreover have "sr_seq r < i64_of q' \<or> r = snap_row sd p (q', st')"
      using held that Some y by (simp add: snaps_match_def)
    ultimately show ?thesis by (auto simp: snap_row_def)
  qed
  have ss: "slice_snapshot sd (drop f es) None = Some \<lparr>ps_seq = q, ps_state = sd_print sd st\<rparr>"
    using Some x by (simp add: slice_snapshot_last)
  show ?thesis
    using old by (fastforce simp: write_snapshot_def ss upsert_snapshot_def snaps_match_def ls snap_row_def)
qed

lemma snaps_match_other:
  "q \<noteq> p \<Longrightarrow> snaps_match sd q (write_snapshot p x sns) es = snaps_match sd q sns es"
proof -
  assume qp: "q \<noteq> p"
  have "filter (\<lambda>r. sr_journal r = q) (write_snapshot p x sns) = filter (\<lambda>r. sr_journal r = q) sns"
    using qp by (auto simp: write_snapshot_def upsert_snapshot_def split: option.splits intro!: filter_cong)
  moreover have "snap_row sd q y \<in> set (write_snapshot p x sns) \<longleftrightarrow> snap_row sd q y \<in> set sns" for y
    using qp by (auto simp: write_snapshot_def upsert_snapshot_def snap_row_def split: option.splits)
  ultimately show ?thesis by (simp add: snaps_match_def split: option.split)
qed

text \<open>A batch captured from the entries past the durable prefix.\<close>

definition captured :: "serde \<Rightarrow> journal_entry list \<Rightarrow> nat \<Rightarrow> pending_flush \<Rightarrow> bool" where
  "captured sd es f b \<longleftrightarrow>
     pf_events b = List.map_filter (serialize_event sd) (drop f es) \<and>
     pf_snapshot b = slice_snapshot sd (drop f es) None \<and> pf_end b = length es"

lemma write_statements:
  assumes "distinct (map pf_path ps)"
    "\<forall>b \<in> set ps. entries_ok sd (E (pf_path b)) \<and> F (pf_path b) \<le> K (pf_path b) \<and> K (pf_path b) \<le> length (E (pf_path b)) \<and>
       captured sd (E (pf_path b)) (F (pf_path b)) b \<and> holds_prefix sd (pf_path b) t (take (K (pf_path b)) (E (pf_path b)))"
  shows "\<exists>t'. write_pending_statements ps t = Some t' \<and> (\<forall>b \<in> set ps. holds_prefix sd (pf_path b) t' (E (pf_path b))) \<and>
    (\<forall>q es. q \<notin> pf_path ` set ps \<longrightarrow> holds_prefix sd q t' es = holds_prefix sd q t es)"
  using assms
proof (induction ps arbitrary: t)
  case (Cons b ps)
  obtain evs sns where t: "t = (evs, sns)" by (cases t)
  define p where "p = pf_path b"
  have b: "entries_ok sd (E p)" "F p \<le> K p" "K p \<le> length (E p)" "captured sd (E p) (F p) b"
      "path_rows p evs = rows_of sd p (take (K p) (E p))" "snaps_match sd p sns (take (K p) (E p))"
    using Cons.prems(2) by (simp_all add: p_def t holds_prefix_def)
  define t1 where "t1 = (evs @ rows_of sd p (drop (K p) (E p)), write_snapshot p (pf_snapshot b) sns)"
  have w: "write_rows (map (row_of p) (pf_events b)) evs = Some (fst t1)"
    using write_rows_prefix [OF b(1-3,5)] b(4) by (simp add: captured_def rows_of_def t1_def)
  have "rows_of sd p (E p) = rows_of sd p (take (K p) (E p)) @ rows_of sd p (drop (K p) (E p))"
    by (simp flip: rows_of_simps(2))
  then have own: "holds_prefix sd p t1 (E p)"
    using b snaps_match_step [OF b(1-3,6)] by (simp add: holds_prefix_def t1_def captured_def)
  have other: "q \<noteq> p \<Longrightarrow> holds_prefix sd q t1 es = holds_prefix sd q t es" for q es
    by (simp add: holds_prefix_def t1_def t snaps_match_other)
  have "\<exists>t'. write_pending_statements ps t1 = Some t' \<and> (\<forall>b \<in> set ps. holds_prefix sd (pf_path b) t' (E (pf_path b))) \<and>
      (\<forall>q es. q \<notin> pf_path ` set ps \<longrightarrow> holds_prefix sd q t' es = holds_prefix sd q t1 es)"
    using Cons.prems other by (intro Cons.IH) (auto simp: p_def image_iff)
  then obtain t' where t': "write_pending_statements ps t1 = Some t'"
      "\<forall>b \<in> set ps. holds_prefix sd (pf_path b) t' (E (pf_path b))"
      "\<forall>q es. q \<notin> pf_path ` set ps \<longrightarrow> holds_prefix sd q t' es = holds_prefix sd q t1 es"
    by blast
  have "write_pending_statements (b # ps) t = Some t'"
    using w t'(1) by (simp add: t p_def t1_def write_snapshot_def)
  moreover have "p \<notin> pf_path ` set ps" using Cons.prems(1) by (simp add: p_def)
  ultimately show ?case using t'(2,3) own other by (intro exI [of _ t']) (auto simp: p_def)
qed simp

subsection \<open>The invariant and the view of a store\<close>

definition open_buffer :: "daow \<Rightarrow> string \<Rightarrow> path_buffer option" where
  "open_buffer s p =
     (case map_of (dw_journals s) p of None \<Rightarrow> None | Some b \<Rightarrow> if bf_activating b then None else Some b)"

abbreviation bf_entries :: "path_buffer \<Rightarrow> journal_entry list" where
  "bf_entries b \<equiv> jn_entries (bf_journal b)"

definition stored_journal :: "serde \<Rightarrow> sql_db \<Rightarrow> string \<Rightarrow> journal" where
  "stored_journal sd db p =
     (case read_path_rows p db of
        None \<Rightarrow> journal_new
      | Some (rows, snapshot) \<Rightarrow>
          (case rebuild_journal sd rows snapshot of Done (Inr j) \<Rightarrow> j | _ \<Rightarrow> journal_new))"

definition daow_journal :: "serde \<Rightarrow> daow \<Rightarrow> string \<Rightarrow> journal" where
  "daow_journal sd s p =
     (case open_buffer s p of None \<Rightarrow> stored_journal sd (dw_db s) p | Some b \<Rightarrow> bf_journal b)"

definition daow_hist :: "serde \<Rightarrow> daow \<Rightarrow> string \<Rightarrow> journaled_event list" where
  "daow_hist sd s p = map (jd_norm sd) (events_in (jn_entries (daow_journal sd s p)))"

definition daow_snap :: "serde \<Rightarrow> daow \<Rightarrow> string \<Rightarrow> (seq_no \<times> json) option" where
  "daow_snap sd s p = last_snap (jn_entries (daow_journal sd s p))"

definition cold_ok :: "serde \<Rightarrow> sql_db \<Rightarrow> string \<Rightarrow> bool" where
  "cold_ok sd db p \<longleftrightarrow> (\<exists>es. entries_ok sd es \<and> durable sd db p es)"

definition buffer_ok :: "serde \<Rightarrow> sql_db \<Rightarrow> string \<Rightarrow> path_buffer \<Rightarrow> bool" where
  "buffer_ok sd db p b \<longleftrightarrow>
     entries_ok sd (bf_entries b) \<and> jn_event_count (bf_journal b) = length (events_in (bf_entries b)) \<and>
     (\<exists>k. bf_flushed b \<le> k \<and> k \<le> length (bf_entries b) \<and> durable sd db p (take k (bf_entries b)))"

definition path_ok :: "serde \<Rightarrow> daow \<Rightarrow> string \<Rightarrow> bool" where
  "path_ok sd s p \<longleftrightarrow>
     (case open_buffer s p of None \<Rightarrow> cold_ok sd (dw_db s) p | Some b \<Rightarrow> buffer_ok sd (dw_db s) p b)"

definition daow_ok :: "serde \<Rightarrow> daow \<Rightarrow> bool" where
  "daow_ok sd s \<longleftrightarrow> distinct (map fst (dw_journals s)) \<and> (\<forall>p. path_ok sd s p)"

definition view :: "serde \<Rightarrow> daow \<Rightarrow> (string \<Rightarrow> journaled_event list) \<times> (string \<Rightarrow> (seq_no \<times> json) option)" where
  "view sd s = (daow_hist sd s, daow_snap sd s)"

definition view_of :: "serde \<Rightarrow> journal_entry list \<Rightarrow> journaled_event list \<times> (seq_no \<times> json) option" where
  "view_of sd es = (map (jd_norm sd) (events_in es), last_snap es)"

definition view_at :: "serde \<Rightarrow> daow \<Rightarrow> string \<Rightarrow> journaled_event list \<times> (seq_no \<times> json) option" where
  "view_at sd s p = (daow_hist sd s p, daow_snap sd s p)"

lemma view_eqI: "(\<And>p. view_at sd s' p = view_at sd s p) \<Longrightarrow> view sd s' = view sd s"
  by (simp add: view_def view_at_def fun_eq_iff)

lemma view_open: "open_buffer s p = Some b \<Longrightarrow> view_at sd s p = view_of sd (bf_entries b)"
  by (simp add: view_at_def view_of_def daow_hist_def daow_snap_def daow_journal_def)

lemma view_cold:
  assumes "open_buffer s p = None" "entries_ok sd es" "durable sd (dw_db s) p es"
  shows "view_at sd s p = view_of sd es"
proof -
  have "stored_journal sd (dw_db s) p = cold_journal sd es"
    by (simp add: stored_journal_def read_path [OF assms(2,3)] rebuild_cold [OF assms(2)])
  then show ?thesis
    using assms(1) by (simp add: view_at_def view_of_def daow_hist_def daow_snap_def daow_journal_def
        cold_journal_facts comp_def)
qed

text \<open>A step that leaves a path's buffer and what the database holds of it leaves the path.\<close>

lemma path_same:
  assumes "open_buffer s' p = open_buffer s p" "\<And>es. durable sd (dw_db s') p es = durable sd (dw_db s) p es" "path_ok sd s p"
  shows "path_ok sd s' p \<and> view_at sd s' p = view_at sd s p"
proof (cases "open_buffer s p")
  case None
  then obtain es where es: "entries_ok sd es" "durable sd (dw_db s) p es"
    using assms(3) by (auto simp: path_ok_def cold_ok_def)
  then show ?thesis
    using assms None view_cold [OF None es] view_cold [of s' p sd es] by (auto simp: path_ok_def cold_ok_def)
next
  case (Some b)
  then show ?thesis using assms view_open [OF Some] view_open [of s' p b] by (simp add: path_ok_def buffer_ok_def)
qed

lemma open_buffer_put [simp]:
  "open_buffer (put_buffer q b s) p = (if p = q then (if bf_activating b then None else Some b) else open_buffer s p)"
  "open_buffer (drop_buffer q s) p = (if p = q then None else open_buffer s p)"
  by (simp_all add: open_buffer_def put_buffer_def drop_buffer_def)

lemma put_buffer_fields [simp]:
  "dw_db (put_buffer q b s) = dw_db s" "dw_db (drop_buffer q s) = dw_db s"
  "dw_ingest (put_buffer q b s) = dw_ingest s" "dw_ingest (drop_buffer q s) = dw_ingest s"
  "dw_pool (put_buffer q b s) = dw_pool s" "dw_pool (drop_buffer q s) = dw_pool s"
  by (simp_all add: put_buffer_def drop_buffer_def)

lemma open_buffer_cong: "dw_journals s' = dw_journals s \<Longrightarrow> open_buffer s' p = open_buffer s p"
  by (simp add: open_buffer_def)

text \<open>A step that changes one path only.\<close>

lemma one_path:
  assumes ok: "daow_ok sd s" and d: "distinct (map fst (dw_journals s'))" and db: "dw_db s' = dw_db s"
    and rest: "\<And>q. q \<noteq> p \<Longrightarrow> open_buffer s' q = open_buffer s q" and own: "path_ok sd s' p"
  shows "daow_ok sd s'" "q \<noteq> p \<Longrightarrow> view_at sd s' q = view_at sd s q"
proof -
  have same: "q \<noteq> p \<Longrightarrow> path_ok sd s' q \<and> view_at sd s' q = view_at sd s q" for q
    using ok by (intro path_same) (simp_all add: rest db daow_ok_def)
  then show "daow_ok sd s'" using own d unfolding daow_ok_def by (metis (full_types))
  show "q \<noteq> p \<Longrightarrow> view_at sd s' q = view_at sd s q" using same by blast
qed

subsection \<open>Flushing keeps every history\<close>

lemma distinct_put_buffer [simp]:
  "distinct (map fst (dw_journals s)) \<Longrightarrow> distinct (map fst (dw_journals (put_buffer q b s)))"
  "distinct (map fst (dw_journals s)) \<Longrightarrow> distinct (map fst (dw_journals (drop_buffer q s)))"
  by (simp_all add: put_buffer_def drop_buffer_def)

lemma open_buffer_Some: "open_buffer s p = Some b \<longleftrightarrow> map_of (dw_journals s) p = Some b \<and> \<not> bf_activating b"
  by (auto simp: open_buffer_def split: option.splits)

lemma path_ok_open:
  "open_buffer s p = Some b \<Longrightarrow> path_ok sd s p = buffer_ok sd (dw_db s) p b"
  by (simp add: path_ok_def)

lemma commit_one_ok:
  assumes ok: "daow_ok sd s" and b: "open_buffer s (pf_path c) = Some b" and e: "pf_end c \<le> length (bf_entries b)"
    and d: "durable sd (dw_db s) (pf_path c) (take (pf_end c) (bf_entries b))"
  shows "daow_ok sd (commit_one c s) \<and> view sd (commit_one c s) = view sd s \<and> dw_db (commit_one c s) = dw_db s \<and>
    dw_ingest (commit_one c s) = dw_ingest s \<and>
    (\<forall>q. q \<noteq> pf_path c \<longrightarrow> open_buffer (commit_one c s) q = open_buffer s q)"
proof -
  let ?p = "pf_path c"
  have bo: "buffer_ok sd (dw_db s) ?p b" "\<not> bf_activating b" "map_of (dw_journals s) ?p = Some b"
    using ok b path_ok_open [OF b, of sd] by (simp_all add: daow_ok_def open_buffer_Some)
  have dist: "distinct (map fst (dw_journals s))" using ok by (simp add: daow_ok_def)
  have keep: ?thesis if x: "commit_one c s = put_buffer ?p b1 s" and b1: "bf_journal b1 = bf_journal b"
      "bf_flushed b1 = pf_end c" "\<not> bf_activating b1" for b1
  proof -
    have ob: "open_buffer (put_buffer ?p b1 s) ?p = Some b1" using b1 by simp
    have "path_ok sd (put_buffer ?p b1 s) ?p"
      unfolding path_ok_open [OF ob] using bo(1) d e by (auto simp: buffer_ok_def b1)
    note one = one_path [OF ok _ _ _ this]
    have "view_at sd (put_buffer ?p b1 s) q = view_at sd s q" for q
      using one(2) [of q] view_open [OF ob, of sd] view_open [OF b, of sd] dist b1(1) by (cases "q = ?p") simp_all
    then have "view sd (put_buffer ?p b1 s) = view sd s" by (rule view_eqI)
    moreover have "daow_ok sd (put_buffer ?p b1 s)" by (rule one(1)) (simp_all add: dist)
    ultimately show ?thesis by (simp add: x)
  qed
  show ?thesis
  proof (cases "bf_drop_when_durable b \<and> pf_drop c \<and> jn_len (bf_journal b) = pf_end c")
    case False
    then consider "commit_one c s = put_buffer ?p (b\<lparr>bf_flushed := pf_end c\<rparr>) s"
      | "commit_one c s = put_buffer ?p (b\<lparr>bf_flushed := pf_end c, bf_drop_when_durable := False\<rparr>) s"
      using bo(3) by (cases "bf_drop_when_durable b \<and> pf_drop c") (simp_all add: commit_one_def Let_def)
    then show ?thesis by cases (erule keep; simp add: bo(2))+
  next
    case True
    then have all: "durable sd (dw_db s) ?p (bf_entries b)" using d by (simp add: jn_len_def)
    have x: "commit_one c s = drop_buffer ?p s" using True bo(3) by (simp add: commit_one_def Let_def)
    have ob: "open_buffer (drop_buffer ?p s) ?p = None" by simp
    have es: "entries_ok sd (bf_entries b)" using bo(1) by (simp add: buffer_ok_def)
    have "path_ok sd (drop_buffer ?p s) ?p" using all es by (auto simp: path_ok_def cold_ok_def)
    note one = one_path [OF ok _ _ _ this]
    have "view_at sd (drop_buffer ?p s) q = view_at sd s q" for q
      using one(2) [of q] view_cold [OF ob es] all view_open [OF b, of sd] dist by (cases "q = ?p") simp_all
    then have "view sd (drop_buffer ?p s) = view sd s" by (rule view_eqI)
    moreover have "daow_ok sd (drop_buffer ?p s)" by (rule one(1)) (simp_all add: dist)
    ultimately show ?thesis by (simp add: x)
  qed
qed

lemma commit_flush_ok:
  assumes "daow_ok sd s" "distinct (map pf_path cs)"
    "\<forall>c \<in> set cs. \<exists>b. open_buffer s (pf_path c) = Some b \<and> pf_end c \<le> length (bf_entries b) \<and>
       durable sd (dw_db s) (pf_path c) (take (pf_end c) (bf_entries b))"
  shows "daow_ok sd (commit_flush cs s) \<and> view sd (commit_flush cs s) = view sd s \<and>
    dw_db (commit_flush cs s) = dw_db s \<and> dw_ingest (commit_flush cs s) = dw_ingest s"
  using assms
proof (induction cs arbitrary: s)
  case (Cons c cs)
  obtain b where b: "open_buffer s (pf_path c) = Some b" "pf_end c \<le> length (bf_entries b)"
      "durable sd (dw_db s) (pf_path c) (take (pf_end c) (bf_entries b))"
    using Cons.prems(3) by auto
  note one = commit_one_ok [OF Cons.prems(1) b]
  have "daow_ok sd (commit_flush cs (commit_one c s)) \<and> view sd (commit_flush cs (commit_one c s)) = view sd (commit_one c s) \<and>
    dw_db (commit_flush cs (commit_one c s)) = dw_db (commit_one c s) \<and>
    dw_ingest (commit_flush cs (commit_one c s)) = dw_ingest (commit_one c s)"
  proof (rule Cons.IH)
    show "\<forall>c' \<in> set cs. \<exists>b. open_buffer (commit_one c s) (pf_path c') = Some b \<and> pf_end c' \<le> length (bf_entries b) \<and>
        durable sd (dw_db (commit_one c s)) (pf_path c') (take (pf_end c') (bf_entries b))"
    proof
      fix c' assume c': "c' \<in> set cs"
      then have "pf_path c' \<noteq> pf_path c" using Cons.prems(2) by (auto simp: image_iff)
      then show "\<exists>b. open_buffer (commit_one c s) (pf_path c') = Some b \<and> pf_end c' \<le> length (bf_entries b) \<and>
          durable sd (dw_db (commit_one c s)) (pf_path c') (take (pf_end c') (bf_entries b))"
        using Cons.prems(3) c' one by simp
    qed
  qed (use Cons.prems(2) one in simp_all)
  then show ?case using one by (simp add: commit_flush_def)
qed (simp add: commit_flush_def)

text \<open>
  A batch that was captured for an open buffer; appends that came after the capture leave it one, for
  the entries of a buffer only grow.
\<close>

definition fits :: "serde \<Rightarrow> daow \<Rightarrow> pending_flush \<Rightarrow> bool" where
  "fits sd s c \<longleftrightarrow>
     (\<exists>b k. open_buffer s (pf_path c) = Some b \<and> pf_end c \<le> length (bf_entries b) \<and>
        bf_flushed b \<le> k \<and> k \<le> pf_end c \<and> durable sd (dw_db s) (pf_path c) (take k (bf_entries b)) \<and>
        captured sd (take (pf_end c) (bf_entries b)) (bf_flushed b) c)"

lemma durable_tables: "tables (dw_db s) = Some t \<Longrightarrow> durable sd (dw_db s) p es = holds_prefix sd p t es"
  by (simp add: durable_def)

lemma tx_ok:
  assumes ok: "daow_ok sd s" and d: "distinct (map pf_path ps)" and fit: "\<forall>c \<in> set ps. fits sd s c" and ne: "ps \<noteq> []"
  shows "\<exists>db'. write_pending_tx ps (dw_db s) = (Some (), db') \<and>
    (\<forall>c \<in> set ps. \<forall>b. open_buffer s (pf_path c) = Some b \<longrightarrow>
       durable sd db' (pf_path c) (take (pf_end c) (bf_entries b))) \<and>
    (\<forall>q es. q \<notin> pf_path ` set ps \<longrightarrow> durable sd db' q es = durable sd (dw_db s) q es)"
proof -
  obtain c0 where "c0 \<in> set ps" using ne by (cases ps) auto
  then obtain t where t: "tables (dw_db s) = Some t" using fit by (fastforce simp: fits_def durable_def)
  define B where "B p = the (open_buffer s p)" for p
  define N where "N p = pf_end (the (List.find (\<lambda>c. pf_path c = p) ps))" for p
  have N: "c \<in> set ps \<Longrightarrow> N (pf_path c) = pf_end c" for c
  proof -
    assume c: "c \<in> set ps"
    have "inj_on pf_path (set ps)" using d by (simp add: distinct_map)
    then have "List.find (\<lambda>x. pf_path x = pf_path c) ps = Some c"
      using c by (intro find_unique) (auto simp: inj_on_def)
    then show "N (pf_path c) = pf_end c" by (simp add: N_def)
  qed
  define E where "E p = take (N p) (bf_entries (B p))" for p
  define F where "F p = bf_flushed (B p)" for p
  define K where "K p = (SOME k. F p \<le> k \<and> k \<le> N p \<and> holds_prefix sd p t (take k (bf_entries (B p))))" for p
  have all: "entries_ok sd (E p) \<and> F p \<le> K p \<and> K p \<le> length (E p) \<and> captured sd (E p) (F p) c \<and>
      holds_prefix sd p t (take (K p) (E p))" if c: "c \<in> set ps" and p: "p = pf_path c" for c p
  proof -
    obtain b k where b: "open_buffer s p = Some b" "pf_end c \<le> length (bf_entries b)" "bf_flushed b \<le> k"
        "k \<le> pf_end c" "holds_prefix sd p t (take k (bf_entries b))" "captured sd (take (pf_end c) (bf_entries b)) (bf_flushed b) c"
      using fit c p durable_tables [OF t] by (auto simp: fits_def)
    have Bp: "B p = b" "N p = pf_end c" using b(1) N [OF c] p by (simp_all add: B_def)
    have "\<exists>k. F p \<le> k \<and> k \<le> N p \<and> holds_prefix sd p t (take k (bf_entries (B p)))"
      using b by (auto simp: F_def Bp)
    then have K: "F p \<le> K p \<and> K p \<le> N p \<and> holds_prefix sd p t (take (K p) (bf_entries (B p)))"
      unfolding K_def by (rule someI_ex)
    have "entries_ok sd (bf_entries b)" using ok b(1) by (simp add: daow_ok_def path_ok_open [OF b(1)] buffer_ok_def) (metis buffer_ok_def path_ok_open b(1))
    then show ?thesis using K b(2,6) by (simp add: E_def Bp F_def entries_ok_take min_def)
  qed
  obtain t' where t': "write_pending_statements ps t = Some t'"
      "\<forall>c \<in> set ps. holds_prefix sd (pf_path c) t' (E (pf_path c))"
      "\<forall>q es. q \<notin> pf_path ` set ps \<longrightarrow> holds_prefix sd q t' es = holds_prefix sd q t es"
    using write_statements [OF d, of sd E F K t] all by blast
  define db' where "db' = (dw_db s)\<lparr>db_events := Some (fst t'), db_snapshots := Some (snd t')\<rparr>"
  have "write_pending_tx ps (dw_db s) = (Some (), db')"
    using t t'(1) by (auto simp: write_pending_tx_def db'_def split: option.splits)
  moreover have tb: "tables db' = Some t'" by (simp add: db'_def)
  ultimately show ?thesis
    using t' durable_tables [OF t] N
    by (intro exI [of _ db']) (auto simp: durable_def tb E_def B_def)
qed

text \<open>Pool answers, the control handler and the arrival counter are no part of a history.\<close>

lemma same_store:
  assumes "dw_journals s' = dw_journals s" "dw_db s' = dw_db s"
  shows "daow_ok sd s' = daow_ok sd s" "view sd s' = view sd s"
proof -
  have p: "path_ok sd s' p = path_ok sd s p" for p by (simp add: path_ok_def open_buffer_cong [OF assms(1)] assms(2) split: option.split)
  then show "daow_ok sd s' = daow_ok sd s" by (simp add: daow_ok_def assms(1))
  have "daow_journal sd s' p = daow_journal sd s p" for p
    by (simp add: daow_journal_def open_buffer_cong [OF assms(1)] assms(2) split: option.split)
  then show "view sd s' = view sd s" by (simp add: view_def daow_hist_def daow_snap_def fun_eq_iff)
qed

lemma pool_answer_fields:
  "pool_answer s = (a, s') \<Longrightarrow> dw_journals s' = dw_journals s \<and> dw_db s' = dw_db s \<and> dw_ingest s' = dw_ingest s"
  by (auto simp: pool_answer_def split: list.splits)

lemma report_fields [simp]:
  "dw_journals (report op err s) = dw_journals s" "dw_db (report op err s) = dw_db s" "dw_ingest (report op err s) = dw_ingest s"
  by (simp_all add: report_def)

lemma with_conn_read:
  assumes "with_conn (\<lambda>db. (q db, db)) s = (r, s')"
  shows "dw_journals s' = dw_journals s" "dw_db s' = dw_db s" "dw_ingest s' = dw_ingest s"
    "r = None \<or> r = q (dw_db s)" "dw_pool s = [] \<Longrightarrow> r = q (dw_db s)"
proof -
  obtain a s1 where a: "pool_answer s = (a, s1)" by fastforce
  note f = pool_answer_fields [OF a]
  show "dw_journals s' = dw_journals s" "dw_db s' = dw_db s" "dw_ingest s' = dw_ingest s" "r = None \<or> r = q (dw_db s)"
    using assms f a by (cases a; auto simp: with_conn_def)+
  show "dw_pool s = [] \<Longrightarrow> r = q (dw_db s)"
    using assms by (auto simp: with_conn_def pool_answer_def)
qed

text \<open>
  The write of captured batches: whatever the pool answers, no history changes; a success makes the
  batches durable.
\<close>

lemma write_pending_ok:
  assumes ok: "daow_ok sd s" and d: "distinct (map pf_path ps)" and fit: "\<forall>c \<in> set ps. fits sd s c"
    and w: "write_pending ps s = (r, s')"
  shows "daow_ok sd s' \<and> view sd s' = view sd s \<and> dw_ingest s' = dw_ingest s \<and> (r = Inr () \<or> r = Inl AppendError) \<and>
    (r = Inr () \<longrightarrow> (\<forall>c \<in> set ps. \<forall>b. open_buffer s (pf_path c) = Some b \<longrightarrow>
       durable sd (dw_db s') (pf_path c) (take (pf_end c) (bf_entries b))))"
proof (cases "ps = []")
  case True
  then show ?thesis using w ok by (simp add: write_pending_def)
next
  case ne: False
  obtain db' where tx: "write_pending_tx ps (dw_db s) = (Some (), db')"
    and own: "\<And>c b. c \<in> set ps \<Longrightarrow> open_buffer s (pf_path c) = Some b \<Longrightarrow>
       durable sd db' (pf_path c) (take (pf_end c) (bf_entries b))"
    and other: "\<And>q es. q \<notin> pf_path ` set ps \<Longrightarrow> durable sd db' q es = durable sd (dw_db s) q es"
    using tx_ok [OF ok d fit ne] by blast
  obtain a s1 where a: "pool_answer s = (a, s1)" by fastforce
  note f = pool_answer_fields [OF a]
  define s2 where "s2 = s1\<lparr>dw_db := db'\<rparr>"
  have j2: "dw_journals s2 = dw_journals s" "dw_ingest s2 = dw_ingest s" "dw_db s2 = db'" using f by (simp_all add: s2_def)
  have ob: "open_buffer s2 p = open_buffer s p" for p by (rule open_buffer_cong) (rule j2)
  have per: "path_ok sd s2 p \<and> view_at sd s2 p = view_at sd s p" for p
  proof (cases "p \<in> pf_path ` set ps")
    case False
    have "path_ok sd s p" using ok by (simp add: daow_ok_def)
    then show ?thesis using path_same [of s2 p s sd] ob other [OF False] j2(3) by simp
  next
    case True
    then obtain c where c: "c \<in> set ps" "p = pf_path c" by blast
    then obtain b k where b: "open_buffer s p = Some b" "pf_end c \<le> length (bf_entries b)" "bf_flushed b \<le> k" "k \<le> pf_end c"
      using fit by (auto simp: fits_def)
    have "buffer_ok sd (dw_db s) p b" using ok b(1) by (simp add: daow_ok_def path_ok_open [symmetric])
    then have "buffer_ok sd db' p b"
      using own [OF c(1)] b c(2) unfolding buffer_ok_def by (meson order_trans)
    then show ?thesis
      using ob [of p] b(1) j2(3) view_open [of s p b sd] view_open [of s2 p b sd] by (simp add: path_ok_open)
  qed
  have ok2: "daow_ok sd s2" using per ok j2(1) by (simp add: daow_ok_def)
  have v2: "view sd s2 = view sd s" by (rule view_eqI) (simp add: per)
  have wc: "with_conn (write_pending_tx ps) s =
      (case a of PoolRefused \<Rightarrow> (None, s1) | PoolLostAnswer \<Rightarrow> (None, s2) | PoolOk \<Rightarrow> (Some (), s2))"
    using a tx f by (cases a) (simp_all add: with_conn_def s2_def)
  show ?thesis
  proof (cases a)
    case PoolRefused
    then have "s' = s1" "r = Inl AppendError" using w wc ne by (simp_all add: write_pending_def)
    then show ?thesis using same_store [of s1 s sd] f ok by simp
  next
    case PoolLostAnswer
    then have "s' = s2" "r = Inl AppendError" using w wc ne by (simp_all add: write_pending_def)
    then show ?thesis using ok2 v2 j2 by simp
  next
    case PoolOk
    then have s': "s' = commit_flush ps s2" "r = Inr ()" using w wc ne by (simp_all add: write_pending_def)
    have "\<forall>c \<in> set ps. \<exists>b. open_buffer s2 (pf_path c) = Some b \<and> pf_end c \<le> length (bf_entries b) \<and>
        durable sd (dw_db s2) (pf_path c) (take (pf_end c) (bf_entries b))"
      using fit own by (fastforce simp: fits_def ob j2)
    from commit_flush_ok [OF ok2 d this] show ?thesis using s' v2 j2 own by simp
  qed
qed

text \<open>Other paths keep their rows.\<close>

lemma write_pending_other:
  assumes ok: "daow_ok sd s" and d: "distinct (map pf_path ps)" and fit: "\<forall>c \<in> set ps. fits sd s c"
    and w: "write_pending ps s = (r, s')" and q: "q \<notin> pf_path ` set ps"
  shows "durable sd (dw_db s') q es = durable sd (dw_db s) q es"
proof (cases "ps = []")
  case True
  then show ?thesis using w by (simp add: write_pending_def)
next
  case ne: False
  obtain db' where tx: "write_pending_tx ps (dw_db s) = (Some (), db')"
    and other: "durable sd db' q es = durable sd (dw_db s) q es"
    using tx_ok [OF ok d fit ne] q by blast
  have c: "dw_db (commit_flush cs x) = dw_db x" for cs x
    by (induction cs arbitrary: x) (simp_all add: commit_flush_def commit_one_def Let_def split: option.split)
  obtain a s1 where a: "pool_answer s = (a, s1)" by fastforce
  have "dw_db s' = dw_db s \<or> dw_db s' = db'"
    using w ne tx a pool_answer_fields [OF a]
    by (cases a) (auto simp: write_pending_def with_conn_def c split: option.splits)
  then show ?thesis using other by auto
qed

text \<open>What a flush collects fits.\<close>

lemma pending_of_facts:
  "pending_of sd p b = Some c \<Longrightarrow>
   pf_path c = p \<and> captured sd (bf_entries b) (bf_flushed b) c \<and> pf_drop c = bf_drop_when_durable b"
  by (auto simp: pending_of_def Let_def captured_def jn_len_def split: if_splits)

lemma collect_pending_paths:
  assumes "distinct (map fst (dw_journals s))"
  shows "distinct (map pf_path (collect_pending sd target s))"
    "c \<in> set (collect_pending sd target s) \<Longrightarrow>
     \<exists>b. map_of (dw_journals s) (pf_path c) = Some b \<and> pending_of sd (pf_path c) b = Some c"
proof -
  have "distinct (map fst xs) \<Longrightarrow> distinct (map pf_path (List.map_filter (\<lambda>(p, b). pending_of sd p b) xs)) \<and>
      (\<forall>c \<in> set (List.map_filter (\<lambda>(p, b). pending_of sd p b) xs). \<exists>b. (pf_path c, b) \<in> set xs \<and> pending_of sd (pf_path c) b = Some c)" for xs
  proof (induction xs)
    case (Cons x xs)
    obtain p b where x: "x = (p, b)" by (cases x)
    show ?case
    proof (cases "pending_of sd p b")
      case (Some c)
      have "pf_path c' \<in> fst ` set xs" if "c' \<in> set (List.map_filter (\<lambda>(p, b). pending_of sd p b) xs)" for c'
        using Cons that by force
      then show ?thesis using Cons Some x pending_of_facts [OF Some] by (fastforce simp: List.map_filter_simps)
    qed (use Cons x in \<open>auto simp: List.map_filter_simps\<close>)
  qed (simp add: List.map_filter_simps)
  from this [of "filter (\<lambda>(path, b). target = None \<or> target = Some path) (dw_journals s)"] assms
  show "distinct (map pf_path (collect_pending sd target s))"
    "c \<in> set (collect_pending sd target s) \<Longrightarrow>
     \<exists>b. map_of (dw_journals s) (pf_path c) = Some b \<and> pending_of sd (pf_path c) b = Some c"
    by (auto simp: collect_pending_def distinct_map_filter map_of_eq_Some_iff)
qed

lemma collect_pending_fits:
  assumes ok: "daow_ok sd s" and act: "\<And>p b. map_of (dw_journals s) p = Some b \<Longrightarrow> bf_activating b \<Longrightarrow> pending_of sd p b = None"
    and c: "c \<in> set (collect_pending sd target s)"
  shows "fits sd s c"
proof -
  obtain b where b: "map_of (dw_journals s) (pf_path c) = Some b" "pending_of sd (pf_path c) b = Some c"
    using collect_pending_paths(2) [OF _ c] ok by (auto simp: daow_ok_def)
  then have o: "open_buffer s (pf_path c) = Some b" using act [OF b(1)] by (auto simp: open_buffer_Some)
  then have "buffer_ok sd (dw_db s) (pf_path c) b" using ok by (simp add: daow_ok_def path_ok_open [symmetric])
  then show ?thesis
    using o pending_of_facts [OF b(2)] by (fastforce simp: fits_def buffer_ok_def captured_def)
qed

subsection \<open>The operations\<close>

text \<open>A placeholder is empty, and arrival numbers in use are below the counter.\<close>

definition daow_inv :: "serde \<Rightarrow> daow \<Rightarrow> bool" where
  "daow_inv sd s \<longleftrightarrow> daow_ok sd s \<and>
     (\<forall>p b. map_of (dw_journals s) p = Some b \<longrightarrow> bf_activating b \<longrightarrow> b = buffer_activating) \<and>
     (\<forall>p. \<forall>d \<in> set (daow_hist sd s p). jd_ingest d < dw_ingest s)"

definition ready :: "daow \<Rightarrow> string \<Rightarrow> bool" where
  "ready s p \<longleftrightarrow>
     (case map_of (dw_journals s) p of
        Some b \<Rightarrow> \<not> bf_activating b
      | None \<Rightarrow> read_path_rows p (dw_db s) = Some ([], None))"

lemma ready_open: "open_buffer s p = Some b \<Longrightarrow> ready s p"
  by (simp add: open_buffer_Some ready_def)

lemma daow_inv_fits:
  assumes "daow_inv sd s"
  shows "distinct (map pf_path (collect_pending sd target s))" "\<forall>c \<in> set (collect_pending sd target s). fits sd s c"
proof -
  have ok: "daow_ok sd s" and d: "distinct (map fst (dw_journals s))" using assms by (simp_all add: daow_inv_def daow_ok_def)
  show "distinct (map pf_path (collect_pending sd target s))" by (rule collect_pending_paths(1) [OF d])
  have "pending_of sd p b = None" if "map_of (dw_journals s) p = Some b" "bf_activating b" for p b
  proof -
    have "b = buffer_activating" using assms that by (simp add: daow_inv_def)
    then show ?thesis by (simp add: pending_of_def buffer_activating_def buffer_new_def journal_new_def jn_len_def)
  qed
  then show "\<forall>c \<in> set (collect_pending sd target s). fits sd s c" using collect_pending_fits [OF ok] by blast
qed

lemma view_hist: "view sd s' = view sd s \<Longrightarrow> daow_hist sd s' = daow_hist sd s \<and> daow_snap sd s' = daow_snap sd s"
  by (simp add: view_def)

text \<open>Buffers a flush leaves behind are those it found, or fewer.\<close>

lemma commit_flush_placeholders:
  "\<forall>p b. map_of (dw_journals s) p = Some b \<longrightarrow> bf_activating b \<longrightarrow> b = buffer_activating \<Longrightarrow>
   \<forall>c \<in> set cs. \<exists>b. open_buffer s (pf_path c) = Some b \<Longrightarrow> distinct (map pf_path cs) \<Longrightarrow>
   \<forall>p b. map_of (dw_journals (commit_flush cs s)) p = Some b \<longrightarrow> bf_activating b \<longrightarrow> b = buffer_activating"
proof (induction cs arbitrary: s)
  case (Cons c cs)
  obtain b where b: "map_of (dw_journals s) (pf_path c) = Some b" "\<not> bf_activating b"
    using Cons.prems(2) by (auto simp: open_buffer_Some)
  have "\<forall>p b. map_of (dw_journals (commit_one c s)) p = Some b \<longrightarrow> bf_activating b \<longrightarrow> b = buffer_activating"
    using Cons.prems(1) b by (auto simp: commit_one_def Let_def put_buffer_def drop_buffer_def)
  moreover have "p \<noteq> pf_path c \<Longrightarrow> open_buffer (commit_one c s) p = open_buffer s p" for p
    using b by (auto simp: commit_one_def Let_def)
  then have "\<forall>c' \<in> set cs. \<exists>b. open_buffer (commit_one c s) (pf_path c') = Some b"
    using Cons.prems(2,3) by (auto simp: image_iff)
  ultimately show ?case using Cons.IH [of "commit_one c s"] Cons.prems(3) by (simp add: commit_flush_def)
qed (simp add: commit_flush_def)

lemma write_pending_inv:
  assumes inv: "daow_inv sd s" and d: "distinct (map pf_path ps)" and fit: "\<forall>c \<in> set ps. fits sd s c"
    and w: "write_pending ps s = (r, s')"
  shows "daow_inv sd s' \<and> view sd s' = view sd s"
proof -
  note f = write_pending_ok [OF _ d fit w]
  obtain a s1 where a: "pool_answer s = (a, s1)" by fastforce
  obtain r2 s2 where w2: "with_conn (write_pending_tx ps) s = (r2, s2)" by fastforce
  then have j: "dw_journals s2 = dw_journals s"
    using a pool_answer_fields [OF a] by (cases a) (auto simp: with_conn_def split: prod.splits)
  have "s' = s \<or> s' = s2 \<or> s' = commit_flush ps s2" using w w2 by (auto simp: write_pending_def split: if_splits option.splits)
  moreover have "\<forall>c \<in> set ps. \<exists>b. open_buffer s2 (pf_path c) = Some b"
    using fit by (auto simp: fits_def open_buffer_cong [OF j])
  ultimately have "\<forall>p b. map_of (dw_journals s') p = Some b \<longrightarrow> bf_activating b \<longrightarrow> b = buffer_activating"
    using commit_flush_placeholders [of s2 ps] inv d j by (auto simp: daow_inv_def)
  then show ?thesis using f inv view_hist [of sd s' s] by (simp add: daow_inv_def)
qed

lemma inv_same_store:
  "dw_journals s' = dw_journals s \<Longrightarrow> dw_db s' = dw_db s \<Longrightarrow> dw_ingest s' = dw_ingest s \<Longrightarrow>
   daow_inv sd s \<Longrightarrow> daow_inv sd s' \<and> view sd s' = view sd s"
  using same_store [of s' s sd] view_hist [of sd s' s] by (simp add: daow_inv_def)

lemma daow_flush_inv:
  assumes "daow_inv sd s" "daow_flush sd s = (r, s')"
  shows "daow_inv sd s' \<and> view sd s' = view sd s"
proof -
  obtain r1 s1 where w: "write_pending (collect_pending sd None s) s = (r1, s1)" by fastforce
  have f: "daow_inv sd s1 \<and> view sd s1 = view sd s" by (rule write_pending_inv [OF assms(1) daow_inv_fits [OF assms(1)] w])
  have "s' = s1 \<or> s' = report ''flush'' (projl r1) s1" using assms(2) w by (auto simp: daow_flush_def split: sum.splits)
  then show ?thesis using f inv_same_store [of s' s1 sd] by auto
qed

text \<open>Entries added at the end of an open buffer.\<close>

lemma grow_buffer:
  assumes inv: "daow_inv sd s" and b: "open_buffer s p = Some b" and j: "jn_entries j = bf_entries b @ new"
    "jn_event_count j = length (events_in (jn_entries j))" and ok: "entries_ok sd (jn_entries j)"
    and i: "dw_ingest s \<le> i" "\<forall>d \<in> set (events_in new). jd_ingest d < i"
    and s': "s' = put_buffer p (b\<lparr>bf_journal := j\<rparr>) (s\<lparr>dw_ingest := i\<rparr>)"
  shows "daow_inv sd s'" "view_at sd s' p = view_of sd (jn_entries j)" "q \<noteq> p \<Longrightarrow> view_at sd s' q = view_at sd s q"
    "ready s q \<Longrightarrow> ready s' q"
proof -
  have dok: "daow_ok sd s" using inv by (simp add: daow_inv_def)
  have ob: "open_buffer s' q = (if q = p then Some (b\<lparr>bf_journal := j\<rparr>) else open_buffer s q)" for q
    using b by (simp add: s' open_buffer_Some open_buffer_cong [of "s\<lparr>dw_ingest := i\<rparr>" s])
  have own: "open_buffer s' p = Some (b\<lparr>bf_journal := j\<rparr>)" by (simp add: ob)
  have db: "dw_db s' = dw_db s" by (simp add: s')
  have "buffer_ok sd (dw_db s) p b" using dok b by (simp add: daow_ok_def path_ok_open [symmetric])
  then obtain k where k: "bf_flushed b \<le> k" "k \<le> length (bf_entries b)" "durable sd (dw_db s) p (take k (bf_entries b))"
    by (auto simp: buffer_ok_def)
  then have "durable sd (dw_db s) p (take k (jn_entries j))" by (simp add: j(1))
  then have "path_ok sd s' p"
    unfolding path_ok_open [OF own] using ok j k(1,2) by (auto simp: buffer_ok_def db)
  moreover have "distinct (map fst (dw_journals s'))" using dok by (simp add: s' daow_ok_def)
  ultimately have one: "daow_ok sd s'" "q \<noteq> p \<Longrightarrow> view_at sd s' q = view_at sd s q" for q
    using one_path [OF dok _ db, of p] ob by (simp_all add: if_distrib)
  show va: "view_at sd s' p = view_of sd (jn_entries j)" using view_open [OF own] by simp
  show "q \<noteq> p \<Longrightarrow> view_at sd s' q = view_at sd s q" by (rule one(2))
  show "ready s q \<Longrightarrow> ready s' q" using b db by (auto simp: ready_def s' put_buffer_def open_buffer_Some split: option.splits)
  have pl: "\<forall>q b'. map_of (dw_journals s') q = Some b' \<longrightarrow> bf_activating b' \<longrightarrow> b' = buffer_activating"
    using inv b by (auto simp: s' put_buffer_def daow_inv_def open_buffer_Some)
  have "\<forall>d \<in> set (daow_hist sd s' q). jd_ingest d < dw_ingest s'" for q
  proof (cases "q = p")
    case True
    have h: "daow_hist sd s' p = map (jd_norm sd) (events_in (bf_entries b)) @ map (jd_norm sd) (events_in new)"
      using va by (simp add: view_at_def view_of_def j(1))
    have "daow_hist sd s p = map (jd_norm sd) (events_in (bf_entries b))"
      using view_open [OF b, of sd] by (simp add: view_at_def view_of_def)
    then have "\<forall>d \<in> set (events_in (bf_entries b)). jd_ingest d < dw_ingest s"
      using inv unfolding daow_inv_def by (metis (no_types, lifting) image_eqI jd_norm_simps(3) list.set_map)
    then show ?thesis using True h i by (auto simp: s')
  next
    case False
    then have "daow_hist sd s' q = daow_hist sd s q" using one(2) by (simp add: view_at_def)
    then show ?thesis using inv i(1) by (fastforce simp: daow_inv_def s')
  qed
  then show "daow_inv sd s'" using one(1) pl by (simp add: daow_inv_def)
qed

text \<open>A path that is ready has a buffer, or nothing of it is stored.\<close>

lemma ready_cold:
  assumes "daow_ok sd s" "open_buffer s p = None" "ready s p"
  shows "map_of (dw_journals s) p = None" "durable sd (dw_db s) p []" "view_at sd s p = view_of sd []"
proof -
  show none: "map_of (dw_journals s) p = None"
    using assms(2,3) by (auto simp: ready_def open_buffer_def split: option.splits if_splits)
  obtain es where es: "entries_ok sd es" "durable sd (dw_db s) p es"
  proof -
    have "path_ok sd s p" using assms(1) by (simp add: daow_ok_def)
    then show ?thesis using assms(2) that by (auto simp: path_ok_def cold_ok_def)
  qed
  have "rows_of sd p es = []" "last_snap es = None"
    using assms(3) none read_path [OF es] by (simp_all add: ready_def)
  then show "durable sd (dw_db s) p []" using es(2) durable_cong [of sd p es "[]"] by simp
  then show "view_at sd s p = view_of sd []" using view_cold [OF assms(2) entries_ok_nil] by blast
qed

lemma mutable_ready:
  assumes inv: "daow_inv sd s" and r: "ready s p"
  obtains b s1 where "mutable_buffer p s = (Some b, s1)" "open_buffer s1 p = Some b" "daow_inv sd s1"
    "view sd s1 = view sd s" "dw_ingest s1 = dw_ingest s" "dw_db s1 = dw_db s" "dw_pool s1 = dw_pool s"
    "\<And>q. ready s q \<Longrightarrow> ready s1 q"
proof (cases "open_buffer s p")
  case (Some b)
  then show ?thesis using that [of b s] inv by (simp add: mutable_buffer_def open_buffer_Some)
next
  case None
  have dok: "daow_ok sd s" using inv by (simp add: daow_inv_def)
  note c = ready_cold [OF dok None r]
  let ?s1 = "put_buffer p buffer_new s"
  have ob: "open_buffer ?s1 p = Some buffer_new" by (simp add: buffer_new_def)
  have "path_ok sd ?s1 p"
    unfolding path_ok_open [OF ob] using c(2) by (simp add: buffer_ok_def buffer_new_def journal_new_def)
  note one = one_path [OF dok _ _ _ this]
  have d: "distinct (map fst (dw_journals ?s1))" using dok by (simp add: daow_ok_def)
  have "view_at sd ?s1 q = view_at sd s q" for q
  proof (cases "q = p")
    case True
    then show ?thesis using view_open [OF ob, of sd] c(3) by (simp add: buffer_new_def journal_new_def)
  qed (rule one(2), simp_all add: d)
  then have v: "view sd ?s1 = view sd s" by (rule view_eqI)
  have "daow_ok sd ?s1" by (rule one(1)) (simp_all add: d)
  then have "daow_inv sd ?s1"
    using inv view_hist [OF v] by (auto simp: daow_inv_def put_buffer_def buffer_new_def)
  moreover have "mutable_buffer p s = (Some buffer_new, ?s1)" using c(1) by (simp add: mutable_buffer_def)
  moreover have "ready s q \<Longrightarrow> ready ?s1 q" for q by (auto simp: ready_def put_buffer_def buffer_new_def split: option.splits)
  ultimately show ?thesis using that [of buffer_new ?s1] ob v by simp
qed

lemma append_loop_entries:
  "append_loop es j i = (seqs, j', i') \<Longrightarrow>
   \<exists>new. jn_entries j' = jn_entries j @ new \<and> length new = length es \<and>
     (\<forall>x \<in> set new. \<exists>q e k. x = JEvent q e Recorded k \<and> e \<in> set es \<and> q < jn_event_count j + length es \<and> k < i + length es)"
proof (induction es arbitrary: j i seqs)
  case (Cons e es)
  obtain seqs1 where l: "append_loop es (snd (append_event e i j)) (i + 1) = (seqs1, j', i')"
    using Cons.prems by (auto simp: Let_def split: prod.splits)
  have j1: "jn_entries (snd (append_event e i j)) = jn_entries j @ [JEvent (jn_event_count j) e Recorded i]"
      "jn_event_count (snd (append_event e i j)) = Suc (jn_event_count j)"
    by (simp_all add: append_event_def append_event_with_origin_def Let_def jn_next_seq_def)
  obtain new where new: "jn_entries j' = jn_entries (snd (append_event e i j)) @ new" "length new = length es"
      "\<forall>x \<in> set new. \<exists>q e' k. x = JEvent q e' Recorded k \<and> e' \<in> set es \<and>
         q < Suc (jn_event_count j) + length es \<and> k < i + 1 + length es"
    using Cons.IH [OF l] unfolding j1(2) by blast
  have "\<exists>q e' k. x = JEvent q e' Recorded k \<and> e' \<in> set (e # es) \<and> q < jn_event_count j + length (e # es) \<and>
      k < i + length (e # es)" if "x \<in> set (JEvent (jn_event_count j) e Recorded i # new)" for x
  proof (cases "x \<in> set new")
    case True
    then obtain q e' k where "x = JEvent q e' Recorded k \<and> e' \<in> set es \<and>
        q < Suc (jn_event_count j) + length es \<and> k < i + 1 + length es"
      using new(3) by blast
    then show ?thesis by (intro exI [of _ q] exI [of _ e'] exI [of _ k]) simp
  qed (use that in auto)
  then have all: "\<forall>x \<in> set (JEvent (jn_event_count j) e Recorded i # new). \<exists>q e' k. x = JEvent q e' Recorded k \<and>
      e' \<in> set (e # es) \<and> q < jn_event_count j + length (e # es) \<and> k < i + length (e # es)"
    by blast
  have "jn_entries j' = jn_entries j @ JEvent (jn_event_count j) e Recorded i # new" using new(1) j1(1) by simp
  moreover have "length (JEvent (jn_event_count j) e Recorded i # new) = length (e # es)" using new(2) by simp
  ultimately show ?case using all by blast
qed simp

text \<open>What an append needs: text and numbers the database can hold.\<close>

definition storable :: "serde \<Rightarrow> daow \<Rightarrow> string \<Rightarrow> event list \<Rightarrow> bool" where
  "storable sd s p es \<longleftrightarrow>
     (\<forall>e \<in> set es. event_ok sd e) \<and> origin_ok sd Recorded \<and>
     length (daow_hist sd s p) + length es \<le> 2 ^ 63 \<and> dw_ingest s + length es \<le> 2 ^ 63"

lemma open_view:
  assumes "open_buffer s p = Some b"
  shows "daow_hist sd s p = map (jd_norm sd) (events_in (bf_entries b))" "daow_snap sd s p = last_snap (bf_entries b)"
  using view_open [OF assms, of sd] by (simp_all add: view_at_def view_of_def)

lemma inv_buffer:
  assumes "daow_inv sd s" "open_buffer s p = Some b"
  shows "entries_ok sd (bf_entries b)" "jn_event_count (bf_journal b) = length (events_in (bf_entries b))"
    "jn_ok (bf_journal b)"
proof -
  have "buffer_ok sd (dw_db s) p b" using assms by (simp add: daow_inv_def daow_ok_def path_ok_open [symmetric])
  then show 1: "entries_ok sd (bf_entries b)" "jn_event_count (bf_journal b) = length (events_in (bf_entries b))"
    by (simp_all add: buffer_ok_def)
  then show "jn_ok (bf_journal b)" by (simp add: jn_ok_def entries_ok_def numbered_def)
qed

lemma numbered_jn_ok: "jn_ok j \<Longrightarrow> numbered 0 (jn_entries j)"
  by (metis jn_ok_def jn_ok_length numbered_def plus_nat.add_0)

lemma daow_append_law:
  assumes inv: "daow_inv sd s" and r: "ready s p" and st: "storable sd s p es" and a: "daow_append p es s = (r, s')"
  shows "daow_inv sd s' \<and> daow_snap sd s' = daow_snap sd s \<and> (\<forall>q. ready s q \<longrightarrow> ready s' q) \<and>
    (\<forall>q. q \<noteq> p \<longrightarrow> daow_hist sd s' q = daow_hist sd s q) \<and>
    r = Inr [length (daow_hist sd s p)..<length (daow_hist sd s p) + length es] \<and>
    map jd_event (daow_hist sd s' p) = map jd_event (daow_hist sd s p) @ map (wire_norm sd) es \<and> dw_pool s' = dw_pool s"
proof -
  obtain b s1 where m: "mutable_buffer p s = (Some b, s1)" "open_buffer s1 p = Some b" "daow_inv sd s1"
      "view sd s1 = view sd s" "dw_ingest s1 = dw_ingest s" "dw_pool s1 = dw_pool s" "\<And>q. ready s q \<Longrightarrow> ready s1 q"
    using mutable_ready [OF inv r] by metis
  note h1 = view_hist [OF m(4)]
  obtain seqs j i where l: "append_loop es (bf_journal b) (dw_ingest s1) = (seqs, j, i)" by (metis prod.exhaust)
  note f = append_loop_facts [OF l]
  obtain new where new: "jn_entries j = bf_entries b @ new"
      "\<forall>x \<in> set new. \<exists>q e k. x = JEvent q e Recorded k \<and> e \<in> set es \<and> q < jn_event_count (bf_journal b) + length es \<and>
         k < dw_ingest s1 + length es"
    using append_loop_entries [OF l] by blast
  note ib = inv_buffer [OF m(3,2)]
  have hl: "jn_event_count (bf_journal b) = length (daow_hist sd s p)"
    using ib(2) open_view(1) [OF m(2), of sd] h1 by simp
  have jok: "jn_ok j" by (rule append_loop_ok [OF ib(3) l])
  have fits: "\<forall>x \<in> set new. entry_ok sd x \<and> \<not> is_snapshot x"
    using new(2) st hl m(5) by (fastforce simp: storable_def)
  then have "filter is_snapshot new = []" by (simp add: filter_empty_conv)
  then have eok: "entries_ok sd (jn_entries j)"
    using ib(1) fits numbered_jn_ok [OF jok] by (auto simp: entries_ok_def new(1))
  have ls: "last_snap new = None" using fits by (simp add: last_snap_None)
  have ing: "\<forall>d \<in> set (events_in new). jd_ingest d < i"
  proof -
    have "events_in new = map (\<lambda>(k, e). \<lparr>jd_seq = jn_event_count (bf_journal b) + k, jd_event = e, jd_origin = Recorded,
        jd_ingest = dw_ingest s1 + k\<rparr>) (enumerate 0 es)"
      using f by (simp add: new(1))
    then show ?thesis using f by (auto simp: in_set_enumerate_eq)
  qed
  have s': "s' = put_buffer p (b\<lparr>bf_journal := j\<rparr>) (s1\<lparr>dw_ingest := i\<rparr>)" "r = Inr seqs"
    using a m(1) l by (simp_all add: daow_append_def buffer_append_def)
  have ec: "jn_event_count j = length (events_in (jn_entries j))" using jok by (rule jn_ok_length)
  note g = grow_buffer [OF m(3,2) new(1) ec eok _ ing s'(1)]
  have i: "dw_ingest s1 \<le> i" using f by simp
  have "view_at sd s' p = view_of sd (jn_entries j)" by (rule g(2) [OF i])
  then have own: "daow_hist sd s' p = map (jd_norm sd) (events_in (jn_entries j))" "daow_snap sd s' p = daow_snap sd s p"
    using open_view(2) [OF m(2), of sd] h1 ls by (simp_all add: view_at_def view_of_def new(1) last_snap_append)
  have oth: "q \<noteq> p \<Longrightarrow> daow_hist sd s' q = daow_hist sd s q \<and> daow_snap sd s' q = daow_snap sd s q" for q
    using g(3) [OF i, of q] h1 by (simp add: view_at_def)
  have "daow_snap sd s' = daow_snap sd s" using own(2) oth by (auto simp: fun_eq_iff) metis
  moreover have "map jd_event (daow_hist sd s' p) = map jd_event (daow_hist sd s p) @ map (wire_norm sd) es"
    using f open_view(1) [OF m(2), of sd] h1 by (simp add: own(1) comp_def case_prod_beta flip: map_map [of "wire_norm sd" snd, unfolded comp_def])
  ultimately show ?thesis
    using g(1) [OF i] g(4) [OF i] m(7) oth f s' hl m(6) by (auto simp: m(5))
qed

text \<open>A snapshot is anchored no earlier than the one before it.\<close>

definition anchorable :: "serde \<Rightarrow> daow \<Rightarrow> string \<Rightarrow> seq_no \<Rightarrow> json \<Rightarrow> bool" where
  "anchorable sd s p q st \<longleftrightarrow>
     q < 2 ^ 63 \<and> sd_parse sd (sd_print sd st) = Some st \<and>
     (case daow_snap sd s p of None \<Rightarrow> True | Some (q0, _) \<Rightarrow> q0 \<le> q)"

lemma daow_snapshot_law:
  assumes inv: "daow_inv sd s" and r: "ready s p" and st: "anchorable sd s p q st"
    and a: "daow_append_snapshot p q st now s = (r, s')"
  shows "daow_inv sd s' \<and> r = Inr () \<and> daow_hist sd s' = daow_hist sd s \<and>
    daow_snap sd s' = (daow_snap sd s)(p := Some (q, st)) \<and> (\<forall>q. ready s q \<longrightarrow> ready s' q)"
proof -
  obtain b s1 where m: "mutable_buffer p s = (Some b, s1)" "open_buffer s1 p = Some b" "daow_inv sd s1"
      "view sd s1 = view sd s" "dw_ingest s1 = dw_ingest s" "\<And>q. ready s q \<Longrightarrow> ready s1 q"
    using mutable_ready [OF inv r] by metis
  note h1 = view_hist [OF m(4)] and ib = inv_buffer [OF m(3,2)]
  define j where "j = jn_append_snapshot q st now (bf_journal b)"
  have new: "jn_entries j = bf_entries b @ [JSnapshot q st]" by (simp add: j_def jn_append_snapshot_def)
  have ec: "jn_event_count j = length (events_in (jn_entries j))" using ib(2) by (simp add: j_def jn_append_snapshot_def)
  have "je_seq x \<le> q" if "x \<in> set (bf_entries b)" "is_snapshot x" for x
  proof (cases "last_snap (bf_entries b)")
    case (Some y)
    obtain q0 st0 where y: "y = (q0, st0)" by (cases y)
    then have "q0 \<le> q" using st Some h1 open_view(2) [OF m(2), of sd] by (simp add: anchorable_def)
    then show ?thesis using entries_ok_last_snap(3) [OF ib(1) Some [unfolded y] that] by simp
  qed (use that in \<open>simp add: last_snap_None\<close>)
  then have eok: "entries_ok sd (jn_entries j)"
    using ib(1) st by (auto simp: entries_ok_def new numbered_def sorted_append anchorable_def)
  have s': "s' = put_buffer p (b\<lparr>bf_journal := j\<rparr>) (s1\<lparr>dw_ingest := dw_ingest s1\<rparr>)" "r = Inr ()"
    using a m(1) by (simp_all add: daow_append_snapshot_def buffer_append_snapshot_def j_def)
  note g = grow_buffer [OF m(3,2) new ec eok order_refl _ s'(1), simplified]
  have "daow_hist sd s' p = daow_hist sd s p" "daow_snap sd s' p = Some (q, st)"
    using g(2) open_view [OF m(2), of sd] h1 by (simp_all add: view_at_def view_of_def new)
  moreover have "p' \<noteq> p \<Longrightarrow> daow_hist sd s' p' = daow_hist sd s p' \<and> daow_snap sd s' p' = daow_snap sd s p'" for p'
    using g(3) [of p'] h1 by (simp add: view_at_def)
  ultimately have "daow_hist sd s' = daow_hist sd s" "daow_snap sd s' = (daow_snap sd s)(p := Some (q, st))"
    by (auto simp: fun_eq_iff) metis+
  then show ?thesis using g(1,4) m(6) s' by simp
qed

lemma build_replay_facts:
  assumes "entries_ok sd (jn_entries j)"
  shows "case build_replay j of
      None \<Rightarrow> events_in (jn_entries j) = [] \<and> last_snap (jn_entries j) = None
    | Some rp \<Rightarrow> rp_events rp = events_in (jn_entries j) \<and>
        rp_snapshot rp = map_option (\<lambda>(q, st). JSnapshot q st) (last_snap (jn_entries j)) \<and>
        rp_tail rp = after_snap (last_snap (jn_entries j)) (events_in (jn_entries j))"
proof (cases "last_snap (jn_entries j)")
  case None
  then show ?thesis by (simp add: build_replay_def Let_def last_snapshot_is_snap events_in_def after_snap_def)
next
  case (Some x)
  obtain q st where x: "x = (q, st)" by (cases x)
  have "q < 2 ^ 63" using entries_ok_last_snap(1) [OF assms] Some x by simp
  then have "\<not> is_before_genesis q" by (simp add: is_before_genesis_def u64_max_def)
  then show ?thesis
    using Some x by (simp add: build_replay_def Let_def last_snapshot_is_snap events_in_def after_snap_def)
qed

text \<open>A load shows a history and its snapshot, up to what the store keeps of an event.\<close>

definition jd_map :: "(event \<Rightarrow> event) \<Rightarrow> journaled_event \<Rightarrow> journaled_event" where
  "jd_map f d = d\<lparr>jd_event := f (jd_event d)\<rparr>"

definition shows_history ::
  "(event \<Rightarrow> event) \<Rightarrow> replay option \<Rightarrow> journaled_event list \<Rightarrow> (seq_no \<times> json) option \<Rightarrow> bool" where
  "shows_history f found h sn \<longleftrightarrow>
     (case found of
        None \<Rightarrow> h = [] \<and> sn = None
      | Some rp \<Rightarrow> map (jd_map f) (rp_events rp) = h \<and> rp_snapshot rp = map_option (\<lambda>(q, st). JSnapshot q st) sn \<and>
          map f (rp_tail rp) = after_snap sn h)"

abbreviation replay_shows ::
  "serde \<Rightarrow> replay option \<Rightarrow> journaled_event list \<Rightarrow> (seq_no \<times> json) option \<Rightarrow> bool" where
  "replay_shows sd \<equiv> shows_history (wire_norm sd)"

lemma jd_norm_map: "jd_map (wire_norm sd) = jd_norm sd"
  by (simp add: fun_eq_iff jd_map_def jd_norm_def)

lemma after_snap_norm: "after_snap sn (map (jd_norm sd) h) = map (wire_norm sd) (after_snap sn h)"
  by (cases sn) (auto simp: after_snap_def comp_def filter_map)

lemma build_replay_shows:
  "entries_ok sd (jn_entries j) \<Longrightarrow>
   replay_shows sd (build_replay j) (map (jd_norm sd) (events_in (jn_entries j))) (last_snap (jn_entries j))"
  using build_replay_facts [of sd j] by (simp add: shows_history_def jd_norm_map after_snap_norm split: option.splits)

text \<open>A buffer replaced by one with the same journal.\<close>

lemma replace_buffer:
  assumes inv: "daow_inv sd s" and b: "open_buffer s p = Some b" and b1: "bf_journal b1 = bf_journal b"
    "bf_flushed b1 = bf_flushed b" "\<not> bf_activating b1"
  shows "daow_inv sd (put_buffer p b1 s)" "view sd (put_buffer p b1 s) = view sd s" "ready s q \<Longrightarrow> ready (put_buffer p b1 s) q"
proof -
  have dok: "daow_ok sd s" using inv by (simp add: daow_inv_def)
  let ?s = "put_buffer p b1 s"
  have ob: "open_buffer ?s p = Some b1" using b1 by simp
  have "buffer_ok sd (dw_db s) p b" using dok b by (simp add: daow_ok_def path_ok_open [symmetric])
  then have "path_ok sd ?s p" unfolding path_ok_open [OF ob] using b1 by (simp add: buffer_ok_def)
  note one = one_path [OF dok _ _ _ this]
  have d: "distinct (map fst (dw_journals ?s))" using dok by (simp add: daow_ok_def)
  have "view_at sd ?s q = view_at sd s q" for q
  proof (cases "q = p")
    case True
    then show ?thesis using view_open [OF ob, of sd] view_open [OF b, of sd] b1(1) by simp
  qed (rule one(2), simp_all add: d)
  then show v: "view sd ?s = view sd s" by (rule view_eqI)
  have "daow_ok sd ?s" by (rule one(1)) (simp_all add: d)
  then show "daow_inv sd ?s" using inv view_hist [OF v] b1(3) by (auto simp: daow_inv_def put_buffer_def)
  show "ready s q \<Longrightarrow> ready ?s q" using b1(3) by (auto simp: ready_def put_buffer_def split: option.splits)
qed

text \<open>A path without a buffer may get a placeholder, or lose it.\<close>

lemma placeholder_ok:
  assumes inv: "daow_inv sd s" and b: "open_buffer s p = None"
    and s': "s' = put_buffer p buffer_activating s \<or> s' = drop_buffer p s"
  shows "daow_inv sd s' \<and> view sd s' = view sd s \<and> (\<forall>q. q \<noteq> p \<longrightarrow> ready s q \<longrightarrow> ready s' q)"
proof -
  have dok: "daow_ok sd s" using inv by (simp add: daow_inv_def)
  have ob: "open_buffer s' q = open_buffer s q" for q using s' b by (auto simp: buffer_activating_def)
  have db: "dw_db s' = dw_db s" "dw_ingest s' = dw_ingest s" using s' by auto
  have per: "path_ok sd s' q \<and> view_at sd s' q = view_at sd s q" for q
    by (rule path_same) (use dok in \<open>simp_all add: ob db daow_ok_def\<close>)
  have d: "distinct (map fst (dw_journals s'))" using s' dok by (auto simp: daow_ok_def)
  have v: "view sd s' = view sd s" by (rule view_eqI) (simp add: per)
  have "daow_ok sd s'" using d per by (simp add: daow_ok_def)
  then have "daow_inv sd s'"
    using inv view_hist [OF v] db s' by (auto simp: daow_inv_def put_buffer_def drop_buffer_def split: if_splits)
  moreover have "\<forall>q. q \<noteq> p \<longrightarrow> ready s q \<longrightarrow> ready s' q"
    using s' by (auto simp: ready_def put_buffer_def drop_buffer_def split: option.splits)
  ultimately show ?thesis using v by simp
qed

lemma seed_read_ok:
  assumes inv: "daow_inv sd s" and ph: "map_of (dw_journals s) p = Some buffer_activating"
    and sr: "seed_read sd p s = (r, s')"
  shows "daow_inv sd s' \<and> view sd s' = view sd s \<and> is_done r \<and> (\<forall>q. ready s q \<longrightarrow> ready s' q) \<and>
    (dw_pool s = [] \<longrightarrow> (\<exists>f. r = Done (Inr f))) \<and>
    (\<forall>f. r = Done (Inr f) \<longrightarrow> ready s' p \<and>
       (case map_of (dw_journals s') p of
          None \<Rightarrow> daow_hist sd s p = [] \<and> daow_snap sd s p = None
        | Some b \<Rightarrow> \<not> bf_activating b))"
proof -
  have dok: "daow_ok sd s" using inv by (simp add: daow_inv_def)
  have ob: "open_buffer s p = None" using ph by (simp add: open_buffer_def buffer_activating_def)
  have "path_ok sd s p" using dok by (simp add: daow_ok_def)
  then obtain es where es: "entries_ok sd es" "durable sd (dw_db s) p es"
    using ob by (auto simp: path_ok_def cold_ok_def)
  note va = view_cold [OF ob es]
  obtain r1 s1 where w: "with_conn (\<lambda>db. (read_path_rows p db, db)) s = (r1, s1)" by fastforce
  note f = with_conn_read [OF w]
  have same: "daow_inv sd s1" "view sd s1 = view sd s" using inv_same_store [of s1 s sd] f(1-3) inv by simp_all
  have rd: "ready s q \<Longrightarrow> ready s1 q" for q using f(1,2) by (simp add: ready_def split: option.splits)
  have rq: "q \<noteq> p" if "ready s q" for q using that ph by (auto simp: ready_def buffer_activating_def)
  have ob1: "open_buffer s1 p = None" "map_of (dw_journals s1) p = Some buffer_activating"
    using ob ph f(1) by (simp_all add: open_buffer_def)
  show ?thesis
  proof (cases r1)
    case None
    then have "r = Done (Inl LoadError)" "s' = s1" using sr w by (simp_all add: seed_read_def)
    then show ?thesis using same rd f(5) None read_path [OF es] by auto
  next
    case (Some x)
    then have x: "x = (rows_of sd p es, map_option (\<lambda>(q, st). (i64_of q, sd_print sd st)) (last_snap es))"
      using f(4) read_path [OF es] by simp
    show ?thesis
    proof (cases "rows_of sd p es = [] \<and> last_snap es = None")
      case True
      then have s': "r = Done (Inr False)" "s' = drop_buffer p s1" using sr w Some x by (simp_all add: seed_read_def)
      have "length (rows_of sd p es) = length (events_in es)"
        using arg_cong [OF rows_of_seqs [of es sd p], of length] es(1) by (simp add: entries_ok_def)
      then have "daow_hist sd s p = []" "daow_snap sd s p = None"
        using va True by (simp_all add: view_at_def view_of_def)
      moreover have "read_path_rows p (dw_db s') = Some ([], None)"
        using f(2) read_path [OF es] True s'(2) by simp
      moreover have "map_of (dw_journals s') p = None" by (simp add: s'(2) drop_buffer_def)
      ultimately show ?thesis
        using placeholder_ok [OF same(1) ob1(1), of s'] s' same(2) rd rq
        by (simp add: ready_def) (rule impI, rule exI [of _ False], simp)
    next
      case False
      then have "r = Done (Inr True)" "s' = put_buffer p (buffer_durable (cold_journal sd es)) s1"
        using sr w Some x rebuild_cold [OF es(1), of p] ob1(2) by (auto simp: seed_read_def buffer_activating_def)
      note s' = this
      let ?b = "buffer_durable (cold_journal sd es)"
      have b: "\<not> bf_activating ?b" "bf_journal ?b = cold_journal sd es" "bf_flushed ?b = length (bf_entries ?b)"
        by (simp_all add: buffer_durable_def jn_len_def)
      have ob': "open_buffer s' p = Some ?b" using s'(2) b(1) by simp
      have d1: "distinct (map fst (dw_journals s'))" using same(1) s'(2) by (simp add: daow_inv_def daow_ok_def)
      have "path_ok sd s' p"
        unfolding path_ok_open [OF ob'] using cold_journal_ok [OF es(1)] cold_journal_facts(1,3) [of sd es] es(2) f(2)
        by (auto simp: buffer_ok_def b s'(2) cold_journal_durable intro!: exI [of _ "length (jn_entries (cold_journal sd es))"])
      note one = one_path [OF _ d1 _ _ this, of s1]
      have dok1: "daow_ok sd s1" using same(1) by (simp add: daow_inv_def)
      have "view_at sd s' q = view_at sd s1 q" for q
      proof (cases "q = p")
        case True
        then show ?thesis
          using view_open [OF ob', of sd] view_cold [OF ob1(1) es(1)] es(2) f(2) cold_journal_facts(1,2) [of sd es]
          by (simp add: b view_of_def comp_def)
      qed (rule one(2) [OF dok1], simp_all add: s'(2))
      then have v: "view sd s' = view sd s1" by (rule view_eqI)
      have "daow_ok sd s'" by (rule one(1) [OF dok1]) (simp_all add: s'(2))
      then have "daow_inv sd s'"
        using same(1) view_hist [OF v] b(1) s'(2) by (auto simp: daow_inv_def put_buffer_def)
      moreover have "ready s q \<Longrightarrow> ready s' q" for q
        using rd [of q] b(1) s'(2) by (auto simp: ready_def put_buffer_def split: option.splits)
      ultimately show ?thesis using s' v same(2) b(1) ready_open [OF ob'] by (auto simp: put_buffer_def)
    qed
  qed
qed

lemma cold_load_ok:
  assumes inv: "daow_inv sd s" and ob: "open_buffer s p = None" and l: "cold_load sd p s = (r, s')"
  shows "daow_inv sd s' \<and> view sd s' = view sd s \<and> is_done r \<and> (\<forall>q. q \<noteq> p \<longrightarrow> ready s q \<longrightarrow> ready s' q) \<and>
    (dw_pool s = [] \<longrightarrow> (\<exists>found. r = Done (Inr found))) \<and>
    (\<forall>found. r = Done (Inr found) \<longrightarrow> ready s' p \<and> replay_shows sd found (daow_hist sd s p) (daow_snap sd s p))"
proof -
  define s1 where "s1 = (case map_of (dw_journals s) p of None \<Rightarrow> put_buffer p buffer_activating s | Some b \<Rightarrow> s)"
  have act: "map_of (dw_journals s) p = Some b \<Longrightarrow> b = buffer_activating" for b
    using inv ob by (auto simp: daow_inv_def open_buffer_def split: if_splits)
  then have seed: "seed_buffer sd p s = seed_read sd p s1"
    by (auto simp: seed_buffer_def s1_def buffer_activating_def split: option.split)
  have s1: "daow_inv sd s1 \<and> view sd s1 = view sd s \<and> (\<forall>q. q \<noteq> p \<longrightarrow> ready s q \<longrightarrow> ready s1 q)"
    using placeholder_ok [OF inv ob] inv by (auto simp: s1_def split: option.split)
  have ph: "map_of (dw_journals s1) p = Some buffer_activating"
    using act by (auto simp: s1_def put_buffer_def split: option.split)
  obtain r2 s2 where sr: "seed_read sd p s1 = (r2, s2)" by fastforce
  note f = seed_read_ok [OF _ ph sr]
  have pool: "dw_pool s1 = dw_pool s" by (auto simp: s1_def split: option.split)
  have f: "daow_inv sd s2" "view sd s2 = view sd s" "is_done r2" "\<forall>q. q \<noteq> p \<longrightarrow> ready s q \<longrightarrow> ready s2 q"
    "dw_pool s = [] \<Longrightarrow> \<exists>x. r2 = Done (Inr x)"
    "\<And>x. r2 = Done (Inr x) \<Longrightarrow> ready s2 p \<and> (case map_of (dw_journals s2) p of
          None \<Rightarrow> daow_hist sd s p = [] \<and> daow_snap sd s p = None | Some b \<Rightarrow> \<not> bf_activating b)"
    using f s1 view_hist [of sd s1 s] pool by (simp_all split: option.splits)
  consider e where "r2 = Done (Inl e)" | x where "r2 = Done (Inr x)"
    using f(3) by (metis is_done_iff sum.exhaust)
  then show ?thesis
  proof cases
    case 1
    then have "r = Done (Inl e)" "s' = s2" using l seed sr by (auto simp: cold_load_def)
    then show ?thesis using f(1,2,4) f(5) 1 by auto
  next
    case 2
    then have s': "s' = s2" "r = Done (Inr (case map_of (dw_journals s2) p of None \<Rightarrow> None | Some b \<Rightarrow> build_replay (bf_journal b)))"
      using l seed sr by (auto simp: cold_load_def)
    have "replay_shows sd (case map_of (dw_journals s2) p of None \<Rightarrow> None | Some b \<Rightarrow> build_replay (bf_journal b))
        (daow_hist sd s p) (daow_snap sd s p)"
    proof (cases "map_of (dw_journals s2) p")
      case None
      then show ?thesis using f(6) [OF 2] by (simp add: shows_history_def)
    next
      case (Some b)
      then have o: "open_buffer s2 p = Some b" using f(6) [OF 2] by (simp add: open_buffer_Some)
      show ?thesis
        using build_replay_shows [OF inv_buffer(1) [OF f(1) o]] open_view [OF o, of sd] view_hist [OF f(2)] Some by simp
    qed
    then show ?thesis using s' f(1,2,4) f(6) [OF 2] by auto
  qed
qed

lemma daow_load_law:
  assumes inv: "daow_inv sd s" and l: "daow_load sd p s = (r, s')"
  shows "daow_inv sd s' \<and> view sd s' = view sd s \<and> is_done r \<and> (\<forall>q. q \<noteq> p \<longrightarrow> ready s q \<longrightarrow> ready s' q) \<and>
    (dw_pool s = [] \<longrightarrow> (\<exists>found. r = Done (Inr found))) \<and>
    (\<forall>found. r = Done (Inr found) \<longrightarrow> ready s' p \<and> replay_shows sd found (daow_hist sd s p) (daow_snap sd s p))"
proof (cases "open_buffer s p")
  case None
  then have "daow_load sd p s = cold_load sd p s"
    by (auto simp: daow_load_def open_buffer_def split: option.splits if_splits)
  then have "cold_load sd p s = (r, s')" using l by simp
  then show ?thesis by (rule cold_load_ok [OF inv None])
next
  case (Some b)
  let ?b1 = "b\<lparr>bf_drop_when_durable := False\<rparr>"
  have na: "\<not> bf_activating b" using Some by (simp add: open_buffer_Some)
  have s': "r = Done (Inr (build_replay (bf_journal b)))" "s' = put_buffer p ?b1 s"
    using l Some by (simp_all add: daow_load_def open_buffer_Some)
  note rb = replace_buffer [OF inv Some, of ?b1]
  have "replay_shows sd (build_replay (bf_journal b)) (daow_hist sd s p) (daow_snap sd s p)"
    using build_replay_shows [OF inv_buffer(1) [OF inv Some]] open_view [OF Some, of sd] by simp
  moreover have "ready s' p" using na s'(2) by (intro ready_open [of _ _ ?b1]) simp
  ultimately show ?thesis using rb na s' by auto
qed

end
