(* ===== verification/DaowContract.thy ===== *)
theory DaowContract
  imports DaowFacts
begin

text \<open>
  The contract of a journal backend, kept by the in-memory store and by the SQLite-backed one, and what
  follows for the latter: no acknowledged event is lost whatever its pool answers, a flushed store comes
  back from its database, a scan is exact, and a passivation with unflushed entries never releases its
  buffer.
\<close>

subsection \<open>The contract\<close>

text \<open>
  An append needs a path that is ready, which a load that answers makes it; the history is the one of
  every later load.  \<open>norm\<close> is what the backend keeps of an event, \<open>room\<close> and \<open>anchor\<close> what it can
  take.
\<close>

locale journal_backend =
  fixes inv :: "'s \<Rightarrow> bool"
    and ready :: "'s \<Rightarrow> string \<Rightarrow> bool"
    and hist :: "'s \<Rightarrow> string \<Rightarrow> journaled_event list"
    and snap :: "'s \<Rightarrow> string \<Rightarrow> (seq_no \<times> json) option"
    and norm :: "event \<Rightarrow> event"
    and room :: "'s \<Rightarrow> string \<Rightarrow> event list \<Rightarrow> bool"
    and anchor :: "'s \<Rightarrow> string \<Rightarrow> seq_no \<Rightarrow> json \<Rightarrow> bool"
    and append :: "string \<Rightarrow> event list \<Rightarrow> 's \<Rightarrow> (journal_error + seq_no list) \<times> 's"
    and snapshot :: "string \<Rightarrow> seq_no \<Rightarrow> json \<Rightarrow> nat \<Rightarrow> 's \<Rightarrow> (journal_error + unit) \<times> 's"
    and load :: "string \<Rightarrow> 's \<Rightarrow> (journal_error + replay option) outcome \<times> 's"
  assumes append_law: "inv s \<Longrightarrow> ready s p \<Longrightarrow> room s p es \<Longrightarrow> append p es s = (Inr seqs, s') \<Longrightarrow>
        inv s' \<and> ready s' p \<and> snap s' = snap s \<and> (\<forall>q. q \<noteq> p \<longrightarrow> hist s' q = hist s q) \<and>
        seqs = [length (hist s p)..<length (hist s p) + length es] \<and>
        map jd_event (hist s' p) = map jd_event (hist s p) @ map norm es"
    and snapshot_law: "inv s \<Longrightarrow> ready s p \<Longrightarrow> anchor s p q st \<Longrightarrow> snapshot p q st now s = (Inr (), s') \<Longrightarrow>
        inv s' \<and> ready s' p \<and> hist s' = hist s \<and> snap s' = (snap s)(p := Some (q, st))"
    and load_law: "inv s \<Longrightarrow> load p s = (r, s') \<Longrightarrow>
        inv s' \<and> hist s' = hist s \<and> snap s' = snap s \<and> is_done r \<and>
        (\<forall>found. r = Done (Inr found) \<longrightarrow> ready s' p \<and> shows_history norm found (hist s p) (snap s p))"
begin

text \<open>A load opens a path, an append extends it, and the next load shows the extension.\<close>

lemma load_append_load:
  assumes "inv s" "load p s = (Done (Inr before), s1)" "room s1 p es" "append p es s1 = (Inr seqs, s2)"
    and upkeep: "inv s2 \<Longrightarrow> inv s3 \<and> hist s3 = hist s2 \<and> snap s3 = snap s2"
    and after: "load p s3 = (Done (Inr found), s4)"
  shows "shows_history norm before (hist s p) (snap s p)" "shows_history norm found (hist s2 p) (snap s p)"
    "map jd_event (hist s2 p) = map jd_event (hist s p) @ map norm es"
proof -
  note l1 = load_law [OF assms(1,2)]
  then have r1: "inv s1" "ready s1 p" "hist s1 = hist s" "snap s1 = snap s" by simp_all
  note a = append_law [OF r1(1,2) assms(3,4)]
  have u: "inv s3 \<and> hist s3 = hist s2 \<and> snap s3 = snap s2" using a upkeep by blast
  show "shows_history norm before (hist s p) (snap s p)" using l1 by simp
  show "shows_history norm found (hist s2 p) (snap s p)" using load_law [OF _ after] u a r1 by simp
  show "map jd_event (hist s2 p) = map jd_event (hist s p) @ map norm es" using a r1 by simp
qed

end

text \<open>Any store of the simpler contract is a backend that keeps events as they are.\<close>

lemma jd_map_id [simp]: "jd_map id = id" "jd_map (\<lambda>e. e) = id"
  by (simp_all add: fun_eq_iff jd_map_def)

sublocale journal_store \<subseteq> backend: journal_backend inv "\<lambda>_ _. True" hist snap "\<lambda>e. e" "\<lambda>_ _ _. True"
  "\<lambda>_ _ _ _. True" append snapshot "\<lambda>p s. (Done (load p s), s)"
proof (unfold_locales, goal_cases)
  case (1 s p es seqs s')
  then show ?case using append_inv append_law by auto
next
  case (2 s p q st now s')
  then show ?case using snapshot_law by auto
next
  case (3 s p r s')
  then show ?case
    using load_law [of s p] load_none [of s p] by (auto simp: shows_history_def split: option.split)
qed

interpretation daow: journal_backend "daow_inv sd" ready "daow_hist sd" "daow_snap sd" "wire_norm sd"
  "storable sd" "anchorable sd" daow_append daow_append_snapshot "daow_load sd" for sd
proof (unfold_locales, goal_cases)
  case (1 s p es seqs s')
  then show ?case using daow_append_law [OF 1] by simp
next
  case (2 s p q st now s')
  then show ?case using daow_snapshot_law [OF 2] by simp
next
  case (3 s p r s')
  then show ?case using daow_load_law [OF 3] by (simp add: view_def)
qed

subsection \<open>Upkeep\<close>

text \<open>What runs beside the actors: ticks of the writer, flushes, passivations and loads of any path.\<close>

inductive daow_upkeep :: "serde \<Rightarrow> daow \<Rightarrow> daow \<Rightarrow> bool" for sd :: serde where
  up_tick: "daow_upkeep sd s (writer_tick sd s)"
| up_flush: "daow_upkeep sd s (snd (daow_flush sd s))"
| up_passivated: "daow_upkeep sd s (snd (daow_passivated sd p s))"
| up_load: "daow_upkeep sd s (snd (daow_load sd p s))"

inductive_cases daow_upkeep_cases: "daow_upkeep sd s s'"

lemma writer_tick_inv: "daow_inv sd s \<Longrightarrow> daow_inv sd (writer_tick sd s) \<and> view sd (writer_tick sd s) = view sd s"
proof -
  assume inv: "daow_inv sd s"
  obtain r1 s1 where w: "write_pending (collect_pending sd None s) s = (r1, s1)" by fastforce
  have f: "daow_inv sd s1 \<and> view sd s1 = view sd s" by (rule write_pending_inv [OF inv daow_inv_fits [OF inv] w])
  have "writer_tick sd s = s1 \<or> writer_tick sd s = report ''tick'' (projl r1) s1"
    using w by (auto simp: writer_tick_def flush_cycle_def split: sum.splits)
  then show ?thesis using f inv_same_store [of "writer_tick sd s" s1 sd] by auto
qed

lemma mark_drop_fits:
  assumes "daow_inv sd s" "fits sd s c"
  shows "fits sd (mark_drop p s) c"
proof -
  obtain b k where b: "open_buffer s (pf_path c) = Some b" "pf_end c \<le> length (bf_entries b)" "bf_flushed b \<le> k"
      "k \<le> pf_end c" "durable sd (dw_db s) (pf_path c) (take k (bf_entries b))"
      "captured sd (take (pf_end c) (bf_entries b)) (bf_flushed b) c"
    using assms(2) by (auto simp: fits_def)
  define b' where "b' = (if pf_path c = p then b\<lparr>bf_drop_when_durable := True\<rparr> else b)"
  have same: "bf_journal b' = bf_journal b" "bf_flushed b' = bf_flushed b" by (simp_all add: b'_def)
  have "open_buffer (mark_drop p s) (pf_path c) = Some b'"
    using b(1) by (auto simp: mark_drop_def b'_def open_buffer_Some put_buffer_def split: option.split)
  moreover have "dw_db (mark_drop p s) = dw_db s" by (simp add: mark_drop_def split: option.split)
  ultimately show ?thesis using b unfolding fits_def by (intro exI [of _ b'] exI [of _ k]) (simp add: same)
qed

lemma mark_drop_inv:
  assumes "daow_inv sd s" "open_buffer s p = Some b"
  shows "daow_inv sd (mark_drop p s)" "view sd (mark_drop p s) = view sd s"
  using replace_buffer [OF assms, of "b\<lparr>bf_drop_when_durable := True\<rparr>"] assms(2)
  by (simp_all add: mark_drop_def open_buffer_Some)

lemma collect_pending_one:
  assumes "distinct (map fst (dw_journals s))"
  shows "collect_pending sd (Some p) s =
    (case map_of (dw_journals s) p of None \<Rightarrow> []
     | Some b \<Rightarrow> (case pending_of sd p b of None \<Rightarrow> [] | Some c \<Rightarrow> [c]))"
proof -
  have "distinct (map fst xs) \<Longrightarrow>
      filter (\<lambda>(q, b). q = p) xs = (case map_of xs p of None \<Rightarrow> [] | Some b \<Rightarrow> [(p, b)])" for xs :: "(string \<times> path_buffer) list"
  proof (induction xs)
    case (Cons x xs)
    obtain q b where x: "x = (q, b)" by (cases x)
    have "q = p \<Longrightarrow> filter (\<lambda>(q, b). q = p) xs = []"
      using Cons.prems x by (auto simp: filter_empty_conv image_iff)
    then show ?case using Cons x by (auto split: option.splits)
  qed simp
  then have "filter (\<lambda>(q, b). p = q) (dw_journals s) =
      (case map_of (dw_journals s) p of None \<Rightarrow> [] | Some b \<Rightarrow> [(p, b)])"
    using assms by (simp add: eq_commute [of p])
  then show ?thesis
    by (simp add: collect_pending_def List.map_filter_simps split: option.split)
qed

lemma passivated_inv:
  assumes inv: "daow_inv sd s"
  shows "daow_inv sd (snd (daow_passivated sd p s)) \<and> view sd (snd (daow_passivated sd p s)) = view sd s"
proof -
  have dok: "daow_ok sd s" and d: "distinct (map fst (dw_journals s))" using inv by (simp_all add: daow_inv_def daow_ok_def)
  note one = collect_pending_one [OF d, of sd p]
  show ?thesis
  proof (cases "open_buffer s p")
    case None
    then have act: "map_of (dw_journals s) p = Some b \<Longrightarrow> b = buffer_activating" for b
      using inv by (auto simp: daow_inv_def open_buffer_def split: if_splits)
    have "pending_of sd p buffer_activating = None"
      by (simp add: pending_of_def buffer_activating_def buffer_new_def journal_new_def jn_len_def)
    then have "collect_pending sd (Some p) s = []" using one act by (auto split: option.split)
    then show ?thesis using placeholder_ok [OF inv None, of "drop_buffer p s"] by (simp add: daow_passivated_def)
  next
    case (Some b)
    then have m: "map_of (dw_journals s) p = Some b" by (simp add: open_buffer_Some)
    have bok: "buffer_ok sd (dw_db s) p b" using dok Some by (simp add: daow_ok_def path_ok_open [symmetric])
    show ?thesis
    proof (cases "pending_of sd p b")
      case None
      then have pend: "collect_pending sd (Some p) s = []" using one m by simp
      have "bf_flushed b = length (bf_entries b)" using None by (simp add: pending_of_def Let_def jn_len_def split: if_splits)
      then have es: "entries_ok sd (bf_entries b)" "durable sd (dw_db s) p (bf_entries b)"
        using bok by (auto simp: buffer_ok_def)
      let ?s = "drop_buffer p s"
      have ob: "open_buffer ?s p = None" by simp
      have "path_ok sd ?s p" using es by (auto simp: path_ok_def cold_ok_def)
      note op = one_path [OF dok _ _ _ this]
      have ds: "distinct (map fst (dw_journals ?s))" using d by simp
      have "view_at sd ?s q = view_at sd s q" for q
      proof (cases "q = p")
        case True
        then show ?thesis using view_cold [OF ob es(1)] es(2) view_open [OF Some, of sd] by simp
      qed (rule op(2), simp_all add: ds)
      then have v: "view sd ?s = view sd s" by (rule view_eqI)
      have "daow_ok sd ?s" by (rule op(1)) (simp_all add: ds)
      then have "daow_inv sd ?s" using inv view_hist [OF v] by (auto simp: daow_inv_def drop_buffer_def split: if_splits)
      then show ?thesis using v pend by (simp add: daow_passivated_def)
    next
      case c: (Some c)
      then have pend: "collect_pending sd (Some p) s = [c]" using one m by simp
      obtain r1 s1 where w: "write_pending [c] (mark_drop p s) = (r1, s1)" by fastforce
      have "fits sd s c" using daow_inv_fits(2) [OF inv, of "Some p"] pend by simp
      then have "daow_inv sd s1 \<and> view sd s1 = view sd (mark_drop p s)"
        using write_pending_inv [OF mark_drop_inv(1) [OF inv Some] _ _ w] mark_drop_fits [OF inv] by simp
      then have f: "daow_inv sd s1" "view sd s1 = view sd s" using mark_drop_inv(2) [OF inv Some] by simp_all
      have "snd (daow_passivated sd p s) = s1 \<or> snd (daow_passivated sd p s) = report ''passivated'' (projl r1) s1"
        using w pend by (auto simp: daow_passivated_def split: sum.split)
      then show ?thesis using f inv_same_store [of "snd (daow_passivated sd p s)" s1 sd] by auto
    qed
  qed
qed

lemma daow_upkeep_inv: "daow_upkeep sd s s' \<Longrightarrow> daow_inv sd s \<Longrightarrow> daow_inv sd s' \<and> view sd s' = view sd s"
proof (erule daow_upkeep_cases, goal_cases)
  case 1
  then show ?case using writer_tick_inv by simp
next
  case 2
  then show ?case using daow_flush_inv [of sd s "fst (daow_flush sd s)" s'] by simp
next
  case (3 p)
  then show ?case using passivated_inv by simp
next
  case (4 p)
  then show ?case using daow_load_law [of sd s p "fst (daow_load sd p s)" s'] by simp
qed

lemma daow_upkeep_star:
  assumes "(daow_upkeep sd)\<^sup>*\<^sup>* s s'" "daow_inv sd s"
  shows "daow_inv sd s' \<and> view sd s' = view sd s"
  using assms by induction (auto dest: daow_upkeep_inv)


subsection \<open>No acknowledged event is lost\<close>

lemma daow_new_inv:
  assumes "tables (dw_db s) = Some ([], [])" "dw_journals s = []"
  shows "daow_inv sd s" "ready s p" "daow_hist sd s p = []" "daow_snap sd s p = None"
proof -
  have t: "db_events (dw_db s) = Some []" "db_snapshots (dw_db s) = Some []"
    using assms(1) by (auto split: option.splits)
  have d: "durable sd (dw_db s) q []" for q
    using assms(1) by (simp add: durable_def holds_prefix_def path_rows_def snaps_match_def)
  have ob: "open_buffer s q = None" for q by (simp add: open_buffer_def assms(2))
  have "path_ok sd s q" for q using d [of q] ob [of q]
    by (simp add: path_ok_def cold_ok_def) (rule exI [of _ "[]"], simp)
  then have ok: "daow_ok sd s" by (simp add: daow_ok_def assms(2))
  have v: "view_at sd s q = view_of sd []" for q by (rule view_cold [OF ob entries_ok_nil d])
  then show "daow_hist sd s p = []" "daow_snap sd s p = None" by (simp_all add: view_at_def view_of_def)
  then show "daow_inv sd s" using ok v by (simp add: daow_inv_def assms(2) view_at_def view_of_def)
  show "ready s p" by (simp add: ready_def assms(2) read_path_rows_def t)
qed

text \<open>
  C8. No acknowledged event is lost.  Once an append to a path that was loaded has answered with its
  sequence numbers, any later load of the path shows the old history followed by exactly the appended
  events (in wire form, as the database keeps them), with the snapshot unchanged; whatever ticks,
  flushes, passivations and loads ran in between, and whatever the pool answered to them: refusals,
  and transactions that committed although a failure was reported.  A load never panics, and it answers
  when the pool does.
\<close>

theorem acknowledged_events_survive:
  assumes "daow_inv sd s" "ready s p" "storable sd s p es"
    and "daow_append p es s = (Inr seqs, s1)" and "(daow_upkeep sd)\<^sup>*\<^sup>* s1 s2" and "daow_load sd p s2 = (r, s3)"
  shows "seqs = [length (daow_hist sd s p)..<length (daow_hist sd s p) + length es] \<and>
    map jd_event (daow_hist sd s1 p) = map jd_event (daow_hist sd s p) @ map (wire_norm sd) es \<and>
    (case r of
       Panicked m \<Rightarrow> False
     | Done (Inl err) \<Rightarrow> dw_pool s2 \<noteq> []
     | Done (Inr found) \<Rightarrow> replay_shows sd found (daow_hist sd s1 p) (daow_snap sd s p))"
proof -
  note a = daow_append_law [OF assms(1-4)]
  then have u: "daow_inv sd s2" "view sd s2 = view sd s1" using daow_upkeep_star [OF assms(5)] by simp_all
  note l = daow_load_law [OF u(1) assms(6)] and v = view_hist [OF u(2)]
  have "case r of Panicked m \<Rightarrow> False | Done (Inl err) \<Rightarrow> dw_pool s2 \<noteq> []
    | Done (Inr found) \<Rightarrow> replay_shows sd found (daow_hist sd s1 p) (daow_snap sd s p)"
    using l a v by (auto simp: is_done_iff split: sum.split)
  then show ?thesis using a by simp
qed

definition demo_daow :: daow where
  "demo_daow =
     \<lparr>dw_journals = [], dw_db = \<lparr>db_tracker = Some [(0, ''create_journal_schema'')], db_events = Some [], db_snapshots = Some []\<rparr>,
      dw_pool = [PoolLostAnswer], dw_control = True, dw_reports = [], dw_flush_interval = 500, dw_ingest = 1\<rparr>"

definition demo_fact :: event where
  "demo_fact = event_new ''E'' (payload_json_view (JStr ''x''))"

lemma demo_daow_ok: "daow_inv demo_serde demo_daow" "ready demo_daow p" "daow_hist demo_serde demo_daow p = []"
  "daow_snap demo_serde demo_daow p = None"
  by (rule daow_new_inv; simp add: demo_daow_def)+

lemma demo_storable: "storable demo_serde demo_daow p [demo_fact]"
proof -
  have "dw_ingest demo_daow = 1" by (simp add: demo_daow_def)
  then show ?thesis
    by (simp add: storable_def demo_daow_ok event_ok_def origin_ok_def origin_from_text_def)
      (simp add: demo_serde_def)
qed

theorem acknowledged_events_survive_witness:
  "(let s1 = snd (daow_append ''a'' [demo_fact] demo_daow);
        s2 = snd (daow_passivated demo_serde ''a'' (snd (daow_flush demo_serde s1)))
    in map jd_event (daow_hist demo_serde s1 ''a'') = [wire_norm demo_serde demo_fact] \<and>
       (case fst (daow_load demo_serde ''a'' s2) of
          Done (Inr found) \<Rightarrow> replay_shows demo_serde found (daow_hist demo_serde s1 ''a'') None
        | _ \<Rightarrow> dw_pool s2 \<noteq> []))"
proof -
  obtain seqs s1 where a: "daow_append ''a'' [demo_fact] demo_daow = (Inr seqs, s1)"
    using daow_append_law [OF demo_daow_ok(1,2) demo_storable] by (metis surj_pair)
  define s2 where "s2 = snd (daow_passivated demo_serde ''a'' (snd (daow_flush demo_serde s1)))"
  obtain r s3 where l: "daow_load demo_serde ''a'' s2 = (r, s3)" by fastforce
  have "(daow_upkeep demo_serde)\<^sup>*\<^sup>* s1 s2"
    unfolding s2_def by (rule rtranclp.rtrancl_into_rtrancl [OF rtranclp.rtrancl_into_rtrancl]) (rule rtranclp.rtrancl_refl up_flush up_passivated)+
  from acknowledged_events_survive [OF demo_daow_ok(1,2) demo_storable a this l]
  show ?thesis by (auto simp: a Let_def s2_def [symmetric] l demo_daow_ok split: outcome.splits sum.splits)
qed

subsection \<open>A flushed store comes back from its database\<close>

text \<open>Everything a flush that succeeded left behind is durable.\<close>

lemma flushed_durable:
  assumes inv: "daow_inv sd s" and fl: "daow_flush sd s = (Inr (), s1)"
  shows "\<exists>es. entries_ok sd es \<and> durable sd (dw_db s1) p es \<and> view_at sd s p = view_of sd es"
proof -
  have dok: "daow_ok sd s" using inv by (simp add: daow_inv_def)
  let ?ps = "collect_pending sd None s"
  have w: "write_pending ?ps s = (Inr (), s1)"
    using fl by (auto simp: daow_flush_def split: prod.splits sum.splits)
  note f = write_pending_ok [OF dok daow_inv_fits [OF inv] w]
  have d1: "daow_ok sd s1" "view sd s1 = view sd s" using f by simp_all
  have vp: "view_at sd s p = view_at sd s1 p" using view_hist [OF d1(2)] by (simp add: view_at_def)
  show ?thesis
  proof (cases "open_buffer s p")
    case None
    then obtain es where es: "entries_ok sd es" "durable sd (dw_db s) p es"
      using dok by (auto simp: daow_ok_def path_ok_def cold_ok_def dest!: spec [of _ p])
    show ?thesis
    proof (cases "p \<in> pf_path ` set ?ps")
      case True
      then have "open_buffer s p \<noteq> None" using daow_inv_fits(2) [OF inv, of None] by (auto simp: fits_def)
      with None show ?thesis by simp
    next
      case False
      then have "durable sd (dw_db s1) p es" using write_pending_other [OF dok daow_inv_fits [OF inv] w] es(2) by simp
      then show ?thesis using es view_cold [OF None es] by blast
    qed
  next
    case (Some b)
    have bok: "buffer_ok sd (dw_db s) p b" using dok Some by (simp add: daow_ok_def path_ok_open [symmetric])
    then have eok: "entries_ok sd (bf_entries b)" by (simp add: buffer_ok_def)
    have "durable sd (dw_db s1) p (bf_entries b)"
    proof (cases "pending_of sd p b")
      case None
      then have "bf_flushed b = length (bf_entries b)" by (simp add: pending_of_def Let_def jn_len_def split: if_splits)
      then have "durable sd (dw_db s) p (bf_entries b)" using bok by (auto simp: buffer_ok_def)
      moreover have "p \<notin> pf_path ` set ?ps"
        using collect_pending_paths(2) [of s _ sd None] dok Some None by (fastforce simp: daow_ok_def open_buffer_Some)
      ultimately show ?thesis using write_pending_other [OF dok daow_inv_fits [OF inv] w] by simp
    next
      case c: (Some c)
      have "c \<in> set ?ps"
        using Some c by (auto simp: collect_pending_def List.map_filter_def open_buffer_Some dest!: map_of_SomeD intro!: image_eqI [of _ _ "(p, b)"])
      then show ?thesis using f Some pending_of_facts [OF c] by (fastforce simp: captured_def)
    qed
    then show ?thesis using eok view_open [OF Some, of sd] by blast
  qed
qed

lemma rows_of_ingests:
  "\<forall>x \<in> set es. entry_ok sd x \<Longrightarrow> map er_ingest (rows_of sd p es) = map (int \<circ> jd_ingest) (events_in es)"
proof (induction es)
  case (Cons x es)
  show ?case
  proof (cases x)
    case (JEvent q e origin i)
    obtain pe where "serialize_event sd x = Some pe" using JEvent serialize_event_Some by blast
    then show ?thesis using Cons JEvent row_read_back(4) [of sd q e origin i pe p] by simp
  qed (use Cons in simp)
qed simp

lemma max_ingest_bound:
  assumes "db_events db = Some evs" "\<forall>r \<in> set evs. 0 \<le> er_ingest r \<and> er_ingest r < 2 ^ 63" "r \<in> set evs"
  shows "er_ingest r < int ((case max_ingest db of None \<Rightarrow> 0 | Some i \<Rightarrow> u64_of i) + 1)"
proof -
  obtain x xs where evs: "evs = x # xs" using assms(3) by (cases evs) auto
  define m where "m = fold max (map er_ingest xs) (er_ingest x)"
  have mx: "max_ingest db = Some m" by (simp add: max_ingest_def assms(1) evs m_def)
  have "m = Max (set (map er_ingest evs))"
    using Max.set_eq_fold [of "er_ingest x" "map er_ingest xs"] by (simp add: m_def evs)
  moreover have "er_ingest ` set evs \<noteq> {}" using assms(3) by auto
  ultimately have "m \<in> er_ingest ` set evs" "er_ingest r \<le> m"
    using assms(3) Max_in [of "er_ingest ` set evs"] by (simp_all del: Max_in)
  moreover from this(1) have "0 \<le> m" "m < 2 ^ 63" using assms(2) by auto
  then have "int (u64_of m) = m" by (simp add: u64_of_def)
  ultimately show ?thesis by (simp add: mx)
qed

lemma stored_ingests:
  assumes "entries_ok sd es" and "r \<in> set (rows_of sd p es)"
  shows "0 \<le> er_ingest r \<and> er_ingest r < 2 ^ 63"
proof -
  have all: "\<forall>x \<in> set es. entry_ok sd x" using assms(1) by (simp add: entries_ok_def)
  have "er_ingest r \<in> set (map (int \<circ> jd_ingest) (events_in es))"
    using assms(2) rows_of_ingests [OF all, of p] by (metis image_eqI list.set_map)
  moreover have "jd_ingest d < 2 ^ 63" if "d \<in> set (events_in es)" for d
  proof -
    have "\<exists>q e origin. JEvent q e origin (jd_ingest d) \<in> set es" using that
    proof (induction es)
      case (Cons x xs)
      then show ?case by (cases x) (auto, blast)
    qed simp
    then show ?thesis using all by fastforce
  qed
  ultimately show ?thesis by fastforce
qed

text \<open>The counter a build starts from is above every arrival number of a database that holds the paths.\<close>

lemma build_counts_above:
  assumes durable: "\<And>p. \<exists>es. entries_ok sd es \<and> durable sd db p es"
    and held: "entries_ok sd es" "durable sd db p es" and d: "d \<in> set (map (jd_norm sd) (events_in es))"
  shows "jd_ingest d < (case max_ingest db of None \<Rightarrow> 0 | Some i \<Rightarrow> u64_of i) + 1"
proof -
  obtain evs sns where t: "db_events db = Some evs" "tables db = Some (evs, sns)"
    using held(2) by (auto simp: durable_def split: option.splits)
  have bound: "\<forall>r \<in> set evs. 0 \<le> er_ingest r \<and> er_ingest r < 2 ^ 63"
  proof
    fix r assume r: "r \<in> set evs"
    obtain fs where fs: "entries_ok sd fs" "path_rows (er_journal r) evs = rows_of sd (er_journal r) fs"
      using durable [of "er_journal r"] t(2) by (fastforce simp: durable_def holds_prefix_def)
    have "r \<in> set (rows_of sd (er_journal r) fs)" using r by (simp add: path_rows_def flip: fs(2))
    then show "0 \<le> er_ingest r \<and> er_ingest r < 2 ^ 63" by (rule stored_ingests [OF fs(1)])
  qed
  have all: "\<forall>x \<in> set es. entry_ok sd x" using held(1) by (simp add: entries_ok_def)
  have "int (jd_ingest d) \<in> set (map er_ingest (rows_of sd p es))"
    using d rows_of_ingests [OF all, of p] by auto
  moreover have "rows_of sd p es = path_rows p evs" using held(2) t(2) by (simp add: durable_def holds_prefix_def)
  ultimately obtain r where r: "r \<in> set evs" "er_ingest r = int (jd_ingest d)" by (auto simp: path_rows_def)
  show ?thesis using max_ingest_bound [OF t(1) bound r(1)] r(2) by linarith
qed

lemma build_migrated:
  assumes "latest_version \<le> current_version db" and "daow_build args pool db = (Inr s, db')"
  shows "dw_journals s = []" "dw_db s = db"
    "dw_ingest s = (case max_ingest db of None \<Rightarrow> 0 | Some i \<Rightarrow> u64_of i) + 1"
proof -
  obtain vs where "db_tracker db = Some vs"
    using assms(1) by (auto simp: current_version_def latest_version_def chain_latest_version_def split: option.splits)
  then have "run_pending db = (Inr False, db)"
    using assms(1) by (simp add: run_pending_def bootstrap_tracking_table_def)
  then show "dw_journals s = []" "dw_db s = db"
    "dw_ingest s = (case max_ingest db of None \<Rightarrow> 0 | Some i \<Rightarrow> u64_of i) + 1"
    using assms(2) by (auto simp: daow_build_def with_conn_def pool_answer_def Let_def split: list.splits pool_answer.splits)
qed

text \<open>
  C31. A flushed store comes back from its database.  When a flush has answered that it succeeded, a
  fresh store built over the same database has the same histories and snapshots for every path, with
  its buffers empty, and it numbers later arrivals above everything stored; so a graceful shutdown
  followed by a start loses nothing and keeps the global order.
\<close>

theorem flushed_store_comes_back:
  assumes inv: "daow_inv sd s" and fl: "daow_flush sd s = (Inr (), s1)"
    and mig: "latest_version \<le> current_version (dw_db s1)"
    and build: "daow_build args pool (dw_db s1) = (Inr s2, db)"
  shows "daow_inv sd s2 \<and> daow_hist sd s2 = daow_hist sd s \<and> daow_snap sd s2 = daow_snap sd s \<and>
    dw_journals s2 = [] \<and> dw_db s2 = dw_db s1"
proof -
  note s2 = build_migrated [OF mig build]
  note fd = flushed_durable [OF inv fl]
  have ob: "open_buffer s2 p = None" for p by (simp add: open_buffer_def s2)
  have v: "view_at sd s2 p = view_at sd s p" for p using fd [of p] view_cold [OF ob] s2(2) by metis
  have "path_ok sd s2 p" for p using fd [of p] ob s2(2) by (auto simp: path_ok_def cold_ok_def)
  then have ok: "daow_ok sd s2" by (simp add: daow_ok_def s2)
  have "jd_ingest d < dw_ingest s2" if d: "d \<in> set (daow_hist sd s2 p)" for p d
  proof -
    obtain es where es: "entries_ok sd es" "durable sd (dw_db s1) p es" using fd by blast
    have "view_at sd s2 p = view_of sd es" using view_cold [OF ob es(1)] es(2) s2(2) by simp
    then have "daow_hist sd s2 p = map (jd_norm sd) (events_in es)" by (simp add: view_at_def view_of_def)
    with d show ?thesis unfolding s2(3) by (intro build_counts_above [OF _ es]) (use fd in blast, simp)
  qed
  then have "daow_inv sd s2" using ok by (simp add: daow_inv_def s2(1))
  then show ?thesis using v s2 by (simp add: view_at_def fun_eq_iff)
qed

theorem flushed_store_comes_back_witness:
  "(let s = (snd (daow_append ''a'' [demo_fact] demo_daow))\<lparr>dw_pool := []\<rparr>;
        s1 = snd (daow_flush demo_serde s);
        built = daow_build (daow_args_new daow_config_default) [] (dw_db s1)
    in case fst built of
         Inl err \<Rightarrow> False
       | Inr s2 \<Rightarrow> daow_hist demo_serde s2 = daow_hist demo_serde s \<and> dw_journals s2 = [])"
proof -
  define s where "s = (snd (daow_append ''a'' [demo_fact] demo_daow))\<lparr>dw_pool := []\<rparr>"
  obtain r s0 where a: "daow_append ''a'' [demo_fact] demo_daow = (r, s0)" by fastforce
  have "daow_inv demo_serde s0" using daow_append_law [OF demo_daow_ok(1,2) demo_storable a] by simp
  then have inv: "daow_inv demo_serde s"
    using inv_same_store [of s s0 demo_serde] by (simp add: s_def a)
  obtain s1 where fl: "daow_flush demo_serde s = (Inr (), s1)" "current_version (dw_db s1) = 0"
    by (simp add: s_def daow_append_def buffer_append_def mutable_buffer_def demo_daow_def put_buffer_def buffer_new_def
        journal_new_def append_event_def append_event_with_origin_def Let_def jn_next_seq_def daow_flush_def
        collect_pending_def pending_of_def jn_len_def List.map_filter_simps write_pending_def with_conn_def
        pool_answer_def write_pending_tx_def serialize_event.simps(2) insert_event_def existing_row_def
        current_version_def commit_flush_def commit_one_def)
  obtain s2 db where b: "daow_build (daow_args_new daow_config_default) [] (dw_db s1) = (Inr s2, db)"
  proof -
    have "db_tracker (dw_db s1) \<noteq> None" using fl(2) by (auto simp: current_version_def split: option.splits)
    then have "run_pending (dw_db s1) = (Inr False, dw_db s1)"
      using fl(2) by (auto simp: run_pending_def bootstrap_tracking_table_def latest_version_def chain_latest_version_def)
    then show ?thesis using that by (simp add: daow_build_def with_conn_def pool_answer_def Let_def)
  qed
  have m: "latest_version \<le> current_version (dw_db s1)" by (simp add: fl latest_version_def chain_latest_version_def)
  from flushed_store_comes_back [OF inv fl(1) m b] show ?thesis
    by (simp add: Let_def s_def [symmetric] fl b)
qed

subsection \<open>A passivation with unflushed entries keeps its buffer\<close>

lemma with_conn_journals: "with_conn f s = (r, x) \<Longrightarrow> dw_journals x = dw_journals s"
proof -
  assume w: "with_conn f s = (r, x)"
  obtain a s2 where a: "pool_answer s = (a, s2)" by fastforce
  show "dw_journals x = dw_journals s"
    using w a pool_answer_fields [OF a] by (cases a) (auto simp: with_conn_def split: prod.splits)
qed

lemma write_pending_shape:
  assumes "write_pending ps s = (r, s')"
  obtains x where "dw_journals x = dw_journals s" "s' = x \<or> s' = commit_flush ps x"
    "r = Inr () \<Longrightarrow> s' = commit_flush ps x"
proof (cases "ps = []")
  case True
  then have "s' = s" using assms by (simp add: write_pending_def)
  then show ?thesis by (intro that [of s]) (simp_all add: True commit_flush_def)
next
  case False
  obtain r2 x where w: "with_conn (write_pending_tx ps) s = (r2, x)" by fastforce
  show ?thesis
  proof (rule that [OF with_conn_journals [OF w]])
    show "s' = x \<or> s' = commit_flush ps x" "r = Inr () \<Longrightarrow> s' = commit_flush ps x"
      using assms w False by (auto simp: write_pending_def split: option.splits)
  qed
qed

lemma commit_one_other:
  "pf_path c \<noteq> p \<Longrightarrow> map_of (dw_journals (commit_one c x)) p = map_of (dw_journals x) p"
  "distinct (map fst (dw_journals x)) \<Longrightarrow> distinct (map fst (dw_journals (commit_one c x)))"
  by (simp_all add: commit_one_def Let_def put_buffer_def drop_buffer_def split: option.split)

lemma tick_keeps_clean_buffer:
  assumes "map_of (dw_journals s) p = Some b" "pending_of sd p b = None" "distinct (map fst (dw_journals s))"
  shows "map_of (dw_journals (writer_tick sd s)) p = Some b \<and> distinct (map fst (dw_journals (writer_tick sd s)))"
proof -
  let ?ps = "collect_pending sd None s"
  have "c \<in> set ?ps \<Longrightarrow> pf_path c \<noteq> p" for c
    using collect_pending_paths(2) [OF assms(3), of c sd None] assms(1,2) by fastforce
  then have keep: "map_of (dw_journals x) p = Some b \<and> distinct (map fst (dw_journals x)) \<Longrightarrow> set cs \<subseteq> set ?ps \<Longrightarrow>
      map_of (dw_journals (commit_flush cs x)) p = Some b \<and> distinct (map fst (dw_journals (commit_flush cs x)))" for cs x
  proof (induction cs arbitrary: x)
    case (Cons c cs)
    have "map_of (dw_journals (commit_one c x)) p = Some b \<and> distinct (map fst (dw_journals (commit_one c x)))"
      using Cons.prems \<open>\<And>c. c \<in> set ?ps \<Longrightarrow> pf_path c \<noteq> p\<close> [of c] commit_one_other(1) [of c p x] commit_one_other(2) [of x c] by simp
    then show ?case using Cons by (simp add: commit_flush_def)
  qed (simp add: commit_flush_def)
  obtain r1 s1 where w: "write_pending ?ps s = (r1, s1)" by fastforce
  obtain x where "dw_journals x = dw_journals s" "s1 = x \<or> s1 = commit_flush ?ps x"
    using write_pending_shape [OF w] by blast
  then have "map_of (dw_journals s1) p = Some b \<and> distinct (map fst (dw_journals s1))"
    using keep [OF _ subset_refl] assms(1,3) by auto
  then show ?thesis using w by (auto simp: writer_tick_def flush_cycle_def split: sum.split)
qed

text \<open>
  C32. A passivation that has something to flush never releases its buffer.  The flag that asks for the
  release is set after the batch was captured, so the commit of that batch does not see it: although
  the flush succeeded and every entry is durable, the journal of the passivated path stays in memory,
  and since nothing is pending for it any more, no later tick of the writer drops it, however many
  there are.
\<close>

theorem passivation_leaks_buffer:
  assumes "daow_inv sd s" "open_buffer s p = Some b" "bf_flushed b < length (bf_entries b)"
    and "\<not> bf_drop_when_durable b" and "daow_passivated sd p s = (Inr (), s1)"
  shows "\<exists>b1. map_of (dw_journals ((writer_tick sd ^^ n) s1)) p = Some b1 \<and> bf_journal b1 = bf_journal b \<and>
    bf_flushed b1 = length (bf_entries b1) \<and> bf_drop_when_durable b1"
proof -
  have d: "distinct (map fst (dw_journals s))" using assms(1) by (simp add: daow_inv_def daow_ok_def)
  have m: "map_of (dw_journals s) p = Some b" using assms(2) by (simp add: open_buffer_Some)
  obtain c where c: "pending_of sd p b = Some c" using assms(3) by (auto simp: pending_of_def jn_len_def Let_def)
  note pc = pending_of_facts [OF c]
  have pend: "collect_pending sd (Some p) s = [c]" using collect_pending_one [OF d, of sd p] m c by simp
  have w: "write_pending [c] (mark_drop p s) = (Inr (), s1)"
    using assms(5) pend by (auto simp: daow_passivated_def split: prod.splits sum.splits)
  define b1 where "b1 = b\<lparr>bf_drop_when_durable := True, bf_flushed := length (bf_entries b)\<rparr>"
  have md: "mark_drop p s = put_buffer p (b\<lparr>bf_drop_when_durable := True\<rparr>) s" using m by (simp add: mark_drop_def)
  obtain x where "dw_journals x = dw_journals (mark_drop p s)" "s1 = commit_flush [c] x"
    using write_pending_shape [OF w] by blast
  then have s1: "map_of (dw_journals s1) p = Some b1 \<and> distinct (map fst (dw_journals s1))"
    using pc assms(4) d
    by (auto simp: md commit_flush_def commit_one_def Let_def put_buffer_def captured_def b1_def)
  have clean: "pending_of sd p b1 = None" by (simp add: pending_of_def b1_def jn_len_def)
  have "map_of (dw_journals ((writer_tick sd ^^ n) s1)) p = Some b1 \<and>
      distinct (map fst (dw_journals ((writer_tick sd ^^ n) s1)))"
    by (induction n) (use s1 tick_keeps_clean_buffer [OF _ clean] in auto)
  then show ?thesis by (intro exI [of _ b1]) (simp add: b1_def)
qed

theorem passivation_leaks_buffer_witness:
  "(let s = (snd (daow_append ''a'' [demo_fact] demo_daow))\<lparr>dw_pool := []\<rparr>;
        s1 = snd (daow_passivated demo_serde ''a'' s)
    in \<exists>b1. map_of (dw_journals ((writer_tick demo_serde ^^ 3) s1)) ''a'' = Some b1 \<and>
         bf_flushed b1 = length (bf_entries b1) \<and> bf_drop_when_durable b1)"
proof -
  define s where "s = (snd (daow_append ''a'' [demo_fact] demo_daow))\<lparr>dw_pool := []\<rparr>"
  obtain r s0 where a: "daow_append ''a'' [demo_fact] demo_daow = (r, s0)" by fastforce
  have "daow_inv demo_serde s0" using daow_append_law [OF demo_daow_ok(1,2) demo_storable a] by simp
  then have inv: "daow_inv demo_serde s" using inv_same_store [of s s0 demo_serde] by (simp add: s_def a)
  note eval = s_def daow_append_def buffer_append_def mutable_buffer_def demo_daow_def put_buffer_def buffer_new_def
    journal_new_def append_event_def append_event_with_origin_def Let_def jn_next_seq_def open_buffer_def
  obtain b where b: "open_buffer s ''a'' = Some b" "bf_flushed b < length (bf_entries b)" "\<not> bf_drop_when_durable b"
    by (simp add: eval)
  obtain s1 where p: "daow_passivated demo_serde ''a'' s = (Inr (), s1)"
    by (simp add: eval daow_passivated_def mark_drop_def collect_pending_def pending_of_def jn_len_def
        List.map_filter_simps write_pending_def with_conn_def pool_answer_def write_pending_tx_def
        serialize_event.simps(2) insert_event_def existing_row_def commit_flush_def commit_one_def)
  from passivation_leaks_buffer [OF inv b p, of 3] show ?thesis by (auto simp: Let_def s_def [symmetric] p)
qed

subsection \<open>A catch-up that fails halfway\<close>

text \<open>
  Facts of a catch-up that fails halfway are recorded and never folded.  When the pool refuses the
  check of a later fact, the call answers an error, and its caller folds nothing; but the facts before
  it are in the projector's journal already, so the next catch-up is told that they are known and does
  not fold them either.  The live read model misses them until it is rebuilt.
\<close>

lemma halfway_catchup_is_not_folded:
  assumes "open_buffer s p = Some b" and "dw_pool s = [PoolOk, PoolRefused]"
    and "db_holds_origin p (sc_journal sc1) (sc_seq sc1) (dw_db s) = Some False"
    and "\<not> holds_origin (sc_journal sc1) (sc_seq sc1) (bf_journal b)"
    and "\<not> holds_origin (sc_journal sc2) (sc_seq sc2) (bf_journal b)" and "scan_origin sc2 \<noteq> scan_origin sc1"
  shows "\<exists>s1. daow_append_catchup p [sc1, sc2] s = (Inl AppendError, s1) \<and>
    holds_origin (sc_journal sc1) (sc_seq sc1) (daow_journal sd s1 p) \<and>
    fst (daow_append_catchup p [sc1] s1) = Inr [None]"
proof -
  have m: "map_of (dw_journals s) p = Some b" "\<not> bf_activating b" using assms(1) by (simp_all add: open_buffer_Some)
  define j where "j = snd (append_event_with_origin (sc_event sc1) (CatchUp (sc_journal sc1) (sc_seq sc1)) (dw_ingest s) (bf_journal b))"
  have h1: "holds_origin (sc_journal sc1) (sc_seq sc1) j"
    by (simp add: j_def holds_origin_iff)
  have h2: "\<not> holds_origin (sc_journal sc2) (sc_seq sc2) j"
    using assms(5,6) by (simp add: j_def holds_origin_iff scan_origin_def)
  define s1 where "s1 = put_buffer p (b\<lparr>bf_journal := j\<rparr>) (s\<lparr>dw_pool := [], dw_ingest := dw_ingest s + 1\<rparr>)"
  have "daow_append_catchup p [sc1, sc2] s = (Inl AppendError, s1)"
    using assms(2-4) m h2
    by (simp add: mutable_buffer_def with_conn_def pool_answer_def Let_def j_def s1_def put_buffer_def case_prod_beta)
  moreover have "open_buffer s1 p = Some (b\<lparr>bf_journal := j\<rparr>)" using m(2) by (simp add: s1_def)
  moreover have "fst (daow_append_catchup p [sc1] s1) = Inr [None]"
    using m(2) h1 by (simp add: mutable_buffer_def s1_def put_buffer_def)
  ultimately show ?thesis using h1 by (intro exI [of _ s1]) (simp add: daow_journal_def)
qed

end
