(* ===== verification/DaowLive.thy ===== *)
theory DaowLive
  imports DaowContract "HOL-Library.Sublist"
begin

text \<open>
  Progress of the SQLite store's writer (\<open>src/src/journal_daow.rs\<close>): whatever is acknowledged reaches the
  tables, as long as the writer keeps ticking and the pool does not fail for ever.
\<close>

subsection \<open>What the tables hold\<close>

text \<open>The events a process that knows nothing but the database reads for a path.\<close>

definition stored_events :: "serde \<Rightarrow> sql_db \<Rightarrow> string \<Rightarrow> event list" where
  "stored_events sd db p = map (wire_norm sd \<circ> jd_event) (events_in (jn_entries (stored_journal sd db p)))"

definition daow_events :: "serde \<Rightarrow> daow \<Rightarrow> string \<Rightarrow> event list" where
  "daow_events sd s p = map jd_event (daow_hist sd s p)"

lemma events_of_view: "view_at sd s p = view_of sd es \<Longrightarrow> daow_events sd s p = map (wire_norm sd \<circ> jd_event) (events_in es)"
  by (simp add: view_at_def view_of_def daow_events_def jd_norm_def comp_def)

lemma stored_of_durable:
  assumes "entries_ok sd es" "durable sd db p es"
  shows "stored_events sd db p = map (wire_norm sd \<circ> jd_event) (events_in es)"
proof -
  let ?s = "demo_daow\<lparr>dw_db := db\<rparr>"
  have o: "open_buffer ?s p = None" by (simp add: open_buffer_def demo_daow_def)
  have "stored_events sd db p = map (wire_norm sd) (daow_events sd ?s p)"
    using o by (simp add: stored_events_def daow_events_def daow_hist_def daow_journal_def comp_def)
  also have "\<dots> = map (wire_norm sd \<circ> jd_event) (events_in es)"
    using events_of_view [OF view_cold [OF o assms(1)]] assms(2) by (simp add: comp_def)
  finally show ?thesis .
qed

subsection \<open>The pool\<close>

text \<open>No operation puts answers back into the pool, and a write that fails has used one up.\<close>

lemma with_conn_pool:
  "with_conn f s = (r, s') \<Longrightarrow> dw_pool s' = tl (dw_pool s)"
  by (auto simp: with_conn_def pool_answer_def split: list.splits prod.splits pool_answer.splits)

lemma commit_flush_pool [simp]: "dw_pool (commit_flush cs s) = dw_pool s"
  by (induction cs arbitrary: s)
    (simp_all add: commit_flush_def commit_one_def Let_def put_buffer_def drop_buffer_def split: option.split)

lemma report_pool [simp]: "dw_pool (report op err s) = dw_pool s"
  by (simp add: report_def)

lemma buffer_pool [simp]: "dw_pool (put_buffer p b s) = dw_pool s" "dw_pool (drop_buffer p s) = dw_pool s"
    "dw_pool (mark_drop p s) = dw_pool s"
  by (simp_all add: put_buffer_def drop_buffer_def mark_drop_def split: option.split)

lemma write_pending_pool: "write_pending ps s = (r, s') \<Longrightarrow> length (dw_pool s') \<le> length (dw_pool s)"
  by (auto simp: write_pending_def split: if_splits prod.splits option.splits dest!: with_conn_pool)

lemma write_pending_fails:
  assumes ok: "daow_ok sd s" "distinct (map pf_path ps)" "\<forall>c \<in> set ps. fits sd s c"
    and w: "write_pending ps s = (Inl err, s')"
  shows "length (dw_pool s') < length (dw_pool s)"
proof -
  have ne: "ps \<noteq> []" using w by (auto simp: write_pending_def)
  obtain db where tx: "write_pending_tx ps (dw_db s) = (Some (), db)" using tx_ok [OF ok ne] by blast
  show ?thesis
    using w ne tx
    by (cases "dw_pool s") (auto simp: write_pending_def with_conn_def pool_answer_def split: option.splits pool_answer.splits)
qed

lemma seed_pool: "length (dw_pool (snd (seed_buffer sd p s))) \<le> length (dw_pool s)"
proof -
  have "length (dw_pool (snd (seed_read sd p x))) \<le> length (dw_pool x)" for x
    using with_conn_pool [of "\<lambda>db. (read_path_rows p db, db)" x]
    by (auto simp: seed_read_def split: prod.split option.split outcome.split sum.split)
  from this [of s] this [of "put_buffer p buffer_activating s"] show ?thesis
    by (simp add: seed_buffer_def split: option.split)
qed

lemma load_pool: "length (dw_pool (snd (daow_load sd p s))) \<le> length (dw_pool s)"
  using seed_pool [of sd p s] by (auto simp: daow_load_def cold_load_def split: option.split prod.split outcome.split sum.split)

lemma upkeep_pool: "daow_upkeep sd s s' \<Longrightarrow> length (dw_pool s') \<le> length (dw_pool s)"
proof (erule daow_upkeep_cases, goal_cases)
  case 1
  then show ?case
    using write_pending_pool [of "collect_pending sd None s" s]
    by (auto simp: writer_tick_def flush_cycle_def split: prod.split sum.split)
next
  case 2
  then show ?case
    using write_pending_pool [of "collect_pending sd None s" s] by (auto simp: daow_flush_def split: prod.split sum.split)
next
  case (3 p)
  then show ?case
    using write_pending_pool [of "collect_pending sd (Some p) s" "mark_drop p s"]
    by (auto simp: daow_passivated_def Let_def split: prod.split sum.split)
qed (simp add: load_pool)

subsection \<open>One tick\<close>

text \<open>After a tick everything is in the tables, or the tick has used up one of the pool's failures.\<close>

lemma tick_progress:
  assumes inv: "daow_inv sd s"
  shows "(\<forall>p. stored_events sd (dw_db (writer_tick sd s)) p = daow_events sd s p) \<or>
    length (dw_pool (writer_tick sd s)) < length (dw_pool s)"
proof -
  let ?ps = "collect_pending sd None s"
  obtain r s1 where w: "write_pending ?ps s = (r, s1)" by fastforce
  note fit = daow_inv_fits [OF inv, of None]
  have ok: "daow_ok sd s" and d: "distinct (map fst (dw_journals s))" using inv by (simp_all add: daow_inv_def daow_ok_def)
  have tick: "dw_db (writer_tick sd s) = dw_db s1" "dw_pool (writer_tick sd s) = dw_pool s1"
    using w by (simp_all add: writer_tick_def flush_cycle_def report_def split: sum.split)
  note wo = write_pending_ok [OF ok fit w]
  show ?thesis
  proof (cases r)
    case (Inl err)
    then show ?thesis using write_pending_fails [OF ok fit] w tick by simp
  next
    case (Inr u)
    have "stored_events sd (dw_db s1) p = daow_events sd s p" for p
    proof -
      have "\<exists>es. entries_ok sd es \<and> durable sd (dw_db s1) p es \<and> view_at sd s p = view_of sd es"
      proof (cases "daow_flush sd s = (Inr (), s1)")
        case True
        then show ?thesis by (rule flushed_durable [OF inv])
      next
        case False
        then show ?thesis using w Inr by (simp add: daow_flush_def)
      qed
      then show ?thesis using stored_of_durable events_of_view by metis
    qed
    then show ?thesis by (simp add: tick)
  qed
qed

subsection \<open>The life of a store\<close>

text \<open>Upkeep of any kind, and acknowledged appends to paths that were loaded.\<close>

inductive daow_life :: "serde \<Rightarrow> daow \<Rightarrow> daow \<Rightarrow> bool" for sd :: serde where
  life_upkeep: "daow_upkeep sd s s' \<Longrightarrow> daow_life sd s s'"
| life_append: "ready s p \<Longrightarrow> storable sd s p es \<Longrightarrow> daow_append p es s = (Inr seqs, s') \<Longrightarrow> daow_life sd s s'"

lemma life_step:
  assumes "daow_life sd s s'" "daow_inv sd s"
  shows "daow_inv sd s'" "prefix (daow_events sd s p) (daow_events sd s' p)" "length (dw_pool s') \<le> length (dw_pool s)"
  using assms
proof (induction)
  case (life_upkeep s s')
  {
    case 1
    then show ?case using daow_upkeep_inv life_upkeep by blast
  next
    case 2
    then show ?case using daow_upkeep_inv [OF life_upkeep] view_hist [of sd s' s] by (simp add: daow_events_def)
  next
    case 3
    then show ?case using upkeep_pool [OF life_upkeep] by simp
  }
next
  case (life_append s q es seqs s')
  note law = daow_append_law [OF _ life_append]
  {
    case 1
    then show ?case using law by simp
  next
    case 2
    then show ?case using law by (cases "p = q") (auto simp: daow_events_def)
  next
    case 3
    then show ?case using law by simp
  }
qed

lemma life_star:
  assumes "(daow_life sd)\<^sup>*\<^sup>* s s'" "daow_inv sd s"
  shows "daow_inv sd s' \<and> prefix (daow_events sd s p) (daow_events sd s' p) \<and> length (dw_pool s') \<le> length (dw_pool s)"
  using assms
proof (induction)
  case (step x y)
  then show ?case using life_step [of sd x y] by (metis order_trans prefix_order.order_trans)
qed simp

text \<open>A run of the store: an infinite sequence of steps in which the writer never stops ticking.\<close>

definition fair_run :: "serde \<Rightarrow> (nat \<Rightarrow> daow) \<Rightarrow> bool" where
  "fair_run sd r \<longleftrightarrow>
     (\<forall>n. daow_life sd (r n) (r (Suc n))) \<and> (\<forall>n. \<exists>m \<ge> n. r (Suc m) = writer_tick sd (r m))"

lemma run_star:
  assumes "\<And>n. R (r n) (r (Suc n))" "n \<le> m"
  shows "R\<^sup>*\<^sup>* (r n) (r m)"
  using assms(2) by (induction rule: dec_induct) (auto intro: rtranclp.rtrancl_into_rtrancl assms(1))

lemma fair_reaches:
  assumes f: "fair_run sd r"
  shows "daow_inv sd (r n) \<Longrightarrow> \<exists>m \<ge> n. \<forall>p. prefix (daow_events sd (r n) p) (stored_events sd (dw_db (r m)) p)"
proof (induction "length (dw_pool (r n))" arbitrary: n rule: less_induct)
  case less
  obtain m where m: "m \<ge> n" "r (Suc m) = writer_tick sd (r m)" using f by (auto simp: fair_run_def)
  have steps: "daow_life sd (r k) (r (Suc k))" for k using f by (simp add: fair_run_def)
  note to_m = life_star [OF run_star [of "daow_life sd" r, OF steps m(1)] less.prems]
  then have inv: "daow_inv sd (r m)" by blast
  from tick_progress [OF inv] show ?case
  proof
    assume "\<forall>p. stored_events sd (dw_db (writer_tick sd (r m))) p = daow_events sd (r m) p"
    then show ?thesis using to_m m by (intro exI [of _ "Suc m"]) simp
  next
    assume "length (dw_pool (writer_tick sd (r m))) < length (dw_pool (r m))"
    then have shorter: "length (dw_pool (r (Suc m))) < length (dw_pool (r n))" using to_m m(2) by (simp add: order_less_le_trans)
    note to_s = life_step [OF steps [of m] inv]
    obtain k where k: "k \<ge> Suc m" "\<And>p. prefix (daow_events sd (r (Suc m)) p) (stored_events sd (dw_db (r k)) p)"
      using less.hyps [OF shorter to_s(1)] by blast
    have "prefix (daow_events sd (r n) p) (stored_events sd (dw_db (r k)) p)" for p
      using to_m to_s(2) [of p] k(2) [of p] by (metis prefix_order.order_trans)
    then show ?thesis using k(1) m(1) by (intro exI [of _ k]) simp
  qed
qed

text \<open>
  C18. Every acknowledged event reaches the database.  Take any run of the store, with appends, loads,
  flushes, passivations and ticks in any order and with any answers of the pool, of which finitely many
  are failures; the writer need only keep ticking.  Then for every moment \<open>n\<close> there is a later moment at
  which a process that opens the database afresh reads, for every path, all events that were in the
  path's history at \<open>n\<close>, in their order.
\<close>

theorem writer_reaches_disk:
  assumes "daow_inv sd (r 0)" "fair_run sd r"
  shows "\<exists>m \<ge> n. \<forall>p. prefix (daow_events sd (r n) p) (stored_events sd (dw_db (r m)) p)"
proof -
  have "daow_life sd (r k) (r (Suc k))" for k using assms(2) by (simp add: fair_run_def)
  from run_star [of "daow_life sd" r, OF this le0] have "daow_inv sd (r n)" using life_star [OF _ assms(1)] by blast
  then show ?thesis by (rule fair_reaches [OF assms(2)])
qed

text \<open>The run that appends once and ticks ever after, over a pool that loses its first answer.\<close>

fun demo_run :: "nat \<Rightarrow> daow" where
  "demo_run 0 = demo_daow"
| "demo_run (Suc n) =
     (if n = 0 then snd (daow_append ''a'' [demo_fact] demo_daow) else writer_tick demo_serde (demo_run n))"

theorem writer_reaches_disk_witness:
  "\<exists>m \<ge> 1. prefix [wire_norm demo_serde demo_fact] (stored_events demo_serde (dw_db (demo_run m)) ''a'')"
proof -
  obtain seqs s1 where a: "daow_append ''a'' [demo_fact] demo_daow = (Inr seqs, s1)"
    using daow_append_law [OF demo_daow_ok(1,2) demo_storable] by (metis surj_pair)
  have "daow_life demo_serde (demo_run n) (demo_run (Suc n))" for n
    using life_append [OF demo_daow_ok(2) demo_storable a] by (cases n) (simp_all add: a life_upkeep up_tick)
  moreover have "demo_run (Suc (Suc n)) = writer_tick demo_serde (demo_run (Suc n))" for n by simp
  then have "\<forall>n. \<exists>m \<ge> n. demo_run (Suc m) = writer_tick demo_serde (demo_run m)"
    by (metis le_SucI order_refl)
  ultimately have fair: "fair_run demo_serde demo_run" by (simp add: fair_run_def)
  have inv: "daow_inv demo_serde (demo_run 0)" by (simp add: demo_daow_ok)
  have "daow_events demo_serde (demo_run 1) ''a'' = [wire_norm demo_serde demo_fact]"
    using daow_append_law [OF demo_daow_ok(1,2) demo_storable a] by (simp add: a daow_events_def demo_daow_ok)
  with writer_reaches_disk [OF inv fair, of 1] show ?thesis by metis
qed

end
