(* ===== verification/Replies.thy ===== *)
theory Replies
  imports Clocks
begin

text \<open>
  Reply-slot leases (\<open>src/src/reply.rs\<close>).  A lease has a slot in the table, holding the sending end
  of a oneshot channel and an expiry; the receiving end belongs to the asker.  The state pairs the
  table with the oneshot channels, by lease id: \<open>Waiting\<close> while both ends live, \<open>Delivered\<close> once the
  payload is in, \<open>SenderDropped\<close> when the slot was removed without a reply, \<open>ReceiverDropped\<close> when the
  asker went away first.  Lease ids come from the id generator, an argument here.
\<close>

datatype 'p oneshot = Waiting | Delivered 'p | SenderDropped | ReceiverDropped

record 'p reply_world =
  rt_slots :: "(nat \<times> timestamp) list"
  rt_channels :: "(nat \<times> 'p oneshot) list"

definition reply_empty :: "'p reply_world" where
  "reply_empty = \<lparr>rt_slots = [], rt_channels = []\<rparr>"

text \<open>\<open>ReplyTable::open\<close>: the sum of 64-bit millisecond counts wraps.\<close>

definition reply_open :: "nat \<Rightarrow> duration \<Rightarrow> timestamp \<Rightarrow> 'p reply_world \<Rightarrow> 'p reply_world" where
  "reply_open lease ttl now w =
     w\<lparr>rt_slots := AList.update lease
          (from_millis ((as_millis now + dur_as_millis_u64 ttl) mod 2 ^ 64)) (rt_slots w),
       rt_channels := AList.update lease Waiting (rt_channels w)\<rparr>"

text \<open>Sending on the oneshot succeeds iff the receiver is still there.\<close>

fun oneshot_send :: "'p \<Rightarrow> 'p oneshot \<Rightarrow> bool \<times> 'p oneshot" where
  "oneshot_send p Waiting = (True, Delivered p)"
| "oneshot_send p c = (False, c)"

fun drop_sender :: "'p oneshot \<Rightarrow> 'p oneshot" where
  "drop_sender Waiting = SenderDropped"
| "drop_sender c = c"

fun drop_receiver :: "'p oneshot \<Rightarrow> 'p oneshot" where
  "drop_receiver Waiting = ReceiverDropped"
| "drop_receiver c = c"

definition on_channel :: "nat \<Rightarrow> ('p oneshot \<Rightarrow> 'p oneshot) \<Rightarrow> 'p reply_world \<Rightarrow> 'p reply_world" where
  "on_channel lease f w =
     (case map_of (rt_channels w) lease of
        None \<Rightarrow> w
      | Some c \<Rightarrow> w\<lparr>rt_channels := AList.update lease (f c) (rt_channels w)\<rparr>)"

definition reply_complete :: "nat \<Rightarrow> 'p \<Rightarrow> 'p reply_world \<Rightarrow> bool \<times> 'p reply_world" where
  "reply_complete lease p w =
     (case map_of (rt_slots w) lease of
        None \<Rightarrow> (False, w)
      | Some _ \<Rightarrow>
          (let w1 = w\<lparr>rt_slots := AList.delete lease (rt_slots w)\<rparr>
           in (case map_of (rt_channels w) lease of
                 None \<Rightarrow> (False, w1)
               | Some c \<Rightarrow> (fst (oneshot_send p c), on_channel lease (snd \<circ> oneshot_send p) w1))))"

definition reply_cancel :: "nat \<Rightarrow> 'p reply_world \<Rightarrow> 'p reply_world" where
  "reply_cancel lease w =
     (case map_of (rt_slots w) lease of
        None \<Rightarrow> w
      | Some _ \<Rightarrow> on_channel lease drop_sender (w\<lparr>rt_slots := AList.delete lease (rt_slots w)\<rparr>))"

definition reply_prune :: "timestamp \<Rightarrow> 'p reply_world \<Rightarrow> 'p reply_world" where
  "reply_prune now w =
     foldr reply_cancel (map fst (filter (\<lambda>(_, expires_at). \<not> expires_at > now) (rt_slots w))) w"

text \<open>The asker gives up: the receiving end is dropped, the slot stays until cancelled or pruned.\<close>

definition asker_gone :: "nat \<Rightarrow> 'p reply_world \<Rightarrow> 'p reply_world" where
  "asker_gone lease w = on_channel lease drop_receiver w"

definition reply_len :: "'p reply_world \<Rightarrow> nat" where
  "reply_len w = length (rt_slots w)"

definition reply_is_empty :: "'p reply_world \<Rightarrow> bool" where
  "reply_is_empty w = (reply_len w = 0)"

subsection \<open>The table under any sequence of operations\<close>

datatype 'p reply_op =
    OpOpen nat duration timestamp
  | OpComplete nat 'p
  | OpCancel nat
  | OpPrune timestamp
  | OpAskerGone nat

fun reply_apply :: "'p reply_op \<Rightarrow> 'p reply_world \<Rightarrow> 'p reply_world" where
  "reply_apply (OpOpen l ttl now) w = reply_open l ttl now w"
| "reply_apply (OpComplete l p) w = snd (reply_complete l p w)"
| "reply_apply (OpCancel l) w = reply_cancel l w"
| "reply_apply (OpPrune now) w = reply_prune now w"
| "reply_apply (OpAskerGone l) w = asker_gone l w"

definition reply_run :: "'p reply_op list \<Rightarrow> 'p reply_world \<Rightarrow> 'p reply_world" where
  "reply_run ops w = foldl (\<lambda>w op. reply_apply op w) w ops"

fun opens_lease :: "nat \<Rightarrow> 'p reply_op \<Rightarrow> bool" where
  "opens_lease l (OpOpen l' ttl now) = (l = l')"
| "opens_lease l op = False"

text \<open>The channel and the slot of one lease.\<close>

definition chan_of :: "'p reply_world \<Rightarrow> nat \<Rightarrow> 'p oneshot option" where
  "chan_of w l = map_of (rt_channels w) l"

definition slot_of :: "'p reply_world \<Rightarrow> nat \<Rightarrow> timestamp option" where
  "slot_of w l = map_of (rt_slots w) l"

lemma on_channel_obs [simp]:
  "slot_of (on_channel l f w) l' = slot_of w l'"
  "chan_of (on_channel l f w) l' = (if l' = l then map_option f (chan_of w l) else chan_of w l')"
  by (auto simp: on_channel_def slot_of_def chan_of_def split: option.splits)

lemma delete_slot_obs [simp]:
  "slot_of (w\<lparr>rt_slots := AList.delete l (rt_slots w)\<rparr>) l' = (if l' = l then None else slot_of w l')"
  "chan_of (w\<lparr>rt_slots := s\<rparr>) l' = chan_of w l'"
  by (auto simp: slot_of_def chan_of_def)

lemma open_obs [simp]:
  "slot_of (reply_open l ttl now w) l' =
     (if l' = l then Some (from_millis ((as_millis now + dur_as_millis_u64 ttl) mod 2 ^ 64)) else slot_of w l')"
  "chan_of (reply_open l ttl now w) l' = (if l' = l then Some Waiting else chan_of w l')"
  by (auto simp: reply_open_def slot_of_def chan_of_def)

lemma cancel_obs [simp]:
  "slot_of (reply_cancel l w) l' = (if l' = l then None else slot_of w l')"
  "chan_of (reply_cancel l w) l' =
     (if l' = l \<and> slot_of w l \<noteq> None then map_option drop_sender (chan_of w l) else chan_of w l')"
  by (auto simp: reply_cancel_def slot_of_def chan_of_def on_channel_def split: option.splits)

lemma complete_obs [simp]:
  "slot_of (snd (reply_complete l p w)) l' = (if l' = l then None else slot_of w l')"
  "chan_of (snd (reply_complete l p w)) l' =
     (if l' = l \<and> slot_of w l \<noteq> None then map_option (snd \<circ> oneshot_send p) (chan_of w l) else chan_of w l')"
  "fst (reply_complete l p w) \<longleftrightarrow> slot_of w l \<noteq> None \<and> chan_of w l = Some Waiting"
  by (auto simp: reply_complete_def slot_of_def chan_of_def Let_def on_channel_def split: option.splits oneshot.splits)
     (metis fst_conv oneshot.exhaust oneshot_send.simps)+

lemma asker_gone_obs [simp]:
  "slot_of (asker_gone l w) l' = slot_of w l'"
  "chan_of (asker_gone l w) l' = (if l' = l then map_option drop_receiver (chan_of w l) else chan_of w l')"
  by (simp_all add: asker_gone_def)

lemma cancel_all_obs:
  "slot_of (foldr reply_cancel ls w) l' = (if l' \<in> set ls then None else slot_of w l')"
  "chan_of (foldr reply_cancel ls w) l' =
     (if l' \<in> set ls \<and> slot_of w l' \<noteq> None then map_option drop_sender (chan_of w l') else chan_of w l')"
  by (induction ls) auto


text \<open>
  A lease in the table has a channel whose sending end is alive; one that is not has none waiting.
\<close>

definition lease_ok :: "timestamp option \<Rightarrow> 'p oneshot option \<Rightarrow> bool" where
  "lease_ok slot chan \<longleftrightarrow>
     (if slot = None then chan \<noteq> Some Waiting else chan = Some Waiting \<or> chan = Some ReceiverDropped)"

definition rt_wf :: "'p reply_world \<Rightarrow> bool" where
  "rt_wf w \<longleftrightarrow> distinct (map fst (rt_slots w)) \<and>
     (\<forall>l. lease_ok (slot_of w l) (chan_of w l))"

lemma prune_obs [simp]:
  assumes "distinct (map fst (rt_slots w))"
  shows "slot_of (reply_prune now w) l =
      (case slot_of w l of None \<Rightarrow> None | Some e \<Rightarrow> if e > now then Some e else None)"
    and "chan_of (reply_prune now w) l =
      (if \<exists>e. slot_of w l = Some e \<and> \<not> e > now then map_option drop_sender (chan_of w l) else chan_of w l)"
proof -
  have "l \<in> set (map fst (filter (\<lambda>(_, expires_at). \<not> expires_at > now) (rt_slots w))) \<longleftrightarrow>
      (\<exists>e. slot_of w l = Some e \<and> \<not> e > now)"
    using assms by (force simp: slot_of_def)
  then show "slot_of (reply_prune now w) l =
      (case slot_of w l of None \<Rightarrow> None | Some e \<Rightarrow> if e > now then Some e else None)"
    and "chan_of (reply_prune now w) l =
      (if \<exists>e. slot_of w l = Some e \<and> \<not> e > now then map_option drop_sender (chan_of w l) else chan_of w l)"
    unfolding reply_prune_def cancel_all_obs by (auto split: option.splits)
qed

lemma distinct_slots_cancel: "distinct (map fst (rt_slots w)) \<Longrightarrow> distinct (map fst (rt_slots (reply_cancel l w)))"
  by (auto simp: reply_cancel_def on_channel_def split: option.splits)

lemma distinct_slots_apply:
  "distinct (map fst (rt_slots w)) \<Longrightarrow> distinct (map fst (rt_slots (reply_apply op w)))"
proof (cases op)
  case (OpPrune now)
  have "distinct (map fst (rt_slots w)) \<Longrightarrow> distinct (map fst (rt_slots (foldr reply_cancel ls w)))" for ls
    by (induction ls) (simp_all add: distinct_slots_cancel)
  with OpPrune show "distinct (map fst (rt_slots w)) \<Longrightarrow> ?thesis" by (simp add: reply_prune_def)
qed (auto simp: reply_open_def reply_complete_def distinct_slots_cancel asker_gone_def on_channel_def Let_def
      split: option.splits)

lemma drop_not_waiting [simp]:
  "drop_sender c \<noteq> Waiting" "drop_receiver c \<noteq> Waiting" "snd (oneshot_send p c) \<noteq> Waiting"
  by (cases c; simp)+

lemma lease_ok_apply:
  assumes "distinct (map fst (rt_slots w))" "lease_ok (slot_of w l) (chan_of w l)"
  shows "lease_ok (slot_of (reply_apply op w) l) (chan_of (reply_apply op w) l)"
  using assms by (cases op; cases "slot_of w l"; cases "chan_of w l") (auto simp: lease_ok_def)

lemma rt_wf_apply: "rt_wf w \<Longrightarrow> rt_wf (reply_apply op w)"
  by (simp add: rt_wf_def distinct_slots_apply lease_ok_apply)

lemma rt_wf_run: "rt_wf w \<Longrightarrow> rt_wf (reply_run ops w)"
  by (induction ops arbitrary: w) (simp_all add: reply_run_def rt_wf_apply)

lemma rt_wf_empty: "rt_wf reply_empty"
  by (simp add: rt_wf_def lease_ok_def reply_empty_def slot_of_def chan_of_def)

lemma settled_apply:
  assumes "rt_wf w" "slot_of w l = None" "\<not> opens_lease l op"
  shows "slot_of (reply_apply op w) l = None" and "chan_of (reply_apply op w) l = chan_of w l"
proof -
  have d: "distinct (map fst (rt_slots w))" and "chan_of w l \<noteq> Some Waiting"
    using assms(1,2) by (auto simp: rt_wf_def lease_ok_def dest: spec [where x = l])
  then have "map_option drop_receiver (chan_of w l) = chan_of w l"
    by (cases "chan_of w l"; cases "the (chan_of w l)") auto
  with d assms(2,3) show "slot_of (reply_apply op w) l = None" "chan_of (reply_apply op w) l = chan_of w l"
    by (cases op; auto)+
qed

lemma settled_run:
  assumes "rt_wf w" "slot_of w l = None" "\<not> list_ex (opens_lease l) ops"
  shows "slot_of (reply_run ops w) l = None \<and> chan_of (reply_run ops w) l = chan_of w l"
  using assms
proof (induction ops arbitrary: w)
  case Nil
  then show ?case by (simp add: reply_run_def)
next
  case (Cons op ops)
  then show ?case
    using Cons.IH [OF rt_wf_apply [OF Cons.prems(1)], of op] settled_apply [of w l op]
    by (simp add: reply_run_def)
qed

lemma rt_wf_complete: "rt_wf w \<Longrightarrow> rt_wf (snd (reply_complete l p w))"
  using rt_wf_apply [of w "OpComplete l p"] by simp

lemma rt_wf_prune: "rt_wf w \<Longrightarrow> rt_wf (reply_prune now w)"
  using rt_wf_apply [of w "OpPrune now"] by simp

text \<open>
  C25. A reply is delivered at most once, and only to a live lease.  Take any sequence of table
  operations from the empty table.  If completing a lease reports delivery, the asker's channel holds
  that payload after every further sequence that does not reopen the lease id, and every later
  completion reports failure.  A prune cuts off exactly the expired leases: an expired one can never
  be completed again, an unexpired one whose asker still waits still can.
\<close>

theorem reply_delivered_at_most_once:
  fixes l :: nat and ops0 ops :: "'p reply_op list"
  defines "w \<equiv> reply_run ops0 reply_empty"
  assumes "\<not> list_ex (opens_lease l) ops"
  shows "(fst (reply_complete l p w) \<longrightarrow>
      (let w' = reply_run ops (snd (reply_complete l p w)) in
         chan_of w' l = Some (Delivered p) \<and> \<not> fst (reply_complete l q w'))) \<and>
    (\<forall>e. slot_of w l = Some e \<and> e \<le> now \<longrightarrow>
       \<not> fst (reply_complete l q (reply_run ops (reply_prune now w)))) \<and>
    (\<forall>e. slot_of w l = Some e \<and> now < e \<and> chan_of w l = Some Waiting \<longrightarrow>
       fst (reply_complete l q (reply_prune now w)))"
proof -
  have wf: "rt_wf w" unfolding w_def by (rule rt_wf_run [OF rt_wf_empty])
  then have d: "distinct (map fst (rt_slots w))" by (simp add: rt_wf_def)
  note run1 = settled_run [OF rt_wf_complete [OF wf] _ assms(2), of l p]
  note run2 = settled_run [OF rt_wf_prune [OF wf] _ assms(2), of now]
  show ?thesis
    using run1 run2 d by (auto simp: Let_def not_less)
qed

theorem reply_delivered_at_most_once_witness:
  "(let w = reply_run [OpOpen 7 (dur_millis 500) (Timestamp 100)] reply_empty;
        w' = reply_run [OpCancel 7, OpPrune (Timestamp 900)] (snd (reply_complete 7 ''first'' w)) in
      chan_of w' 7 = Some (Delivered ''first'') \<and> \<not> fst (reply_complete 7 ''second'' w'))"
  using reply_delivered_at_most_once [where l = 7 and ops = "[OpCancel 7, OpPrune (Timestamp 900)]"
      and ?ops0.0 = "[OpOpen 7 (dur_millis 500) (Timestamp 100)]" and p = "''first''" and q = "''second''"]
  by (simp add: reply_run_def Let_def)

end
