(* ===== verification/Supervision.thy ===== *)
theory Supervision
  imports Clocks Schemas
begin

text \<open>
  Declarative supervision (\<open>src/src/supervision.rs\<close>): restart policies, the sliding-window restart
  budget, the backoff formula and the failure window.  The floating-point operations of the backoff
  are arguments (\<open>f64_ops\<close>): the standard library's \<open>powi\<close>, product, minimum and the conversions of
  a duration.
\<close>

datatype restart_policy = Permanent | Transient | Never

record restart_budget =
  rb_max :: nat
  rb_window :: duration

definition budget_per :: "nat \<Rightarrow> duration \<Rightarrow> restart_budget" where
  "budget_per m window = \<lparr>rb_max = m, rb_window = window\<rparr>"

definition default_budget :: restart_budget where
  "default_budget = budget_per 5 (dur_millis 10000)"

record 'f backoff =
  bo_base :: duration
  bo_max :: duration
  bo_factor :: 'f

record 'f f64_ops =
  fo_powi :: "'f \<Rightarrow> int \<Rightarrow> 'f"
  fo_mul :: "'f \<Rightarrow> 'f \<Rightarrow> 'f"
  fo_min :: "'f \<Rightarrow> 'f \<Rightarrow> 'f"
  fo_as_secs :: "duration \<Rightarrow> 'f"
  fo_from_secs :: "'f \<Rightarrow> duration"

text \<open>\<open>(attempt - 1, saturating) as i32\<close> reinterprets the low 32 bits.\<close>

definition backoff_exponent :: "nat \<Rightarrow> int" where
  "backoff_exponent attempt = sint (word_of_nat (attempt - 1) :: 32 word)"

definition backoff_delay :: "'f f64_ops \<Rightarrow> 'f backoff \<Rightarrow> nat \<Rightarrow> duration" where
  "backoff_delay ops b attempt =
     (let exp = fo_powi ops (bo_factor b) (backoff_exponent attempt);
          delay = fo_mul ops (fo_as_secs ops (bo_base b)) exp
      in fo_from_secs ops (fo_min ops delay (fo_as_secs ops (bo_max b))))"

text \<open>
  One supervised actor.  The spawn closure is a name the runtime resolves; \<open>'f\<close> is the float type of
  the backoff factor.
\<close>

record 'f actor_spec =
  sp_path :: string
  sp_parent :: "string option"
  sp_restart :: restart_policy
  sp_budget :: restart_budget
  sp_backoff :: "'f backoff"
  sp_args :: json
  sp_spawn :: nat

definition escalation_message :: "'f actor_spec \<Rightarrow> string \<Rightarrow> json" where
  "escalation_message sp reason = JObj [(''escalated'', JStr (sp_path sp)), (''reason'', JStr reason)]"

subsection \<open>The failure window\<close>

text \<open>Milliseconds of the recorded failures, oldest first.\<close>

type_synonym failure_window = "nat list"

definition fw_new :: failure_window where
  "fw_new = []"

definition fw_record :: "nat \<Rightarrow> failure_window \<Rightarrow> failure_window" where
  "fw_record now w = w @ [now]"

definition fw_count :: "nat \<Rightarrow> restart_budget \<Rightarrow> failure_window \<Rightarrow> nat" where
  "fw_count now b w = length (filter (\<lambda>t. now - t \<le> dur_as_millis_u64 (rb_window b)) w)"

definition fw_exhausted :: "nat \<Rightarrow> restart_budget \<Rightarrow> failure_window \<Rightarrow> bool" where
  "fw_exhausted now b w =
     (length (filter (\<lambda>t. now - t \<le> dur_as_millis_u64 (rb_window b)) w) \<ge> rb_max b)"

definition fw_is_empty :: "failure_window \<Rightarrow> bool" where
  "fw_is_empty w = (w = [])"

definition fw_len :: "failure_window \<Rightarrow> nat" where
  "fw_len w = length w"

definition fw_prune :: "nat \<Rightarrow> restart_budget \<Rightarrow> failure_window \<Rightarrow> failure_window" where
  "fw_prune now b w = dropWhile (\<lambda>t. now - t > dur_as_millis_u64 (rb_window b)) w"

lemma fw_count_prune: "now \<le> later \<Longrightarrow> fw_count later b (fw_prune now b w) = fw_count later b w"
  by (induction w) (auto simp: fw_count_def fw_prune_def)

lemma fw_prune_record:
  "now \<le> later \<Longrightarrow> fw_count later b (fw_record t (fw_prune now b w)) = fw_count later b (fw_record t w)"
  using fw_count_prune [of now later b w] by (simp add: fw_record_def fw_count_def)

text \<open>
  A history of failures and prunes, each at the clock's reading: the window the engine keeps, and
  the plain list of all failures.
\<close>

datatype fw_op = FwRecord nat | FwPrune nat

fun fw_time :: "fw_op \<Rightarrow> nat" where
  "fw_time (FwRecord t) = t"
| "fw_time (FwPrune t) = t"

fun fw_run :: "restart_budget \<Rightarrow> fw_op list \<Rightarrow> failure_window \<Rightarrow> failure_window" where
  "fw_run b [] w = w"
| "fw_run b (FwRecord t # ops) w = fw_run b ops (fw_record t w)"
| "fw_run b (FwPrune t # ops) w = fw_run b ops (fw_prune t b w)"

fun fw_all :: "fw_op list \<Rightarrow> failure_window" where
  "fw_all [] = []"
| "fw_all (FwRecord t # ops) = t # fw_all ops"
| "fw_all (FwPrune t # ops) = fw_all ops"

lemma fw_count_append: "fw_count now b (w @ w') = fw_count now b w + fw_count now b w'"
  by (simp add: fw_count_def)

lemma fw_run_count:
  "sorted (map fw_time ops) \<Longrightarrow> list_all (\<lambda>op. fw_time op \<le> now) ops \<Longrightarrow>
   fw_count now b (fw_run b ops w) = fw_count now b (w @ fw_all ops)"
proof (induction ops arbitrary: w)
  case Nil
  then show ?case by simp
next
  case (Cons op ops)
  show ?case
  proof (cases op)
    case (FwRecord t)
    with Cons show ?thesis by (simp add: fw_record_def)
  next
    case (FwPrune t)
    with Cons.prems have "t \<le> now" by simp
    with Cons FwPrune fw_count_prune [of t now b w] show ?thesis by (simp add: fw_count_append)
  qed
qed

lemma fw_exhausted_count: "fw_exhausted now b w \<longleftrightarrow> rb_max b \<le> fw_count now b w"
  by (simp add: fw_exhausted_def fw_count_def)

text \<open>
  Pruning is invisible to the budget.  For every history of recorded failures and prunes with
  non-decreasing clock readings, the budget is exhausted now exactly when at least \<open>max\<close> of all the
  failures ever recorded lie within the window of now: dropping old failures never lets a child
  restart that the full record would stop, and never stops one it would let restart.
\<close>

lemma failure_window_prune_invisible:
  assumes "sorted (map fw_time ops)" and "\<forall>op \<in> set ops. fw_time op \<le> now"
  shows "fw_exhausted now b (fw_run b ops fw_new) \<longleftrightarrow>
    rb_max b \<le> length (filter (\<lambda>t. now - t \<le> dur_as_millis_u64 (rb_window b)) (fw_all ops))"
  using fw_run_count [of ops now b fw_new] assms
  by (simp add: fw_exhausted_count fw_new_def list_all_iff) (simp add: fw_count_def)

lemma failure_window_prune_invisible_witness:
  "fw_exhausted 70 (budget_per 2 (dur_millis 50)) (fw_run (budget_per 2 (dur_millis 50))
     [FwRecord 0, FwRecord 30, FwPrune 60, FwRecord 60] fw_new)"
  using failure_window_prune_invisible [of "[FwRecord 0, FwRecord 30, FwPrune 60, FwRecord 60]" 70
      "budget_per 2 (dur_millis 50)"]
  by (simp add: budget_per_def)

lemma fw_prune_keeps_window: "t \<in> set w \<Longrightarrow> now - t \<le> dur_as_millis_u64 (rb_window b) \<Longrightarrow> t \<in> set (fw_prune now b w)"
  by (induction w) (auto simp: fw_prune_def)

lemma backoff_first_attempts: "backoff_exponent 0 = 0" "backoff_exponent 1 = 0" "backoff_exponent 3 = 2"
  by (simp_all add: backoff_exponent_def)

lemma backoff_capped:
  assumes "\<And>x y. fo_from_secs ops (fo_min ops x y) \<le> fo_from_secs ops y"
    and "fo_from_secs ops (fo_as_secs ops (bo_max b)) = bo_max b"
  shows "backoff_delay ops b attempt \<le> bo_max b"
  using assms(1) [of _ "fo_as_secs ops (bo_max b)"] assms(2) by (simp add: backoff_delay_def Let_def)

end
