(* ===== verification/Inboxes.thy ===== *)
theory Inboxes
  imports Prelude
begin

text \<open>
  The actor inbox (\<open>src/src/inbox.rs\<close>): a bounded FIFO of (offset, slot) pairs under a
  monotonic offset space.  A slot holding \<open>None\<close> is a claim tombstone: its envelope is out in a
  step batch until it is committed or restored.  The envelope type is a type variable.
  Panics (\<open>expect\<close>, \<open>panic!\<close>) are \<open>Panicked\<close> outcomes.

  First the operations, then the representation relation \<open>ib_rep\<close> (cursor, number of claims in
  flight, queued envelopes), the locale \<open>mailbox\<close> with the contract the step loops rely on, its
  interpretation on the inbox, and the reachable states of an inbox under its driver.
\<close>

subsection \<open>Data\<close>

datatype overload_policy = Block | DropNew | DropOld | Unbounded

datatype 'e refused = RefFull 'e | RefEvicted 'e | RefClosed 'e

fun refused_into_envelope :: "'e refused \<Rightarrow> 'e" where
  "refused_into_envelope (RefFull e) = e"
| "refused_into_envelope (RefEvicted e) = e"
| "refused_into_envelope (RefClosed e) = e"

fun refused_queued_anyway :: "'e refused \<Rightarrow> bool" where
  "refused_queued_anyway (RefEvicted e) = True"
| "refused_queued_anyway (RefFull e) = False"
| "refused_queued_anyway (RefClosed e) = False"

record 'e inbox =
  ib_capacity :: nat
  ib_policy :: overload_policy
  ib_next_offset :: nat
  ib_cursor :: nat
  ib_queue :: "(nat \<times> 'e option) list"
  ib_open :: bool

subsection \<open>Operations\<close>

definition inbox_new :: "nat \<Rightarrow> overload_policy \<Rightarrow> 'e inbox" where
  "inbox_new capacity policy =
     \<lparr>ib_capacity = max capacity 1, ib_policy = policy, ib_next_offset = 0, ib_cursor = 0,
      ib_queue = [], ib_open = True\<rparr>"

definition queue_next :: "'e \<Rightarrow> 'e inbox \<Rightarrow> 'e inbox" where
  "queue_next e ib =
     ib\<lparr>ib_next_offset := ib_next_offset ib + 1,
        ib_queue := ib_queue ib @ [(ib_next_offset ib, Some e)]\<rparr>"

definition queue_ok :: "'e \<Rightarrow> 'e inbox \<Rightarrow> (('e refused + nat) \<times> 'e inbox) outcome" where
  "queue_ok e ib = Done (Inr (ib_next_offset (queue_next e ib) - 1), queue_next e ib)"

definition inbox_push :: "'e \<Rightarrow> 'e inbox \<Rightarrow> (('e refused + nat) \<times> 'e inbox) outcome" where
  "inbox_push e ib =
     (if \<not> ib_open ib then Done (Inl (RefClosed e), ib)
      else if ib_policy ib = Unbounded then queue_ok e ib
      else if length (ib_queue ib) \<ge> ib_capacity ib then
        (case ib_policy ib of
           DropOld \<Rightarrow>
             (case ib_queue ib of
                [] \<Rightarrow> queue_ok e ib
              | (off, None) # q \<Rightarrow> Panicked ''evicting a claim tombstone''
              | (off, Some old) # q \<Rightarrow>
                  Done (Inl (RefEvicted old),
                        queue_next e (ib\<lparr>ib_queue := q, ib_cursor := ib_cursor ib + 1\<rparr>)))
         | Unbounded \<Rightarrow> Panicked ''early-returned above''
         | _ \<Rightarrow> Done (Inl (RefFull e), ib))
      else queue_ok e ib)"

definition inbox_close :: "'e inbox \<Rightarrow> 'e inbox" where
  "inbox_close ib = ib\<lparr>ib_open := False\<rparr>"

definition inbox_reopen :: "'e inbox \<Rightarrow> 'e inbox" where
  "inbox_reopen ib = ib\<lparr>ib_open := True\<rparr>"

fun drain_live_loop :: "(nat \<times> 'e option) list \<Rightarrow> 'e list \<times> (nat \<times> 'e option) list" where
  "drain_live_loop [] = ([], [])"
| "drain_live_loop ((off, Some e) # q) = (let (d, k) = drain_live_loop q in (e # d, k))"
| "drain_live_loop ((off, None) # q) = (let (d, k) = drain_live_loop q in (d, (off, None) # k))"

definition inbox_drain_live :: "'e inbox \<Rightarrow> 'e list \<times> 'e inbox" where
  "inbox_drain_live ib =
     (let (drained, keep) = drain_live_loop (ib_queue ib) in (drained, ib\<lparr>ib_queue := keep\<rparr>))"

definition inbox_peek :: "'e inbox \<Rightarrow> 'e option outcome" where
  "inbox_peek ib =
     (case ib_queue ib of
        [] \<Rightarrow> Done None
      | (off, slot) # q \<Rightarrow>
          if off = ib_cursor ib
          then (case slot of None \<Rightarrow> Panicked ''peek on a claim tombstone'' | Some e \<Rightarrow> Done (Some e))
          else Done None)"

definition inbox_ack :: "'e inbox \<Rightarrow> (nat \<times> 'e inbox) outcome" where
  "inbox_ack ib =
     (if ib_cursor ib \<ge> ib_next_offset ib then Panicked ''inbox acked past the write head''
      else
        let q = (case ib_queue ib of
                   [] \<Rightarrow> []
                 | (off, slot) # q \<Rightarrow> if off = ib_cursor ib then q else (off, slot) # q);
            cur = ib_cursor ib + 1
        in Done (cur, ib\<lparr>ib_queue := q, ib_cursor := cur\<rparr>))"

fun drain_slots :: "(nat \<times> 'e option) list \<Rightarrow> (nat \<times> 'e) list outcome" where
  "drain_slots [] = Done []"
| "drain_slots ((off, None) # q) = Panicked ''drain on a claim tombstone''"
| "drain_slots ((off, Some e) # q) = map_outcome (\<lambda>r. (off, e) # r) (drain_slots q)"

definition inbox_drain :: "'e inbox \<Rightarrow> ((nat \<times> 'e) list \<times> 'e inbox) outcome" where
  "inbox_drain ib = map_outcome (\<lambda>d. (d, ib\<lparr>ib_queue := []\<rparr>)) (drain_slots (ib_queue ib))"

text \<open>
  The claim loop walks the queue with the running count \<open>claimed\<close>; it returns the batch and the
  queue with the claimed slots taken.
\<close>

fun claim_loop ::
  "nat \<Rightarrow> nat \<Rightarrow> nat \<Rightarrow> (nat \<times> 'e option) list
   \<Rightarrow> ((nat \<times> 'e) list \<times> (nat \<times> 'e option) list) outcome" where
  "claim_loop cur n claimed [] = Done ([], [])"
| "claim_loop cur n claimed ((off, slot) # q) =
     (if claimed = n then Done ([], (off, slot) # q)
      else if off < cur then
        map_outcome (\<lambda>(b, q'). (b, (off, slot) # q')) (claim_loop cur n claimed q)
      else if off \<noteq> cur + claimed then Done ([], (off, slot) # q)
      else (case slot of
              None \<Rightarrow> Panicked ''claim on a claim tombstone ahead of the committed prefix''
            | Some e \<Rightarrow>
                map_outcome (\<lambda>(b, q'). ((off, e) # b, (off, None) # q'))
                  (claim_loop cur n (claimed + 1) q)))"

definition inbox_claim_up_to :: "nat \<Rightarrow> 'e inbox \<Rightarrow> ((nat \<times> 'e) list \<times> 'e inbox) outcome" where
  "inbox_claim_up_to n ib =
     map_outcome (\<lambda>(b, q). (b, ib\<lparr>ib_queue := q\<rparr>)) (claim_loop (ib_cursor ib) n 0 (ib_queue ib))"

text \<open>\<open>find\<close> the first slot with the offset, check the cursor, then replace the slot.\<close>

fun restore_slot ::
  "nat \<Rightarrow> nat \<Rightarrow> 'e \<Rightarrow> (nat \<times> 'e option) list \<Rightarrow> (nat \<times> 'e option) list outcome" where
  "restore_slot cur off e [] = Panicked ''restore: offset is not queued (committed or evicted?)''"
| "restore_slot cur off e ((o', slot) # q) =
     (if o' = off then
        (if off < cur then Panicked ''restore: offset is behind the cursor (already committed)''
         else case slot of
                None \<Rightarrow> Done ((o', Some e) # q)
              | Some e' \<Rightarrow> Panicked ''restore: slot was live (double restore)'')
      else map_outcome (\<lambda>q'. (o', slot) # q') (restore_slot cur off e q))"

fun restore_loop ::
  "nat \<Rightarrow> (nat \<times> 'e) list \<Rightarrow> (nat \<times> 'e option) list \<Rightarrow> (nat \<times> 'e option) list outcome" where
  "restore_loop cur [] q = Done q"
| "restore_loop cur ((off, e) # b) q = bind_outcome (restore_slot cur off e q) (restore_loop cur b)"

definition inbox_restore_claims :: "(nat \<times> 'e) list \<Rightarrow> 'e inbox \<Rightarrow> (bool \<times> 'e inbox) outcome" where
  "inbox_restore_claims batch ib =
     map_outcome (\<lambda>q. (batch \<noteq> [], ib\<lparr>ib_queue := q\<rparr>)) (restore_loop (ib_cursor ib) batch (ib_queue ib))"

definition inbox_commit_through :: "nat \<Rightarrow> 'e inbox \<Rightarrow> (bool \<times> 'e inbox) outcome" where
  "inbox_commit_through off ib =
     (if off \<ge> ib_next_offset ib then Panicked ''inbox committed past the write head''
      else
        let q = dropWhile (\<lambda>(o', _). o' \<le> off) (ib_queue ib)
        in Done (length q < length (ib_queue ib), ib\<lparr>ib_queue := q, ib_cursor := off + 1\<rparr>))"

definition inbox_len :: "'e inbox \<Rightarrow> nat" where
  "inbox_len ib = length (ib_queue ib)"

definition inbox_is_empty :: "'e inbox \<Rightarrow> bool" where
  "inbox_is_empty ib = (ib_queue ib = [])"

subsection \<open>Representation\<close>

text \<open>
  \<open>ib_rep ib c k es\<close>: the cursor is \<open>c\<close>, \<open>k\<close> claims are in flight at the front of the queue, and
  \<open>es\<close> are the queued envelopes behind them; offsets run contiguously from the cursor.
\<close>

definition ib_rep :: "'e inbox \<Rightarrow> nat \<Rightarrow> nat \<Rightarrow> 'e list \<Rightarrow> bool" where
  "ib_rep ib c k es \<longleftrightarrow>
     ib_cursor ib = c \<and>
     ib_queue ib = enumerate c (replicate k None @ map Some es) \<and>
     c + k + length es \<le> ib_next_offset ib \<and>
     1 \<le> ib_capacity ib"

text \<open>No drained tail: the write head is right behind the queue.\<close>

definition ib_tight :: "'e inbox \<Rightarrow> bool" where
  "ib_tight ib \<longleftrightarrow> ib_next_offset ib = ib_cursor ib + length (ib_queue ib)"

lemma ib_rep_new: "ib_rep (inbox_new n p) 0 0 []"
  by (simp add: ib_rep_def inbox_new_def)

lemma ib_tight_new: "ib_tight (inbox_new n p)"
  by (simp add: ib_tight_def inbox_new_def)

lemma ib_rep_len: "ib_rep ib c k es \<Longrightarrow> inbox_len ib = k + length es"
  by (simp add: ib_rep_def inbox_len_def)

subsubsection \<open>Push\<close>

lemma queue_next_rep:
  assumes "ib_rep ib c k es" "ib_tight ib"
  shows "ib_rep (queue_next e ib) c k (es @ [e])" and "ib_tight (queue_next e ib)"
proof -
  have "ib_next_offset ib = c + (k + length es)"
    using assms by (simp add: ib_rep_def ib_tight_def)
  with assms show "ib_rep (queue_next e ib) c k (es @ [e])"
    by (simp add: ib_rep_def queue_next_def enumerate_append_eq add.commute add.left_commute)
  show "ib_tight (queue_next e ib)"
    using assms by (simp add: ib_tight_def queue_next_def)
qed

lemma queue_ok_rep:
  assumes "ib_rep ib c k es" "ib_tight ib"
  shows "queue_ok e ib = Done (Inr (c + k + length es), queue_next e ib)"
  using assms by (simp add: queue_ok_def ib_rep_def ib_tight_def queue_next_def)

lemma evict_rep:
  assumes "ib_rep ib c 0 (old # es)" "ib_tight ib"
  shows "ib_rep (queue_next e (ib\<lparr>ib_queue := tl (ib_queue ib), ib_cursor := ib_cursor ib + 1\<rparr>)) (Suc c) 0 (es @ [e])"
    and "ib_tight (queue_next e (ib\<lparr>ib_queue := tl (ib_queue ib), ib_cursor := ib_cursor ib + 1\<rparr>))"
proof -
  let ?ib = "ib\<lparr>ib_queue := tl (ib_queue ib), ib_cursor := ib_cursor ib + 1\<rparr>"
  have rep: "ib_rep ?ib (Suc c) 0 es" and tight: "ib_tight ?ib"
    using assms by (simp_all add: ib_rep_def ib_tight_def)
  show "ib_rep (queue_next e ?ib) (Suc c) 0 (es @ [e])" "ib_tight (queue_next e ?ib)"
    using queue_next_rep [OF rep tight] by simp_all
qed

subsubsection \<open>Claim, restore, commit\<close>

lemma claim_loop_enumerate:
  "claimed \<le> n \<Longrightarrow>
   claim_loop cur n claimed (enumerate (cur + claimed) (map Some es)) =
     Done (enumerate (cur + claimed) (take (n - claimed) es),
           enumerate (cur + claimed)
             (replicate (min (n - claimed) (length es)) None @ map Some (drop (n - claimed) es)))"
proof (induction es arbitrary: claimed)
  case Nil
  then show ?case by simp
next
  case (Cons e es)
  show ?case
  proof (cases "claimed = n")
    case True
    then show ?thesis by simp
  next
    case False
    with Cons.prems obtain d where d: "n - claimed = Suc d" and le: "claimed + 1 \<le> n"
      by (cases "n - claimed") auto
    then have "n - Suc claimed = d" by simp
    with d Cons.IH [OF le] False show ?thesis by simp
  qed
qed

lemma claim_rep:
  assumes "ib_rep ib c 0 es"
  shows "\<exists>ib'. inbox_claim_up_to n ib = Done (enumerate c (take n es), ib') \<and>
           ib_rep ib' c (min n (length es)) (drop n es)"
proof -
  have "claim_loop (ib_cursor ib) n 0 (ib_queue ib) =
    Done (enumerate c (take n es),
          enumerate c (replicate (min n (length es)) None @ map Some (drop n es)))"
    using claim_loop_enumerate [of 0 n c es] assms by (simp add: ib_rep_def)
  with assms show ?thesis
    by (auto simp: inbox_claim_up_to_def ib_rep_def)
qed

lemma restore_slot_enumerate:
  "cur \<le> c \<Longrightarrow>
   restore_slot cur (c + length xs) e (enumerate c (map Some xs @ None # q)) =
     Done (enumerate c (map Some xs @ Some e # q))"
  by (induction xs arbitrary: c) (auto simp flip: add_Suc)

lemma restore_loop_enumerate:
  "cur \<le> c \<Longrightarrow>
   restore_loop cur (enumerate (c + length ys) xs)
       (enumerate c (map Some ys @ replicate (length xs) None @ q)) =
     Done (enumerate c (map Some ys @ map Some xs @ q))"
proof (induction xs arbitrary: ys)
  case Nil
  then show ?case by simp
next
  case (Cons x xs)
  show ?case
    using Cons.IH [of "ys @ [x]"] Cons.prems
      restore_slot_enumerate [OF Cons.prems, of ys x "replicate (length xs) None @ q"]
    by simp
qed

lemma restore_rep:
  assumes "ib_rep ib c (length xs) es"
  shows "\<exists>ib'. inbox_restore_claims (enumerate c xs) ib = Done (xs \<noteq> [], ib') \<and> ib_rep ib' c 0 (xs @ es)"
proof -
  have "restore_loop (ib_cursor ib) (enumerate c xs) (ib_queue ib) =
    Done (enumerate c (map Some xs @ map Some es))"
    using restore_loop_enumerate [of c c "[]" xs "map Some es"] assms by (simp add: ib_rep_def)
  with assms show ?thesis
    by (auto simp: inbox_restore_claims_def ib_rep_def)
qed

lemma commit_rep:
  assumes "ib_rep ib c k es" "j < k"
  shows "\<exists>ib'. inbox_commit_through (c + j) ib = Done (True, ib') \<and> ib_rep ib' (Suc (c + j)) (k - Suc j) es"
proof -
  have q: "dropWhile (\<lambda>(o', _). o' \<le> c + j) (ib_queue ib) =
      enumerate (Suc (c + j)) (replicate (k - Suc j) None @ map Some es)"
    using assms by (simp add: ib_rep_def dropWhile_enumerate)
  have "\<not> ib_next_offset ib \<le> c + j" and "length (ib_queue ib) = k + length es"
    using assms by (simp_all add: ib_rep_def)
  with assms show ?thesis
    by (simp add: inbox_commit_through_def Let_def q, simp add: ib_rep_def)
qed

subsubsection \<open>Drain, peek, ack\<close>

lemma drain_live_loop_enumerate:
  "drain_live_loop (enumerate c (replicate k None @ map Some es)) = (es, enumerate c (replicate k None))"
proof (induction k arbitrary: c)
  case 0
  show ?case by (induction es arbitrary: c) auto
qed simp

lemma drain_live_rep:
  assumes "ib_rep ib c k es"
  shows "fst (inbox_drain_live ib) = es" and "ib_rep (snd (inbox_drain_live ib)) c k []"
  using assms by (auto simp: inbox_drain_live_def ib_rep_def drain_live_loop_enumerate)

lemma drain_slots_enumerate: "drain_slots (enumerate c (map Some es)) = Done (enumerate c es)"
  by (induction es arbitrary: c) auto

lemma peek_ack_rep:
  assumes "ib_rep ib c 0 (e # es)"
  shows "inbox_peek ib = Done (Some e)"
    and "\<exists>ib'. inbox_ack ib = Done (Suc c, ib') \<and> ib_rep ib' (Suc c) 0 es"
  using assms by (auto simp: ib_rep_def inbox_peek_def inbox_ack_def)

subsection \<open>The contract the step loops rely on\<close>

text \<open>
  A step loop claims a batch, commits a prefix of it one message at a time, and restores the tail
  when it stops early.  The laws speak of an abstract mailbox: its cursor, its claims in flight and
  its queued envelopes.
\<close>

fun commit_each :: "(nat \<Rightarrow> 'b \<Rightarrow> (bool \<times> 'b) outcome) \<Rightarrow> nat list \<Rightarrow> 'b \<Rightarrow> 'b outcome" where
  "commit_each commit [] b = Done b"
| "commit_each commit (off # offs) b = bind_outcome (commit off b) (\<lambda>(p, b'). commit_each commit offs b')"

locale mailbox =
  fixes rep :: "'b \<Rightarrow> nat \<Rightarrow> nat \<Rightarrow> 'e list \<Rightarrow> bool"
    and claim :: "nat \<Rightarrow> 'b \<Rightarrow> ((nat \<times> 'e) list \<times> 'b) outcome"
    and commit :: "nat \<Rightarrow> 'b \<Rightarrow> (bool \<times> 'b) outcome"
    and restore :: "(nat \<times> 'e) list \<Rightarrow> 'b \<Rightarrow> (bool \<times> 'b) outcome"
  assumes claim_law:
      "rep b c 0 es \<Longrightarrow> \<exists>b'. claim n b = Done (enumerate c (take n es), b') \<and>
                              rep b' c (min n (length es)) (drop n es)"
    and commit_law:
      "rep b c k es \<Longrightarrow> j < k \<Longrightarrow> \<exists>b'. commit (c + j) b = Done (True, b') \<and>
                                       rep b' (Suc (c + j)) (k - Suc j) es"
    and restore_law:
      "rep b c (length xs) es \<Longrightarrow> \<exists>b'. restore (enumerate c xs) b = Done (xs \<noteq> [], b') \<and>
                                       rep b' c 0 (xs @ es)"
begin

lemma commit_each_rep:
  "rep b c k es \<Longrightarrow> j \<le> k \<Longrightarrow>
   \<exists>b'. commit_each commit [c..<c + j] b = Done b' \<and> rep b' (c + j) (k - j) es"
proof (induction j arbitrary: b c k)
  case 0
  then show ?case by simp
next
  case (Suc j)
  obtain b1 where b1: "commit (c + 0) b = Done (True, b1)" "rep b1 (Suc (c + 0)) (k - Suc 0) es"
    using commit_law [OF Suc.prems(1), of 0] Suc.prems(2) by auto
  have "j \<le> k - Suc 0" using Suc.prems(2) by simp
  then obtain b2 where b2: "commit_each commit [Suc c..<Suc c + j] b1 = Done b2" "rep b2 (Suc c + j) (k - Suc 0 - j) es"
    using Suc.IH [of b1 "Suc c" "k - Suc 0"] b1(2) by auto
  have "[c..<c + Suc j] = c # [Suc c..<Suc c + j]" by (simp add: upt_conv_Cons del: upt_Suc)
  with b1 b2 show ?case by (simp del: upt_Suc)
qed

text \<open>
  The crash cycle: claim up to \<open>n\<close>, commit the first \<open>j\<close>, restore the rest.  What is left in the
  mailbox is what was there minus the committed prefix, in the original order.
\<close>

lemma crash_cycle:
  assumes "rep b c 0 es" "j \<le> min n (length es)"
  shows "\<exists>b1 b2 b3. claim n b = Done (enumerate c (take n es), b1) \<and>
           commit_each commit [c..<c + j] b1 = Done b2 \<and>
           restore (enumerate (c + j) (drop j (take n es))) b2 = Done (drop j (take n es) \<noteq> [], b3) \<and>
           rep b3 (c + j) 0 (drop j es)"
proof -
  obtain b1 where b1: "claim n b = Done (enumerate c (take n es), b1)"
      "rep b1 c (min n (length es)) (drop n es)"
    using claim_law [OF assms(1)] by blast
  obtain b2 where b2: "commit_each commit [c..<c + j] b1 = Done b2"
      "rep b2 (c + j) (min n (length es) - j) (drop n es)"
    using commit_each_rep [OF b1(2) assms(2)] by blast
  have "min n (length es) - j = length (drop j (take n es))" by simp
  with b2 obtain b3 where b3: "restore (enumerate (c + j) (drop j (take n es))) b2 =
        Done (drop j (take n es) \<noteq> [], b3)" "rep b3 (c + j) 0 (drop j (take n es) @ drop n es)"
    using restore_law by metis
  have "drop j (take n es) @ drop n es = drop j es"
    using assms(2) append_take_drop_id [of n es] drop_append [of j "take n es" "drop n es"] by simp
  with b1 b2 b3 show ?thesis by auto
qed

end

interpretation inbox_mb: mailbox ib_rep inbox_claim_up_to inbox_commit_through inbox_restore_claims
  by unfold_locales (fact claim_rep commit_rep restore_rep)+

subsection \<open>An inbox under its driver\<close>

text \<open>
  The runtime's use of one inbox as a step relation: senders push, the step loop claims into an
  empty batch, commits the batch front to back, restores what is left of it; the system closes,
  reopens (a restart, before any teardown drain) and drains a closed inbox.  The ghost fields record
  the history: the envelopes queued, those committed or evicted, those drained at teardown.
\<close>

record 'e ib_run =
  run_box :: "'e inbox"
  run_batch :: "(nat \<times> 'e) list"
  run_accepted :: "'e list"
  run_consumed :: "'e list"
  run_drained :: "'e list"

definition ib_init :: "nat \<Rightarrow> overload_policy \<Rightarrow> 'e ib_run" where
  "ib_init capacity policy =
     \<lparr>run_box = inbox_new capacity policy, run_batch = [], run_accepted = [], run_consumed = [],
      run_drained = []\<rparr>"

inductive ib_step :: "'e ib_run \<Rightarrow> 'e ib_run \<Rightarrow> bool" where
  push_queued:
    "inbox_push e (run_box s) = Done (Inr off, ib) \<Longrightarrow>
     ib_step s (s\<lparr>run_box := ib, run_accepted := run_accepted s @ [e]\<rparr>)"
| push_evicting:
    "inbox_push e (run_box s) = Done (Inl (RefEvicted old), ib) \<Longrightarrow>
     ib_step s (s\<lparr>run_box := ib, run_accepted := run_accepted s @ [e],
                  run_consumed := run_consumed s @ [old]\<rparr>)"
| push_refused:
    "inbox_push e (run_box s) = Done (Inl r, ib) \<Longrightarrow> \<not> refused_queued_anyway r \<Longrightarrow>
     ib_step s (s\<lparr>run_box := ib\<rparr>)"
| claim:
    "run_batch s = [] \<Longrightarrow> inbox_claim_up_to n (run_box s) = Done (batch, ib) \<Longrightarrow>
     ib_step s (s\<lparr>run_box := ib, run_batch := batch\<rparr>)"
| commit:
    "run_batch s = (off, e) # rest \<Longrightarrow> inbox_commit_through off (run_box s) = Done (popped, ib) \<Longrightarrow>
     ib_step s (s\<lparr>run_box := ib, run_batch := rest, run_consumed := run_consumed s @ [e]\<rparr>)"
| restore:
    "inbox_restore_claims (run_batch s) (run_box s) = Done (any, ib) \<Longrightarrow>
     ib_step s (s\<lparr>run_box := ib, run_batch := []\<rparr>)"
| close: "ib_step s (s\<lparr>run_box := inbox_close (run_box s)\<rparr>)"
| reopen: "run_drained s = [] \<Longrightarrow> ib_step s (s\<lparr>run_box := inbox_reopen (run_box s)\<rparr>)"
| drain:
    "\<not> ib_open (run_box s) \<Longrightarrow> inbox_drain_live (run_box s) = (d, ib) \<Longrightarrow>
     ib_step s (s\<lparr>run_box := ib, run_drained := d @ run_drained s\<rparr>)"

inductive ib_reach :: "nat \<Rightarrow> overload_policy \<Rightarrow> 'e ib_run \<Rightarrow> bool" for capacity policy where
  init: "ib_reach capacity policy (ib_init capacity policy)"
| step: "ib_reach capacity policy s \<Longrightarrow> ib_step s s' \<Longrightarrow> ib_reach capacity policy s'"

text \<open>The envelopes sitting in live slots, oldest first.\<close>

definition ib_live :: "'e inbox \<Rightarrow> 'e list" where
  "ib_live ib = concat (map (\<lambda>(off, slot). case slot of None \<Rightarrow> [] | Some e \<Rightarrow> [e]) (ib_queue ib))"

lemma ib_live_rep: "ib_rep ib c k es \<Longrightarrow> ib_live ib = es"
proof -
  have live: "concat (map (\<lambda>(off, slot). case slot of None \<Rightarrow> [] | Some e \<Rightarrow> [e]) (enumerate c (map Some es))) = es"
    for c by (induction es arbitrary: c) auto
  have "concat (map (\<lambda>(off, slot). case slot of None \<Rightarrow> [] | Some e \<Rightarrow> [e])
      (enumerate c (replicate k None @ map Some es))) = es"
    by (induction k arbitrary: c) (simp_all add: live)
  then show "ib_rep ib c k es \<Longrightarrow> ib_live ib = es"
    by (simp add: ib_rep_def ib_live_def)
qed

definition ib_inv :: "nat \<Rightarrow> overload_policy \<Rightarrow> 'e ib_run \<Rightarrow> bool" where
  "ib_inv capacity policy s \<longleftrightarrow>
     (\<exists>c es. ib_rep (run_box s) c (length (run_batch s)) es \<and>
       run_batch s = enumerate c (map snd (run_batch s)) \<and>
       run_accepted s = run_consumed s @ map snd (run_batch s) @ es @ run_drained s) \<and>
     (run_drained s = [] \<longrightarrow> ib_tight (run_box s)) \<and>
     (ib_open (run_box s) \<longrightarrow> run_drained s = []) \<and>
     ib_capacity (run_box s) = max capacity 1 \<and> ib_policy (run_box s) = policy \<and>
     (policy \<noteq> Unbounded \<longrightarrow> length (ib_queue (run_box s)) \<le> max capacity 1)"

lemma ib_invI:
  assumes "ib_rep (run_box s) c (length (run_batch s)) es"
    and "run_batch s = enumerate c (map snd (run_batch s))"
    and "run_accepted s = run_consumed s @ map snd (run_batch s) @ es @ run_drained s"
    and "run_drained s = [] \<Longrightarrow> ib_tight (run_box s)"
    and "ib_open (run_box s) \<Longrightarrow> run_drained s = []"
    and "ib_capacity (run_box s) = max capacity 1" "ib_policy (run_box s) = policy"
    and "policy \<noteq> Unbounded \<Longrightarrow> length (ib_queue (run_box s)) \<le> max capacity 1"
  shows "ib_inv capacity policy s"
  using assms unfolding ib_inv_def by blast

subsection \<open>Push, per policy\<close>

lemma push_room:
  assumes "ib_rep ib c k es" "ib_tight ib" "ib_open ib"
    and "ib_policy ib = Unbounded \<or> k + length es < ib_capacity ib"
  shows "inbox_push e ib = Done (Inr (c + k + length es), queue_next e ib)"
    and "ib_rep (queue_next e ib) c k (es @ [e])" and "ib_tight (queue_next e ib)"
  using assms queue_next_rep [OF assms(1,2)] queue_ok_rep [OF assms(1,2), of e]
  by (auto simp: inbox_push_def ib_rep_def)

lemma push_full_refused:
  assumes "ib_rep ib c k es" "ib_open ib" "ib_capacity ib \<le> k + length es"
    and "ib_policy ib = Block \<or> ib_policy ib = DropNew"
  shows "inbox_push e ib = Done (Inl (RefFull e), ib)"
  using assms by (auto simp: inbox_push_def ib_rep_def)

lemma push_full_evicts:
  assumes "ib_rep ib c 0 es" "ib_tight ib" "ib_open ib" "ib_capacity ib \<le> length es"
    and "ib_policy ib = DropOld"
  shows "\<exists>ib'. inbox_push e ib = Done (Inl (RefEvicted (hd es)), ib') \<and>
           ib_rep ib' (Suc c) 0 (tl es @ [e]) \<and> ib_tight ib' \<and> ib_open ib' \<and>
           ib_capacity ib' = ib_capacity ib \<and> ib_policy ib' = ib_policy ib \<and>
           length (ib_queue ib') = length (ib_queue ib)"
proof -
  obtain old rest where es: "es = old # rest"
    using assms(1,4) by (cases es) (auto simp: ib_rep_def)
  have "ib_queue ib = (c, Some old) # enumerate (Suc c) (map Some rest)"
    using assms(1) es by (simp add: ib_rep_def)
  with assms es have "inbox_push e ib = Done (Inl (RefEvicted old),
      queue_next e (ib\<lparr>ib_queue := tl (ib_queue ib), ib_cursor := ib_cursor ib + 1\<rparr>))"
    by (simp add: inbox_push_def ib_rep_def)
  with evict_rep [of ib c old rest e] assms es show ?thesis
    by (auto simp: queue_next_def ib_rep_def)
qed

lemma push_full_tombstone:
  assumes "ib_rep ib c (Suc k) es" "ib_open ib" "ib_capacity ib \<le> Suc k + length es"
    and "ib_policy ib = DropOld"
  shows "inbox_push e ib = Panicked ''evicting a claim tombstone''"
  using assms by (simp add: inbox_push_def ib_rep_def)

subsection \<open>The driver keeps the invariant\<close>

lemma ib_inv_init: "ib_inv capacity policy (ib_init capacity policy)"
  using ib_rep_new [of capacity policy] ib_tight_new [of capacity policy]
  by (auto simp: ib_inv_def ib_init_def inbox_new_def)

lemma queue_next_fields [simp]:
  "ib_open (queue_next e ib) = ib_open ib" "ib_capacity (queue_next e ib) = ib_capacity ib"
  "ib_policy (queue_next e ib) = ib_policy ib"
  "length (ib_queue (queue_next e ib)) = Suc (length (ib_queue ib))"
  by (simp_all add: queue_next_def)

lemma ib_rep_queue_len: "ib_rep ib c k es \<Longrightarrow> length (ib_queue ib) = k + length es"
  by (simp add: ib_rep_def)

lemma ib_inv_push:
  assumes inv: "ib_inv capacity policy s" and push: "inbox_push e (run_box s) = Done (r, ib)"
  shows "ib_inv capacity policy
    (case r of
       Inr off \<Rightarrow> s\<lparr>run_box := ib, run_accepted := run_accepted s @ [e]\<rparr>
     | Inl (RefEvicted old) \<Rightarrow> s\<lparr>run_box := ib, run_accepted := run_accepted s @ [e],
                                 run_consumed := run_consumed s @ [old]\<rparr>
     | Inl _ \<Rightarrow> s\<lparr>run_box := ib\<rparr>)"
proof -
  let ?ib = "run_box s" and ?k = "length (run_batch s)"
  obtain c es where rep: "ib_rep ?ib c ?k es" and batch: "run_batch s = enumerate c (map snd (run_batch s))"
    and acc: "run_accepted s = run_consumed s @ map snd (run_batch s) @ es @ run_drained s"
    using inv by (auto simp: ib_inv_def)
  have cap: "ib_capacity ?ib = max capacity 1" and pol: "ib_policy ?ib = policy"
    and bound: "policy \<noteq> Unbounded \<longrightarrow> ?k + length es \<le> max capacity 1"
    using inv rep by (auto simp: ib_inv_def ib_rep_queue_len)
  show ?thesis
  proof (cases "ib_open ?ib")
    case False
    with push inv show ?thesis by (auto simp: inbox_push_def)
  next
    case op: True
    then have dr: "run_drained s = []" and tight: "ib_tight ?ib" using inv by (auto simp: ib_inv_def)
    consider (room) "policy = Unbounded \<or> ?k + length es < ib_capacity ?ib"
      | (refuse) "ib_capacity ?ib \<le> ?k + length es" "policy = Block \<or> policy = DropNew"
      | (evict) "ib_capacity ?ib \<le> ?k + length es" "policy = DropOld" "?k = 0"
      | (tomb) k' where "ib_capacity ?ib \<le> ?k + length es" "policy = DropOld" "?k = Suc k'"
      by (metis not_less old.nat.exhaust overload_policy.exhaust)
    then show ?thesis
    proof cases
      case room
      note pr = push_room [OF rep tight op, of e] 
      have "r = Inr (c + ?k + length es)" "ib = queue_next e ?ib"
        using pr(1) room push pol by auto
      moreover have "length (ib_queue ?ib) = ?k + length es" using rep by (rule ib_rep_queue_len)
      ultimately show ?thesis
        using pr(2,3) room rep batch acc cap pol dr bound op
        by (fastforce simp: ib_inv_def)
    next
      case refuse
      with push_full_refused [OF rep op, of e] push pol inv show ?thesis by auto
    next
      case evict
      then have b: "run_batch s = []" and rep0: "ib_rep ?ib c 0 es" using rep by auto
      obtain ib' where ib': "inbox_push e ?ib = Done (Inl (RefEvicted (hd es)), ib')"
          "ib_rep ib' (Suc c) 0 (tl es @ [e])" "ib_tight ib'" "ib_open ib'"
          "ib_capacity ib' = ib_capacity ?ib" "ib_policy ib' = ib_policy ?ib"
          "length (ib_queue ib') = length (ib_queue ?ib)"
        using push_full_evicts [OF rep0 tight op, of e] evict pol by auto
      have "es \<noteq> []" using evict cap by auto
      then have "run_accepted s @ [e] = (run_consumed s @ [hd es]) @ tl es @ [e]"
        using acc b dr by simp
      moreover have "length (ib_queue ?ib) \<le> max capacity 1"
        using bound evict rep by (simp add: ib_rep_queue_len)
      ultimately show ?thesis
        using ib' push b dr cap pol by (auto simp: ib_inv_def)
    next
      case (tomb k')
      with push_full_tombstone [of ?ib c k' es e] rep op push pol show ?thesis by simp
    qed
  qed
qed

lemma inbox_ops_fields:
  "inbox_claim_up_to n ib = Done (b, ib') \<Longrightarrow>
     ib_open ib' = ib_open ib \<and> ib_capacity ib' = ib_capacity ib \<and> ib_policy ib' = ib_policy ib \<and>
     ib_next_offset ib' = ib_next_offset ib \<and> ib_cursor ib' = ib_cursor ib"
  "inbox_restore_claims batch ib = Done (any, ib') \<Longrightarrow>
     ib_open ib' = ib_open ib \<and> ib_capacity ib' = ib_capacity ib \<and> ib_policy ib' = ib_policy ib \<and>
     ib_next_offset ib' = ib_next_offset ib \<and> ib_cursor ib' = ib_cursor ib"
  "inbox_commit_through off ib = Done (p, ib') \<Longrightarrow>
     ib_open ib' = ib_open ib \<and> ib_capacity ib' = ib_capacity ib \<and> ib_policy ib' = ib_policy ib \<and>
     ib_next_offset ib' = ib_next_offset ib"
  by (auto simp: inbox_claim_up_to_def inbox_restore_claims_def inbox_commit_through_def outcome_simps
      Let_def split: if_splits)

lemma enumerate_map_snd [simp]: "map snd (enumerate c xs) = xs"
  by (induction xs arbitrary: c) auto

lemma ib_inv_facts:
  assumes "ib_inv capacity policy s"
  shows "run_drained s = [] \<Longrightarrow> ib_tight (run_box s)" "ib_open (run_box s) \<Longrightarrow> run_drained s = []"
    "ib_capacity (run_box s) = max capacity 1" "ib_policy (run_box s) = policy"
    "policy \<noteq> Unbounded \<Longrightarrow> length (ib_queue (run_box s)) \<le> max capacity 1"
  using assms by (simp_all add: ib_inv_def)

lemma ib_inv_claim:
  assumes inv: "ib_inv capacity policy s" and b: "run_batch s = []"
    and cl: "inbox_claim_up_to n (run_box s) = Done (batch, ib)"
  shows "ib_inv capacity policy (s\<lparr>run_box := ib, run_batch := batch\<rparr>)"
proof -
  obtain c es where rep: "ib_rep (run_box s) c 0 es"
    and acc: "run_accepted s = run_consumed s @ es @ run_drained s"
    using inv b by (auto simp: ib_inv_def)
  have bt: "batch = enumerate c (take n es)" and rep': "ib_rep ib c (length batch) (drop n es)"
    using claim_rep [OF rep, of n] cl by (auto simp: min.commute)
  have "length (ib_queue ib) = length (ib_queue (run_box s))"
    using rep rep' bt by (simp add: ib_rep_queue_len)
  then show ?thesis
    using rep' bt acc ib_inv_facts [OF inv] inbox_ops_fields(1) [OF cl] b
    by (intro ib_invI [where c = c and es = "drop n es"]) (simp_all add: ib_tight_def)
qed

lemma ib_inv_restore:
  assumes inv: "ib_inv capacity policy s"
    and re: "inbox_restore_claims (run_batch s) (run_box s) = Done (any, ib)"
  shows "ib_inv capacity policy (s\<lparr>run_box := ib, run_batch := []\<rparr>)"
proof -
  let ?xs = "map snd (run_batch s)"
  obtain c es where rep: "ib_rep (run_box s) c (length ?xs) es" and bt: "run_batch s = enumerate c ?xs"
    and acc: "run_accepted s = run_consumed s @ ?xs @ es @ run_drained s"
    using inv by (auto simp: ib_inv_def)
  have rep': "ib_rep ib c 0 (?xs @ es)"
    using restore_rep [OF rep] re bt by auto
  have "length (ib_queue ib) = length (ib_queue (run_box s))"
    using rep rep' by (simp add: ib_rep_queue_len)
  then show ?thesis
    using rep' acc ib_inv_facts [OF inv] inbox_ops_fields(2) [OF re]
    by (intro ib_invI [where c = c and es = "?xs @ es"]) (simp_all add: ib_tight_def)
qed

lemma ib_inv_commit:
  assumes inv: "ib_inv capacity policy s" and b: "run_batch s = (off, e) # rest"
    and co: "inbox_commit_through off (run_box s) = Done (p, ib)"
  shows "ib_inv capacity policy (s\<lparr>run_box := ib, run_batch := rest, run_consumed := run_consumed s @ [e]\<rparr>)"
proof -
  obtain c es where rep: "ib_rep (run_box s) c (Suc (length rest)) es"
    and bt: "(off, e) # rest = enumerate c (e # map snd rest)"
    and acc: "run_accepted s = run_consumed s @ e # map snd rest @ es @ run_drained s"
    using inv b by (auto simp: ib_inv_def)
  from bt have off: "off = c" and rest: "rest = enumerate (Suc c) (map snd rest)" by auto
  have rep': "ib_rep ib (Suc c) (length rest) es"
    using commit_rep [OF rep, of 0] co off by auto
  have "length (ib_queue (run_box s)) = Suc (length (ib_queue ib))"
    using rep rep' by (simp add: ib_rep_queue_len)
  moreover have "ib_cursor ib = Suc c" "ib_cursor (run_box s) = c" using rep rep' by (auto simp: ib_rep_def)
  ultimately show ?thesis
    using rep' acc ib_inv_facts [OF inv] inbox_ops_fields(3) [OF co] rest
    by (intro ib_invI [where c = "Suc c" and es = es]) (simp_all add: ib_tight_def)
qed

lemma ib_inv_drain:
  assumes inv: "ib_inv capacity policy s" and cl: "\<not> ib_open (run_box s)"
    and dr: "inbox_drain_live (run_box s) = (d, ib)"
  shows "ib_inv capacity policy (s\<lparr>run_box := ib, run_drained := d @ run_drained s\<rparr>)"
proof -
  obtain c es where rep: "ib_rep (run_box s) c (length (run_batch s)) es"
    and acc: "run_accepted s = run_consumed s @ map snd (run_batch s) @ es @ run_drained s"
    and bt: "run_batch s = enumerate c (map snd (run_batch s))"
    using inv by (auto simp: ib_inv_def)
  have d: "d = es" and rep': "ib_rep ib c (length (run_batch s)) []"
    using drain_live_rep [OF rep] dr by auto
  have fields: "ib_open ib = ib_open (run_box s)" "ib_capacity ib = ib_capacity (run_box s)"
      "ib_policy ib = ib_policy (run_box s)" "ib_next_offset ib = ib_next_offset (run_box s)"
    using dr by (auto simp: inbox_drain_live_def split: prod.splits)
  have len: "length (ib_queue (run_box s)) = length (ib_queue ib) + length es"
    using rep rep' by (simp add: ib_rep_queue_len)
  have "ib_cursor ib = ib_cursor (run_box s)" using rep rep' by (simp add: ib_rep_def)
  then show ?thesis
    using rep' acc bt ib_inv_facts [OF inv] fields d cl len
    by (intro ib_invI [where c = c and es = "[]"]) (simp_all add: ib_tight_def)
qed


lemma ib_inv_step: "ib_inv capacity policy s \<Longrightarrow> ib_step s s' \<Longrightarrow> ib_inv capacity policy s'"
proof (erule ib_step.cases, goal_cases)
  case (1 e sa off ib) then show ?case using ib_inv_push [of capacity policy s e "Inr off" ib] by simp
next
  case (2 e sa old ib) then show ?case using ib_inv_push [of capacity policy s e "Inl (RefEvicted old)" ib] by simp
next
  case (3 e sa r ib) then show ?case using ib_inv_push [of capacity policy s e "Inl r" ib] by (cases r) auto
next
  case (4 sa n batch ib) then show ?case using ib_inv_claim by auto
next
  case (5 sa off e rest popped ib) then show ?case using ib_inv_commit by auto
next
  case (6 sa any ib) then show ?case using ib_inv_restore by auto
next
  case (7 sa) then show ?case by (auto simp: ib_inv_def inbox_close_def ib_rep_def ib_tight_def)
next
  case (8 sa) then show ?case by (auto simp: ib_inv_def inbox_reopen_def ib_rep_def ib_tight_def)
next
  case (9 sa d ib) then show ?case using ib_inv_drain by auto
qed

lemma ib_reach_inv: "ib_reach capacity policy s \<Longrightarrow> ib_inv capacity policy s"
  by (induction rule: ib_reach.induct) (auto intro: ib_inv_init ib_inv_step)

subsection \<open>Properties\<close>

text \<open>
  C20. Conservation and order.  In every state an inbox can reach under its driver, under every
  policy, the envelopes accepted so far are, in order: those committed (or evicted), those in the
  current batch, those in live slots, those handed to the teardown drain.  Nothing is lost,
  duplicated or reordered, claims in flight included; and a bounded inbox never holds more than its
  capacity.
\<close>

theorem inbox_conserves:
  assumes "ib_reach capacity policy s"
  shows "run_accepted s =
      run_consumed s @ map snd (run_batch s) @ ib_live (run_box s) @ run_drained s \<and>
    (policy \<noteq> Unbounded \<longrightarrow> inbox_len (run_box s) \<le> max capacity 1)"
  using ib_reach_inv [OF assms] ib_live_rep by (fastforce simp: ib_inv_def inbox_len_def)

definition demo_run :: "nat ib_run" where
  "demo_run = \<lparr>run_box = \<lparr>ib_capacity = 3, ib_policy = Block, ib_next_offset = 3, ib_cursor = 1,
       ib_queue = [(1, None), (2, Some 30)], ib_open = True\<rparr>,
     run_batch = [(1, 20)], run_accepted = [10, 20, 30], run_consumed = [10], run_drained = []\<rparr>"

lemma demo_reach: "ib_reach 3 Block demo_run"
proof -
  let ?s0 = "ib_init 3 Block :: nat ib_run"
  let ?b = "\<lambda>n c q. \<lparr>ib_capacity = 3, ib_policy = Block, ib_next_offset = n, ib_cursor = c, ib_queue = q, ib_open = True\<rparr>"
  let ?r = "\<lambda>b bt acc co. \<lparr>run_box = b, run_batch = bt, run_accepted = acc, run_consumed = co, run_drained = []\<rparr>"
  let ?s1 = "?r (?b 1 0 [(0, Some 10)]) [] [10] []"
  let ?s2 = "?r (?b 2 0 [(0, Some 10), (1, Some 20)]) [] [10, 20] []"
  let ?s3 = "?r (?b 2 0 [(0, None), (1, None)]) [(0, 10), (1, 20)] [10, 20] []"
  let ?s4 = "?r (?b 3 0 [(0, None), (1, None), (2, Some 30)]) [(0, 10), (1, 20)] [10, 20, 30] []"
  note defs = inbox_new_def ib_init_def inbox_push_def queue_ok_def queue_next_def
    inbox_claim_up_to_def inbox_commit_through_def demo_run_def
  have st1: "ib_step ?s0 ?s1" using ib_step.push_queued [of 10 ?s0 0 "run_box ?s1"] by (simp add: defs)
  have st2: "ib_step ?s1 ?s2" using ib_step.push_queued [of 20 ?s1 1 "run_box ?s2"] by (simp add: defs)
  have st3: "ib_step ?s2 ?s3"
    using ib_step.claim [of ?s2 2 "run_batch ?s3" "run_box ?s3"] by (simp add: defs)
  have st4: "ib_step ?s3 ?s4" using ib_step.push_queued [of 30 ?s3 2 "run_box ?s4"] by (simp add: defs)
  have st5: "ib_step ?s4 demo_run"
    using ib_step.commit [of ?s4 0 10 "[(1, 20)]" True "run_box demo_run"] by (simp add: defs)
  show ?thesis
    by (rule ib_reach.step [OF ib_reach.step [OF ib_reach.step [OF ib_reach.step [OF ib_reach.step
          [OF ib_reach.init st1] st2] st3] st4] st5])
qed

theorem inbox_conserves_witness:
  "run_accepted demo_run = [10] @ [20] @ ib_live (run_box demo_run) \<and> ib_live (run_box demo_run) = [30] \<and>
   inbox_len (run_box demo_run) \<le> 3"
  using inbox_conserves [OF demo_reach] by (simp add: demo_run_def ib_live_def)

text \<open>
  A crash in mid-batch.  From any contiguous inbox, claiming up to \<open>n\<close>, committing the first
  \<open>j\<close> claims one by one and restoring the rest succeeds without a panic, reports a restore exactly
  when something was left, and leaves the inbox holding the original envelopes minus the committed
  prefix, in the original order, with the cursor right behind the last commit.
\<close>

lemma inbox_crash_redelivers:
  assumes "ib_rep ib c 0 es" and "j \<le> min n (length es)"
  shows "\<exists>b1 b2 b3. inbox_claim_up_to n ib = Done (enumerate c (take n es), b1) \<and>
           commit_each inbox_commit_through [c..<c + j] b1 = Done b2 \<and>
           inbox_restore_claims (enumerate (c + j) (drop j (take n es))) b2 =
             Done (drop j (take n es) \<noteq> [], b3) \<and>
           ib_rep b3 (c + j) 0 (drop j es)"
  by (rule inbox_mb.crash_cycle [OF assms])

text \<open>
  C21. Where an inbox can panic.  In every reachable state claiming into an empty batch, committing
  the batch's next message and restoring the batch all succeed; a push panics exactly when the
  policy is \<open>DropOld\<close>, the inbox is open and full, and a claim is in flight: the eviction then
  hits the tombstone of the claim at the front.
\<close>

theorem inbox_panics_only_evicting_claims:
  assumes "ib_reach capacity policy s"
  shows "((\<not> is_done (inbox_push e (run_box s))) \<longleftrightarrow>
      (policy = DropOld \<and> ib_open (run_box s) \<and> max capacity 1 \<le> inbox_len (run_box s) \<and> run_batch s \<noteq> [])) \<and>
    (run_batch s = [] \<longrightarrow> is_done (inbox_claim_up_to n (run_box s))) \<and>
    (\<forall>off m rest. run_batch s = (off, m) # rest \<longrightarrow> is_done (inbox_commit_through off (run_box s))) \<and>
    is_done (inbox_restore_claims (run_batch s) (run_box s))"
proof -
  let ?ib = "run_box s" and ?xs = "map snd (run_batch s)"
  have inv: "ib_inv capacity policy s" using assms by (rule ib_reach_inv)
  then obtain c es where rep: "ib_rep ?ib c (length ?xs) es" and bt: "run_batch s = enumerate c ?xs"
    by (auto simp: ib_inv_def)
  have len: "inbox_len ?ib = length ?xs + length es" using rep by (rule ib_rep_len)
  have 1: "(\<not> is_done (inbox_push e ?ib)) \<longleftrightarrow>
      (policy = DropOld \<and> ib_open ?ib \<and> max capacity 1 \<le> inbox_len ?ib \<and> run_batch s \<noteq> [])"
    using rep ib_inv_facts [OF inv] len
    by (cases "run_batch s"; cases es; cases policy)
      (auto simp: inbox_push_def ib_rep_def queue_ok_def split: if_splits)
  have 2: "run_batch s = [] \<longrightarrow> is_done (inbox_claim_up_to n ?ib)"
    using claim_rep [of ?ib c es n] rep by auto
  have 3: "\<forall>off m rest. run_batch s = (off, m) # rest \<longrightarrow> is_done (inbox_commit_through off ?ib)"
    using commit_rep [OF rep, of 0] bt by auto
  have "is_done (inbox_restore_claims (run_batch s) ?ib)"
    using restore_rep [OF rep] bt by auto
  with 1 2 3 show ?thesis by (intro conjI)
qed

theorem inbox_panics_only_evicting_claims_witness:
  "is_done (inbox_push 40 (run_box demo_run)) \<and> is_done (inbox_commit_through 1 (run_box demo_run)) \<and>
   is_done (inbox_restore_claims [(1, 20)] (run_box demo_run))"
  using inbox_panics_only_evicting_claims [OF demo_reach] by (simp add: demo_run_def)

text \<open>
  Push under each policy, on a contiguous inbox with \<open>k\<close> claims in flight: a closed inbox refuses
  and is unchanged; with room (or \<open>Unbounded\<close>) the envelope is queued last at the next offset; full
  under \<open>Block\<close> or \<open>DropNew\<close> refuses and is unchanged; full under \<open>DropOld\<close> with no claim in
  flight gives back the oldest envelope and queues the new one, the cursor moving past the hole.
\<close>

lemma inbox_push_per_policy:
  assumes "ib_rep ib c k es" and "ib_tight ib"
  shows "(\<not> ib_open ib \<longrightarrow> inbox_push e ib = Done (Inl (RefClosed e), ib)) \<and>
    (ib_open ib \<and> (ib_policy ib = Unbounded \<or> k + length es < ib_capacity ib) \<longrightarrow>
      (\<exists>ib'. inbox_push e ib = Done (Inr (c + k + length es), ib') \<and> ib_rep ib' c k (es @ [e]) \<and> ib_tight ib')) \<and>
    (ib_open ib \<and> ib_capacity ib \<le> k + length es \<and> ib_policy ib \<in> {Block, DropNew} \<longrightarrow>
      inbox_push e ib = Done (Inl (RefFull e), ib)) \<and>
    (ib_open ib \<and> ib_capacity ib \<le> length es \<and> ib_policy ib = DropOld \<and> k = 0 \<longrightarrow>
      (\<exists>ib'. inbox_push e ib = Done (Inl (RefEvicted (hd es)), ib') \<and>
         ib_rep ib' (Suc c) 0 (tl es @ [e]) \<and> ib_tight ib'))"
proof (intro conjI)
  show "\<not> ib_open ib \<longrightarrow> inbox_push e ib = Done (Inl (RefClosed e), ib)"
    by (simp add: inbox_push_def)
  show "ib_open ib \<and> (ib_policy ib = Unbounded \<or> k + length es < ib_capacity ib) \<longrightarrow>
      (\<exists>ib'. inbox_push e ib = Done (Inr (c + k + length es), ib') \<and> ib_rep ib' c k (es @ [e]) \<and> ib_tight ib')"
    using push_room [OF assms] by blast
  show "ib_open ib \<and> ib_capacity ib \<le> k + length es \<and> ib_policy ib \<in> {Block, DropNew} \<longrightarrow>
      inbox_push e ib = Done (Inl (RefFull e), ib)"
    using push_full_refused [OF assms(1)] by blast
  show "ib_open ib \<and> ib_capacity ib \<le> length es \<and> ib_policy ib = DropOld \<and> k = 0 \<longrightarrow>
      (\<exists>ib'. inbox_push e ib = Done (Inl (RefEvicted (hd es)), ib') \<and>
         ib_rep ib' (Suc c) 0 (tl es @ [e]) \<and> ib_tight ib')"
    using push_full_evicts [OF _ assms(2)] assms(1) by blast
qed

lemma inbox_push_per_policy_witness:
  "\<exists>ib'. inbox_push 9 \<lparr>ib_capacity = 2, ib_policy = DropOld, ib_next_offset = 2, ib_cursor = 0,
       ib_queue = [(0, Some (7::nat)), (1, Some 8)], ib_open = True\<rparr> = Done (Inl (RefEvicted 7), ib') \<and>
     ib_rep ib' 1 0 [8, 9]"
  using inbox_push_per_policy [of "\<lparr>ib_capacity = 2, ib_policy = DropOld, ib_next_offset = 2, ib_cursor = 0,
       ib_queue = [(0, Some (7::nat)), (1, Some 8)], ib_open = True\<rparr>" 0 0 "[7, 8]" 9]
  by (auto simp: ib_rep_def ib_tight_def)

end
