(* ===== verification/EsActors.thy ===== *)
theory EsActors
  imports Journals
begin

text \<open>
  Event-sourced shells and dispatch entries (\<open>src/src/actor.rs\<close>).

  The author's code is an argument: \<open>es_code\<close> holds an actor type's genesis, fold, capture and
  restore, and the fold of a foreign (JSON) actor; a command entry carries its decoder and handler.
  A panic of that code is \<open>Panicked\<close>.  The type variable is the state type.
\<close>

subsection \<open>Shells\<close>

datatype 'st es_shell = TypedEs 'st | TypedProjector 'st | ForeignEs json

record 'st es_code =
  ec_restore :: "json \<Rightarrow> 'st"
  ec_default :: 'st
  ec_apply :: "event \<Rightarrow> 'st \<Rightarrow> 'st outcome"
  ec_capture :: "'st \<Rightarrow> journal_error + json"
  ec_restore_from :: "json \<Rightarrow> journal_error + 'st"
  ec_encode :: "'st \<Rightarrow> json outcome"
  ec_decode :: "json \<Rightarrow> 'st option"
  ec_fold :: "event \<Rightarrow> json \<Rightarrow> json outcome"

fun apply_erased :: "'st es_code \<Rightarrow> event \<Rightarrow> 'st es_shell \<Rightarrow> 'st es_shell outcome" where
  "apply_erased c e (TypedEs s) = map_outcome TypedEs (ec_apply c e s)"
| "apply_erased c e (TypedProjector s) = map_outcome TypedProjector (ec_apply c e s)"
| "apply_erased c e (ForeignEs j) = map_outcome ForeignEs (ec_fold c e j)"

fun apply_all :: "'st es_code \<Rightarrow> event list \<Rightarrow> 'st es_shell \<Rightarrow> 'st es_shell outcome" where
  "apply_all c [] s = Done s"
| "apply_all c (e # es) s = bind_outcome (apply_erased c e s) (apply_all c es)"

text \<open>\<open>Json::of\<close> panics when the state does not serialise; \<open>capture\<close> of a typed actor is its own.\<close>

definition projector_capture :: "'st es_code \<Rightarrow> 'st \<Rightarrow> (journal_error + json) outcome" where
  [simp]: "projector_capture c s = map_outcome Inr (ec_encode c s)"

fun capture_erased :: "'st es_code \<Rightarrow> 'st es_shell \<Rightarrow> (journal_error + json) outcome" where
  "capture_erased c (TypedEs s) = Done (ec_capture c s)"
| "capture_erased c (TypedProjector s) = projector_capture c s"
| "capture_erased c (ForeignEs j) = Done (Inr j)"

text \<open>
  Rebuilding, tier by tier: where it starts (the decoded snapshot, or the genesis of the tier) and the fold
  over the tail.
\<close>

primrec fold_events :: "(event \<Rightarrow> 'a \<Rightarrow> 'a outcome) \<Rightarrow> event list \<Rightarrow> 'a \<Rightarrow> 'a outcome" where
  "fold_events f [] s = Done s"
| "fold_events f (e # es) s = bind_outcome (f e s) (fold_events f es)"

fun typed_start :: "'st es_code \<Rightarrow> json \<Rightarrow> json option \<Rightarrow> journal_error + 'st" where
  "typed_start c args (Some snap) = ec_restore_from c snap"
| "typed_start c args None = Inr (ec_restore c args)"

fun projector_start :: "'st es_code \<Rightarrow> json option \<Rightarrow> journal_error + 'st" where
  "projector_start c (Some snap) = (case ec_decode c snap of None \<Rightarrow> Inl RestoreError | Some s \<Rightarrow> Inr s)"
| "projector_start c None = Inr (ec_default c)"

fun foreign_start :: "json \<Rightarrow> json option \<Rightarrow> json" where
  "foreign_start args (Some snap) = snap"
| "foreign_start args None = JObj [(''args'', args)]"

definition typed_rebuild ::
  "'st es_code \<Rightarrow> json \<Rightarrow> json option \<Rightarrow> event list \<Rightarrow> (journal_error + 'st es_shell) outcome" where
  "typed_rebuild c args snapshot tail =
     (case typed_start c args snapshot of
        Inl e \<Rightarrow> Done (Inl e)
      | Inr fresh \<Rightarrow> map_outcome (\<lambda>s. Inr (TypedEs s)) (fold_events (ec_apply c) tail fresh))"

definition projector_rebuild ::
  "'st es_code \<Rightarrow> json option \<Rightarrow> event list \<Rightarrow> (journal_error + 'st es_shell) outcome" where
  "projector_rebuild c snapshot tail =
     (case projector_start c snapshot of
        Inl e \<Rightarrow> Done (Inl e)
      | Inr fresh \<Rightarrow> map_outcome (\<lambda>s. Inr (TypedProjector s)) (fold_events (ec_apply c) tail fresh))"

definition foreign_rebuild ::
  "'st es_code \<Rightarrow> json \<Rightarrow> json option \<Rightarrow> event list \<Rightarrow> (journal_error + 'st es_shell) outcome" where
  "foreign_rebuild c args snapshot tail =
     map_outcome (\<lambda>j. Inr (ForeignEs j)) (fold_events (ec_fold c) tail (foreign_start args snapshot))"

definition rebuild ::
  "'st es_code \<Rightarrow> json \<Rightarrow> json option \<Rightarrow> event list \<Rightarrow> 'st es_shell \<Rightarrow> (journal_error + 'st es_shell) outcome" where
  "rebuild c args snapshot tail shell =
     (case shell of
        TypedEs _ \<Rightarrow> typed_rebuild c args snapshot tail
      | TypedProjector _ \<Rightarrow> projector_rebuild c snapshot tail
      | ForeignEs _ \<Rightarrow> foreign_rebuild c args snapshot tail)"

text \<open>The same in one line for every tier: a start, then the fold of the shell.\<close>

fun rebuild_start :: "'st es_code \<Rightarrow> json \<Rightarrow> json option \<Rightarrow> 'st es_shell \<Rightarrow> journal_error + 'st es_shell" where
  "rebuild_start c args snapshot (TypedEs _) = map_sum id TypedEs (typed_start c args snapshot)"
| "rebuild_start c args snapshot (TypedProjector _) = map_sum id TypedProjector (projector_start c snapshot)"
| "rebuild_start c args snapshot (ForeignEs _) = Inr (ForeignEs (foreign_start args snapshot))"

lemma apply_all_as:
  assumes "\<And>e s. apply_erased c e (k s) = map_outcome k (f e s)"
  shows "apply_all c es (k s) = map_outcome k (fold_events f es s)"
proof (induction es arbitrary: s)
  case (Cons e es)
  then show ?case by (cases "f e s") (simp_all add: assms)
qed simp

lemma apply_all_tier:
  "apply_all c es (TypedEs s) = map_outcome TypedEs (fold_events (ec_apply c) es s)"
  "apply_all c es (TypedProjector s) = map_outcome TypedProjector (fold_events (ec_apply c) es s)"
  "apply_all c es (ForeignEs j) = map_outcome ForeignEs (fold_events (ec_fold c) es j)"
  by (rule apply_all_as, simp)+

lemma rebuild_unfold:
  "rebuild c args snapshot tail shell =
     (case rebuild_start c args snapshot shell of
        Inl e \<Rightarrow> Done (Inl e)
      | Inr fresh \<Rightarrow> map_outcome Inr (apply_all c tail fresh))"
proof -
  have twice: "map_outcome f (map_outcome g x) = map_outcome (\<lambda>s. f (g s)) x" for f :: "'d \<Rightarrow> 'e" and g :: "'c \<Rightarrow> 'd" and x
    by (cases x) simp_all
  show ?thesis
    by (cases shell) (auto simp: rebuild_def typed_rebuild_def projector_rebuild_def foreign_rebuild_def apply_all_tier twice
        split: sum.splits)
qed

definition snapshot_state :: "replay \<Rightarrow> json option" where
  "snapshot_state rp = (case rp_snapshot rp of Some (JSnapshot _ state) \<Rightarrow> Some state | _ \<Rightarrow> None)"

subsection \<open>Command dispatch\<close>

datatype dispatch_error = DecodeFailed | StateMismatch

text \<open>
  What a decision sees beside its state and command: its path, the clock and the registry view (a
  lookup panics on a slot without a kind).
  A command context has no effects, so a decision is a function of these.
\<close>

record cmd_ctx =
  cc_path :: string
  cc_now :: timestamp
  cc_lookup :: "string \<Rightarrow> actor_manifest option outcome"
  cc_handlers_of :: "string \<Rightarrow> string list"

record 'st typed_entry =
  te_schema :: string
  te_type :: string
  te_decode :: "json \<Rightarrow> live_value option"
  te_handle :: "live_value \<Rightarrow> 'st \<Rightarrow> cmd_ctx \<Rightarrow> event list outcome"

record foreign_entry =
  fe_schema :: string
  fe_decision :: "json \<Rightarrow> json \<Rightarrow> cmd_ctx \<Rightarrow> event list outcome"

datatype 'st command_entry =
    TypedEntry "'st typed_entry"
  | ConsumeEntry string
  | ForeignEntry foreign_entry

fun entry_schema :: "'st command_entry \<Rightarrow> string" where
  "entry_schema (TypedEntry t) = te_schema t"
| "entry_schema (ConsumeEntry s) = s"
| "entry_schema (ForeignEntry f) = fe_schema f"

definition typed_dispatch ::
  "serde \<Rightarrow> 'st typed_entry \<Rightarrow> 'st es_shell \<Rightarrow> payload \<Rightarrow> cmd_ctx \<Rightarrow> (dispatch_error + event list) outcome" where
  [simp]: "typed_dispatch sd t shell p ctx =
     (case downcast sd (te_type t) (te_decode t) (payload_inner p) of
        None \<Rightarrow> Done (Inl DecodeFailed)
      | Some cmd \<Rightarrow>
          (case shell of
             TypedEs s \<Rightarrow> map_outcome Inr (te_handle t cmd s ctx)
           | _ \<Rightarrow> Panicked ''adapter/state type mismatch -- kernel bug''))"

definition consume_dispatch :: "string \<Rightarrow> payload \<Rightarrow> (dispatch_error + event list) outcome" where
  [simp]: "consume_dispatch schema p = Done (Inr [event_with_shared_payload schema (to_shared p)])"

definition foreign_dispatch ::
  "serde \<Rightarrow> foreign_entry \<Rightarrow> 'st es_shell \<Rightarrow> payload \<Rightarrow> cmd_ctx \<Rightarrow> (dispatch_error + event list) outcome" where
  [simp]: "foreign_dispatch sd f shell p ctx =
     (case shell of
        ForeignEs j \<Rightarrow> map_outcome Inr (fe_decision f j (payload_json sd p) ctx)
      | _ \<Rightarrow> Panicked ''foreign entry on non-foreign state -- kernel bug'')"

fun dispatch ::
  "serde \<Rightarrow> 'st command_entry \<Rightarrow> 'st es_shell \<Rightarrow> payload \<Rightarrow> cmd_ctx \<Rightarrow> (dispatch_error + event list) outcome" where
  "dispatch sd (TypedEntry t) shell p ctx = typed_dispatch sd t shell p ctx"
| "dispatch sd (ConsumeEntry s) shell p ctx = consume_dispatch s p"
| "dispatch sd (ForeignEntry f) shell p ctx = foreign_dispatch sd f shell p ctx"

subsection \<open>Lifecycle enums\<close>

datatype stop_reason = StopNormal | StopCrashed | StopEscalated | StopPassivated | StopShutdown

datatype lifecycle_state = LcRunning | LcNormal | LcCrashed | LcEscalated | LcPassivated | LcShutdown

fun lifecycle_of :: "stop_reason \<Rightarrow> lifecycle_state" where
  "lifecycle_of StopNormal = LcNormal"
| "lifecycle_of StopCrashed = LcCrashed"
| "lifecycle_of StopEscalated = LcEscalated"
| "lifecycle_of StopPassivated = LcPassivated"
| "lifecycle_of StopShutdown = LcShutdown"

datatype snapshot_cadence = CadenceOff | CadenceMessages nat | CadenceTime duration

subsection \<open>Recovery\<close>

lemma apply_all_append: "apply_all c (xs @ ys) s = bind_outcome (apply_all c xs s) (apply_all c ys)"
proof (induction xs arbitrary: s)
  case (Cons x xs)
  then show ?case by (cases "apply_erased c x s") simp_all
qed simp

lemma apply_all_snoc: "apply_all c xs s = Done t \<Longrightarrow> apply_all c (xs @ ys) s = apply_all c ys t"
  by (simp add: apply_all_append)

text \<open>
  A snapshot is sound for a journal when its state rebuilds to the fold of the events up to its anchor,
  from the same genesis.
\<close>

definition sound_snap :: "'st es_code \<Rightarrow> json \<Rightarrow> 'st es_shell \<Rightarrow> (seq_no \<times> json) option \<Rightarrow> event list \<Rightarrow> bool" where
  "sound_snap c args shell snap es \<longleftrightarrow>
     (case snap of
        None \<Rightarrow> True
      | Some (q, j) \<Rightarrow> q < length es \<and>
          (\<exists>g s. rebuild_start c args None shell = Inr g \<and> rebuild_start c args (Some j) shell = Inr s \<and>
             apply_all c (take (Suc q) es) g = Done s))"

lemma rebuild_start_none: "\<exists>g. rebuild_start c args None shell = Inr g"
  by (cases shell) auto

context journal_store
begin

text \<open>The state a load rebuilds is the fold of the whole history from genesis.\<close>

lemma rebuild_is_full_fold:
  assumes "inv s" "load p s = Inr (Some rp)" "length (hist s p) \<le> u64_max"
    and "sound_snap c args shell (snap s p) (map jd_event (hist s p))"
    and "rebuild_start c args None shell = Inr g"
  shows "rebuild c args (snapshot_state rp) (rp_tail rp) shell =
    map_outcome Inr (apply_all c (map jd_event (hist s p)) g)"
proof (cases "snap s p")
  case None
  then have "rp_tail rp = map jd_event (hist s p)" "snapshot_state rp = None"
    using load_law [OF assms(1,2)] by (simp_all add: after_snap_def snapshot_state_def)
  then show ?thesis using assms(5) by (simp add: rebuild_unfold)
next
  case (Some qj)
  then obtain q j where qj: "snap s p = Some (q, j)" by (cases qj) auto
  let ?es = "map jd_event (hist s p)"
  obtain st where q: "q < length ?es" and st: "rebuild_start c args (Some j) shell = Inr st"
    and fold: "apply_all c (take (Suc q) ?es) g = Done st"
    using assms(4,5) qj by (auto simp: sound_snap_def)
  have tail: "rp_tail rp = drop (Suc q) ?es"
    using load_tail_drop [OF assms(1,2) qj _ assms(3)] q by simp
  have "snapshot_state rp = Some j"
    using load_law [OF assms(1,2)] qj by (simp add: snapshot_state_def)
  moreover have "apply_all c ?es g = apply_all c (drop (Suc q) ?es) st"
    using apply_all_snoc [OF fold, of "drop (Suc q) ?es"] by simp
  ultimately show ?thesis using st tail by (simp add: rebuild_unfold)
qed

text \<open>Appending keeps a snapshot sound, and a load after it rebuilds the live state.\<close>

lemma append_then_recover:
  assumes "inv s" "append p es s = (Inr seqs, s')" "load p s' = Inr (Some rp)"
    and "length (hist s' p) \<le> u64_max"
    and "sound_snap c args shell (snap s p) (map jd_event (hist s p))"
    and "rebuild_start c args None shell = Inr g"
    and "apply_all c (map jd_event (hist s p)) g = Done live"
  shows "rebuild c args (snapshot_state rp) (rp_tail rp) shell = map_outcome Inr (apply_all c es live)"
proof -
  have inv': "inv s'" "snap s' = snap s" using append_inv [OF assms(1,2)] by simp_all
  have h: "map jd_event (hist s' p) = map jd_event (hist s p) @ es"
    using append_law [OF assms(1,2)] by simp
  have "sound_snap c args shell (snap s' p) (map jd_event (hist s' p))"
    using assms(5) inv'(2) h by (auto simp: sound_snap_def split: option.splits)
  from rebuild_is_full_fold [OF inv'(1) assms(3,4) this assms(6)]
  show ?thesis using assms(7) by (simp add: h apply_all_snoc)
qed

end

text \<open>
  Crash recovery of an event-sourced actor over the in-memory store.  If the live state is the
  fold of the recorded history and any snapshot is sound for it, then after appending a batch of
  events, loading and rebuilding gives exactly the live state with that batch applied: a crash between
  the append and the apply loses nothing and repeats nothing.  For typed actors, projectors and foreign
  actors, with the author's fold allowed to panic.
\<close>

lemma append_crash_recover:
  assumes "mem_ok st" "mem_append p es st = (Inr seqs, st')" "mem_load p st' = Inr (Some rp)"
    and "length (mem_hist st' p) \<le> u64_max"
    and "sound_snap c args shell (mem_snap st p) (map jd_event (mem_hist st p))"
    and "rebuild_start c args None shell = Inr g"
    and "apply_all c (map jd_event (mem_hist st p)) g = Done live"
  shows "rebuild c args (snapshot_state rp) (rp_tail rp) shell = map_outcome Inr (apply_all c es live)"
  by (rule mem_store.append_then_recover [OF assms])

text \<open>A counter as demonstration: each event adds one, the state is its JSON integer.\<close>

definition demo_code :: "int es_code" where
  "demo_code = \<lparr>ec_restore = (\<lambda>args. 0), ec_default = 0, ec_apply = (\<lambda>e s. Done (s + 1)),
     ec_capture = (\<lambda>s. Inr (JInt s)),
     ec_restore_from = (\<lambda>j. case json_as_i64 j of None \<Rightarrow> Inl RestoreError | Some i \<Rightarrow> Inr i),
     ec_encode = (\<lambda>s. Done (JInt s)), ec_decode = json_as_i64, ec_fold = (\<lambda>e j. Done j)\<rparr>"

definition demo_event :: event where
  "demo_event = event_new ''Ticked'' payload_default"

lemma demo_apply_all: "apply_all demo_code es (TypedEs s) = Done (TypedEs (s + int (length es)))"
  by (induction es arbitrary: s) (simp_all add: demo_code_def)

text \<open>
  Where foreign recovery and foreign spawn part.  A foreign actor's genesis is the state it was
  spawned with; a rebuild with no snapshot starts from \<open>{"args": args}\<close> instead.  So an actor spawned
  with a genesis other than that object, recovered before its first snapshot, comes back with the fold
  of its history over the wrong start: with an empty history, simply with another state.
\<close>

lemma foreign_rebuild_ignores_genesis:
  "rebuild c args None es (ForeignEs genesis) =
     map_outcome Inr (apply_all c es (ForeignEs (JObj [(''args'', args)]))) \<and>
   (genesis \<noteq> JObj [(''args'', args)] \<longrightarrow>
      rebuild c args None [] (ForeignEs genesis) \<noteq> Done (Inr (ForeignEs genesis)))"
  by (auto simp: rebuild_unfold)

end
