(* ===== verification/Pools.thy ===== *)
theory Pools
  imports Payloads Inboxes EsActors
begin

text \<open>
  Declarative partition sets, projector sets and router rules (\<open>src/src/pool.rs\<close>), with the spawn
  options they carry (\<open>src/src/system.rs\<close>).  A factory is a number the runtime resolves; the system
  handle a spec captures is the system that installed it.
\<close>

record spawn_opts =
  so_snapshot :: snapshot_cadence
  so_mailbox_capacity :: nat
  so_mailbox_policy :: overload_policy
  so_high_watermark :: "nat option"
  so_passivation :: "duration option"
  so_batch :: nat

definition default_opts :: spawn_opts where
  "default_opts =
     \<lparr>so_snapshot = CadenceOff, so_mailbox_capacity = 64, so_mailbox_policy = Block,
      so_high_watermark = None, so_passivation = None, so_batch = 64\<rparr>"

datatype rule_action = Tee string | Inline string

record rule =
  ru_source :: "string option"
  ru_schema :: "string option"
  ru_dest :: "string option"
  ru_action :: rule_action

record partition_spec =
  pt_public :: string
  pt_factory :: nat
  pt_key_field :: string
  pt_args_template :: "json option"
  pt_opts :: spawn_opts

record projector_set_spec =
  pj_public :: string
  pj_factory :: nat
  pj_key_field :: string
  pj_args_template :: "json option"
  pj_opts :: spawn_opts
  pj_consumed :: "string list"

definition merge_key :: "json option \<Rightarrow> string \<Rightarrow> json" where
  "merge_key template key =
     (let merged = (case template of Some (JObj m) \<Rightarrow> m | _ \<Rightarrow> [])
      in JObj (AList.update ''key'' (JStr key) merged))"

definition partition_entity_args :: "partition_spec \<Rightarrow> string \<Rightarrow> json" where
  "partition_entity_args spec key = merge_key (pt_args_template spec) key"

definition projector_entity_args :: "projector_set_spec \<Rightarrow> string \<Rightarrow> json" where
  "projector_entity_args spec key = merge_key (pj_args_template spec) key"

definition extract_shard_key :: "serde \<Rightarrow> schema_def \<Rightarrow> string \<Rightarrow> json \<Rightarrow> string option" where
  "extract_shard_key sd schema key_field p =
     (let ty = map_option fd_ty (List.find (\<lambda>f. fd_name f = key_field) (sch_fields schema))
      in (case json_get p key_field of
            None \<Rightarrow> None
          | Some v \<Rightarrow>
              (let rendered =
                 (case ty of
                    Some TInt \<Rightarrow> map_option int_text (json_as_i64 v)
                  | Some TFloat \<Rightarrow> map_option (sd_float_display sd) (json_as_f64 sd v)
                  | Some TBool \<Rightarrow> map_option bool_text (json_as_bool v)
                  | _ \<Rightarrow> json_as_str v)
               in (case rendered of None \<Rightarrow> None | Some s \<Rightarrow> if s = [] then None else Some s))))"

text \<open>The genesis args of an entity always name its key and keep every other template entry.\<close>

lemma merge_key_lookup:
  "json_get (merge_key template key) k =
     (if k = ''key'' then Some (JStr key)
      else case template of Some (JObj m) \<Rightarrow> map_of m k | _ \<Rightarrow> None)"
  by (auto simp: merge_key_def Let_def split: option.splits json.splits)

lemma extract_shard_key_not_empty: "extract_shard_key sd schema f p = Some s \<Longrightarrow> s \<noteq> []"
  by (auto simp: extract_shard_key_def Let_def split: option.splits if_splits field_ty.splits)

lemma field_ty_cases_int:
  "List.find (\<lambda>f. fd_name f = key) (sch_fields schema) = Some fd \<Longrightarrow> fd_ty fd = TInt \<Longrightarrow>
   json_get p key = Some (JInt i) \<Longrightarrow> - (2 ^ 63) \<le> i \<Longrightarrow> i < 2 ^ 63 \<Longrightarrow>
   extract_shard_key sd schema key p = Some (int_text i)"
  by (simp add: extract_shard_key_def)

text \<open>
  Shard keys are usable path segments and separate entities.  An extracted key is never empty; for
  a key field declared an integer, two payloads give the same key exactly when their integers are equal,
  so distinct keys never share an entity path.
\<close>

lemma shard_key_separates_entities:
  assumes "List.find (\<lambda>f. fd_name f = key) (sch_fields schema) = Some fd" and "fd_ty fd = TInt"
    and "json_get p key = Some (JInt i)" and "json_get q key = Some (JInt j)"
    and "\<forall>n \<in> {i, j}. - (2 ^ 63) \<le> n \<and> n < 2 ^ 63"
  shows "(extract_shard_key sd schema key r = Some s \<longrightarrow> s \<noteq> []) \<and>
    (extract_shard_key sd schema key p = extract_shard_key sd schema key q \<longleftrightarrow> i = j)"
  using field_ty_cases_int [OF assms(1,2,3)] field_ty_cases_int [OF assms(1,2,4)] assms(5)
    extract_shard_key_not_empty [of sd schema key r s] by auto

definition demo_cmd_schema :: schema_def where
  "demo_cmd_schema = \<lparr>sch_name = ''Add'', sch_kind = Command,
     sch_fields = [as_shard_key (field_required ''id'' TInt)], sch_description = None\<rparr>"

lemma shard_key_separates_entities_witness:
  "extract_shard_key demo_serde demo_cmd_schema ''id'' (JObj [(''id'', JInt (-5))]) \<noteq>
   extract_shard_key demo_serde demo_cmd_schema ''id'' (JObj [(''id'', JInt 5)])"
  using shard_key_separates_entities [of "''id''" demo_cmd_schema "as_shard_key (field_required ''id'' TInt)"
      "JObj [(''id'', JInt (-5))]" "-5" "JObj [(''id'', JInt 5)]" 5 demo_serde]
  by (simp add: demo_cmd_schema_def as_shard_key_def field_required_def)

end
