(* ===== verification/Registries.thy ===== *)
theory Registries
  imports Pools "HOL-Library.List_Lexorder" "HOL-Library.Char_ord" "HOL-Library.Sublist"
begin

text \<open>
  The registry (\<open>src/src/registry.rs\<close>): the schema table, the slots by path, the routes by schema, the
  installed sets and rules, and the endpoint's front-door channel.  A slot refers to its endpoint by a
  number, the endpoint records live in the kernel's store (\<open>KernelState\<close>): senders hold a shared handle
  that outlives a swap.

  A channel is its logical queue: a sender parked on a full channel has its envelope at its place in
  the queue.
\<close>

subsection \<open>Endpoints\<close>

record endpoint =
  ep_capacity :: "nat option"
  ep_pending :: nat
  ep_queue :: "envelope list"
  ep_closed :: bool
  ep_cell :: nat

datatype front_door_refused = DoorFull envelope | DoorClosed envelope

definition endpoint_new :: "nat option \<Rightarrow> nat \<Rightarrow> endpoint" where
  "endpoint_new capacity cell =
     \<lparr>ep_capacity = capacity, ep_pending = 0, ep_queue = [], ep_closed = False, ep_cell = cell\<rparr>"

definition note_channel_accept :: "endpoint \<Rightarrow> endpoint" where
  "note_channel_accept ep = ep\<lparr>ep_pending := ep_pending ep + 1\<rparr>"

definition note_channel_drain :: "endpoint \<Rightarrow> endpoint" where
  "note_channel_drain ep = ep\<lparr>ep_pending := ep_pending ep - 1\<rparr>"

definition channel_has_room :: "endpoint \<Rightarrow> bool" where
  "channel_has_room ep \<longleftrightarrow> (case ep_capacity ep of None \<Rightarrow> True | Some n \<Rightarrow> length (ep_queue ep) < n)"

definition try_deliver :: "envelope \<Rightarrow> endpoint \<Rightarrow> (front_door_refused + unit) \<times> endpoint" where
  "try_deliver e ep =
     (if ep_closed ep then (Inl (DoorClosed e), ep)
      else if channel_has_room ep
      then (Inr (), note_channel_accept (ep\<lparr>ep_queue := ep_queue ep @ [e]\<rparr>))
      else (Inl (DoorFull e), ep))"

definition deliver :: "envelope \<Rightarrow> endpoint \<Rightarrow> (unit + unit) \<times> endpoint" where
  "deliver e ep =
     (if ep_closed ep then (Inl (), ep)
      else (Inr (), note_channel_accept (ep\<lparr>ep_queue := ep_queue ep @ [e]\<rparr>)))"

text \<open>The front door's depth (\<open>door_capacity\<close> in \<open>kernel.rs\<close>).\<close>

definition door_capacity_unbounded :: nat where
  "door_capacity_unbounded = 65536"

definition door_capacity :: "nat \<Rightarrow> overload_policy \<Rightarrow> nat" where
  "door_capacity mailbox_capacity policy =
     (let capacity = max mailbox_capacity 1
      in case policy of
           Block \<Rightarrow> capacity
         | DropNew \<Rightarrow> capacity * 2
         | DropOld \<Rightarrow> capacity * 2
         | Unbounded \<Rightarrow> door_capacity_unbounded)"

definition front_door_channel :: "nat \<Rightarrow> overload_policy \<Rightarrow> nat option" where
  "front_door_channel mailbox_capacity policy =
     (case policy of Unbounded \<Rightarrow> None | _ \<Rightarrow> Some (door_capacity mailbox_capacity policy))"

subsection \<open>The schema table\<close>

type_synonym schema_table = "(string \<times> schema_def) list"

definition table_register :: "schema_def \<Rightarrow> schema_table \<Rightarrow> string \<times> schema_table" where
  "table_register d t =
     (sch_name d, if has_key t (sch_name d) then t else AList.update (sch_name d) d t)"

definition table_register_json :: "serde \<Rightarrow> json \<Rightarrow> schema_table \<Rightarrow> (schema_error + string) \<times> schema_table" where
  "table_register_json sd j t =
     (case schema_from_json sd j of
        Inl e \<Rightarrow> (Inl e, t)
      | Inr d \<Rightarrow> (let (i, t') = table_register d t in (Inr i, t')))"

definition table_register_typed ::
  "schema_def \<Rightarrow> string \<Rightarrow> schema_table \<Rightarrow> (string \<times> string) list
   \<Rightarrow> (schema_error + string) \<times> schema_table \<times> (string \<times> string) list" where
  "table_register_typed d type_id t claims =
     (case claim_schema_type (sch_name d) type_id claims of
        (Inl _, c) \<Rightarrow> (Inl (DuplicateType (sch_name d)), t, c)
      | (Inr _, c) \<Rightarrow>
          (Inr (sch_name d),
           if has_key t (sch_name d) then t else AList.update (sch_name d) d t, c))"

definition table_by_id :: "string \<Rightarrow> schema_table \<Rightarrow> schema_def option" where
  "table_by_id s t = map_of t s"

definition table_all :: "schema_table \<Rightarrow> schema_def list" where
  "table_all t = List.map_filter (\<lambda>n. map_of t n) (sort (map fst t))"

subsection \<open>Slots and routes\<close>

record slot =
  sl_manifest :: actor_manifest
  sl_endpoint :: "nat option"
  sl_inbox_policy :: overload_policy

datatype route_policy = Single string | RoundRobin "string list"

datatype registry_error = PathTaken string | UnknownPath string | InvalidSpec

record registry =
  rg_schemas :: schema_table
  rg_slots :: "(string \<times> slot) list"
  rg_routes :: "(string \<times> route_policy) list"
  rg_route_cursor :: nat
  rg_partitions :: "(string \<times> partition_spec) list"
  rg_projector_sets :: "(string \<times> projector_set_spec) list"
  rg_rules :: "rule list"

definition registry_new :: registry where
  "registry_new =
     \<lparr>rg_schemas = [], rg_slots = [], rg_routes = [], rg_route_cursor = 0, rg_partitions = [],
      rg_projector_sets = [], rg_rules = []\<rparr>"

definition slot_kind :: "slot \<Rightarrow> actor_kind outcome" where
  "slot_kind s =
     (case mf_kind (sl_manifest s) of
        None \<Rightarrow> Panicked ''slots are always spawned with a manifest kind''
      | Some k \<Rightarrow> Done k)"

fun pick :: "route_policy \<Rightarrow> nat \<Rightarrow> string option \<times> nat" where
  "pick (Single path) cursor = (Some path, cursor)"
| "pick (RoundRobin paths) cursor =
     (if paths = [] then (None, cursor)
      else (Some (paths ! (cursor mod length paths)), (cursor + 1) mod length paths))"

definition register_schema :: "schema_def \<Rightarrow> registry \<Rightarrow> string \<times> registry" where
  "register_schema d r =
     (let (i, t) = table_register d (rg_schemas r) in (i, r\<lparr>rg_schemas := t\<rparr>))"

definition schema_of :: "registry \<Rightarrow> string \<Rightarrow> schema_def option" where
  "schema_of r s = table_by_id s (rg_schemas r)"

definition slot_manifests :: "registry \<Rightarrow> (string \<times> actor_manifest) list" where
  "slot_manifests r = map (\<lambda>(p, s). (p, sl_manifest s)) (rg_slots r)"

definition insert_slot ::
  "string \<Rightarrow> actor_manifest \<Rightarrow> nat \<Rightarrow> overload_policy \<Rightarrow> registry \<Rightarrow> (registry_error + unit) \<times> registry" where
  "insert_slot path manifest ep policy r =
     (if has_key (rg_slots r) path then (Inl (PathTaken path), r)
      else (Inr (),
        r\<lparr>rg_slots := AList.update path
            \<lparr>sl_manifest = manifest, sl_endpoint = Some ep, sl_inbox_policy = policy\<rparr> (rg_slots r)\<rparr>))"

definition swap_endpoint :: "string \<Rightarrow> nat \<Rightarrow> registry \<Rightarrow> (registry_error + unit) \<times> registry" where
  "swap_endpoint path ep r =
     (case map_of (rg_slots r) path of
        None \<Rightarrow> (Inl (UnknownPath path), r)
      | Some s \<Rightarrow> (Inr (), r\<lparr>rg_slots := AList.update path (s\<lparr>sl_endpoint := Some ep\<rparr>) (rg_slots r)\<rparr>))"

definition remove_slot :: "string \<Rightarrow> registry \<Rightarrow> (registry_error + actor_manifest) \<times> registry" where
  "remove_slot path r =
     (case map_of (rg_slots r) path of
        None \<Rightarrow> (Inl (UnknownPath path), r)
      | Some s \<Rightarrow> (Inr (sl_manifest s), r\<lparr>rg_slots := AList.delete path (rg_slots r)\<rparr>))"

definition reg_declare_emits :: "string \<Rightarrow> string \<Rightarrow> registry \<Rightarrow> (registry_error + unit) \<times> registry" where
  "reg_declare_emits path schema r =
     (case map_of (rg_slots r) path of
        None \<Rightarrow> (Inl (UnknownPath path), r)
      | Some s \<Rightarrow>
          (Inr (), r\<lparr>rg_slots := AList.update path (s\<lparr>sl_manifest := emits_id schema (sl_manifest s)\<rparr>) (rg_slots r)\<rparr>))"

definition add_rule :: "rule \<Rightarrow> registry \<Rightarrow> registry" where
  "add_rule ru r = r\<lparr>rg_rules := rg_rules r @ [ru]\<rparr>"

definition declares_shard_key :: "string \<Rightarrow> schema_def \<Rightarrow> bool" where
  "declares_shard_key key_field d = list_ex (\<lambda>f. fd_name f = key_field \<and> fd_role f = Some ShardKey) (sch_fields d)"

definition install_partition_set :: "partition_spec \<Rightarrow> registry \<Rightarrow> (registry_error + unit) \<times> registry" where
  "install_partition_set spec r =
     (if \<not> list_ex (declares_shard_key (pt_key_field spec))
           (filter (\<lambda>d. sch_kind d = Command) (table_all (rg_schemas r)))
      then (Inl InvalidSpec, r)
      else (Inr (), r\<lparr>rg_partitions := AList.update (pt_public spec) spec (rg_partitions r)\<rparr>))"

text \<open>The loop over the consumed schemas returns at the first that is missing or not an event.\<close>

fun consumed_ok :: "registry \<Rightarrow> string list \<Rightarrow> bool" where
  "consumed_ok r [] = True"
| "consumed_ok r (s # ss) =
     (case schema_of r s of
        None \<Rightarrow> False
      | Some d \<Rightarrow> if sch_kind d \<noteq> Event then False else consumed_ok r ss)"

definition install_projector_set :: "projector_set_spec \<Rightarrow> registry \<Rightarrow> (registry_error + unit) \<times> registry" where
  "install_projector_set spec r =
     (if \<not> consumed_ok r (pj_consumed spec) then (Inl InvalidSpec, r)
      else if \<not> list_ex (\<lambda>s. case schema_of r s of None \<Rightarrow> False | Some d \<Rightarrow> declares_shard_key (pj_key_field spec) d)
                (pj_consumed spec)
      then (Inl InvalidSpec, r)
      else (Inr (), r\<lparr>rg_projector_sets := AList.update (pj_public spec) spec (rg_projector_sets r)\<rparr>))"

definition projector_sets_consuming :: "string \<Rightarrow> registry \<Rightarrow> projector_set_spec list" where
  "projector_sets_consuming schema r =
     filter (\<lambda>spec. schema \<in> set (pj_consumed spec)) (map snd (rg_projector_sets r))"

text \<open>\<open>strip_prefix\<close> of \<open>public/\<close>, then a key that is not empty and has no slash.\<close>

definition strip_prefix :: "string \<Rightarrow> string \<Rightarrow> string option" where
  "strip_prefix pre s = (if prefix pre s then Some (drop (length pre) s) else None)"

definition owns_path :: "string \<Rightarrow> string \<Rightarrow> bool" where
  "owns_path public path =
     (case strip_prefix (public @ ''/'') path of
        None \<Rightarrow> False
      | Some key \<Rightarrow> key \<noteq> [] \<and> CHR ''/'' \<notin> set key)"

definition projector_set_owning :: "string \<Rightarrow> registry \<Rightarrow> projector_set_spec option" where
  "projector_set_owning path r =
     List.find (\<lambda>spec. owns_path (pj_public spec) path) (map snd (rg_projector_sets r))"

definition handlers_of :: "string \<Rightarrow> registry \<Rightarrow> string list" where
  "handlers_of schema r =
     (case map_of (rg_routes r) schema of
        Some (Single path) \<Rightarrow> [path]
      | Some (RoundRobin paths) \<Rightarrow> paths
      | None \<Rightarrow> [])"

definition route_dests :: "string \<Rightarrow> registry \<Rightarrow> string list" where
  "route_dests schema r =
     (case map_of (rg_routes r) schema of
        None \<Rightarrow> []
      | Some (Single path) \<Rightarrow> [path]
      | Some (RoundRobin paths) \<Rightarrow> paths)"

definition resolve :: "string \<Rightarrow> registry \<Rightarrow> nat option" where
  "resolve path r = (case map_of (rg_slots r) path of None \<Rightarrow> None | Some s \<Rightarrow> sl_endpoint s)"

definition inbox_policy :: "string \<Rightarrow> registry \<Rightarrow> overload_policy" where
  "inbox_policy path r = (case map_of (rg_slots r) path of None \<Rightarrow> DropNew | Some s \<Rightarrow> sl_inbox_policy s)"

record endpoint_info =
  ei_path :: string
  ei_kind :: actor_kind
  ei_manifest :: actor_manifest

definition lookup :: "string \<Rightarrow> registry \<Rightarrow> endpoint_info option outcome" where
  "lookup path r =
     (case map_of (rg_slots r) path of
        None \<Rightarrow> Done None
      | Some s \<Rightarrow>
          map_outcome (\<lambda>k. Some \<lparr>ei_path = path, ei_kind = k, ei_manifest = sl_manifest s\<rparr>) (slot_kind s))"

definition is_registered :: "string \<Rightarrow> registry \<Rightarrow> bool" where
  "is_registered path r = has_key (rg_slots r) path"

definition route_schema :: "string \<Rightarrow> registry \<Rightarrow> string option \<times> registry" where
  "route_schema schema r =
     (case map_of (rg_routes r) schema of
        None \<Rightarrow> (None, r)
      | Some policy \<Rightarrow>
          (let (candidate, cursor) = pick policy (rg_route_cursor r);
               r' = r\<lparr>rg_route_cursor := cursor\<rparr>
           in (case candidate of
                 None \<Rightarrow> (None, r')
               | Some c \<Rightarrow>
                   if projector_set_owning c r \<noteq> None
                   then (List.find (\<lambda>p. projector_set_owning p r = None) (handlers_of schema r), r')
                   else (Some c, r'))))"

definition declares_emit :: "string \<Rightarrow> string \<Rightarrow> registry \<Rightarrow> bool" where
  "declares_emit path schema r =
     (case map_of (rg_slots r) path of None \<Rightarrow> False | Some s \<Rightarrow> schema \<in> set (mf_emits (sl_manifest s)))"

definition route_resolved :: "string \<Rightarrow> registry \<Rightarrow> (string option \<times> nat option) \<times> registry" where
  "route_resolved schema r =
     (case route_schema schema r of
        (Some target, r') \<Rightarrow> ((Some target, resolve target r'), r')
      | (None, r') \<Rightarrow> ((None, None), r'))"

definition add_route :: "string \<Rightarrow> string \<Rightarrow> registry \<Rightarrow> registry" where
  "add_route schema path r =
     (case map_of (rg_routes r) schema of
        None \<Rightarrow> r\<lparr>rg_routes := AList.update schema (Single path) (rg_routes r)\<rparr>
      | Some (Single existing) \<Rightarrow>
          if existing \<noteq> path
          then r\<lparr>rg_routes := AList.update schema (RoundRobin [existing, path]) (rg_routes r)\<rparr>
          else r
      | Some (RoundRobin paths) \<Rightarrow>
          if path \<notin> set paths
          then r\<lparr>rg_routes := AList.update schema (RoundRobin (paths @ [path])) (rg_routes r)\<rparr>
          else r)"

fun drop_route :: "string \<Rightarrow> route_policy \<Rightarrow> route_policy option" where
  "drop_route path (Single single) = (if single \<noteq> path then Some (Single single) else None)"
| "drop_route path (RoundRobin paths) =
     (let ps = filter (\<lambda>p. p \<noteq> path) paths in if ps \<noteq> [] then Some (RoundRobin ps) else None)"

definition drop_routes_of :: "string \<Rightarrow> registry \<Rightarrow> registry" where
  "drop_routes_of path r =
     r\<lparr>rg_routes := List.map_filter (\<lambda>(s, policy). map_option (Pair s) (drop_route path policy)) (rg_routes r)\<rparr>"

text \<open>The topology export: per partition set its live entities, per rule its edge.\<close>

definition topology :: "registry \<Rightarrow> (string \<times> string \<times> string list) list \<times> (rule \<times> string \<times> string) list" where
  "topology r =
     (map (\<lambda>(path, spec). (path, pt_key_field spec,
             filter (\<lambda>s. prefix (path @ ''/'') s) (map fst (rg_slots r)))) (rg_partitions r),
      map (\<lambda>ru. (ru, case ru_action ru of Tee _ \<Rightarrow> ''tee'' | Inline _ \<Rightarrow> ''inline'',
                     case ru_action ru of Tee ob \<Rightarrow> ob | Inline ob \<Rightarrow> ob)) (rg_rules r))"

subsection \<open>Well-formed registries\<close>

fun policy_ok :: "route_policy \<Rightarrow> bool" where
  "policy_ok (Single p) = True"
| "policy_ok (RoundRobin ps) = (ps \<noteq> [] \<and> distinct ps)"

definition rg_ok :: "registry \<Rightarrow> bool" where
  "rg_ok r \<longleftrightarrow>
     distinct (map fst (rg_slots r)) \<and> distinct (map fst (rg_routes r)) \<and>
     (\<forall>(s, policy) \<in> set (rg_routes r). policy_ok policy)"

lemma rg_ok_policy: "rg_ok r \<Longrightarrow> map_of (rg_routes r) s = Some policy \<Longrightarrow> policy_ok policy"
  by (auto simp: rg_ok_def dest!: map_of_SomeD)

lemma policies_update:
  "\<forall>(s, policy) \<in> set m. policy_ok policy \<Longrightarrow> policy_ok q \<Longrightarrow> \<forall>(s, policy) \<in> set (AList.update k q m). policy_ok policy"
  by (induction m) auto

lemma rg_ok_new: "rg_ok registry_new"
  by (simp add: rg_ok_def registry_new_def)

lemma rg_ok_set_route: "rg_ok r \<Longrightarrow> policy_ok q \<Longrightarrow> rg_ok (r\<lparr>rg_routes := AList.update s q (rg_routes r)\<rparr>)"
  using policies_update [of "rg_routes r" q s] by (simp add: rg_ok_def)

lemma rg_ok_add_route:
  assumes "rg_ok r"
  shows "rg_ok (add_route s p r)"
proof (cases "map_of (rg_routes r) s")
  case None
  with assms show ?thesis by (simp add: add_route_def rg_ok_set_route)
next
  case (Some policy)
  then have "policy_ok policy" by (rule rg_ok_policy [OF assms])
  with Some assms show ?thesis by (cases policy) (simp_all add: add_route_def rg_ok_set_route)
qed

lemma keys_map_filter:
  "map fst (List.map_filter (\<lambda>(s, policy). map_option (Pair s) (f policy)) m) =
   map fst (filter (\<lambda>(s, policy). f policy \<noteq> None) m)"
  by (induction m) (auto simp: List.map_filter_simps split: option.splits)

lemma map_of_drop_routes:
  "distinct (map fst m) \<Longrightarrow>
   map_of (List.map_filter (\<lambda>(s, policy). map_option (Pair s) (drop_route path policy)) m) k =
     (case map_of m k of None \<Rightarrow> None | Some policy \<Rightarrow> drop_route path policy)"
proof (induction m)
  case (Cons x m)
  have sub: "fst ` set (List.map_filter (\<lambda>(s, policy). map_option (Pair s) (drop_route path policy)) m) \<subseteq> fst ` set m"
    by (force simp: List.map_filter_def)
  obtain s policy where x: "x = (s, policy)" by (cases x)
  with Cons.prems have "s \<notin> fst ` set m" by simp
  then have none: "map_of m s = None" by (simp add: map_of_eq_None_iff)
  with Cons x show ?case
    by (cases "drop_route path policy") (auto simp: List.map_filter_simps split: option.splits)
qed (simp add: List.map_filter_simps)

lemma rg_ok_drop_routes: "rg_ok r \<Longrightarrow> rg_ok (drop_routes_of p r)"
proof -
  assume ok: "rg_ok r"
  have d: "distinct (map fst (List.map_filter (\<lambda>(s, policy). map_option (Pair s) (drop_route p policy)) (rg_routes r)))"
    using ok unfolding keys_map_filter by (intro distinct_map_filter) (simp add: rg_ok_def)
  have k: "drop_route p policy = Some q \<Longrightarrow> policy_ok policy \<Longrightarrow> policy_ok q" for policy q
    by (cases policy) (auto simp: Let_def split: if_splits)
  show ?thesis
    using ok d k by (force simp: rg_ok_def drop_routes_of_def List.map_filter_def)
qed

lemma rg_ok_slots:
  "rg_ok r \<Longrightarrow> insert_slot p m ep pol r = (res, r') \<Longrightarrow> rg_ok r'"
  "rg_ok r \<Longrightarrow> swap_endpoint p ep r = (res', r') \<Longrightarrow> rg_ok r'"
  "rg_ok r \<Longrightarrow> remove_slot p r = (res'', r') \<Longrightarrow> rg_ok r'"
  "rg_ok r \<Longrightarrow> reg_declare_emits p s r = (res', r') \<Longrightarrow> rg_ok r'"
  by (auto simp: insert_slot_def swap_endpoint_def remove_slot_def reg_declare_emits_def rg_ok_def
      split: if_splits option.splits)

subsection \<open>The route table as a map from schemas to handler lists\<close>

lemma handlers_of_add:
  "rg_ok r \<Longrightarrow> handlers_of s' (add_route s p r) = (if s' = s then push_unique p (handlers_of s r) else handlers_of s' r)"
  by (auto simp: add_route_def handlers_of_def push_unique_def split: option.splits route_policy.splits)

lemma handlers_of_drop:
  assumes "rg_ok r"
  shows "handlers_of s (drop_routes_of p r) = filter (\<lambda>q. q \<noteq> p) (handlers_of s r)"
proof -
  have "distinct (map fst (rg_routes r))" using assms by (simp add: rg_ok_def)
  then show ?thesis
    by (cases "map_of (rg_routes r) s")
      (auto simp: handlers_of_def drop_routes_of_def map_of_drop_routes Let_def split: route_policy.splits)
qed

lemma handlers_of_distinct: "rg_ok r \<Longrightarrow> distinct (handlers_of s r)"
  using rg_ok_policy [of r s] by (fastforce simp: handlers_of_def split: option.splits route_policy.splits)

datatype route_op = AddRoute string string | DropRoutes string

fun route_apply :: "route_op \<Rightarrow> registry \<Rightarrow> registry" where
  "route_apply (AddRoute s p) r = add_route s p r"
| "route_apply (DropRoutes p) r = drop_routes_of p r"

fun spec_apply :: "route_op \<Rightarrow> (string \<Rightarrow> string list) \<Rightarrow> string \<Rightarrow> string list" where
  "spec_apply (AddRoute s p) h = h(s := push_unique p (h s))"
| "spec_apply (DropRoutes p) h = (\<lambda>s. filter (\<lambda>q. q \<noteq> p) (h s))"

lemma route_apply_spec:
  "rg_ok r \<Longrightarrow> rg_ok (route_apply op r) \<and> (\<lambda>s. handlers_of s (route_apply op r)) = spec_apply op (\<lambda>s. handlers_of s r)"
  by (cases op) (auto simp: rg_ok_add_route rg_ok_drop_routes handlers_of_add handlers_of_drop)

lemma route_run_spec:
  "rg_ok r \<Longrightarrow> rg_ok (fold route_apply ops r) \<and>
   (\<lambda>s. handlers_of s (fold route_apply ops r)) = fold spec_apply ops (\<lambda>s. handlers_of s r)"
proof (induction ops arbitrary: r)
  case (Cons op ops)
  then show ?case using Cons.IH [of "route_apply op r"] route_apply_spec [OF Cons.prems, of op] by simp
qed simp

text \<open>
  C23. The route table refines a map from schemas to handler lists.  Under every sequence of route
  declarations and teardowns from an empty registry, the handlers of each schema are exactly what the
  abstract table holds: a declaration adds the path once, at the end, a teardown removes it from every
  schema; the single-to-round-robin representation never shows, no handler appears twice, and no route
  is left empty.
\<close>

theorem route_table_refines_map:
  "(\<lambda>s. handlers_of s (fold route_apply ops registry_new)) = fold spec_apply ops (\<lambda>s. []) \<and>
   distinct (handlers_of s (fold route_apply ops registry_new)) \<and>
   (map_of (rg_routes (fold route_apply ops registry_new)) s = None
      \<longleftrightarrow> handlers_of s (fold route_apply ops registry_new) = [])"
proof -
  let ?r = "fold route_apply ops registry_new"
  have ok: "rg_ok ?r" and spec: "(\<lambda>s. handlers_of s ?r) = fold spec_apply ops (\<lambda>s. handlers_of s registry_new)"
    using route_run_spec [OF rg_ok_new, of ops] by simp_all
  have "(\<lambda>s. handlers_of s registry_new) = (\<lambda>s. [])" by (simp add: handlers_of_def registry_new_def)
  moreover have "map_of (rg_routes ?r) s = None \<longleftrightarrow> handlers_of s ?r = []"
    using rg_ok_policy [OF ok, of s] by (fastforce simp: handlers_of_def split: option.splits route_policy.splits)
  ultimately show ?thesis using spec handlers_of_distinct [OF ok] by simp
qed

subsection \<open>Picking a handler\<close>

fun route_n :: "nat \<Rightarrow> string \<Rightarrow> registry \<Rightarrow> string option list" where
  "route_n 0 s r = []"
| "route_n (Suc n) s r = (let (p, r') = route_schema s r in p # route_n n s r')"

lemma route_schema_rr:
  assumes "map_of (rg_routes r) s = Some (RoundRobin ps)" "ps \<noteq> []"
    and "\<forall>p \<in> set ps. projector_set_owning p r = None"
  shows "route_schema s r =
    (Some (ps ! (rg_route_cursor r mod length ps)), r\<lparr>rg_route_cursor := (rg_route_cursor r + 1) mod length ps\<rparr>)"
  using assms by (simp add: route_schema_def Let_def)

lemma route_n_rr:
  assumes "map_of (rg_routes r) s = Some (RoundRobin ps)" "ps \<noteq> []"
    and "\<forall>p \<in> set ps. projector_set_owning p r = None"
  shows "route_n n s r = map (\<lambda>i. Some (ps ! ((rg_route_cursor r + i) mod length ps))) [0..<n]"
  using assms
proof (induction n arbitrary: r)
  case 0
  then show ?case by simp
next
  case (Suc n)
  let ?r = "r\<lparr>rg_route_cursor := (rg_route_cursor r + 1) mod length ps\<rparr>"
  have "route_n n s ?r = map (\<lambda>i. Some (ps ! ((rg_route_cursor ?r + i) mod length ps))) [0..<n]"
    using Suc.prems by (intro Suc.IH) (simp_all add: projector_set_owning_def)
  moreover have "[0..<Suc n] = 0 # map Suc [0..<n]" by (simp add: map_Suc_upt upt_conv_Cons del: upt_Suc)
  ultimately show ?case
    using route_schema_rr [OF Suc.prems] by (simp add: mod_simps del: upt_Suc)
qed

lemma route_schema_sound:
  assumes "rg_ok r" "route_schema s r = (Some p, r')"
  shows "p \<in> set (handlers_of s r) \<and> projector_set_owning p r = None"
proof -
  obtain policy where p: "map_of (rg_routes r) s = Some policy"
    using assms(2) by (auto simp: route_schema_def split: option.splits)
  show ?thesis
  proof (cases policy)
    case (Single q)
    with p assms(2) show ?thesis
      by (auto simp: route_schema_def handlers_of_def Let_def split: if_splits)
  next
    case (RoundRobin ps)
    then have "ps \<noteq> []" using rg_ok_policy [OF assms(1) p] by simp
    then have "ps ! (rg_route_cursor r mod length ps) \<in> set ps" by simp
    with RoundRobin p assms(2) show ?thesis
      by (auto simp: route_schema_def handlers_of_def Let_def split: if_splits dest!: find_Some_set)
  qed
qed

text \<open>
  C24. One-of sends are fair and never reach a projector-set member.  A pick is always a registered
  handler of the schema that no projector set owns; and when all \<open>n\<close> handlers of a schema are plain,
  \<open>n\<close> consecutive sends to it visit each handler exactly once, wherever the cursor stands.
\<close>

theorem round_robin_fair:
  assumes "rg_ok r" and "map_of (rg_routes r) s = Some (RoundRobin ps)"
    and "\<forall>p \<in> set ps. projector_set_owning p r = None"
  shows "distinct (route_n (length ps) s r) \<and> set (route_n (length ps) s r) = Some ` set ps \<and>
    (\<forall>s' p r'. route_schema s' r = (Some p, r') \<longrightarrow>
       p \<in> set (handlers_of s' r) \<and> projector_set_owning p r = None)"
proof -
  let ?c = "rg_route_cursor r" and ?n = "length ps"
  have ps: "ps \<noteq> []" "distinct ps" using rg_ok_policy [OF assms(1,2)] by simp_all
  have picks: "route_n ?n s r = map (\<lambda>i. Some (ps ! ((?c + i) mod ?n))) [0..<?n]"
    using assms(2) ps(1) assms(3) by (rule route_n_rr)
  have inj: "i = j" if "i < ?n" "j < ?n" "(?c + i) mod ?n = (?c + j) mod ?n" for i j
    using add_mod_inj [of ?c i ?n j] that by simp
  have "inj_on (\<lambda>i. Some (ps ! ((?c + i) mod ?n))) {0..<?n}"
  proof (rule inj_onI)
    fix i j assume ij: "i \<in> {0..<?n}" "j \<in> {0..<?n}" and "Some (ps ! ((?c + i) mod ?n)) = Some (ps ! ((?c + j) mod ?n))"
    then have "ps ! ((?c + i) mod ?n) = ps ! ((?c + j) mod ?n)" by simp
    moreover have "(?c + i) mod ?n < ?n" "(?c + j) mod ?n < ?n" using ps(1) by simp_all
    ultimately have eq: "(?c + i) mod ?n = (?c + j) mod ?n"
      using nth_eq_iff_index_eq [OF ps(2)] by simp
    show "i = j" by (rule inj [OF _ _ eq]) (use ij in simp_all)
  qed
  then have dist: "distinct (route_n ?n s r)"
    unfolding picks by (simp add: distinct_map)
  have sub: "set (route_n ?n s r) \<subseteq> Some ` set ps"
    unfolding picks using ps(1) by auto
  have "card (set (route_n ?n s r)) = ?n" using distinct_card [OF dist] by (simp add: picks)
  moreover have "card (Some ` set ps) = ?n" using ps(2) by (simp add: card_image distinct_card)
  ultimately have "set (route_n ?n s r) = Some ` set ps"
    by (intro card_subset_eq) (use sub in simp_all)
  with dist show ?thesis using route_schema_sound [OF assms(1)] by blast
qed

definition demo_registry :: registry where
  "demo_registry = registry_new\<lparr>rg_routes := [(''Job'', RoundRobin [''w1'', ''w2'', ''w3'']), (''Ping'', RoundRobin [''p1'', ''p2''])],
     rg_route_cursor := 1\<rparr>"

theorem round_robin_fair_witness:
  "set (route_n 3 ''Job'' demo_registry) = {Some ''w1'', Some ''w2'', Some ''w3''}"
  using round_robin_fair [of demo_registry "''Job''" "[''w1'', ''w2'', ''w3'']"]
  by (simp add: demo_registry_def registry_new_def rg_ok_def projector_set_owning_def numeral_3_eq_3)

fun alternate :: "nat \<Rightarrow> string \<Rightarrow> string \<Rightarrow> registry \<Rightarrow> (string option \<times> string option) list" where
  "alternate 0 s t r = []"
| "alternate (Suc n) s t r =
     (let (p, r1) = route_schema s r; (q, r2) = route_schema t r1 in (p, q) # alternate n s t r2)"

text \<open>
  The round-robin cursor is shared by all schemas, and sends to one schema move it for the others.
  With two schemas of two plain handlers each and sends alternating between them, every send to the
  first schema reaches the same handler, and every send to the second the other position: the second
  handler of the first schema is never picked.
\<close>

lemma shared_cursor_starves:
  assumes "map_of (rg_routes r) s = Some (RoundRobin [a, b])" and "map_of (rg_routes r) t = Some (RoundRobin [x, y])"
    and "rg_projector_sets r = []" and "rg_route_cursor r = 0"
  shows "alternate n s t r = replicate n (Some a, Some y)"
  using assms
proof (induction n arbitrary: r)
  case 0
  then show ?case by simp
next
  case (Suc n)
  have owned: "projector_set_owning p r' = None" if "rg_projector_sets r' = []" for p r'
    using that by (simp add: projector_set_owning_def)
  have "route_schema s r = (Some a, r\<lparr>rg_route_cursor := 1\<rparr>)"
    using route_schema_rr [OF Suc.prems(1)] Suc.prems(3,4) by (simp add: owned)
  moreover have "route_schema t (r\<lparr>rg_route_cursor := 1\<rparr>) = (Some y, r\<lparr>rg_route_cursor := 0\<rparr>)"
    using route_schema_rr [of "r\<lparr>rg_route_cursor := 1\<rparr>" t "[x, y]"] Suc.prems by (simp add: owned)
  moreover have "alternate n s t (r\<lparr>rg_route_cursor := 0\<rparr>) = replicate n (Some a, Some y)"
    using Suc.prems by (intro Suc.IH) simp_all
  ultimately show ?case by simp
qed

lemma shared_cursor_starves_witness:
  "alternate 2 ''A'' ''B'' (registry_new\<lparr>rg_routes := [(''A'', RoundRobin [''a1'', ''a2'']), (''B'', RoundRobin [''b1'', ''b2''])]\<rparr>) =
     [(Some ''a1'', Some ''b2''), (Some ''a1'', Some ''b2'')]"
  using shared_cursor_starves [of "registry_new\<lparr>rg_routes := [(''A'', RoundRobin [''a1'', ''a2'']), (''B'', RoundRobin [''b1'', ''b2''])]\<rparr>"
      "''A''" "''a1''" "''a2''" "''B''" "''b1''" "''b2''" 2]
  by (simp add: registry_new_def numeral_2_eq_2)

lemma owns_path_key: "owns_path public (public @ ''/'' @ key) \<longleftrightarrow> key \<noteq> [] \<and> CHR ''/'' \<notin> set key"
  by (simp add: owns_path_def strip_prefix_def)

end
