(* ===== verification/Kernel.thy ===== *)
theory Kernel
  imports Replies Supervision Registries
begin

text \<open>
  The kernel's tables (\<open>src/src/kernel.rs\<close>, \<open>src/src/context.rs\<close>, \<open>src/src/observe.rs\<close>): dead
  letters, observations, intents, actor cells and the state every task of the system shares.

  Shared handles (\<open>Arc\<close>) are numbers into heaps, so that a loop, a sender and a table holding the
  same cell, endpoint, state shell or service instance see each other's writes, and a table entry can be replaced under a
  loop that still holds the old one.  A coalescing \<open>Notify\<close> is its permit.

  A task step that may panic is an \<open>act\<close>: from a world to an outcome and the world it left behind.  A
  panic keeps the writes made before it.
\<close>

subsection \<open>Steps over a world\<close>

type_synonym ('w, 'a) act = "'w \<Rightarrow> 'a outcome \<times> 'w"

named_theorems act_simps \<open>evaluation of chained steps\<close>

definition act_ret :: "'a \<Rightarrow> ('w, 'a) act" where
  "act_ret a w = (Done a, w)"

definition act_panic :: "string \<Rightarrow> ('w, 'a) act" where
  "act_panic m w = (Panicked m, w)"

definition act_bind :: "('w, 'a) act \<Rightarrow> ('a \<Rightarrow> ('w, 'b) act) \<Rightarrow> ('w, 'b) act" where
  "act_bind m f w =
     (case m w of
        (Done a, w') \<Rightarrow> f a w'
      | (Panicked s, w') \<Rightarrow> (Panicked s, w'))"

definition act_do :: "('w \<Rightarrow> 'w) \<Rightarrow> ('w, unit) act" where
  "act_do f w = (Done (), f w)"

text \<open>A computation on part of the world that may panic before it writes.\<close>

definition act_of :: "('w \<Rightarrow> 'a outcome) \<Rightarrow> ('w, 'a) act" where
  "act_of f w = (f w, w)"

fun act_each :: "('b \<Rightarrow> ('w, unit) act) \<Rightarrow> 'b list \<Rightarrow> ('w, unit) act" where
  "act_each f [] = act_ret ()"
| "act_each f (b # bs) = act_bind (f b) (\<lambda>_. act_each f bs)"

lemma act_simps_basic [act_simps]:
  "act_ret a w = (Done a, w)" "act_panic m w = (Panicked m, w)" "act_do g w = (Done (), g w)"
  "act_of h w = (h w, w)"
  by (simp_all add: act_ret_def act_panic_def act_do_def act_of_def)

lemma act_bind_ret [simp]: "act_bind (act_ret a) f = f a"
  by (rule ext) (simp add: act_bind_def act_ret_def)

lemma act_bind_Done [act_simps]: "m w = (Done a, w') \<Longrightarrow> act_bind m f w = f a w'"
  by (simp add: act_bind_def)

lemma act_bind_Panicked [act_simps]: "m w = (Panicked s, w') \<Longrightarrow> act_bind m f w = (Panicked s, w')"
  by (simp add: act_bind_def)

lemma act_bind_assoc: "act_bind (act_bind m f) g = act_bind m (\<lambda>a. act_bind (f a) g)"
  by (rule ext) (simp add: act_bind_def split: prod.splits outcome.splits)

lemma act_each_append: "act_each f (xs @ ys) = act_bind (act_each f xs) (\<lambda>_. act_each f ys)"
  by (induction xs) (simp_all add: act_bind_assoc)

subsection \<open>Dead letters, asks, observations\<close>

datatype dead_letter_reason =
    DlUnresolvable | DlUnknownSchema | DlDecode | DlInboxRefused | DlStoppedWithMail | DlShuttingDown
  | DlUndeclaredEvent | DlUndeclaredEmit | DlShardKeyMissing

record dead_letter =
  dl_schema :: string
  dl_dest :: address
  dl_reason :: dead_letter_reason
  dl_detail :: string
  dl_trace :: trace_ctx
  dl_envelope :: envelope

datatype ask_outcome = AskReplied | AskTimeout | AskFailed

record ask_fact =
  af_opened :: bool
  af_outcome :: "ask_outcome option"
  af_dest :: address
  af_trace :: trace_ctx

datatype observation_kind =
    ObSent "string option" address string trace_ctx
  | ObDelivered string string trace_ctx
  | ObAcked string string trace_ctx
  | ObAskOpened string address trace_ctx
  | ObAskSettled ask_outcome trace_ctx
  | ObSpawned string actor_kind bool
  | ObStopped string stop_reason
  | ObFailed string string
  | ObSnapshotTaken string seq_no
  | ObEscalated string string
  | ObLinkNotified string string
  | ObDeadLettered address string dead_letter_reason trace_ctx
  | ObBackpressured string nat
  | ObCaughtUp string nat

record observation =
  ob_ts :: timestamp
  ob_kind :: observation_kind

definition observation_new :: "timestamp \<Rightarrow> observation_kind \<Rightarrow> observation" where
  "observation_new ts k = \<lparr>ob_ts = ts, ob_kind = k\<rparr>"

text \<open>The millisecond reading packed in a causality id: the top 48 bits of a version-7 uuid.\<close>

definition causality_ts :: "nat \<Rightarrow> timestamp" where
  "causality_ts c = from_millis (if c div 2 ^ 76 mod 16 = 7 then c div 2 ^ 80 mod 2 ^ 48 else 0)"

definition letter_of :: "envelope \<Rightarrow> dead_letter_reason \<Rightarrow> string \<Rightarrow> dead_letter" where
  "letter_of e reason detail =
     \<lparr>dl_schema = en_schema e, dl_dest = en_dest e, dl_reason = reason, dl_detail = detail,
      dl_trace = en_trace e, dl_envelope = e\<rparr>"

subsection \<open>Intents\<close>

datatype intent =
    ISend envelope
  | IBroadcast envelope
  | IReply address string payload trace_ctx
  | IStopSelf

fun emitted_schema :: "intent \<Rightarrow> string option" where
  "emitted_schema (ISend e) = Some (en_schema e)"
| "emitted_schema (IBroadcast e) = Some (en_schema e)"
| "emitted_schema (IReply to schema p tr) = Some schema"
| "emitted_schema IStopSelf = None"

type_synonym outbox = "intent list"

definition push_send :: "envelope \<Rightarrow> outbox \<Rightarrow> outbox" where
  "push_send e ob = ob @ [ISend e]"

definition push_broadcast :: "envelope \<Rightarrow> outbox \<Rightarrow> outbox" where
  "push_broadcast e ob = ob @ [IBroadcast e]"

definition push_reply :: "address \<Rightarrow> string \<Rightarrow> payload \<Rightarrow> trace_ctx \<Rightarrow> outbox \<Rightarrow> outbox" where
  "push_reply to schema p tr ob = ob @ [IReply to schema p tr]"

definition push_stop_self :: "outbox \<Rightarrow> outbox" where
  "push_stop_self ob = ob @ [IStopSelf]"

subsection \<open>Cells\<close>

text \<open>
  A loop's handle names its shutdown watch and its task.  Everything the runtime owns for one actor across restarts.  \<open>u64_max\<close> is the sentinel of the three
  bookkeeping cells that can be unset.  A message entry is a schema and the name of its adapter.
\<close>

record actor_handle =
  ah_shutdown :: nat
  ah_task :: nat

record 'st actor_cell =
  ce_path :: string
  ce_inbox :: "envelope inbox"
  ce_space_available :: bool
  ce_mailbox_capacity :: nat
  ce_mailbox_policy :: overload_policy
  ce_step_batch :: nat
  ce_has_watermark :: bool
  ce_handle :: "actor_handle option"
  ce_work :: bool
  ce_on_stop_done :: bool
  ce_stopping :: bool
  ce_crashed :: bool
  ce_watermark_high :: nat
  ce_watermark_fired :: bool
  ce_last_work_ms :: nat
  ce_last_event_seq :: nat
  ce_snapshot_anchor_ms :: nat
  ce_snapshot_policy :: snapshot_cadence
  ce_passivation :: "duration option"
  ce_entries :: "'st command_entry list"
  ce_msg_entries :: "(string \<times> nat) list"
  ce_declared_emits :: "string list"

definition cell_sentinel :: nat where
  "cell_sentinel = u64_max"

definition cell_new ::
  "string \<Rightarrow> envelope inbox \<Rightarrow> nat \<Rightarrow> overload_policy \<Rightarrow> nat \<Rightarrow> 'st actor_cell" where
  "cell_new path ib capacity policy batch =
     \<lparr>ce_path = path, ce_inbox = ib, ce_space_available = False, ce_mailbox_capacity = capacity,
      ce_mailbox_policy = policy, ce_step_batch = max batch 1, ce_has_watermark = False,
      ce_handle = None, ce_work = False, ce_on_stop_done = False, ce_stopping = False,
      ce_crashed = False, ce_watermark_high = 0, ce_watermark_fired = False, ce_last_work_ms = 0,
      ce_last_event_seq = cell_sentinel, ce_snapshot_anchor_ms = cell_sentinel,
      ce_snapshot_policy = CadenceOff, ce_passivation = None, ce_entries = [], ce_msg_entries = [],
      ce_declared_emits = []\<rparr>"

definition claim_on_stop :: "'st actor_cell \<Rightarrow> bool \<times> 'st actor_cell" where
  "claim_on_stop c = (\<not> ce_on_stop_done c, c\<lparr>ce_on_stop_done := True\<rparr>)"

definition mark_crashed :: "'st actor_cell \<Rightarrow> 'st actor_cell" where
  "mark_crashed c = c\<lparr>ce_crashed := True\<rparr>"

definition clear_crashed :: "'st actor_cell \<Rightarrow> 'st actor_cell" where
  "clear_crashed c = c\<lparr>ce_crashed := False\<rparr>"

definition mark_stopping :: "'st actor_cell \<Rightarrow> 'st actor_cell" where
  "mark_stopping c = c\<lparr>ce_stopping := True\<rparr>"

definition notify_space :: "'st actor_cell \<Rightarrow> 'st actor_cell" where
  "notify_space c = c\<lparr>ce_space_available := True\<rparr>"

definition notify_work :: "'st actor_cell \<Rightarrow> 'st actor_cell" where
  "notify_work c = c\<lparr>ce_work := True\<rparr>"

subsection \<open>The shared state\<close>

text \<open>An erased shell: the state with its type's code.\<close>

record 'st dyn_es =
  dy_shell :: "'st es_shell"
  dy_code :: "'st es_code"

text \<open>One running loop: its path, its cell, and the state shell it cached.\<close>

record es_loop =
  lo_path :: string
  lo_cell :: nat
  lo_is_projector :: bool
  lo_state :: "nat option"

text \<open>
  A watch channel: the value, and whether its sender is gone.  A wait for a change on a watch whose
  sender is gone returns at once.
\<close>

datatype watch = WatchOpen bool | WatchClosed bool

fun watch_value :: "watch \<Rightarrow> bool" where
  "watch_value (WatchOpen b) = b"
| "watch_value (WatchClosed b) = b"

fun watch_send :: "bool \<Rightarrow> watch \<Rightarrow> watch" where
  "watch_send b (WatchOpen _) = WatchOpen b"
| "watch_send b (WatchClosed v) = WatchClosed v"

fun watch_drop_sender :: "watch \<Rightarrow> watch" where
  "watch_drop_sender (WatchOpen b) = WatchClosed b"
| "watch_drop_sender (WatchClosed b) = WatchClosed b"

text \<open>
  A door task is between envelopes, or holds one that a full \<open>Block\<close> inbox refused, with the number of
  times it has parked.  A loop task is about to boot, running, parked in its idle tail, or draining towards its passivation; an engine
  waits for a crash or sleeps its backoff.  A scheduled self-send and a kickoff sleep their delay; an asker
  awaits the reply of its lease.
\<close>

datatype door = DoorReady | DoorHolding envelope nat

datatype loop_phase = LoopBoot | LoopRunning | LoopParked | LoopDraining

datatype engine_phase = EngineWaiting | EngineBackoff

datatype task =
    DoorTask nat door
  | EsTask es_loop nat loop_phase
  | ServiceStart es_loop nat nat json
  | ServiceTask es_loop nat loop_phase
  | EngineTask "(64 word) actor_spec" "nat option" nat engine_phase
  | CatchUpTask es_loop nat "string list"
  | ScheduledSend envelope
  | KickoffSend string string payload
  | AskWait nat address trace_ctx

record mailbox_defaults =
  md_capacity :: nat
  md_policy :: overload_policy

record ('st, 'sv, 's) world =
  w_registry :: registry
  w_cell_heap :: "nat \<Rightarrow> 'st actor_cell"
  w_endpoint_heap :: "nat \<Rightarrow> endpoint"
  w_shell_heap :: "nat \<Rightarrow> 'st dyn_es"
  w_service_heap :: "nat \<Rightarrow> 'sv"
  w_next :: nat
  w_cells :: "(string \<times> nat) list"
  w_es_state :: "(string \<times> nat) list"
  w_projectors :: "string list"
  w_services :: "(string \<times> nat) list"
  w_replies :: "payload reply_world"
  w_ask_facts :: "ask_fact list"
  w_genesis_args :: "(string \<times> json) list"
  w_dead_letters :: "dead_letter list"
  w_specs :: "(string \<times> (64 word) actor_spec) list"
  w_failures :: "(string \<times> failure_window) list"
  w_caught_up :: "(string \<times> nat) list"
  w_shutting_down :: bool
  w_store :: 's
  w_observing :: bool
  w_observed :: "observation list"
  w_ids :: id_gen
  w_wall :: "64 word"
  w_now :: timestamp
  w_defaults :: mailbox_defaults
  w_tasks :: "(nat \<times> task) list"
  w_watch_heap :: "nat \<Rightarrow> watch"
  w_engines :: "nat list"
  w_claims :: "(string \<times> string) list"

text \<open>The store's operations, as any backend provides them.\<close>

record 's store_ops =
  jo_load :: "string \<Rightarrow> 's \<Rightarrow> (journal_error + replay option) \<times> 's"
  jo_append :: "string \<Rightarrow> event list \<Rightarrow> 's \<Rightarrow> (journal_error + seq_no list) \<times> 's"
  jo_append_catchup :: "string \<Rightarrow> scanned_event list \<Rightarrow> 's \<Rightarrow> (journal_error + seq_no option list) \<times> 's"
  jo_scan :: "string list \<Rightarrow> 's \<Rightarrow> journal_error + scanned_event list"
  jo_append_snapshot :: "string \<Rightarrow> seq_no \<Rightarrow> json \<Rightarrow> nat \<Rightarrow> 's \<Rightarrow> (journal_error + unit) \<times> 's"
  jo_passivated :: "string \<Rightarrow> 's \<Rightarrow> (journal_error + unit) \<times> 's"
  jo_flush :: "'s \<Rightarrow> (journal_error + unit) \<times> 's"
  jo_purge :: "string \<Rightarrow> 's \<Rightarrow> (journal_error + unit) \<times> 's"

definition mem_ops :: "mem_store store_ops" where
  "mem_ops = \<lparr>jo_load = (\<lambda>path st. (mem_load path st, st)), jo_append = mem_append, jo_append_catchup = mem_append_catchup,
     jo_scan = mem_scan, jo_append_snapshot = mem_append_snapshot, jo_passivated = mem_passivated,
     jo_flush = mem_flush, jo_purge = mem_purge\<rparr>"

text \<open>
  The code the runtime calls back: the serialiser, the store, the spawn factories by name, the message
  adapters by name, the service constructors and hooks, and the float operations of the backoff.  A service handler may change the world (it asks, and it may
  hold a system handle); its deferred effects are the intents.
\<close>

record msg_view =
  mv_path :: string
  mv_trace :: trace_ctx
  mv_reply_to :: "address option"

datatype msg_result = MsgOk | MsgDecode string | MsgPanic

record ('st, 'sv, 's) host =
  ho_serde :: serde
  ho_store :: "'s store_ops"
  ho_factory :: "nat \<Rightarrow> string \<Rightarrow> json \<Rightarrow> (('st, 'sv, 's) world, unit) act"
  ho_dispatch :: "nat \<Rightarrow> payload \<Rightarrow> msg_view \<Rightarrow> 'sv \<Rightarrow> ('st, 'sv, 's) world
    \<Rightarrow> msg_result \<times> outbox \<times> 'sv \<times> ('st, 'sv, 's) world"
  ho_on_stop :: "msg_view \<Rightarrow> 'sv \<Rightarrow> ('st, 'sv, 's) world \<Rightarrow> outbox outcome \<times> 'sv \<times> ('st, 'sv, 's) world"
  ho_init :: "nat \<Rightarrow> json \<Rightarrow> (('st, 'sv, 's) world, registry_error + 'sv) act"
  ho_f64 :: "(64 word) f64_ops"

subsection \<open>Access\<close>

definition on_cell ::
  "nat \<Rightarrow> ('st actor_cell \<Rightarrow> 'st actor_cell) \<Rightarrow> ('st, 'sv, 's) world \<Rightarrow> ('st, 'sv, 's) world" where
  "on_cell c f w = w\<lparr>w_cell_heap := (w_cell_heap w)(c := f (w_cell_heap w c))\<rparr>"

definition on_endpoint ::
  "nat \<Rightarrow> (endpoint \<Rightarrow> endpoint) \<Rightarrow> ('st, 'sv, 's) world \<Rightarrow> ('st, 'sv, 's) world" where
  "on_endpoint e f w = w\<lparr>w_endpoint_heap := (w_endpoint_heap w)(e := f (w_endpoint_heap w e))\<rparr>"

text \<open>An inbox operation under the inbox lock.\<close>

definition with_inbox ::
  "nat \<Rightarrow> (envelope inbox \<Rightarrow> ('a \<times> envelope inbox) outcome) \<Rightarrow> (('st, 'sv, 's) world, 'a) act" where
  "with_inbox c f w =
     (case f (ce_inbox (w_cell_heap w c)) of
        Panicked m \<Rightarrow> (Panicked m, w)
      | Done (a, ib) \<Rightarrow> (Done a, on_cell c (\<lambda>ce. ce\<lparr>ce_inbox := ib\<rparr>) w))"

definition observe :: "timestamp \<Rightarrow> observation_kind \<Rightarrow> ('st, 'sv, 's) world \<Rightarrow> ('st, 'sv, 's) world" where
  "observe ts k w =
     (if w_observing w then w\<lparr>w_observed := w_observed w @ [observation_new ts k]\<rparr> else w)"

definition observe_traced :: "trace_ctx \<Rightarrow> observation_kind \<Rightarrow> ('st, 'sv, 's) world \<Rightarrow> ('st, 'sv, 's) world" where
  "observe_traced tr k w = observe (causality_ts (tr_causality tr)) k w"

definition set_observer :: "bool \<Rightarrow> ('st, 'sv, 's) world \<Rightarrow> ('st, 'sv, 's) world" where
  "set_observer on w = w\<lparr>w_observing := on\<rparr>"

definition dead_letter ::
  "envelope \<Rightarrow> dead_letter_reason \<Rightarrow> string \<Rightarrow> ('st, 'sv, 's) world \<Rightarrow> ('st, 'sv, 's) world" where
  "dead_letter e reason detail w =
     observe_traced (en_trace e) (ObDeadLettered (en_dest e) (en_schema e) reason (en_trace e))
       (w\<lparr>w_dead_letters := w_dead_letters w @ [letter_of e reason detail]\<rparr>)"

definition new_trace_root :: "('st, 'sv, 's) world \<Rightarrow> trace_ctx \<times> ('st, 'sv, 's) world" where
  "new_trace_root w = (let (tr, g) = trace_root (w_wall w) (w_wall w) (w_ids w) in (tr, w\<lparr>w_ids := g\<rparr>))"

definition new_id :: "('st, 'sv, 's) world \<Rightarrow> nat \<times> ('st, 'sv, 's) world" where
  "new_id w = (let (i, g) = next_uuid_shaped_id (w_wall w) (w_ids w) in (i, w\<lparr>w_ids := g\<rparr>))"

definition view_lookup :: "('st, 'sv, 's) world \<Rightarrow> string \<Rightarrow> actor_manifest option outcome" where
  "view_lookup w path = map_outcome (map_option ei_manifest) (lookup path (w_registry w))"

definition cmd_ctx_of :: "('st, 'sv, 's) world \<Rightarrow> string \<Rightarrow> cmd_ctx" where
  "cmd_ctx_of w path =
     \<lparr>cc_path = path, cc_now = w_now w, cc_lookup = view_lookup w,
      cc_handlers_of = (\<lambda>schema. handlers_of schema (w_registry w))\<rparr>"

definition drain_dead_letters :: "('st, 'sv, 's) world \<Rightarrow> dead_letter list \<times> ('st, 'sv, 's) world" where
  "drain_dead_letters w = (w_dead_letters w, w\<lparr>w_dead_letters := []\<rparr>)"

subsection \<open>What each access leaves alone\<close>

lemma on_cell_fields [simp]:
  "w_registry (on_cell c f w) = w_registry w" "w_endpoint_heap (on_cell c f w) = w_endpoint_heap w"
  "w_shell_heap (on_cell c f w) = w_shell_heap w"
  "w_service_heap (on_cell c f w) = w_service_heap w" "w_next (on_cell c f w) = w_next w"
  "w_cells (on_cell c f w) = w_cells w" "w_es_state (on_cell c f w) = w_es_state w"
  "w_projectors (on_cell c f w) = w_projectors w" "w_services (on_cell c f w) = w_services w"
  "w_replies (on_cell c f w) = w_replies w" "w_ask_facts (on_cell c f w) = w_ask_facts w"
  "w_genesis_args (on_cell c f w) = w_genesis_args w"
  "w_dead_letters (on_cell c f w) = w_dead_letters w" "w_specs (on_cell c f w) = w_specs w"
  "w_failures (on_cell c f w) = w_failures w" "w_caught_up (on_cell c f w) = w_caught_up w"
  "w_shutting_down (on_cell c f w) = w_shutting_down w" "w_store (on_cell c f w) = w_store w"
  "w_observing (on_cell c f w) = w_observing w" "w_observed (on_cell c f w) = w_observed w"
  "w_ids (on_cell c f w) = w_ids w" "w_wall (on_cell c f w) = w_wall w"
  "w_now (on_cell c f w) = w_now w" "w_defaults (on_cell c f w) = w_defaults w"
  "w_tasks (on_cell c f w) = w_tasks w" "w_watch_heap (on_cell c f w) = w_watch_heap w"
  "w_engines (on_cell c f w) = w_engines w" "w_claims (on_cell c f w) = w_claims w"
  by (simp_all add: on_cell_def)

lemma on_cell_heap [simp]: "w_cell_heap (on_cell c f w) = (w_cell_heap w)(c := f (w_cell_heap w c))"
  by (simp add: on_cell_def)

lemma on_endpoint_fields [simp]:
  "w_registry (on_endpoint ep f w) = w_registry w"
  "w_cell_heap (on_endpoint ep f w) = w_cell_heap w"
  "w_shell_heap (on_endpoint ep f w) = w_shell_heap w"
  "w_service_heap (on_endpoint ep f w) = w_service_heap w" "w_next (on_endpoint ep f w) = w_next w"
  "w_cells (on_endpoint ep f w) = w_cells w" "w_es_state (on_endpoint ep f w) = w_es_state w"
  "w_projectors (on_endpoint ep f w) = w_projectors w"
  "w_services (on_endpoint ep f w) = w_services w" "w_replies (on_endpoint ep f w) = w_replies w"
  "w_ask_facts (on_endpoint ep f w) = w_ask_facts w"
  "w_genesis_args (on_endpoint ep f w) = w_genesis_args w"
  "w_dead_letters (on_endpoint ep f w) = w_dead_letters w"
  "w_specs (on_endpoint ep f w) = w_specs w" "w_failures (on_endpoint ep f w) = w_failures w"
  "w_caught_up (on_endpoint ep f w) = w_caught_up w"
  "w_shutting_down (on_endpoint ep f w) = w_shutting_down w"
  "w_store (on_endpoint ep f w) = w_store w" "w_observing (on_endpoint ep f w) = w_observing w"
  "w_observed (on_endpoint ep f w) = w_observed w" "w_ids (on_endpoint ep f w) = w_ids w"
  "w_wall (on_endpoint ep f w) = w_wall w" "w_now (on_endpoint ep f w) = w_now w"
  "w_defaults (on_endpoint ep f w) = w_defaults w"
  "w_tasks (on_endpoint ep f w) = w_tasks w" "w_watch_heap (on_endpoint ep f w) = w_watch_heap w"
  "w_engines (on_endpoint ep f w) = w_engines w" "w_claims (on_endpoint ep f w) = w_claims w"
  by (simp_all add: on_endpoint_def)

lemma observe_fields [simp]:
  "w_registry (observe ts k w) = w_registry w" "w_cell_heap (observe ts k w) = w_cell_heap w"
  "w_endpoint_heap (observe ts k w) = w_endpoint_heap w"
  "w_shell_heap (observe ts k w) = w_shell_heap w"
  "w_service_heap (observe ts k w) = w_service_heap w" "w_next (observe ts k w) = w_next w"
  "w_cells (observe ts k w) = w_cells w" "w_es_state (observe ts k w) = w_es_state w"
  "w_projectors (observe ts k w) = w_projectors w" "w_services (observe ts k w) = w_services w"
  "w_replies (observe ts k w) = w_replies w" "w_ask_facts (observe ts k w) = w_ask_facts w"
  "w_genesis_args (observe ts k w) = w_genesis_args w"
  "w_dead_letters (observe ts k w) = w_dead_letters w" "w_specs (observe ts k w) = w_specs w"
  "w_failures (observe ts k w) = w_failures w" "w_caught_up (observe ts k w) = w_caught_up w"
  "w_shutting_down (observe ts k w) = w_shutting_down w" "w_store (observe ts k w) = w_store w"
  "w_observing (observe ts k w) = w_observing w" "w_ids (observe ts k w) = w_ids w"
  "w_wall (observe ts k w) = w_wall w" "w_now (observe ts k w) = w_now w"
  "w_defaults (observe ts k w) = w_defaults w"
  "w_tasks (observe ts k w) = w_tasks w" "w_watch_heap (observe ts k w) = w_watch_heap w"
  "w_engines (observe ts k w) = w_engines w" "w_claims (observe ts k w) = w_claims w"
  by (simp_all add: observe_def)

lemma observe_traced_fields [simp]:
  "w_registry (observe_traced tr k w) = w_registry w"
  "w_cell_heap (observe_traced tr k w) = w_cell_heap w"
  "w_endpoint_heap (observe_traced tr k w) = w_endpoint_heap w"
  "w_shell_heap (observe_traced tr k w) = w_shell_heap w"
  "w_service_heap (observe_traced tr k w) = w_service_heap w"
  "w_next (observe_traced tr k w) = w_next w" "w_cells (observe_traced tr k w) = w_cells w"
  "w_es_state (observe_traced tr k w) = w_es_state w"
  "w_projectors (observe_traced tr k w) = w_projectors w"
  "w_services (observe_traced tr k w) = w_services w"
  "w_replies (observe_traced tr k w) = w_replies w"
  "w_ask_facts (observe_traced tr k w) = w_ask_facts w"
  "w_genesis_args (observe_traced tr k w) = w_genesis_args w"
  "w_dead_letters (observe_traced tr k w) = w_dead_letters w"
  "w_specs (observe_traced tr k w) = w_specs w" "w_failures (observe_traced tr k w) = w_failures w"
  "w_caught_up (observe_traced tr k w) = w_caught_up w"
  "w_shutting_down (observe_traced tr k w) = w_shutting_down w"
  "w_store (observe_traced tr k w) = w_store w"
  "w_observing (observe_traced tr k w) = w_observing w" "w_ids (observe_traced tr k w) = w_ids w"
  "w_wall (observe_traced tr k w) = w_wall w" "w_now (observe_traced tr k w) = w_now w"
  "w_defaults (observe_traced tr k w) = w_defaults w"
  "w_tasks (observe_traced tr k w) = w_tasks w" "w_watch_heap (observe_traced tr k w) = w_watch_heap w"
  "w_engines (observe_traced tr k w) = w_engines w" "w_claims (observe_traced tr k w) = w_claims w"
  by (simp_all add: observe_traced_def)

lemma dead_letter_fields [simp]:
  "w_registry (dead_letter e reason detail w) = w_registry w"
  "w_cell_heap (dead_letter e reason detail w) = w_cell_heap w"
  "w_endpoint_heap (dead_letter e reason detail w) = w_endpoint_heap w"
  "w_shell_heap (dead_letter e reason detail w) = w_shell_heap w"
  "w_service_heap (dead_letter e reason detail w) = w_service_heap w"
  "w_next (dead_letter e reason detail w) = w_next w"
  "w_cells (dead_letter e reason detail w) = w_cells w"
  "w_es_state (dead_letter e reason detail w) = w_es_state w"
  "w_projectors (dead_letter e reason detail w) = w_projectors w"
  "w_services (dead_letter e reason detail w) = w_services w"
  "w_replies (dead_letter e reason detail w) = w_replies w"
  "w_ask_facts (dead_letter e reason detail w) = w_ask_facts w"
  "w_genesis_args (dead_letter e reason detail w) = w_genesis_args w"
  "w_specs (dead_letter e reason detail w) = w_specs w"
  "w_failures (dead_letter e reason detail w) = w_failures w"
  "w_caught_up (dead_letter e reason detail w) = w_caught_up w"
  "w_shutting_down (dead_letter e reason detail w) = w_shutting_down w"
  "w_store (dead_letter e reason detail w) = w_store w"
  "w_observing (dead_letter e reason detail w) = w_observing w"
  "w_ids (dead_letter e reason detail w) = w_ids w"
  "w_wall (dead_letter e reason detail w) = w_wall w"
  "w_now (dead_letter e reason detail w) = w_now w"
  "w_defaults (dead_letter e reason detail w) = w_defaults w"
  "w_tasks (dead_letter e reason detail w) = w_tasks w" "w_watch_heap (dead_letter e reason detail w) = w_watch_heap w"
  "w_engines (dead_letter e reason detail w) = w_engines w" "w_claims (dead_letter e reason detail w) = w_claims w"
  by (simp_all add: dead_letter_def)

lemma dead_letter_letters [simp]:
  "w_dead_letters (dead_letter e reason detail w) = w_dead_letters w @ [letter_of e reason detail]"
  by (simp add: dead_letter_def)

lemma new_trace_root_fields [simp]:
  "w_registry (snd (new_trace_root w)) = w_registry w"
  "w_cell_heap (snd (new_trace_root w)) = w_cell_heap w"
  "w_endpoint_heap (snd (new_trace_root w)) = w_endpoint_heap w"
  "w_shell_heap (snd (new_trace_root w)) = w_shell_heap w"
  "w_service_heap (snd (new_trace_root w)) = w_service_heap w"
  "w_next (snd (new_trace_root w)) = w_next w" "w_cells (snd (new_trace_root w)) = w_cells w"
  "w_es_state (snd (new_trace_root w)) = w_es_state w"
  "w_projectors (snd (new_trace_root w)) = w_projectors w"
  "w_services (snd (new_trace_root w)) = w_services w"
  "w_replies (snd (new_trace_root w)) = w_replies w"
  "w_ask_facts (snd (new_trace_root w)) = w_ask_facts w"
  "w_genesis_args (snd (new_trace_root w)) = w_genesis_args w"
  "w_dead_letters (snd (new_trace_root w)) = w_dead_letters w"
  "w_specs (snd (new_trace_root w)) = w_specs w"
  "w_failures (snd (new_trace_root w)) = w_failures w"
  "w_caught_up (snd (new_trace_root w)) = w_caught_up w"
  "w_shutting_down (snd (new_trace_root w)) = w_shutting_down w"
  "w_store (snd (new_trace_root w)) = w_store w"
  "w_observing (snd (new_trace_root w)) = w_observing w"
  "w_observed (snd (new_trace_root w)) = w_observed w" "w_wall (snd (new_trace_root w)) = w_wall w"
  "w_now (snd (new_trace_root w)) = w_now w" "w_defaults (snd (new_trace_root w)) = w_defaults w"
  "w_tasks (snd (new_trace_root w)) = w_tasks w" "w_watch_heap (snd (new_trace_root w)) = w_watch_heap w"
  "w_engines (snd (new_trace_root w)) = w_engines w" "w_claims (snd (new_trace_root w)) = w_claims w"
  by (simp_all add: new_trace_root_def split: prod.splits)

lemma new_id_fields [simp]:
  "w_registry (snd (new_id w)) = w_registry w" "w_cell_heap (snd (new_id w)) = w_cell_heap w"
  "w_endpoint_heap (snd (new_id w)) = w_endpoint_heap w"
  "w_shell_heap (snd (new_id w)) = w_shell_heap w"
  "w_service_heap (snd (new_id w)) = w_service_heap w" "w_next (snd (new_id w)) = w_next w"
  "w_cells (snd (new_id w)) = w_cells w" "w_es_state (snd (new_id w)) = w_es_state w"
  "w_projectors (snd (new_id w)) = w_projectors w" "w_services (snd (new_id w)) = w_services w"
  "w_replies (snd (new_id w)) = w_replies w" "w_ask_facts (snd (new_id w)) = w_ask_facts w"
  "w_genesis_args (snd (new_id w)) = w_genesis_args w"
  "w_dead_letters (snd (new_id w)) = w_dead_letters w" "w_specs (snd (new_id w)) = w_specs w"
  "w_failures (snd (new_id w)) = w_failures w" "w_caught_up (snd (new_id w)) = w_caught_up w"
  "w_shutting_down (snd (new_id w)) = w_shutting_down w" "w_store (snd (new_id w)) = w_store w"
  "w_observing (snd (new_id w)) = w_observing w" "w_observed (snd (new_id w)) = w_observed w"
  "w_wall (snd (new_id w)) = w_wall w" "w_now (snd (new_id w)) = w_now w"
  "w_defaults (snd (new_id w)) = w_defaults w"
  "w_tasks (snd (new_id w)) = w_tasks w" "w_watch_heap (snd (new_id w)) = w_watch_heap w"
  "w_engines (snd (new_id w)) = w_engines w" "w_claims (snd (new_id w)) = w_claims w"
  by (simp_all add: new_id_def split: prod.splits)

lemma with_inbox_Done:
  "f (ce_inbox (w_cell_heap w c)) = Done (a, ib) \<Longrightarrow>
   with_inbox c f w = (Done a, on_cell c (\<lambda>ce. ce\<lparr>ce_inbox := ib\<rparr>) w)"
  by (simp add: with_inbox_def)

lemma with_inbox_Panicked:
  "f (ce_inbox (w_cell_heap w c)) = Panicked m \<Longrightarrow> with_inbox c f w = (Panicked m, w)"
  by (simp add: with_inbox_def)

end
