(* ===== verification/Routing.thy ===== *)
theory Routing
  imports Kernel
begin

text \<open>
  Routing (\<open>src/src/kernel.rs\<close>): router rules, shard-key derivation and activation on demand, direct
  delivery with its backpressure latch, the front door with its holding of refused envelopes, the
  one-of route, the broadcast, replies, and the flush of a handler's outbox behind the emit gate.

  An async function is one step, as long as it does not park: a sender that waits for room on a
  front-door channel is its envelope's place in the queue, and a door task that holds an envelope is a
  state of the door (\<open>held\<close>).
\<close>

subsection \<open>Rules\<close>

definition rule_matches :: "rule \<Rightarrow> envelope \<Rightarrow> string \<Rightarrow> bool" where
  "rule_matches ru e dest \<longleftrightarrow>
     (case ru_source ru of None \<Rightarrow> True | Some src \<Rightarrow> en_from e = Some src) \<and>
     (case ru_schema ru of None \<Rightarrow> True | Some schema \<Rightarrow> en_schema e = schema) \<and>
     (case ru_dest ru of None \<Rightarrow> True | Some d \<Rightarrow> d = dest)"

fun rules_loop :: "rule list \<Rightarrow> envelope \<Rightarrow> string \<Rightarrow> (string \<times> trace_ctx) option \<times> string option" where
  "rules_loop [] e dest = (None, None)"
| "rules_loop (ru # rus) e dest =
     (if \<not> rule_matches ru e dest then rules_loop rus e dest
      else case ru_action ru of
             Tee observer \<Rightarrow> (Some (observer, en_trace e), None)
           | Inline interposer \<Rightarrow> (None, Some interposer))"

definition apply_rules :: "registry \<Rightarrow> envelope \<Rightarrow> string \<Rightarrow> (string \<times> trace_ctx) option \<times> string option" where
  "apply_rules r e dest = rules_loop (rg_rules r) e dest"

subsection \<open>Shard keys and activation\<close>

definition extract_key :: "serde \<Rightarrow> registry \<Rightarrow> envelope \<Rightarrow> string \<Rightarrow> string option" where
  "extract_key sd r e key_field =
     (case payload_field sd key_field (en_payload e) of
        Some (c # cs) \<Rightarrow> Some (c # cs)
      | _ \<Rightarrow>
          (let p = payload_json sd (en_payload e)
           in (case schema_of r (en_schema e) of
                 Some d \<Rightarrow> extract_shard_key sd d key_field p
               | None \<Rightarrow> (case json_get p key_field of None \<Rightarrow> None | Some v \<Rightarrow> json_as_str v))))"

text \<open>Results: \<open>Inl\<close> the envelope comes back, \<open>Inr None\<close> not a set, \<open>Inr (Some path)\<close> the member.\<close>

definition resolve_projector_set ::
  "('st, 'sv, 's) host \<Rightarrow> envelope \<Rightarrow> projector_set_spec option
   \<Rightarrow> (('st, 'sv, 's) world, envelope + string option) act" where
  "resolve_projector_set host e spec_opt w =
     (case spec_opt of
        None \<Rightarrow> (Done (Inr None), w)
      | Some spec \<Rightarrow>
          (case extract_key (ho_serde host) (w_registry w) e (pj_key_field spec) of
             None \<Rightarrow> (Done (Inl e), w)
           | Some key \<Rightarrow>
               (let path = pj_public spec @ ''/'' @ key
                in (case lookup path (w_registry w) of
                      Panicked m \<Rightarrow> (Panicked m, w)
                    | Done (Some _) \<Rightarrow> (Done (Inr (Some path)), w)
                    | Done None \<Rightarrow>
                        if w_shutting_down w then (Done (Inl e), w)
                        else
                          act_bind (ho_factory host (pj_factory spec) path (projector_entity_args spec key))
                            (\<lambda>_. act_bind
                              (act_do (\<lambda>w'. case map_of (w_cells w') path of
                                  None \<Rightarrow> w'
                                | Some c \<Rightarrow> on_cell c (\<lambda>ce. ce\<lparr>ce_passivation := so_passivation (pj_opts spec),
                                     ce_snapshot_policy := so_snapshot (pj_opts spec)\<rparr>) w'))
                              (\<lambda>_. act_ret (Inr (Some path)))) w))))"

definition resolve_partition ::
  "('st, 'sv, 's) host \<Rightarrow> envelope \<Rightarrow> string \<Rightarrow> partition_spec option \<Rightarrow> projector_set_spec option
   \<Rightarrow> (('st, 'sv, 's) world, envelope + string option) act" where
  "resolve_partition host e dest spec_opt projector_opt w =
     (case spec_opt of
        None \<Rightarrow> resolve_projector_set host e projector_opt w
      | Some spec \<Rightarrow>
          (case extract_key (ho_serde host) (w_registry w) e (pt_key_field spec) of
             None \<Rightarrow> (Done (Inl e), w)
           | Some key \<Rightarrow>
               (let path = dest @ ''/'' @ key
                in (case lookup path (w_registry w) of
                      Panicked m \<Rightarrow> (Panicked m, w)
                    | Done (Some _) \<Rightarrow> (Done (Inr (Some path)), w)
                    | Done None \<Rightarrow>
                        if w_shutting_down w then (Done (Inl e), w)
                        else act_bind (ho_factory host (pt_factory spec) path (partition_entity_args spec key))
                               (\<lambda>_. act_ret (Inr (Some path))) w))))"

subsection \<open>Delivery\<close>

definition deliver_with_retry ::
  "nat \<Rightarrow> envelope \<Rightarrow> ('st, 'sv, 's) world \<Rightarrow> (envelope + unit) \<times> ('st, 'sv, 's) world" where
  "deliver_with_retry ep e w =
     (case try_deliver e (w_endpoint_heap w ep) of
        (Inr _, ep') \<Rightarrow> (Inr (), on_endpoint ep (\<lambda>_. ep') w)
      | (Inl (DoorFull e'), ep') \<Rightarrow>
          (case deliver e' ep' of
             (Inr _, ep'') \<Rightarrow> (Inr (), on_endpoint ep (\<lambda>_. ep'') w)
           | (Inl _, ep'') \<Rightarrow> (Inl e', on_endpoint ep (\<lambda>_. ep'') w))
      | (Inl (DoorClosed e'), ep') \<Rightarrow> (Inl e', on_endpoint ep (\<lambda>_. ep') w))"

text \<open>The backpressure latch: fire on the up-crossing, re-arm at or below the mark.\<close>

definition watermark_latch :: "'st actor_cell \<Rightarrow> nat option \<times> 'st actor_cell" where
  "watermark_latch c =
     (if ce_has_watermark c then
        (let depth = inbox_len (ce_inbox c); mark = ce_watermark_high c
         in if depth > mark \<and> \<not> ce_watermark_fired c then (Some depth, c\<lparr>ce_watermark_fired := True\<rparr>)
            else (None, if depth \<le> mark then c\<lparr>ce_watermark_fired := False\<rparr> else c))
      else (None, c))"

definition fire_watermark ::
  "nat \<Rightarrow> trace_ctx \<Rightarrow> nat option \<Rightarrow> ('st, 'sv, 's) world \<Rightarrow> ('st, 'sv, 's) world" where
  "fire_watermark c tr fire w =
     (case fire of
        None \<Rightarrow> w
      | Some depth \<Rightarrow> observe_traced tr (ObBackpressured (ce_path (w_cell_heap w c)) depth) w)"

definition latch_cell ::
  "nat \<Rightarrow> ('st, 'sv, 's) world \<Rightarrow> nat option \<times> ('st, 'sv, 's) world" where
  "latch_cell c w =
     (let (fire, ce) = watermark_latch (w_cell_heap w c) in (fire, on_cell c (\<lambda>_. ce) w))"

definition letter_evicted :: "envelope option \<Rightarrow> ('st, 'sv, 's) world \<Rightarrow> ('st, 'sv, 's) world" where
  "letter_evicted ev w =
     (case ev of None \<Rightarrow> w | Some old \<Rightarrow> dead_letter old DlInboxRefused ''inbox evicted oldest (DropOld)'' w)"

text \<open>What a successful direct push does after it has the inbox's answer.\<close>

definition pushed_directly ::
  "nat \<Rightarrow> trace_ctx \<Rightarrow> envelope option \<Rightarrow> ('st, 'sv, 's) world \<Rightarrow> ('st, 'sv, 's) world" where
  "pushed_directly c tr evicted w =
     (let (fire, w1) = latch_cell c w;
          w2 = fire_watermark c tr fire w1
      in on_cell c notify_work (letter_evicted evicted w2))"

definition direct_push ::
  "nat \<Rightarrow> envelope \<Rightarrow> trace_ctx \<Rightarrow> (('st, 'sv, 's) world, envelope + unit) act" where
  "direct_push ep e tr w =
     (let c = ep_cell (w_endpoint_heap w ep)
      in act_bind (with_inbox c (inbox_push e))
           (\<lambda>r. case r of
              Inr _ \<Rightarrow> (\<lambda>w'. (Done (Inr ()), pushed_directly c tr None w'))
            | Inl refused \<Rightarrow>
                if refused_queued_anyway refused
                then (\<lambda>w'. (Done (Inr ()), pushed_directly c tr (Some (refused_into_envelope refused)) w'))
                else act_ret (Inl (refused_into_envelope refused))) w)"

subsection \<open>Routing one envelope\<close>

definition deliver_tee ::
  "envelope \<Rightarrow> (string \<times> trace_ctx) option \<Rightarrow> ('st, 'sv, 's) world \<Rightarrow> envelope \<times> ('st, 'sv, 's) world" where
  "deliver_tee e tee w =
     (case tee of
        None \<Rightarrow> (e, w)
      | Some (tee_dest, origin) \<Rightarrow>
          (let (cause, w1) = new_id w;
               e' = e\<lparr>en_payload := make_shared (en_payload e)\<rparr>;
               copy = envelope_from (case en_from e' of None \<Rightarrow> ''anonymous'' | Some f \<Rightarrow> f)
                        (shared_from (en_schema e') (APath tee_dest) e' (origin\<lparr>tr_causality := cause\<rparr>))
           in (case resolve tee_dest (w_registry w) of
                 None \<Rightarrow> (e', w1)
               | Some ep \<Rightarrow>
                   (e', observe_traced origin (ObSent (en_from e') (APath tee_dest) (en_schema e') origin)
                          (snd (deliver_with_retry ep copy w1))))))"

definition observe_sent :: "envelope \<Rightarrow> address \<Rightarrow> ('st, 'sv, 's) world \<Rightarrow> ('st, 'sv, 's) world" where
  "observe_sent e dest w =
     observe_traced (en_trace e) (ObSent (en_from e) dest (en_schema e) (en_trace e)) w"

text \<open>The delivery of the primary: direct, then the door, then once more after a new resolution.\<close>

definition deliver_primary ::
  "('st, 'sv, 's) host \<Rightarrow> envelope \<Rightarrow> string \<Rightarrow> nat \<Rightarrow> partition_spec option \<Rightarrow> projector_set_spec option
   \<Rightarrow> (('st, 'sv, 's) world, envelope + string) act" where
  "deliver_primary host e path ep spec projector =
     act_bind (direct_push ep e (en_trace e))
       (\<lambda>r. case r of
          Inr _ \<Rightarrow> (\<lambda>w. (Done (Inr path), observe_sent e (APath path) w))
        | Inl refused \<Rightarrow>
            (\<lambda>w. case deliver_with_retry ep refused w of
               (Inr _, w1) \<Rightarrow> (Done (Inr path), observe_sent e (APath path) w1)
             | (Inl _, w1) \<Rightarrow>
                 act_bind (resolve_partition host refused path spec projector)
                   (\<lambda>again. (\<lambda>w2.
                      (let retry_path = (case again of Inr (Some entity) \<Rightarrow> entity | _ \<Rightarrow> path)
                       in (case resolve retry_path (w_registry w2) of
                             None \<Rightarrow> (Done (Inl refused), w2)
                           | Some retry_ep \<Rightarrow>
                               (case deliver_with_retry retry_ep refused w2 of
                                  (Inl back, w3) \<Rightarrow> (Done (Inl back), w3)
                                | (Inr _, w3) \<Rightarrow> (Done (Inr retry_path), w3)))))) w1))"

definition route_path ::
  "('st, 'sv, 's) host \<Rightarrow> envelope \<Rightarrow> string \<Rightarrow> (('st, 'sv, 's) world, envelope + string) act" where
  "route_path host e dest w =
     (let r = w_registry w;
          (tee, primary) = apply_rules r e dest;
          spec = map_of (rg_partitions r) dest;
          projector = (case map_of (rg_projector_sets r) dest of
                         Some s \<Rightarrow> Some s
                       | None \<Rightarrow> projector_set_owning dest r);
          path = (case primary of None \<Rightarrow> dest | Some p \<Rightarrow> p);
          fast = (if spec = None \<and> projector = None then resolve path r else None);
          (e', w1) = deliver_tee e tee w
      in act_bind (resolve_partition host e' path spec projector)
           (\<lambda>member. case member of
              Inl missing \<Rightarrow>
                (\<lambda>w2. (Done (Inr path),
                   dead_letter missing DlShardKeyMissing ''partition command without its shard key'' w2))
            | Inr entity \<Rightarrow>
                (\<lambda>w2. let path' = (case entity of None \<Rightarrow> path | Some p \<Rightarrow> p)
                  in (case (case fast of Some ep \<Rightarrow> Some ep | None \<Rightarrow> resolve path' (w_registry w2)) of
                        None \<Rightarrow> (Done (Inl e'), w2)
                      | Some ep \<Rightarrow> deliver_primary host e' path' ep spec projector w2))) w1)"

definition route_one_of ::
  "envelope \<Rightarrow> string \<Rightarrow> (('st, 'sv, 's) world, envelope + string) act" where
  "route_one_of e schema w =
     (let ((target, ep), r') = route_resolved schema (w_registry w);
          w1 = w\<lparr>w_registry := r'\<rparr>
      in (case (target, ep) of
            (Some path, Some ep_id) \<Rightarrow>
              (case deliver_with_retry ep_id e w1 of
                 (Inl back, w2) \<Rightarrow> (Done (Inl back), w2)
               | (Inr _, w2) \<Rightarrow>
                   (Done (Inr path),
                    observe_traced (en_trace e) (ObSent (en_from e) (ASchema schema) schema (en_trace e)) w2))
          | _ \<Rightarrow> (Done (Inl e), w1)))"

definition route ::
  "('st, 'sv, 's) host \<Rightarrow> envelope \<Rightarrow> (('st, 'sv, 's) world, envelope + string) act" where
  "route host e w =
     (if w_shutting_down w
      then (Done (Inl e), dead_letter e DlShuttingDown ''graceful shutdown sweep in progress'' w)
      else case en_dest e of
             APath path \<Rightarrow> route_path host e path w
           | ASlot lease \<Rightarrow> (Done (Inl e), w)
           | ASchema schema \<Rightarrow> route_one_of e schema w)"

text \<open>A routed send whose failure is dead-lettered by the caller.\<close>

definition route_or_letter ::
  "('st, 'sv, 's) host \<Rightarrow> envelope \<Rightarrow> string \<Rightarrow> (('st, 'sv, 's) world, unit) act" where
  "route_or_letter host e detail =
     act_bind (route host e)
       (\<lambda>r. case r of
          Inr _ \<Rightarrow> act_ret ()
        | Inl back \<Rightarrow> act_do (dead_letter back DlUnresolvable detail))"

subsection \<open>Broadcast\<close>

text \<open>The plain fan-out: every handler with an endpoint that is not a projector-set member.\<close>

definition broadcast_targets :: "registry \<Rightarrow> string \<Rightarrow> (string \<times> nat) list" where
  "broadcast_targets r schema =
     filter (\<lambda>(path, ep). projector_set_owning path r = None)
       (List.map_filter (\<lambda>path. map_option (\<lambda>ep. (path, ep)) (resolve path r)) (handlers_of schema r))"

definition broadcast_one :: "envelope \<Rightarrow> string \<times> nat \<Rightarrow> (('st, 'sv, 's) world, unit) act" where
  "broadcast_one e target =
     act_bind (direct_push (snd target) e (en_trace e))
       (\<lambda>r. case r of
          Inr _ \<Rightarrow> act_ret ()
        | Inl refused \<Rightarrow> act_do (\<lambda>w. snd (deliver_with_retry (snd target) refused w)))"

definition broadcast_set ::
  "('st, 'sv, 's) host \<Rightarrow> envelope \<Rightarrow> (string \<times> nat) list \<Rightarrow> projector_set_spec
   \<Rightarrow> (('st, 'sv, 's) world, unit) act" where
  "broadcast_set host e targets spec w =
     (case extract_key (ho_serde host) (w_registry w) e (pj_key_field spec) of
        None \<Rightarrow>
          (Done (), dead_letter e DlShardKeyMissing
             ''broadcast fact for a projector set arrived without its key'' w)
      | Some key \<Rightarrow>
          (let derived = pj_public spec @ ''/'' @ key
           in if en_from e = Some derived then (Done (), w)
              else if (case en_from e of None \<Rightarrow> False | Some f \<Rightarrow> projector_set_owning f (w_registry w) \<noteq> None)
              then (Done (), w)
              else if list_ex (\<lambda>(path, ep). path = derived) targets then (Done (), w)
              else route_or_letter host (e\<lparr>en_dest := APath derived\<rparr>)
                     ''projector copy did not resolve after activation'' w))"

definition broadcast ::
  "('st, 'sv, 's) host \<Rightarrow> string \<Rightarrow> envelope \<Rightarrow> (('st, 'sv, 's) world, unit) act" where
  "broadcast host schema e w =
     (let e' = e\<lparr>en_payload := make_shared (en_payload e)\<rparr>;
          targets = broadcast_targets (w_registry w) schema;
          w1 = observe_traced (en_trace e') (ObSent (en_from e') (ASchema schema) schema (en_trace e')) w
      in act_bind (act_each (broadcast_one e') targets)
           (\<lambda>_ w2. act_each (broadcast_set host e' targets) (projector_sets_consuming schema (w_registry w2)) w2) w1)"

subsection \<open>Replies and the flush of an outbox\<close>

definition resolve_reply ::
  "('st, 'sv, 's) host \<Rightarrow> address \<Rightarrow> string \<Rightarrow> payload \<Rightarrow> trace_ctx \<Rightarrow> (('st, 'sv, 's) world, unit) act" where
  "resolve_reply host to schema p tr =
     (case to of
        ASlot lease \<Rightarrow> act_do (\<lambda>w. w\<lparr>w_replies := snd (reply_complete lease p (w_replies w))\<rparr>)
      | ASchema s \<Rightarrow> route_or_letter host (envelope_raw schema to p tr) ''reply destination unresolved''
      | APath path \<Rightarrow> route_or_letter host (envelope_raw schema (APath path) p tr) ''reply destination unresolved'')"

definition self_addressed :: "string \<Rightarrow> intent \<Rightarrow> bool" where
  "self_addressed path i = (case i of ISend e \<Rightarrow> en_dest e = APath path | _ \<Rightarrow> False)"

definition undeclared_intent :: "string \<Rightarrow> string list \<Rightarrow> intent \<Rightarrow> bool" where
  "undeclared_intent path emits i \<longleftrightarrow>
     \<not> self_addressed path i \<and>
     (case emitted_schema i of None \<Rightarrow> False | Some schema \<Rightarrow> schema \<notin> set emits)"

definition dropped_envelope :: "intent \<Rightarrow> string \<Rightarrow> envelope option" where
  "dropped_envelope i schema =
     (case i of
        ISend e \<Rightarrow> Some e
      | IBroadcast e \<Rightarrow> Some e
      | IReply to _ p tr \<Rightarrow> Some (envelope_raw schema to (to_shared p) tr)
      | IStopSelf \<Rightarrow> None)"

definition dead_letter_schema :: "intent \<Rightarrow> ('st, 'sv, 's) world \<Rightarrow> ('st, 'sv, 's) world" where
  "dead_letter_schema i w =
     (case emitted_schema i of
        None \<Rightarrow> w
      | Some schema \<Rightarrow>
          (case dropped_envelope i schema of
             None \<Rightarrow> w
           | Some e \<Rightarrow>
               dead_letter e DlUndeclaredEmit ''undeclared emit (add .emits::<M>() at the spawn site)'' w))"

definition perform_intent :: "('st, 'sv, 's) host \<Rightarrow> intent \<Rightarrow> (('st, 'sv, 's) world, unit) act" where
  "perform_intent host i =
     (case i of
        ISend e \<Rightarrow> route_or_letter host e ''destination unresolved''
      | IBroadcast e \<Rightarrow> broadcast host (en_schema e) e
      | IReply to schema p tr \<Rightarrow> resolve_reply host to schema p tr
      | IStopSelf \<Rightarrow> act_ret ())"

text \<open>The answer says whether the outbox carried a stop.\<close>

definition flush_outbox ::
  "('st, 'sv, 's) host \<Rightarrow> es_loop \<Rightarrow> outbox \<Rightarrow> (('st, 'sv, 's) world, bool) act" where
  "flush_outbox host lp ob w =
     (let emits = ce_declared_emits (w_cell_heap w (lo_cell lp));
          undeclared = filter (undeclared_intent (lo_path lp) emits) ob;
          declared = filter (\<lambda>i. \<not> undeclared_intent (lo_path lp) emits i) ob;
          w1 = fold dead_letter_schema undeclared w
      in act_bind (act_each (perform_intent host) declared)
           (\<lambda>_. act_ret (IStopSelf \<in> set declared)) w1)"

subsection \<open>The front door\<close>

definition block_hold_max_parks :: nat where
  "block_hold_max_parks = 10000"

text \<open>One attempt of \<open>push_holding_block\<close>: accepted, dead-lettered, or to be held.\<close>

datatype push_attempt = PushAccepted | PushLettered | PushHeld envelope nat

definition attempt_push :: "nat \<Rightarrow> envelope \<Rightarrow> nat \<Rightarrow> (('st, 'sv, 's) world, push_attempt) act" where
  "attempt_push c e parks =
     act_bind (with_inbox c (inbox_push e))
       (\<lambda>r w. case r of
          Inr _ \<Rightarrow> (Done PushAccepted, w)
        | Inl refusal \<Rightarrow>
            (let holds = (case refusal of RefFull _ \<Rightarrow> True | _ \<Rightarrow> False) \<and>
                         ce_mailbox_policy (w_cell_heap w c) = Block
             in if \<not> holds \<or> parks \<ge> block_hold_max_parks then
                  (let detail = (if parks \<ge> block_hold_max_parks
                                 then ''inbox still full after the space-notify hold cap''
                                 else if refused_queued_anyway refusal then ''inbox evicted oldest (DropOld)''
                                 else ''inbox refused (overload/closed)'')
                   in (Done PushLettered, dead_letter (refused_into_envelope refusal) DlInboxRefused detail w))
                else (Done (PushHeld (refused_into_envelope refusal) (parks + 1)), w)))"

text \<open>What the door does with the answer: hold, or check the watermark and wake the loop.\<close>

definition door_after ::
  "nat \<Rightarrow> trace_ctx \<Rightarrow> push_attempt \<Rightarrow> ('st, 'sv, 's) world \<Rightarrow> door \<times> ('st, 'sv, 's) world" where
  "door_after c tr answer w =
     (case answer of
        PushHeld e parks \<Rightarrow> (DoorHolding e parks, w)
      | _ \<Rightarrow>
          (let (fire, w1) = latch_cell c w;
               w2 = fire_watermark c tr fire w1
           in (DoorReady, if answer = PushAccepted then on_cell c notify_work w2 else w2)))"

definition door_try ::
  "nat \<Rightarrow> envelope \<Rightarrow> nat \<Rightarrow> (('st, 'sv, 's) world, door) act" where
  "door_try c e parks =
     act_bind (attempt_push c e parks)
       (\<lambda>answer w. let (d, w') = door_after c (en_trace e) answer w in (Done d, w'))"

text \<open>
  One step of \<open>front_door_loop\<close>: a ready door takes the head of the channel; a holding door waits for
  the cell's space permit.
\<close>

definition door_step :: "nat \<Rightarrow> door \<Rightarrow> (('st, 'sv, 's) world, door) act" where
  "door_step ep d w =
     (let c = ep_cell (w_endpoint_heap w ep)
      in case d of
           DoorReady \<Rightarrow>
             (case ep_queue (w_endpoint_heap w ep) of
                [] \<Rightarrow> (Done DoorReady, w)
              | e # q \<Rightarrow>
                  door_try c e 0 (on_endpoint ep (\<lambda>x. note_channel_drain (x\<lparr>ep_queue := q\<rparr>)) w))
         | DoorHolding e parks \<Rightarrow>
             if ce_space_available (w_cell_heap w c)
             then door_try c e parks (on_cell c (\<lambda>ce. ce\<lparr>ce_space_available := False\<rparr>) w)
             else (Done d, w))"

end
