(* ===== verification/Steps.thy ===== *)
theory Steps
  imports Routing
begin

text \<open>
  The steps of the actor loops (\<open>src/src/kernel.rs\<close>): the claim guard, the atomic step of an
  event-sourced actor with its fan-out and snapshots, and the step of a service actor.

  A panic outside the caught regions ends the loop task: \<open>Panicked\<close>, with the world as the unwinding
  left it.  The clock and the wall clock stand still during a step.
\<close>

datatype step = StWork | StIdle | StCrashed | StStop

subsection \<open>The claim guard\<close>

type_synonym claims = "(nat \<times> envelope) list"

text \<open>Dropping the guard with an uncommitted tail: restored, or dead-lettered under a stopping cell.\<close>

definition guard_drop :: "nat \<Rightarrow> claims \<Rightarrow> (('st, 'sv, 's) world, unit) act" where
  "guard_drop c tail w =
     (if tail = [] then (Done (), w)
      else if ce_stopping (w_cell_heap w c)
      then (Done (), w\<lparr>w_dead_letters := w_dead_letters w @
              map (\<lambda>(off, e). letter_of e DlStoppedWithMail ''stopped with an in-flight claim (un-committed)'') tail\<rparr>)
      else act_bind (with_inbox c (inbox_restore_claims tail))
             (\<lambda>freed. act_do (\<lambda>w'. if freed then on_cell c notify_space w' else w')) w)"

text \<open>A region that holds the guard: a panic drops it on the way out.\<close>

definition guarded ::
  "nat \<Rightarrow> claims \<Rightarrow> (('st, 'sv, 's) world, 'a) act \<Rightarrow> (('st, 'sv, 's) world, 'a) act" where
  "guarded c tail m w =
     (case m w of
        (Done a, w') \<Rightarrow> (Done a, w')
      | (Panicked s, w') \<Rightarrow> (Panicked s, snd (guard_drop c tail w')))"

text \<open>Committing offsets under one lock; the answer is whether any popped an entry.\<close>

fun commit_run :: "nat list \<Rightarrow> envelope inbox \<Rightarrow> (bool \<times> envelope inbox) outcome" where
  "commit_run [] ib = Done (False, ib)"
| "commit_run (off # offs) ib =
     bind_outcome (inbox_commit_through off ib)
       (\<lambda>(popped, ib'). map_outcome (\<lambda>(freed, ib''). (popped \<or> freed, ib'')) (commit_run offs ib'))"

definition commit_offsets :: "nat \<Rightarrow> nat list \<Rightarrow> (('st, 'sv, 's) world, unit) act" where
  "commit_offsets c offs =
     act_bind (with_inbox c (commit_run offs))
       (\<lambda>freed. act_do (\<lambda>w. if freed then on_cell c notify_space w else w))"

subsection \<open>Deciding a batch\<close>

datatype decided = Decided "event list" "outbox list" | DecidePanicked envelope

definition decode_detail :: "string \<Rightarrow> string" where
  "decode_detail schema = ''Decode(\"command '' @ schema @ '' did not match its schema\")''"

definition find_entry :: "'st command_entry list \<Rightarrow> string \<Rightarrow> 'st command_entry option" where
  "find_entry entries schema = List.find (\<lambda>en. entry_schema en = schema) entries"

text \<open>
  The decide pass: no append, no commit, no state change; the events of all messages go into one
  buffer.  A command context records no effects, so the outbox of each message is empty.
\<close>

fun decide_loop ::
  "serde \<Rightarrow> string \<Rightarrow> 'st command_entry list \<Rightarrow> 'st es_shell \<Rightarrow> claims \<Rightarrow> event list \<Rightarrow> outbox list
   \<Rightarrow> ('st, 'sv, 's) world \<Rightarrow> decided \<times> ('st, 'sv, 's) world" where
  "decide_loop sd path entries shell [] evs obs w = (Decided evs obs, w)"
| "decide_loop sd path entries shell ((off, e) # cs) evs obs w =
     (case find_entry entries (en_schema e) of
        None \<Rightarrow>
          decide_loop sd path entries shell cs evs (obs @ [[]])
            (dead_letter e DlUnknownSchema ''no entry for this schema'' w)
      | Some en \<Rightarrow>
          (case dispatch sd en shell (en_payload e) (cmd_ctx_of w path) of
             Panicked m \<Rightarrow> (DecidePanicked e, w)
           | Done (Inl err) \<Rightarrow>
               decide_loop sd path entries shell cs evs (obs @ [[]])
                 (dead_letter e DlDecode (decode_detail (en_schema e)) w)
           | Done (Inr events) \<Rightarrow> decide_loop sd path entries shell cs (evs @ events) (obs @ [[]]) w))"

definition loop_state :: "es_loop \<Rightarrow> nat outcome" where
  "loop_state lp =
     (case lo_state lp of None \<Rightarrow> Panicked ''es state cached for a running ES loop'' | Some i \<Rightarrow> Done i)"

definition observe_claims ::
  "(envelope \<Rightarrow> observation_kind) \<Rightarrow> claims \<Rightarrow> ('st, 'sv, 's) world \<Rightarrow> ('st, 'sv, 's) world" where
  "observe_claims k cs w = fold (\<lambda>(off, e). observe_traced (en_trace e) (k e)) cs w"

text \<open>The emit filter: undeclared events are dead-lettered under a fresh root trace each.\<close>

definition letter_undeclared :: "string \<Rightarrow> event \<Rightarrow> ('st, 'sv, 's) world \<Rightarrow> ('st, 'sv, 's) world" where
  "letter_undeclared path ev w =
     (let (tr, w1) = new_trace_root w;
          dropped = envelope_from path
            (envelope_raw (ev_schema ev) (APath path) (make_shared (ev_payload ev)) tr)
      in dead_letter dropped DlUndeclaredEvent ''emitted undeclared schema (dropped before journal append)'' w1)"

definition share_event :: "event \<Rightarrow> event" where
  "share_event ev = ev\<lparr>ev_payload := make_shared (ev_payload ev)\<rparr>"

definition emit_filter ::
  "es_loop \<Rightarrow> event list \<Rightarrow> ('st, 'sv, 's) world \<Rightarrow> event list \<times> ('st, 'sv, 's) world" where
  "emit_filter lp evs w =
     (let emits = ce_declared_emits (w_cell_heap w (lo_cell lp))
      in (map share_event (filter (\<lambda>ev. ev_schema ev \<in> set emits) evs),
          fold (letter_undeclared (lo_path lp)) (filter (\<lambda>ev. ev_schema ev \<notin> set emits) evs) w))"

subsection \<open>Appending\<close>

definition all_same_origin :: "claims \<Rightarrow> recorded_origin option" where
  "all_same_origin cs =
     (case List.map_filter (\<lambda>(off, e). en_origin e) cs of
        [] \<Rightarrow> None
      | f # os \<Rightarrow>
          if list_all (\<lambda>o'. ro_journal o' = ro_journal f \<and> ro_seq o' = ro_seq f) os \<and>
             length cs = length (f # os)
          then Some f else None)"

datatype append_result = AppendedAs "seq_no list" | AlreadyHeld | AppendFailed

definition checkpoint_copies :: "recorded_origin \<Rightarrow> event list \<Rightarrow> scanned_event list" where
  "checkpoint_copies origin evs =
     map (\<lambda>ev. \<lparr>sc_journal = ro_journal origin, sc_seq = ro_seq origin, sc_ingest = 0, sc_event = ev\<rparr>) evs"

definition append_batch ::
  "'s store_ops \<Rightarrow> string \<Rightarrow> claims \<Rightarrow> event list \<Rightarrow> ('st, 'sv, 's) world \<Rightarrow> append_result \<times> ('st, 'sv, 's) world" where
  "append_batch jo path cs evs w =
     (if evs = [] then (AppendedAs [], w)
      else case all_same_origin cs of
             Some origin \<Rightarrow>
               (case jo_append_catchup jo path (checkpoint_copies origin evs) (w_store w) of
                  (Inl err, s) \<Rightarrow> (AppendFailed, w\<lparr>w_store := s\<rparr>)
                | (Inr results, s) \<Rightarrow>
                    (if list_all (\<lambda>slot. slot \<noteq> None) results
                     then AppendedAs (map (\<lambda>_. seq_genesis) evs) else AlreadyHeld, w\<lparr>w_store := s\<rparr>))
           | None \<Rightarrow>
               (case jo_append jo path evs (w_store w) of
                  (Inl err, s) \<Rightarrow> (AppendFailed, w\<lparr>w_store := s\<rparr>)
                | (Inr seqs, s) \<Rightarrow> (AppendedAs seqs, w\<lparr>w_store := s\<rparr>)))"

subsection \<open>Applying, fan-out\<close>

definition put_shell :: "nat \<Rightarrow> 'st es_shell \<Rightarrow> ('st, 'sv, 's) world \<Rightarrow> ('st, 'sv, 's) world" where
  "put_shell i sh w = w\<lparr>w_shell_heap := (w_shell_heap w)(i := (w_shell_heap w i)\<lparr>dy_shell := sh\<rparr>)\<rparr>"

text \<open>The fold in place; a panicking fold leaves the state after the last event that returned.\<close>

definition apply_in_place :: "nat \<Rightarrow> event \<Rightarrow> (('st, 'sv, 's) world, unit) act" where
  "apply_in_place i ev w =
     (case apply_erased (dy_code (w_shell_heap w i)) ev (dy_shell (w_shell_heap w i)) of
        Panicked m \<Rightarrow> (Panicked m, w)
      | Done sh \<Rightarrow> (Done (), put_shell i sh w))"

definition fan_out_one ::
  "('st, 'sv, 's) host \<Rightarrow> string \<Rightarrow> trace_ctx \<Rightarrow> event \<times> seq_no \<Rightarrow> (('st, 'sv, 's) world, unit) act" where
  "fan_out_one host path cause es =
     broadcast host (ev_schema (fst es))
       (with_recorded_origin path (snd es)
         (envelope_from path
           (envelope_raw (ev_schema (fst es)) (ASchema (ev_schema (fst es))) (ev_payload (fst es)) cause)))"

definition fan_out_emits ::
  "('st, 'sv, 's) host \<Rightarrow> string \<Rightarrow> event list \<Rightarrow> seq_no list \<Rightarrow> (('st, 'sv, 's) world, unit) act" where
  "fan_out_emits host path evs seqs w =
     (let (cause, w1) = new_trace_root w in act_each (fan_out_one host path cause) (zip evs seqs) w1)"

fun flush_all ::
  "('st, 'sv, 's) host \<Rightarrow> es_loop \<Rightarrow> outbox list \<Rightarrow> (('st, 'sv, 's) world, bool) act" where
  "flush_all host lp [] = act_ret False"
| "flush_all host lp (ob # obs) =
     act_bind (flush_outbox host lp ob) (\<lambda>stop. if stop then act_ret True else flush_all host lp obs)"

subsection \<open>Snapshots\<close>

definition snapshot_now :: "('st, 'sv, 's) host \<Rightarrow> es_loop \<Rightarrow> seq_no \<Rightarrow> (('st, 'sv, 's) world, unit) act" where
  "snapshot_now host lp seq =
     act_bind (act_of (\<lambda>w. bind_outcome (loop_state lp)
         (\<lambda>i. capture_erased (dy_code (w_shell_heap w i)) (dy_shell (w_shell_heap w i)))))
       (\<lambda>captured. act_do (\<lambda>w. case captured of
          Inl err \<Rightarrow> w
        | Inr blob \<Rightarrow>
            (case jo_append_snapshot (ho_store host) (lo_path lp) seq blob (as_millis (w_now w)) (w_store w) of
               (Inl err, s) \<Rightarrow> w\<lparr>w_store := s\<rparr>
             | (Inr _, s) \<Rightarrow>
                 observe (w_now w) (ObSnapshotTaken (lo_path lp) seq)
                   (on_cell (lo_cell lp) (\<lambda>ce. ce\<lparr>ce_snapshot_anchor_ms := as_millis (w_now w)\<rparr>)
                     (w\<lparr>w_store := s\<rparr>)))))"

text \<open>The boundaries the loop of \<open>maybe_snapshot\<close> visits, from \<open>b\<close> on.\<close>

function boundaries :: "nat \<Rightarrow> nat \<Rightarrow> nat \<Rightarrow> nat list" where
  "boundaries n last_seq b =
     b # (if n = 0 \<or> b + n > last_seq then [] else boundaries n last_seq (b + n))"
  by pat_completeness auto
termination by (relation "measure (\<lambda>(n, last_seq, b). Suc last_seq - b)") auto

definition div_ceil :: "nat \<Rightarrow> nat \<Rightarrow> nat" where
  "div_ceil a n = (a + n - 1) div n"

definition snapshot_points :: "nat \<Rightarrow> seq_no list \<Rightarrow> seq_no list" where
  "snapshot_points n seqs =
     (if n = 0 \<or> seqs = [] then []
      else if last seqs + 1 - hd seqs < n then []
      else boundaries n (last seqs) (div_ceil (hd seqs + 1) n * n - 1))"

definition maybe_snapshot ::
  "('st, 'sv, 's) host \<Rightarrow> es_loop \<Rightarrow> seq_no list \<Rightarrow> (('st, 'sv, 's) world, unit) act" where
  "maybe_snapshot host lp seqs w =
     (case ce_snapshot_policy (w_cell_heap w (lo_cell lp)) of
        CadenceMessages n \<Rightarrow> act_each (snapshot_now host lp) (snapshot_points n seqs) w
      | _ \<Rightarrow> (Done (), w))"

definition maybe_snapshot_on_idle :: "('st, 'sv, 's) host \<Rightarrow> es_loop \<Rightarrow> (('st, 'sv, 's) world, unit) act" where
  "maybe_snapshot_on_idle host lp w =
     (let ce = w_cell_heap w (lo_cell lp)
      in case ce_snapshot_policy ce of
           CadenceTime interval \<Rightarrow>
             if ce_snapshot_anchor_ms ce = cell_sentinel \<or> ce_last_event_seq ce = cell_sentinel then (Done (), w)
             else if as_millis (w_now w) - ce_snapshot_anchor_ms ce < dur_as_millis_u64 interval then (Done (), w)
             else snapshot_now host lp (ce_last_event_seq ce) w
         | _ \<Rightarrow> (Done (), w))"

subsection \<open>The atomic step\<close>

text \<open>Everything before the commit point, holding the claim guard.\<close>

datatype before_commit =
    BcPanicked | BcAppendFailed | BcHeld | BcAppended "event list" "seq_no list" "outbox list"

definition decide_and_append ::
  "('st, 'sv, 's) host \<Rightarrow> es_loop \<Rightarrow> claims \<Rightarrow> (('st, 'sv, 's) world, before_commit) act" where
  "decide_and_append host lp cs w =
     (case loop_state lp of
        Panicked m \<Rightarrow> (Panicked m, w)
      | Done i \<Rightarrow>
          (case decide_loop (ho_serde host) (lo_path lp) (ce_entries (w_cell_heap w (lo_cell lp)))
                  (dy_shell (w_shell_heap w i)) cs [] [] w of
             (DecidePanicked e, w1) \<Rightarrow>
               (Done BcPanicked,
                observe_traced (en_trace e) (ObFailed (lo_path lp) ''handler panic'')
                  (on_cell (lo_cell lp) mark_crashed w1))
           | (Decided evs obs, w1) \<Rightarrow>
               (let (declared, w2) = emit_filter lp evs w1
                in (case append_batch (ho_store host) (lo_path lp) cs declared w2 of
                      (AppendFailed, w3) \<Rightarrow> (Done BcAppendFailed, on_cell (lo_cell lp) mark_crashed w3)
                    | (AlreadyHeld, w3) \<Rightarrow> (Done BcHeld, w3)
                    | (AppendedAs seqs, w3) \<Rightarrow> (Done (BcAppended declared seqs obs), w3)))))"

text \<open>From the commit on: bookkeeping, apply, flush, fan-out, snapshot.\<close>

definition record_last_seq :: "nat \<Rightarrow> seq_no list \<Rightarrow> ('st, 'sv, 's) world \<Rightarrow> ('st, 'sv, 's) world" where
  "record_last_seq c seqs w =
     (if seqs = [] then w else on_cell c (\<lambda>ce. ce\<lparr>ce_last_event_seq := last seqs\<rparr>) w)"

definition apply_batch :: "es_loop \<Rightarrow> event list \<Rightarrow> (('st, 'sv, 's) world, unit) act" where
  "apply_batch lp evs w =
     (if evs = [] then (Done (), w)
      else case loop_state lp of
             Panicked m \<Rightarrow> (Panicked m, w)
           | Done i \<Rightarrow> act_each (apply_in_place i) evs w)"

definition after_commit ::
  "('st, 'sv, 's) host \<Rightarrow> es_loop \<Rightarrow> claims \<Rightarrow> event list \<Rightarrow> seq_no list \<Rightarrow> outbox list
   \<Rightarrow> (('st, 'sv, 's) world, step) act" where
  "after_commit host lp cs evs seqs obs =
     act_bind (act_do (\<lambda>w. observe_claims (\<lambda>e. ObAcked (lo_path lp) (en_schema e) (en_trace e)) cs
                 (record_last_seq (lo_cell lp) seqs w)))
       (\<lambda>_. act_bind (apply_batch lp evs)
         (\<lambda>_. act_bind (flush_all host lp obs)
           (\<lambda>stop. act_bind (if lo_is_projector lp then act_ret () else fan_out_emits host (lo_path lp) evs seqs)
             (\<lambda>_. act_bind (maybe_snapshot host lp seqs)
               (\<lambda>_. act_ret (if stop then StStop else StWork))))))"

definition finish_step ::
  "('st, 'sv, 's) host \<Rightarrow> es_loop \<Rightarrow> claims \<Rightarrow> before_commit \<Rightarrow> (('st, 'sv, 's) world, step) act" where
  "finish_step host lp cs r =
     (case r of
        BcPanicked \<Rightarrow> act_bind (guard_drop (lo_cell lp) cs) (\<lambda>_. act_ret StCrashed)
      | BcAppendFailed \<Rightarrow> act_bind (guard_drop (lo_cell lp) cs) (\<lambda>_. act_ret StCrashed)
      | BcHeld \<Rightarrow>
          act_bind (guarded (lo_cell lp) cs (commit_offsets (lo_cell lp) (map fst cs))) (\<lambda>_. act_ret StWork)
      | BcAppended evs seqs obs \<Rightarrow>
          act_bind (guarded (lo_cell lp) cs (commit_offsets (lo_cell lp) (map fst cs)))
            (\<lambda>_. after_commit host lp cs evs seqs obs))"

definition step_claimed ::
  "('st, 'sv, 's) host \<Rightarrow> es_loop \<Rightarrow> claims \<Rightarrow> (('st, 'sv, 's) world, step) act" where
  "step_claimed host lp cs =
     act_bind (act_do (observe_claims (\<lambda>e. ObDelivered (lo_path lp) (en_schema e) (en_trace e)) cs))
       (\<lambda>_. act_bind (guarded (lo_cell lp) cs (decide_and_append host lp cs)) (finish_step host lp cs))"

definition step_es :: "('st, 'sv, 's) host \<Rightarrow> es_loop \<Rightarrow> (('st, 'sv, 's) world, step) act" where
  "step_es host lp w =
     act_bind (with_inbox (lo_cell lp) (inbox_claim_up_to (ce_step_batch (w_cell_heap w (lo_cell lp)))))
       (\<lambda>cs. if cs = [] then act_ret StIdle else step_claimed host lp cs) w"

subsection \<open>The service step\<close>

definition put_service :: "nat \<Rightarrow> 'sv \<Rightarrow> ('st, 'sv, 's) world \<Rightarrow> ('st, 'sv, 's) world" where
  "put_service i sv w = w\<lparr>w_service_heap := (w_service_heap w)(i := sv)\<rparr>"

text \<open>
  One message after its commit: find the entry, dispatch, then flush its own outbox.  The answer is
  \<open>None\<close> when the batch goes on.
\<close>

definition serve_one ::
  "('st, 'sv, 's) host \<Rightarrow> es_loop \<Rightarrow> nat \<Rightarrow> (string \<times> nat) list \<Rightarrow> envelope
   \<Rightarrow> (('st, 'sv, 's) world, step option) act" where
  "serve_one host lp i entries e w =
     (case map_of entries (en_schema e) of
        None \<Rightarrow> (Done None, dead_letter e DlUnknownSchema ''no entry for this schema'' w)
      | Some adapter \<Rightarrow>
          (let view = \<lparr>mv_path = lo_path lp, mv_trace = en_trace e, mv_reply_to = en_reply_to e\<rparr>;
               (answer, ob, sv, w') = ho_dispatch host adapter (en_payload e) view (w_service_heap w i) w;
               w1 = put_service i sv w'
           in case answer of
                MsgPanic \<Rightarrow> (Done (Some StCrashed), on_cell (lo_cell lp) mark_crashed w1)
              | MsgDecode report \<Rightarrow>
                  act_bind (flush_outbox host lp ob) (\<lambda>stop. act_ret (if stop then Some StStop else None))
                    (dead_letter e DlDecode report w1)
              | MsgOk \<Rightarrow>
                  act_bind (flush_outbox host lp ob) (\<lambda>stop. act_ret (if stop then Some StStop else None)) w1))"

fun serve_loop ::
  "('st, 'sv, 's) host \<Rightarrow> es_loop \<Rightarrow> nat \<Rightarrow> (string \<times> nat) list \<Rightarrow> claims
   \<Rightarrow> (('st, 'sv, 's) world, step) act" where
  "serve_loop host lp i entries [] = act_ret StWork"
| "serve_loop host lp i entries ((off, e) # cs) =
     act_bind (guarded (lo_cell lp) ((off, e) # cs) (commit_offsets (lo_cell lp) [off]))
       (\<lambda>_. act_bind (act_do (observe_traced (en_trace e) (ObDelivered (lo_path lp) (en_schema e) (en_trace e))))
         (\<lambda>_. act_bind (guarded (lo_cell lp) cs (serve_one host lp i entries e))
           (\<lambda>r. case r of
              None \<Rightarrow> serve_loop host lp i entries cs
            | Some st \<Rightarrow> act_bind (guard_drop (lo_cell lp) cs) (\<lambda>_. act_ret st))))"

definition step_service :: "('st, 'sv, 's) host \<Rightarrow> es_loop \<Rightarrow> (('st, 'sv, 's) world, step) act" where
  "step_service host lp w =
     act_bind (with_inbox (lo_cell lp) (inbox_claim_up_to (ce_step_batch (w_cell_heap w (lo_cell lp)))))
       (\<lambda>cs. if cs = [] then act_ret StIdle
             else (\<lambda>w'. case map_of (w_services w') (lo_path lp) of
                    None \<Rightarrow> (Panicked ''service present for a running loop'', snd (guard_drop (lo_cell lp) cs w'))
                  | Some i \<Rightarrow> serve_loop host lp i (ce_msg_entries (w_cell_heap w' (lo_cell lp))) cs w')) w"

end
