(* ===== verification/Frames.thy ===== *)
theory Frames
  imports Steps
begin

text \<open>
  Framing: what the routing of envelopes, the flush of an outbox, the fan-out and the snapshots leave
  alone.  A preorder on worlds that the elementary writes of routing respect is respected by everything
  built on them, as long as the host's factories respect it; the locale proves that once.
\<close>

definition act_rel :: "('w \<Rightarrow> 'w \<Rightarrow> bool) \<Rightarrow> ('w, 'a) act \<Rightarrow> bool" where
  "act_rel R m \<longleftrightarrow> (\<forall>w. R w (snd (m w)))"

lemma act_relD: "act_rel R m \<Longrightarrow> R w (snd (m w))"
  by (simp add: act_rel_def)

lemma act_relI: "(\<And>w. R w (snd (m w))) \<Longrightarrow> act_rel R m"
  by (simp add: act_rel_def)

lemma try_deliver_cell: "try_deliver e ep = (r, ep') \<Longrightarrow> ep_cell ep' = ep_cell ep"
  by (auto simp: try_deliver_def note_channel_accept_def split: if_splits)

lemma deliver_cell: "deliver e ep = (r, ep') \<Longrightarrow> ep_cell ep' = ep_cell ep"
  by (auto simp: deliver_def note_channel_accept_def split: if_splits)

lemma route_resolved_cursor:
  "route_resolved schema r = (x, r') \<Longrightarrow> \<exists>k. r' = r\<lparr>rg_route_cursor := k\<rparr>"
  by (rule exI [of _ "rg_route_cursor r'"])
    (auto simp: route_resolved_def route_schema_def Let_def split: option.splits prod.splits if_splits)

locale routing_frame =
  fixes R :: "('st, 'sv, 's) world \<Rightarrow> ('st, 'sv, 's) world \<Rightarrow> bool"
  assumes R_refl: "R w w"
    and R_trans: "R w w1 \<Longrightarrow> R w1 w2 \<Longrightarrow> R w w2"
    and R_observe: "R w (observe ts k w)"
    and R_letters: "R w (w\<lparr>w_dead_letters := ls\<rparr>)"
    and R_ids: "R w (w\<lparr>w_ids := g\<rparr>)"
    and R_cursor: "R w (w\<lparr>w_registry := (w_registry w)\<lparr>rg_route_cursor := n\<rparr>\<rparr>)"
    and R_replies: "R w (w\<lparr>w_replies := rt\<rparr>)"
    and R_endpoint: "ep_cell x = ep_cell (w_endpoint_heap w ep) \<Longrightarrow> R w (on_endpoint ep (\<lambda>_. x) w)"
    and R_policy: "R w (on_cell c (\<lambda>ce. ce\<lparr>ce_passivation := p, ce_snapshot_policy := s\<rparr>) w)"
    and R_push: "R w (snd (direct_push ep e tr w))"
begin

lemma rel_ret: "act_rel R (act_ret a)"
  by (simp add: act_rel_def act_ret_def R_refl)

lemma rel_do: "(\<And>w. R w (g w)) \<Longrightarrow> act_rel R (act_do g)"
  by (simp add: act_rel_def act_do_def)

lemma rel_bind:
  assumes "act_rel R m" "\<And>a. act_rel R (g a)"
  shows "act_rel R (act_bind m g)"
proof (rule act_relI)
  fix w :: "('st, 'sv, 's) world"
  obtain r w' where w': "m w = (r, w')" by (cases "m w")
  have "R w w'" using act_relD [OF assms(1), of w] w' by simp
  then show "R w (snd (act_bind m g w))"
    using act_relD [OF assms(2), of w'] R_trans w' by (cases r) (auto simp: act_bind_def)
qed

lemma rel_bind_value:
  assumes "act_rel R m" "\<And>w a w'. m w = (Done a, w') \<Longrightarrow> act_rel R (g a)"
  shows "act_rel R (act_bind m g)"
proof (rule act_relI)
  fix w :: "('st, 'sv, 's) world"
  obtain r w' where w': "m w = (r, w')" by (cases "m w")
  have "R w w'" using act_relD [OF assms(1), of w] w' by simp
  then show "R w (snd (act_bind m g w))"
    using act_relD [OF assms(2), of w _ w' w'] R_trans w' by (cases r) (auto simp: act_bind_def)
qed

lemma rel_each: "(\<And>b. act_rel R (f b)) \<Longrightarrow> act_rel R (act_each f bs)"
  by (induction bs) (auto intro: rel_ret rel_bind)

lemma R_traced: "R w (observe_traced tr k w)"
  by (simp add: observe_traced_def R_observe)

lemma R_dead_letter: "R w (dead_letter e reason detail w)"
  unfolding dead_letter_def by (rule R_trans [OF R_letters R_traced])

lemma R_new_id: "R w (snd (new_id w))"
  by (simp add: new_id_def R_ids split: prod.splits)

lemma R_new_trace_root: "R w (snd (new_trace_root w))"
  by (simp add: new_trace_root_def R_ids split: prod.splits)

lemma R_deliver: "R w (snd (deliver_with_retry ep e w))"
  unfolding deliver_with_retry_def
  by (auto intro!: R_endpoint dest!: try_deliver_cell deliver_cell split: prod.split sum.split front_door_refused.split)

lemma R_tee: "R w (snd (deliver_tee e tee w))"
proof (cases tee)
  case None
  then show ?thesis by (simp add: deliver_tee_def R_refl)
next
  case (Some t)
  obtain d origin where t: "t = (d, origin)" by (cases t)
  obtain i w1 where i: "new_id w = (i, w1)" by (cases "new_id w")
  have w1: "R w w1" using R_new_id [of w] i by simp
  have w2: "R w (observe_traced origin k (snd (deliver_with_retry ep e' w1)))" for k ep e'
    by (rule R_trans [OF w1 R_trans [OF R_deliver R_traced]])
  show ?thesis
    using Some t i w1 w2 by (simp add: deliver_tee_def Let_def split: option.split)
qed

lemma R_fold: "(\<And>x w. R w (f x w)) \<Longrightarrow> R w (fold f xs w)"
proof (induction xs arbitrary: w)
  case (Cons x xs)
  then show ?case using R_trans [of w "f x w" "fold f xs (f x w)"] by simp
qed (simp add: R_refl)

lemma rel_push: "act_rel R (direct_push ep e tr)"
  by (rule act_relI) (rule R_push)

lemma rel_after:
  assumes "R w w1" "act_rel R m"
  shows "R w (snd (m w1))"
  by (rule R_trans [OF assms(1) act_relD [OF assms(2)]])

lemma rel_projector_set:
  assumes fac: "\<And>f p a. act_rel R (ho_factory host f p a)"
  shows "act_rel R (resolve_projector_set host e spec)"
proof (rule act_relI)
  fix w :: "('st, 'sv, 's) world"
  have act: "act_rel R (act_bind (ho_factory host f p a)
      (\<lambda>_. act_bind (act_do (\<lambda>w'. case map_of (w_cells w') path of None \<Rightarrow> w'
          | Some c \<Rightarrow> on_cell c (\<lambda>ce. ce\<lparr>ce_passivation := pa, ce_snapshot_policy := sp\<rparr>) w'))
        (\<lambda>_. act_ret (Inr (Some path)))))" for f p a path pa sp
    by (intro rel_bind fac rel_do rel_ret) (simp add: R_refl R_policy split: option.split)
  show "R w (snd (resolve_projector_set host e spec w))"
    by (simp add: resolve_projector_set_def Let_def R_refl act_relD [OF act] split: option.split outcome.split)
qed

lemma rel_partition:
  assumes fac: "\<And>f p a. act_rel R (ho_factory host f p a)"
  shows "act_rel R (resolve_partition host e dest spec projector)"
proof (rule act_relI)
  fix w :: "('st, 'sv, 's) world"
  have act: "act_rel R (act_bind (ho_factory host f p a) (\<lambda>_. act_ret x))"
    for f p a and x :: "envelope + string option"
    by (intro rel_bind fac rel_ret)
  show "R w (snd (resolve_partition host e dest spec projector w))"
    by (simp add: resolve_partition_def Let_def R_refl act_relD [OF act] act_relD [OF rel_projector_set [OF fac]]
        split: option.split outcome.split)
qed

lemma R_sent: "R w (observe_sent e dest w)"
  by (simp add: observe_sent_def R_traced)

lemma R_back: "deliver_with_retry ep e w = (r, w') \<Longrightarrow> R w w'"
  using R_deliver [of w ep e] by simp

lemma rel_primary:
  assumes fac: "\<And>f p a. act_rel R (ho_factory host f p a)"
  shows "act_rel R (deliver_primary host e path ep spec projector)"
proof -
  have retry: "act_rel R (\<lambda>w2. let retry_path = (case again of Inr (Some entity) \<Rightarrow> entity | _ \<Rightarrow> path)
         in (case resolve retry_path (w_registry w2) of
               None \<Rightarrow> (Done (Inl refused), w2)
             | Some retry_ep \<Rightarrow>
                 (case deliver_with_retry retry_ep refused w2 of
                    (Inl back, w3) \<Rightarrow> (Done (Inl back), w3)
                  | (Inr _, w3) \<Rightarrow> (Done (Inr retry_path), w3))))" for again refused
    by (rule act_relI) (simp add: Let_def R_refl R_back split: option.split prod.split sum.split)
  have refusal: "act_rel R (\<lambda>w. case deliver_with_retry ep refused w of
         (Inr _, w1) \<Rightarrow> (Done (Inr path), observe_sent e (APath path) w1)
       | (Inl _, w1) \<Rightarrow>
           act_bind (resolve_partition host refused path spec projector)
             (\<lambda>again w2. let retry_path = (case again of Inr (Some entity) \<Rightarrow> entity | _ \<Rightarrow> path)
                in (case resolve retry_path (w_registry w2) of
                      None \<Rightarrow> (Done (Inl refused), w2)
                    | Some retry_ep \<Rightarrow>
                        (case deliver_with_retry retry_ep refused w2 of
                           (Inl back, w3) \<Rightarrow> (Done (Inl back), w3)
                         | (Inr _, w3) \<Rightarrow> (Done (Inr retry_path), w3)))) w1)" for refused
  proof (rule act_relI, goal_cases)
    case (1 w)
    obtain r w1 where d: "deliver_with_retry ep refused w = (r, w1)" by (cases "deliver_with_retry ep refused w")
    have w1: "R w w1" using R_back [OF d] .
    show ?case
      using R_trans [OF w1 R_sent] rel_after [OF w1 rel_bind [OF rel_partition [OF fac] retry]]
      by (cases r) (simp_all add: d)
  qed
  show ?thesis
    unfolding deliver_primary_def
    by (intro rel_bind rel_push) (auto intro!: act_relI refusal [THEN act_relD] R_sent split: sum.split)
qed

lemma rel_route_path:
  assumes fac: "\<And>f p a. act_rel R (ho_factory host f p a)"
  shows "act_rel R (route_path host e dest)"
proof (rule act_relI)
  fix w :: "('st, 'sv, 's) world"
  obtain tee primary where rules: "apply_rules (w_registry w) e dest = (tee, primary)"
    by (cases "apply_rules (w_registry w) e dest")
  obtain e' w1 where t: "deliver_tee e tee w = (e', w1)" by (cases "deliver_tee e tee w")
  have w1: "R w w1" using R_tee [of w e tee] t by simp
  show "R w (snd (route_path host e dest w))"
    unfolding route_path_def Let_def rules prod.case t
    by (intro rel_after [OF w1] rel_bind rel_partition fac act_relI)
      (auto simp: R_dead_letter R_refl act_relD [OF rel_primary [OF fac]] split: sum.split option.split)
qed

lemma rel_route_one_of: "act_rel R (route_one_of e schema)"
proof (rule act_relI)
  fix w :: "('st, 'sv, 's) world"
  obtain target ep r' where rr: "route_resolved schema (w_registry w) = ((target, ep), r')"
    by (metis prod.exhaust)
  have R_registry: "R w (w\<lparr>w_registry := r'\<rparr>)" using route_resolved_cursor [OF rr] R_cursor by auto
  have "R w (snd (case deliver_with_retry i e (w\<lparr>w_registry := r'\<rparr>) of
      (Inl back, w2) \<Rightarrow> (Done (Inl back), w2)
    | (Inr _, w2) \<Rightarrow> (Done (Inr path), observe_traced (en_trace e)
        (ObSent (en_from e) (ASchema schema) schema (en_trace e)) w2)))" for i path
  proof -
    obtain r w2 where d: "deliver_with_retry i e (w\<lparr>w_registry := r'\<rparr>) = (r, w2)"
      by (cases "deliver_with_retry i e (w\<lparr>w_registry := r'\<rparr>)")
    have w2: "R w w2" by (rule R_trans [OF R_registry R_back [OF d]])
    show ?thesis using w2 R_trans [OF w2 R_traced] by (cases r) (simp_all add: d)
  qed
  then show "R w (snd (route_one_of e schema w))"
    unfolding route_one_of_def rr Let_def prod.case
    by (cases target; cases ep) (simp_all add: R_registry)
qed

lemma rel_route:
  assumes fac: "\<And>f p a. act_rel R (ho_factory host f p a)"
  shows "act_rel R (route host e)"
  by (rule act_relI)
    (simp add: route_def R_dead_letter R_refl act_relD [OF rel_route_path [OF fac]] act_relD [OF rel_route_one_of]
      split: address.split)

lemma rel_route_or_letter:
  assumes fac: "\<And>f p a. act_rel R (ho_factory host f p a)"
  shows "act_rel R (route_or_letter host e detail)"
  unfolding route_or_letter_def
  by (intro rel_bind rel_route fac) (auto intro: rel_ret rel_do R_dead_letter split: sum.split)

lemma rel_broadcast_one: "act_rel R (broadcast_one e t)"
proof -
  have "R w (snd (deliver_with_retry ep refused w))" for w ep refused by (rule R_deliver)
  then show ?thesis
    unfolding broadcast_one_def by (intro rel_bind rel_push) (auto intro: rel_ret rel_do split: sum.split)
qed

lemma rel_broadcast_set:
  assumes fac: "\<And>f p a. act_rel R (ho_factory host f p a)"
  shows "act_rel R (broadcast_set host e targets spec)"
  by (rule act_relI)
    (simp add: broadcast_set_def Let_def R_dead_letter R_refl act_relD [OF rel_route_or_letter [OF fac]]
      split: option.split)

lemma rel_broadcast:
  assumes fac: "\<And>f p a. act_rel R (ho_factory host f p a)"
  shows "act_rel R (broadcast host schema e)"
proof (rule act_relI)
  fix w :: "('st, 'sv, 's) world"
  have sets: "act_rel R (\<lambda>w2. act_each (broadcast_set host e' targets) (specs w2) w2)" for e' targets specs
    by (rule act_relI) (rule act_relD [OF rel_each [OF rel_broadcast_set [OF fac]]])
  show "R w (snd (broadcast host schema e w))"
    unfolding broadcast_def Let_def
    by (rule rel_after [OF R_traced rel_bind [OF rel_each [OF rel_broadcast_one] sets]])
qed

lemma rel_resolve_reply:
  assumes fac: "\<And>f p a. act_rel R (ho_factory host f p a)"
  shows "act_rel R (resolve_reply host to schema p tr)"
  unfolding resolve_reply_def
  by (cases to) (simp_all add: rel_do R_replies rel_route_or_letter fac)

lemma rel_perform:
  assumes fac: "\<And>f p a. act_rel R (ho_factory host f p a)"
  shows "act_rel R (perform_intent host i)"
  unfolding perform_intent_def
  by (cases i) (simp_all add: rel_route_or_letter rel_broadcast rel_resolve_reply rel_ret fac)

lemma R_letter_schema: "R w (dead_letter_schema i w)"
  by (simp add: dead_letter_schema_def R_refl R_dead_letter split: option.split)

lemma rel_flush:
  assumes fac: "\<And>f p a. act_rel R (ho_factory host f p a)"
  shows "act_rel R (flush_outbox host lp ob)"
  by (rule act_relI, unfold flush_outbox_def Let_def,
      rule rel_after [OF R_fold [OF R_letter_schema] rel_bind [OF rel_each [OF rel_perform [OF fac]] rel_ret]])

lemma rel_flush_all:
  assumes fac: "\<And>f p a. act_rel R (ho_factory host f p a)"
  shows "act_rel R (flush_all host lp obs)"
proof (induction obs)
  case Nil
  then show ?case by (simp add: rel_ret)
next
  case (Cons ob obs)
  show ?case
    unfolding flush_all.simps by (intro rel_bind rel_flush fac) (simp add: rel_ret Cons.IH)
qed

lemma rel_fan_out:
  assumes fac: "\<And>f p a. act_rel R (ho_factory host f p a)"
  shows "act_rel R (fan_out_emits host path evs seqs)"
proof (rule act_relI)
  fix w :: "('st, 'sv, 's) world"
  obtain cause w1 where c: "new_trace_root w = (cause, w1)" by (cases "new_trace_root w")
  have w1: "R w w1" using R_new_trace_root [of w] c by simp
  have one: "act_rel R (fan_out_one host path cause es)" for es
    unfolding fan_out_one_def by (rule rel_broadcast [OF fac])
  show "R w (snd (fan_out_emits host path evs seqs w))"
    unfolding fan_out_emits_def c Let_def prod.case by (rule rel_after [OF w1 rel_each [OF one]])
qed

lemma R_letter_undeclared: "R w (letter_undeclared path ev w)"
proof -
  obtain tr w1 where c: "new_trace_root w = (tr, w1)" by (cases "new_trace_root w")
  have w1: "R w w1" using R_new_trace_root [of w] c by simp
  show ?thesis unfolding letter_undeclared_def c Let_def prod.case by (rule R_trans [OF w1 R_dead_letter])
qed

lemma R_emit_filter: "R w (snd (emit_filter lp evs w))"
  by (simp add: emit_filter_def Let_def R_fold R_letter_undeclared)

lemma R_observe_claims: "R w (observe_claims k cs w)"
  unfolding observe_claims_def by (rule R_fold) (simp add: R_traced split: prod.split)

lemma R_decide: "R w (snd (decide_loop sd path entries shell cs evs obs w))"
proof (induction cs arbitrary: evs obs w)
  case Nil
  then show ?case by (simp add: R_refl)
next
  case (Cons c cs)
  obtain off e where c: "c = (off, e)" by (cases c)
  have *: "R w (snd (decide_loop sd path entries shell cs evs' obs' (dead_letter e reason detail w)))"
    for evs' obs' reason detail
    by (rule R_trans [OF R_dead_letter Cons.IH])
  show ?case
    unfolding c decide_loop.simps
    by (simp add: * Cons.IH R_refl split: option.split outcome.split sum.split)
qed

end

subsection \<open>What a direct push changes\<close>

lemma latch_cell_heap:
  "w_cell_heap (snd (latch_cell c w)) = (w_cell_heap w)(c := snd (watermark_latch (w_cell_heap w c)))"
  by (simp add: latch_cell_def split: prod.splits)

lemma watermark_latch_cell:
  "\<exists>b. snd (watermark_latch ce) = ce\<lparr>ce_watermark_fired := b\<rparr>"
  by (rule exI [of _ "if ce_has_watermark ce
        then if ce_watermark_high ce < inbox_len (ce_inbox ce) \<and> \<not> ce_watermark_fired ce then True
             else if inbox_len (ce_inbox ce) \<le> ce_watermark_high ce then False else ce_watermark_fired ce
        else ce_watermark_fired ce"]) (simp add: watermark_latch_def Let_def)

lemma latch_cell_fields [simp]:
  "w_registry (snd (latch_cell c w)) = w_registry w" "w_store (snd (latch_cell c w)) = w_store w"
  "w_shell_heap (snd (latch_cell c w)) = w_shell_heap w"
  "w_service_heap (snd (latch_cell c w)) = w_service_heap w"
  "w_cells (snd (latch_cell c w)) = w_cells w" "w_es_state (snd (latch_cell c w)) = w_es_state w"
  "w_services (snd (latch_cell c w)) = w_services w"
  "w_next (snd (latch_cell c w)) = w_next w" "w_tasks (snd (latch_cell c w)) = w_tasks w"
  "w_endpoint_heap (snd (latch_cell c w)) = w_endpoint_heap w"
  "w_shutting_down (snd (latch_cell c w)) = w_shutting_down w"
  "w_replies (snd (latch_cell c w)) = w_replies w" "w_now (snd (latch_cell c w)) = w_now w"
  "w_genesis_args (snd (latch_cell c w)) = w_genesis_args w"
  "w_observing (snd (latch_cell c w)) = w_observing w" "w_ids (snd (latch_cell c w)) = w_ids w"
  "w_wall (snd (latch_cell c w)) = w_wall w" "w_projectors (snd (latch_cell c w)) = w_projectors w"
  "w_specs (snd (latch_cell c w)) = w_specs w"
  "w_dead_letters (snd (latch_cell c w)) = w_dead_letters w"
  "w_observed (snd (latch_cell c w)) = w_observed w"
  by (simp_all add: latch_cell_def split: prod.splits)

lemma fire_watermark_fields [simp]:
  "w_registry (fire_watermark c tr f w) = w_registry w"
  "w_store (fire_watermark c tr f w) = w_store w"
  "w_shell_heap (fire_watermark c tr f w) = w_shell_heap w"
  "w_service_heap (fire_watermark c tr f w) = w_service_heap w"
  "w_cells (fire_watermark c tr f w) = w_cells w"
  "w_es_state (fire_watermark c tr f w) = w_es_state w"
  "w_services (fire_watermark c tr f w) = w_services w"
  "w_next (fire_watermark c tr f w) = w_next w" "w_tasks (fire_watermark c tr f w) = w_tasks w"
  "w_endpoint_heap (fire_watermark c tr f w) = w_endpoint_heap w"
  "w_shutting_down (fire_watermark c tr f w) = w_shutting_down w"
  "w_replies (fire_watermark c tr f w) = w_replies w" "w_now (fire_watermark c tr f w) = w_now w"
  "w_genesis_args (fire_watermark c tr f w) = w_genesis_args w"
  "w_observing (fire_watermark c tr f w) = w_observing w"
  "w_ids (fire_watermark c tr f w) = w_ids w" "w_wall (fire_watermark c tr f w) = w_wall w"
  "w_projectors (fire_watermark c tr f w) = w_projectors w"
  "w_specs (fire_watermark c tr f w) = w_specs w"
  "w_dead_letters (fire_watermark c tr f w) = w_dead_letters w"
  "w_cell_heap (fire_watermark c tr f w) = w_cell_heap w"
  by (simp_all add: fire_watermark_def split: option.split)

lemma pushed_directly_alt:
  "pushed_directly c tr ev w =
     on_cell c notify_work (letter_evicted ev (fire_watermark c tr (fst (latch_cell c w)) (snd (latch_cell c w))))"
  by (simp add: pushed_directly_def Let_def case_prod_beta)

lemma letter_evicted_fields [simp]:
  "w_registry (letter_evicted ev w) = w_registry w" "w_store (letter_evicted ev w) = w_store w"
  "w_shell_heap (letter_evicted ev w) = w_shell_heap w"
  "w_service_heap (letter_evicted ev w) = w_service_heap w"
  "w_cells (letter_evicted ev w) = w_cells w" "w_es_state (letter_evicted ev w) = w_es_state w"
  "w_services (letter_evicted ev w) = w_services w"
  "w_next (letter_evicted ev w) = w_next w" "w_tasks (letter_evicted ev w) = w_tasks w"
  "w_endpoint_heap (letter_evicted ev w) = w_endpoint_heap w"
  "w_shutting_down (letter_evicted ev w) = w_shutting_down w"
  "w_replies (letter_evicted ev w) = w_replies w" "w_now (letter_evicted ev w) = w_now w"
  "w_genesis_args (letter_evicted ev w) = w_genesis_args w"
  "w_observing (letter_evicted ev w) = w_observing w" "w_ids (letter_evicted ev w) = w_ids w"
  "w_wall (letter_evicted ev w) = w_wall w" "w_projectors (letter_evicted ev w) = w_projectors w"
  "w_specs (letter_evicted ev w) = w_specs w" "w_cell_heap (letter_evicted ev w) = w_cell_heap w"
  by (simp_all add: letter_evicted_def split: option.split)

lemma pushed_directly_fields [simp]:
  "w_registry (pushed_directly c tr ev w) = w_registry w"
  "w_store (pushed_directly c tr ev w) = w_store w"
  "w_shell_heap (pushed_directly c tr ev w) = w_shell_heap w"
  "w_service_heap (pushed_directly c tr ev w) = w_service_heap w"
  "w_cells (pushed_directly c tr ev w) = w_cells w"
  "w_es_state (pushed_directly c tr ev w) = w_es_state w"
  "w_services (pushed_directly c tr ev w) = w_services w"
  "w_next (pushed_directly c tr ev w) = w_next w" "w_tasks (pushed_directly c tr ev w) = w_tasks w"
  "w_endpoint_heap (pushed_directly c tr ev w) = w_endpoint_heap w"
  "w_shutting_down (pushed_directly c tr ev w) = w_shutting_down w"
  "w_replies (pushed_directly c tr ev w) = w_replies w"
  "w_now (pushed_directly c tr ev w) = w_now w"
  "w_genesis_args (pushed_directly c tr ev w) = w_genesis_args w"
  "w_observing (pushed_directly c tr ev w) = w_observing w"
  "w_ids (pushed_directly c tr ev w) = w_ids w" "w_wall (pushed_directly c tr ev w) = w_wall w"
  "w_projectors (pushed_directly c tr ev w) = w_projectors w"
  "w_specs (pushed_directly c tr ev w) = w_specs w"
  by (simp_all add: pushed_directly_alt)

lemma pushed_directly_heap:
  "\<exists>b. w_cell_heap (pushed_directly c tr ev w) =
     (w_cell_heap w)(c := (w_cell_heap w c)\<lparr>ce_watermark_fired := b, ce_work := True\<rparr>)"
proof -
  obtain b where b: "snd (watermark_latch (w_cell_heap w c)) = (w_cell_heap w c)\<lparr>ce_watermark_fired := b\<rparr>"
    using watermark_latch_cell by blast
  have "w_cell_heap (pushed_directly c tr ev w) =
      (w_cell_heap w)(c := notify_work (snd (watermark_latch (w_cell_heap w c))))"
    by (simp add: pushed_directly_alt latch_cell_heap)
  with b show ?thesis by (auto simp: notify_work_def)
qed

lemma pushed_directly_letters:
  "w_dead_letters (pushed_directly c tr ev w) = w_dead_letters w @
     (case ev of None \<Rightarrow> [] | Some old \<Rightarrow> [letter_of old DlInboxRefused ''inbox evicted oldest (DropOld)''])"
  by (simp add: pushed_directly_alt letter_evicted_def split: option.split)

text \<open>The four answers of a direct push.\<close>

lemma direct_push_cases:
  assumes "c = ep_cell (w_endpoint_heap w ep)"
  obtains (panicked) m where "inbox_push e (ce_inbox (w_cell_heap w c)) = Panicked m"
      "direct_push ep e tr w = (Panicked m, w)"
  | (queued) off ib where "inbox_push e (ce_inbox (w_cell_heap w c)) = Done (Inr off, ib)"
      "direct_push ep e tr w =
        (Done (Inr ()), pushed_directly c tr None (on_cell c (\<lambda>ce. ce\<lparr>ce_inbox := ib\<rparr>) w))"
  | (evicted) r ib where "inbox_push e (ce_inbox (w_cell_heap w c)) = Done (Inl r, ib)" "refused_queued_anyway r"
      "direct_push ep e tr w =
        (Done (Inr ()), pushed_directly c tr (Some (refused_into_envelope r)) (on_cell c (\<lambda>ce. ce\<lparr>ce_inbox := ib\<rparr>) w))"
  | (refused) r ib where "inbox_push e (ce_inbox (w_cell_heap w c)) = Done (Inl r, ib)" "\<not> refused_queued_anyway r"
      "direct_push ep e tr w =
        (Done (Inl (refused_into_envelope r)), on_cell c (\<lambda>ce. ce\<lparr>ce_inbox := ib\<rparr>) w)"
proof (cases "inbox_push e (ce_inbox (w_cell_heap w c))")
  case (Done x)
  obtain r ib where x: "x = (r, ib)" by (cases x)
  have wi: "with_inbox c (inbox_push e) w = (Done r, on_cell c (\<lambda>ce. ce\<lparr>ce_inbox := ib\<rparr>) w)"
    using Done x by (simp add: with_inbox_Done)
  have dp: "direct_push ep e tr w =
      (case r of
         Inr _ \<Rightarrow> (\<lambda>w'. (Done (Inr ()), pushed_directly c tr None w'))
       | Inl refused \<Rightarrow>
           if refused_queued_anyway refused
           then (\<lambda>w'. (Done (Inr ()), pushed_directly c tr (Some (refused_into_envelope refused)) w'))
           else act_ret (Inl (refused_into_envelope refused)))
        (on_cell c (\<lambda>ce. ce\<lparr>ce_inbox := ib\<rparr>) w)"
    by (simp only: direct_push_def Let_def assms [symmetric] act_bind_def wi prod.case outcome.case)
  show ?thesis
  proof (cases r)
    case (Inl rf)
    then show ?thesis
      using Done x dp evicted refused
      by (cases "refused_queued_anyway rf") (auto simp: act_ret_def)
  next
    case (Inr off)
    then show ?thesis using Done x dp queued by auto
  qed
next
  case (Panicked m)
  have wi: "with_inbox c (inbox_push e) w = (Panicked m, w)"
    using Panicked by (simp add: with_inbox_Panicked)
  have "direct_push ep e tr w = (Panicked m, w)"
    by (simp only: direct_push_def Let_def assms [symmetric] act_bind_def wi prod.case outcome.case)
  with Panicked show ?thesis by (rule panicked)
qed

subsection \<open>Two frames\<close>

text \<open>The journal store, one state shell and the configuration of one cell stay as they are.\<close>

definition cell_config where
  "cell_config ce = (ce_path ce, ce_declared_emits ce, ce_entries ce, ce_msg_entries ce,
     ce_last_event_seq ce, ce_crashed ce, ce_stopping ce, ce_step_batch ce, ce_snapshot_anchor_ms ce)"

definition steady :: "nat \<Rightarrow> nat \<Rightarrow> ('st, 'sv, 's) world \<Rightarrow> ('st, 'sv, 's) world \<Rightarrow> bool" where
  "steady i c w w' \<longleftrightarrow>
     w_store w' = w_store w \<and> w_shell_heap w' i = w_shell_heap w i \<and>
     cell_config (w_cell_heap w' c) = cell_config (w_cell_heap w c)"

lemma direct_push_steady: "steady i c w (snd (direct_push ep e tr w))"
proof -
  define d where "d = ep_cell (w_endpoint_heap w ep)"
  have pd: "steady i c w (pushed_directly d tr ev (on_cell d (\<lambda>ce. ce\<lparr>ce_inbox := ib\<rparr>) w))" for ev ib
    using pushed_directly_heap [of d tr ev "on_cell d (\<lambda>ce. ce\<lparr>ce_inbox := ib\<rparr>) w"]
    by (cases "c = d") (auto simp: steady_def cell_config_def)
  show ?thesis
    by (rule direct_push_cases [OF d_def, of e tr]) (auto simp: pd, auto simp: steady_def cell_config_def split: if_splits)
qed

interpretation steady: routing_frame "steady i c" for i c
proof (unfold_locales, goal_cases)
  case 10 show ?case by (rule direct_push_steady)
qed (auto simp: steady_def cell_config_def)

text \<open>One inbox keeps its claims and its queue, and only gains at the end.\<close>

definition queued :: "'e inbox \<Rightarrow> nat \<Rightarrow> nat \<Rightarrow> 'e list \<Rightarrow> bool" where
  "queued ib c k es \<longleftrightarrow> ib_rep ib c k es \<and> ib_tight ib"

lemma queued_rep: "queued ib c k es \<Longrightarrow> ib_rep ib c k es"
  by (simp add: queued_def)

lemma push_gains:
  assumes push: "inbox_push e ib = Done (r, ib')" and q: "queued ib c k es" and pol: "ib_policy ib \<noteq> DropOld"
  shows "queued ib' c k es \<and> (\<forall>off. r \<noteq> Inr off) \<or> queued ib' c k (es @ [e]) \<and> (\<exists>off. r = Inr off)"
proof (cases "ib_open ib \<and> (ib_policy ib = Unbounded \<or> k + length es < ib_capacity ib)")
  case True
  then show ?thesis using push_room [of ib c k es e] q push by (auto simp: queued_def)
next
  case closed: False
  show ?thesis
  proof (cases "ib_open ib")
    case True
    then have "ib_capacity ib \<le> k + length es" "ib_policy ib = Block \<or> ib_policy ib = DropNew"
      using closed pol by (cases "ib_policy ib"; simp)+
    then show ?thesis using push_full_refused [OF queued_rep [OF q] True, of e] push q by auto
  qed (use push q in \<open>auto simp: inbox_push_def\<close>)
qed

lemma push_policy: "inbox_push e ib = Done (r, ib') \<Longrightarrow> ib_policy ib' = ib_policy ib"
  by (auto simp: inbox_push_def queue_ok_def queue_next_def
      split: if_splits overload_policy.splits list.splits prod.splits option.splits)

definition gains :: "nat \<Rightarrow> ('st, 'sv, 's) world \<Rightarrow> ('st, 'sv, 's) world \<Rightarrow> bool" where
  "gains c w w' \<longleftrightarrow>
     ib_policy (ce_inbox (w_cell_heap w' c)) = ib_policy (ce_inbox (w_cell_heap w c)) \<and>
     (ib_policy (ce_inbox (w_cell_heap w c)) \<noteq> DropOld \<longrightarrow>
       (\<forall>cu k es. queued (ce_inbox (w_cell_heap w c)) cu k es \<longrightarrow>
          (\<exists>more. queued (ce_inbox (w_cell_heap w' c)) cu k (es @ more))))"

lemma gains_refl: "gains c w w"
  unfolding gains_def by (metis append_Nil2)

lemma gains_same: "ce_inbox (w_cell_heap w' c) = ce_inbox (w_cell_heap w c) \<Longrightarrow> gains c w w'"
  unfolding gains_def by (metis append_Nil2)

lemma gains_trans: "gains c w w1 \<Longrightarrow> gains c w1 w2 \<Longrightarrow> gains c w w2"
  unfolding gains_def by (metis append_assoc)

lemma direct_push_gains: "gains c w (snd (direct_push ep e tr w))"
proof -
  define d where "d = ep_cell (w_endpoint_heap w ep)"
  let ?ib = "ce_inbox (w_cell_heap w d)"
  have box: "gains c w (on_cell d (\<lambda>ce. ce\<lparr>ce_inbox := ib\<rparr>) w)" if "inbox_push e ?ib = Done (r, ib)" for r ib
  proof (cases "c = d")
    case True
    with push_policy [OF that] push_gains [OF that] show ?thesis
      unfolding gains_def by simp (metis append_Nil2)
  qed (simp add: gains_same)
  have pd: "gains c w (pushed_directly d tr ev (on_cell d (\<lambda>ce. ce\<lparr>ce_inbox := ib\<rparr>) w))"
    if "inbox_push e ?ib = Done (r, ib)" for r ib ev
  proof (rule gains_trans [OF box [OF that]], rule gains_same)
    show "ce_inbox (w_cell_heap (pushed_directly d tr ev (on_cell d (\<lambda>ce. ce\<lparr>ce_inbox := ib\<rparr>) w)) c) =
      ce_inbox (w_cell_heap (on_cell d (\<lambda>ce. ce\<lparr>ce_inbox := ib\<rparr>) w) c)"
      using pushed_directly_heap [of d tr ev "on_cell d (\<lambda>ce. ce\<lparr>ce_inbox := ib\<rparr>) w"] by auto
  qed
  show ?thesis
    by (rule direct_push_cases [OF d_def, of e tr]) (auto simp: gains_refl dest: box pd)
qed

interpretation gains: routing_frame "gains c" for c
proof (unfold_locales, goal_cases)
  case (2 w w1 w2) then show ?case by (rule gains_trans)
next
  case 10 show ?case by (rule direct_push_gains)
qed (auto intro: gains_refl gains_same)

end
