(* ===== verification/StepFrames.thy ===== *)
theory StepFrames
  imports Frames
begin

text \<open>
  Framing, continued: what whole steps of the two actor loops leave alone.  A relation of the routing
  frame that also admits the writes a step makes to its own cell (\<open>mine\<close> says which cells those are), the
  store, the state shells and the service instances is respected by every step.
\<close>

text \<open>What a store is asked to do: writes to one journal, and upkeep that records no event.\<close>

definition journal_write :: "'s store_ops \<Rightarrow> string \<Rightarrow> 's \<Rightarrow> 's \<Rightarrow> bool" where
  "journal_write jo p s s' \<longleftrightarrow> (\<exists>es. s' = snd (jo_append jo p es s)) \<or> (\<exists>scs. s' = snd (jo_append_catchup jo p scs s)) \<or>
     (\<exists>q st now. s' = snd (jo_append_snapshot jo p q st now s))"

definition store_upkeep :: "'s store_ops \<Rightarrow> 's \<Rightarrow> 's \<Rightarrow> bool" where
  "store_upkeep jo s s' \<longleftrightarrow> (\<exists>p. s' = snd (jo_load jo p s)) \<or> (\<exists>p. s' = snd (jo_passivated jo p s)) \<or> s' = snd (jo_flush jo s)"

lemma journal_writeI:
  "jo_append jo p es s = (r, s') \<Longrightarrow> journal_write jo p s s'"
  "jo_append_catchup jo p scs s = (rc, s') \<Longrightarrow> journal_write jo p s s'"
  "jo_append_snapshot jo p q st now s = (ru, s') \<Longrightarrow> journal_write jo p s s'"
  unfolding journal_write_def by (metis snd_conv)+

lemma store_upkeepI:
  "store_upkeep jo s (snd (jo_load jo p s))" "store_upkeep jo s (snd (jo_passivated jo p s))" "store_upkeep jo s (snd (jo_flush jo s))"
  unfolding store_upkeep_def by blast+

locale region_frame = routing_frame R for R :: "('st, 'sv, 's) world \<Rightarrow> ('st, 'sv, 's) world \<Rightarrow> bool" +
  fixes host :: "('st, 'sv, 's) host" and mine :: "nat \<Rightarrow> bool" and own :: "string \<Rightarrow> bool"
  assumes R_factory: "act_rel R (ho_factory host f p a)"
    and R_dispatch: "R w (snd (snd (snd (ho_dispatch host n pl v sv w))))"
    and R_cell: "mine c \<Longrightarrow> (\<And>ce. ce_path (g ce) = ce_path ce \<and> ce_inbox (g ce) = ce_inbox ce \<and>
      ce_step_batch (g ce) = ce_step_batch ce \<and> ce_stopping (g ce) = ce_stopping ce) \<Longrightarrow> R w (on_cell c g w)"
    and R_journal: "own p \<Longrightarrow> journal_write (ho_store host) p (w_store w) s \<Longrightarrow> R w (w\<lparr>w_store := s\<rparr>)"
    and R_upkeep: "store_upkeep (ho_store host) (w_store w) s \<Longrightarrow> R w (w\<lparr>w_store := s\<rparr>)"
    and R_shells: "R w (w\<lparr>w_shell_heap := sh\<rparr>)"
    and R_instances: "R w (w\<lparr>w_service_heap := svs\<rparr>)"
begin

lemma R_notify: "mine c \<Longrightarrow> R w (on_cell c notify_space w)"
  by (rule R_cell) (simp_all add: notify_space_def)

lemma R_crashed: "mine c \<Longrightarrow> R w (on_cell c mark_crashed w)"
  by (rule R_cell) (simp_all add: mark_crashed_def)

lemma R_append: "own path \<Longrightarrow> R w (snd (append_batch (ho_store host) path cs evs w))"
  by (auto simp: append_batch_def R_refl split: option.split sum.split prod.split intro: R_journal journal_writeI)

lemma rel_apply: "act_rel R (apply_in_place i ev)"
  by (rule act_relI) (simp add: apply_in_place_def put_shell_def R_refl R_shells split: outcome.split)

lemma R_apply_batch: "R w (snd (apply_batch lp evs w))"
  by (simp add: apply_batch_def R_refl act_relD [OF rel_each [OF rel_apply]] split: outcome.split)

lemma R_snapshot_write:
  "mine c \<Longrightarrow> own path \<Longrightarrow> R w (case captured of
          Inl err \<Rightarrow> w
        | Inr blob \<Rightarrow>
            (case jo_append_snapshot (ho_store host) path seq blob (as_millis (w_now w)) (w_store w) of
               (Inl err, s) \<Rightarrow> w\<lparr>w_store := s\<rparr>
             | (Inr _, s) \<Rightarrow>
                 observe (w_now w) (ObSnapshotTaken path seq)
                   (on_cell c (\<lambda>ce. ce\<lparr>ce_snapshot_anchor_ms := as_millis (w_now w)\<rparr>) (w\<lparr>w_store := s\<rparr>))))"
proof -
  assume c: "mine c" and p: "own path"
  have w: "jo_append_snapshot (ho_store host) path seq blob now (w_store w) = (r, s) \<Longrightarrow> R w (w\<lparr>w_store := s\<rparr>)" for blob now r s
    by (rule R_journal [OF p journal_writeI(3)])
  have "R (w\<lparr>w_store := s\<rparr>) (observe ts k (on_cell c (\<lambda>ce. ce\<lparr>ce_snapshot_anchor_ms := n\<rparr>) (w\<lparr>w_store := s\<rparr>)))" for ts k n s
    by (rule R_trans [OF R_cell [OF c] R_observe]) simp
  from R_trans [OF w this] w show ?thesis by (auto simp: R_refl split: sum.split prod.split)
qed

lemma rel_snapshot_now: "mine (lo_cell lp) \<Longrightarrow> own (lo_path lp) \<Longrightarrow> act_rel R (snapshot_now host lp seq)"
  unfolding snapshot_now_def
  by (intro rel_bind rel_do R_snapshot_write) (simp_all add: act_rel_def act_of_def R_refl)

lemma rel_maybe_snapshot: "mine (lo_cell lp) \<Longrightarrow> own (lo_path lp) \<Longrightarrow> act_rel R (maybe_snapshot host lp seqs)"
  by (rule act_relI)
    (simp add: maybe_snapshot_def R_refl act_relD [OF rel_each [OF rel_snapshot_now]] split: snapshot_cadence.split)

lemma rel_snapshot_on_idle: "mine (lo_cell lp) \<Longrightarrow> own (lo_path lp) \<Longrightarrow> act_rel R (maybe_snapshot_on_idle host lp)"
  by (rule act_relI)
    (simp add: maybe_snapshot_on_idle_def Let_def R_refl act_relD [OF rel_snapshot_now] split: snapshot_cadence.split)

lemma R_decide_and_append:
  assumes mine: "mine (lo_cell lp)" and own: "own (lo_path lp)"
  shows "R w (snd (decide_and_append host lp cs w))"
proof (cases "loop_state lp")
  case (Panicked m)
  then show ?thesis by (simp add: decide_and_append_def R_refl)
next
  case (Done i)
  obtain d w1 where d: "decide_loop (ho_serde host) (lo_path lp) (ce_entries (w_cell_heap w (lo_cell lp)))
      (dy_shell (w_shell_heap w i)) cs [] [] w = (d, w1)" by fastforce
  have w1: "R w w1" using R_decide [of w "ho_serde host" "lo_path lp"] d by (metis snd_conv)
  show ?thesis
  proof (cases d)
    case (DecidePanicked e)
    have "R w1 (observe_traced (en_trace e) (ObFailed (lo_path lp) ''handler panic'') (on_cell (lo_cell lp) mark_crashed w1))"
      by (rule R_trans [OF R_crashed [OF mine] R_traced])
    with w1 show ?thesis by (simp add: decide_and_append_def Done d DecidePanicked R_trans [OF w1])
  next
    case (Decided evs obs)
    obtain declared w2 where f: "emit_filter lp evs w1 = (declared, w2)" by fastforce
    obtain a w3 where a: "append_batch (ho_store host) (lo_path lp) cs declared w2 = (a, w3)" by fastforce
    have w3: "R w w3"
      using R_trans [OF w1 R_trans [OF R_emit_filter R_append [OF own]]] f a by (metis snd_conv)
    have "R w (on_cell (lo_cell lp) mark_crashed w3)"
      by (rule R_trans [OF w3 R_crashed [OF mine]])
    with w3 show ?thesis by (cases a) (simp_all add: decide_and_append_def Done d Decided f a)
  qed
qed

lemma rel_decide_and_append: "mine (lo_cell lp) \<Longrightarrow> own (lo_path lp) \<Longrightarrow> act_rel R (decide_and_append host lp cs)"
  by (rule act_relI) (rule R_decide_and_append)

lemma R_record_seq: "mine c \<Longrightarrow> R w (record_last_seq c seqs w)"
  by (simp add: record_last_seq_def R_refl R_cell)

lemma rel_after_commit:
  assumes mine: "mine (lo_cell lp)" and own: "own (lo_path lp)"
  shows "act_rel R (after_commit host lp cs evs seqs obs)"
proof -
  have ack: "R w (observe_claims k cs (record_last_seq (lo_cell lp) seqs w))" for w k
    by (rule R_trans [OF R_record_seq [OF mine] R_observe_claims])
  show ?thesis
    unfolding after_commit_def
    by (intro rel_bind rel_do ack act_relI R_apply_batch act_relD [OF rel_flush_all [OF R_factory]])
      (auto simp: act_ret_def R_refl act_relD [OF rel_fan_out [OF R_factory]] act_relD [OF rel_maybe_snapshot [OF mine own]])
qed

lemma R_dispatched:
  "ho_dispatch host n pl v sv w = (answer, ob, sv', w') \<Longrightarrow> R w (put_service i sv' w')"
  using R_dispatch [of w n pl v sv] R_trans [OF _ R_instances] by (simp add: put_service_def)

lemma rel_serve_one:
  assumes mine: "mine (lo_cell lp)"
  shows "act_rel R (serve_one host lp i entries e)"
proof (rule act_relI)
  fix w :: "('st, 'sv, 's) world"
  show "R w (snd (serve_one host lp i entries e w))"
  proof (cases "map_of entries (en_schema e)")
    case None
    then show ?thesis by (simp add: serve_one_def R_dead_letter)
  next
    case (Some n)
    obtain answer ob sv w' where d: "ho_dispatch host n (en_payload e)
        \<lparr>mv_path = lo_path lp, mv_trace = en_trace e, mv_reply_to = en_reply_to e\<rparr> (w_service_heap w i) w =
        (answer, ob, sv, w')" by (metis prod.exhaust)
    have w1: "R w (put_service i sv w')" by (rule R_dispatched [OF d])
    have fl: "act_rel R (act_bind (flush_outbox host lp ob) (\<lambda>stop. act_ret (if stop then Some StStop else None)))"
      by (intro rel_bind rel_flush R_factory rel_ret)
    have crash: "R w (on_cell (lo_cell lp) mark_crashed (put_service i sv w'))"
      by (rule R_trans [OF w1 R_crashed [OF mine]])
    show ?thesis
      by (cases answer)
        (simp_all add: serve_one_def Some d Let_def crash rel_after [OF w1 fl] rel_after [OF R_trans [OF w1 R_dead_letter] fl])
  qed
qed

end

locale step_frame = region_frame R host mine own
  for R :: "('st, 'sv, 's) world \<Rightarrow> ('st, 'sv, 's) world \<Rightarrow> bool" and host mine own +
  assumes R_claim: "mine c \<Longrightarrow> act_rel R (with_inbox c (inbox_claim_up_to k))"
    and R_restore: "mine c \<Longrightarrow> act_rel R (with_inbox c (inbox_restore_claims cs))"
    and R_commit: "mine c \<Longrightarrow> act_rel R (with_inbox c (commit_run offs))"
begin

lemma rel_guard_drop:
  assumes "mine c"
  shows "act_rel R (guard_drop c tail)"
proof (rule act_relI)
  fix w :: "('st, 'sv, 's) world"
  have m: "act_rel R (act_bind (with_inbox c (inbox_restore_claims tail))
      (\<lambda>freed. act_do (\<lambda>w'. if freed then on_cell c notify_space w' else w')))"
    by (intro rel_bind R_restore assms rel_do) (simp add: R_refl R_notify assms)
  show "R w (snd (guard_drop c tail w))"
    by (simp add: guard_drop_def R_refl R_letters act_relD [OF m])
qed

lemma rel_guarded:
  assumes "mine c" "act_rel R m"
  shows "act_rel R (guarded c tail m)"
proof (rule act_relI)
  fix w :: "('st, 'sv, 's) world"
  obtain r w' where m: "m w = (r, w')" by (cases "m w")
  have "R w w'" using act_relD [OF assms(2), of w] m by simp
  then show "R w (snd (guarded c tail m w))"
    using R_trans act_relD [OF rel_guard_drop [OF assms(1)], of w' tail] by (cases r) (auto simp: guarded_def m)
qed

lemma rel_commit: "mine c \<Longrightarrow> act_rel R (commit_offsets c offs)"
  unfolding commit_offsets_def by (intro rel_bind R_commit rel_do) (simp_all add: R_refl R_notify)

lemma rel_finish_step: "mine (lo_cell lp) \<Longrightarrow> own (lo_path lp) \<Longrightarrow> act_rel R (finish_step host lp cs r)"
  unfolding finish_step_def
  by (cases r) (auto intro!: rel_bind rel_guard_drop rel_guarded rel_commit rel_ret rel_after_commit)

lemma rel_step_claimed: "mine (lo_cell lp) \<Longrightarrow> own (lo_path lp) \<Longrightarrow> act_rel R (step_claimed host lp cs)"
  unfolding step_claimed_def
  by (intro rel_bind rel_do R_observe_claims rel_guarded rel_finish_step rel_decide_and_append)

lemma rel_step_es:
  assumes mine: "mine (lo_cell lp)" and own: "own (lo_path lp)"
  shows "act_rel R (step_es host lp)"
proof (rule act_relI)
  fix w :: "('st, 'sv, 's) world"
  have "act_rel R (act_bind (with_inbox (lo_cell lp) (inbox_claim_up_to n))
      (\<lambda>cs. if cs = [] then act_ret StIdle else step_claimed host lp cs))" for n
    by (rule rel_bind [OF R_claim [OF mine]]) (simp add: rel_ret rel_step_claimed [OF mine own])
  then show "R w (snd (step_es host lp w))" unfolding step_es_def by (rule act_relD)
qed

lemma rel_serve_loop:
  assumes mine: "mine (lo_cell lp)"
  shows "act_rel R (serve_loop host lp i entries cs)"
proof (induction cs)
  case Nil
  show ?case by (simp add: rel_ret)
next
  case (Cons c cs)
  obtain off e where c: "c = (off, e)" by (cases c)
  show ?case
    unfolding c serve_loop.simps
    by (intro rel_bind rel_guarded rel_commit rel_do R_traced rel_serve_one mine)
      (auto intro: rel_bind rel_guard_drop mine rel_ret Cons.IH split: option.split)
qed

lemma rel_step_service:
  assumes mine: "mine (lo_cell lp)"
  shows "act_rel R (step_service host lp)"
proof (rule act_relI)
  fix w :: "('st, 'sv, 's) world"
  have k: "act_rel R (\<lambda>w'. case map_of (w_services w') (lo_path lp) of
        None \<Rightarrow> (Panicked ''service present for a running loop'', snd (guard_drop (lo_cell lp) cs w'))
      | Some i \<Rightarrow> serve_loop host lp i (ce_msg_entries (w_cell_heap w' (lo_cell lp))) cs w')" for cs
    by (rule act_relI) (auto simp: act_relD [OF rel_guard_drop [OF mine]] act_relD [OF rel_serve_loop [OF mine]] split: option.split)
  have "act_rel R (act_bind (with_inbox (lo_cell lp) (inbox_claim_up_to n))
      (\<lambda>cs. if cs = [] then act_ret StIdle
            else (\<lambda>w'. case map_of (w_services w') (lo_path lp) of
                   None \<Rightarrow> (Panicked ''service present for a running loop'', snd (guard_drop (lo_cell lp) cs w'))
                 | Some i \<Rightarrow> serve_loop host lp i (ce_msg_entries (w_cell_heap w' (lo_cell lp))) cs w')))" for n
    by (rule rel_bind [OF R_claim [OF mine]]) (simp add: rel_ret k)
  then show "R w (snd (step_service host lp w))" unfolding step_service_def by (rule act_relD)
qed

end

end
