(* ===== verification/Lifecycle.thy ===== *)
theory Lifecycle
  imports Steps
begin

text \<open>
  The lifecycle of actors (\<open>src/src/system.rs\<close>, \<open>src/src/kernel.rs\<close>): the census, spawning with its arm and
  start phases, the table teardown every stop path shares, boot recovery, restart and passivation.

  A spawned task enters the task table; what it does when it runs is in \<open>Tasks\<close>.  A lock that
  is tried is free: no other task holds it between two turns.
\<close>

subsection \<open>The census\<close>

fun lifecycle_text :: "lifecycle_state \<Rightarrow> string" where
  "lifecycle_text LcRunning = ''Running''"
| "lifecycle_text LcNormal = ''Normal''"
| "lifecycle_text LcCrashed = ''Crashed''"
| "lifecycle_text LcEscalated = ''Escalated''"
| "lifecycle_text LcPassivated = ''Passivated''"
| "lifecycle_text LcShutdown = ''Shutdown''"

fun kind_text :: "actor_kind \<Rightarrow> string" where
  "kind_text EventSourced = ''EventSourced''"
| "kind_text Service = ''Service''"

definition lifecycle_value :: "string \<Rightarrow> lifecycle_state \<Rightarrow> actor_kind \<Rightarrow> live_value" where
  "lifecycle_value path state kind =
     \<lparr>lv_type = ''ActorLifecycle'', lv_fields = [],
      lv_json = JObj [(''path'', JStr path), (''state'', JStr (lifecycle_text state)),
                      (''kind'', JStr (kind_text kind))]\<rparr>"

definition publish :: "('st, 'sv, 's) host \<Rightarrow> string \<Rightarrow> payload \<Rightarrow> (('st, 'sv, 's) world, unit) act" where
  "publish host schema p w =
     (let (tr, w1) = new_trace_root w
      in broadcast host schema (envelope_raw schema (ASchema schema) p tr) w1)"

definition announce_lifecycle ::
  "('st, 'sv, 's) host \<Rightarrow> string \<Rightarrow> lifecycle_state \<Rightarrow> actor_kind \<Rightarrow> (('st, 'sv, 's) world, unit) act" where
  "announce_lifecycle host path state kind =
     publish host ''ActorLifecycle'' (payload_value (lifecycle_value path state kind))"

subsection \<open>Allocation of tasks and watches\<close>

definition spawn_task :: "task \<Rightarrow> ('st, 'sv, 's) world \<Rightarrow> nat \<times> ('st, 'sv, 's) world" where
  "spawn_task t w = (w_next w, w\<lparr>w_next := Suc (w_next w), w_tasks := w_tasks w @ [(w_next w, t)]\<rparr>)"

definition new_watch :: "('st, 'sv, 's) world \<Rightarrow> nat \<times> ('st, 'sv, 's) world" where
  "new_watch w =
     (w_next w, w\<lparr>w_next := Suc (w_next w), w_watch_heap := (w_watch_heap w)(w_next w := WatchOpen False)\<rparr>)"

definition on_watch :: "nat \<Rightarrow> (watch \<Rightarrow> watch) \<Rightarrow> ('st, 'sv, 's) world \<Rightarrow> ('st, 'sv, 's) world" where
  "on_watch i f w = w\<lparr>w_watch_heap := (w_watch_heap w)(i := f (w_watch_heap w i))\<rparr>"

text \<open>
  The handle goes to the cell the table holds for the path; with no such cell it is dropped, and so is
  the sender in it.  A handle that was there is replaced.
\<close>

definition store_handle :: "string \<Rightarrow> actor_handle \<Rightarrow> ('st, 'sv, 's) world \<Rightarrow> ('st, 'sv, 's) world" where
  "store_handle path h w =
     (case map_of (w_cells w) path of
        None \<Rightarrow> on_watch (ah_shutdown h) watch_drop_sender w
      | Some c \<Rightarrow>
          (let w1 = (case ce_handle (w_cell_heap w c) of
                       None \<Rightarrow> w
                     | Some old \<Rightarrow> on_watch (ah_shutdown old) watch_drop_sender w)
           in on_cell c (\<lambda>ce. ce\<lparr>ce_handle := Some h\<rparr>) w1))"

subsection \<open>Spawning\<close>

definition resolve_opts :: "mailbox_defaults \<Rightarrow> spawn_opts \<Rightarrow> spawn_opts" where
  "resolve_opts md o' =
     o'\<lparr>so_mailbox_capacity := (if so_mailbox_capacity o' = 0 then md_capacity md else so_mailbox_capacity o'),
        so_mailbox_policy := (if so_mailbox_policy o' = Block then md_policy md else so_mailbox_policy o'),
        so_batch := max (so_batch o') 1\<rparr>"

definition spawn_cell :: "string \<Rightarrow> spawn_opts \<Rightarrow> 'st actor_cell" where
  "spawn_cell path o' =
     cell_new path (inbox_new (max (so_mailbox_capacity o') 1) (so_mailbox_policy o'))
       (max (so_mailbox_capacity o') 1) (so_mailbox_policy o') (so_batch o')"

text \<open>The configuration both tiers stamp on the fresh cell.\<close>

definition stamp_common :: "timestamp \<Rightarrow> spawn_opts \<Rightarrow> actor_manifest \<Rightarrow> 'st actor_cell \<Rightarrow> 'st actor_cell" where
  "stamp_common now o' m ce =
     (let ce1 = ce\<lparr>ce_declared_emits := mf_emits m, ce_passivation := so_passivation o', ce_last_work_ms := as_millis now\<rparr>
      in (case so_high_watermark o' of
            None \<Rightarrow> ce1
          | Some wm \<Rightarrow> ce1\<lparr>ce_watermark_high := wm, ce_has_watermark := True\<rparr>))"

definition stamp_es ::
  "timestamp \<Rightarrow> spawn_opts \<Rightarrow> actor_manifest \<Rightarrow> 'st command_entry list \<Rightarrow> 'st actor_cell \<Rightarrow> 'st actor_cell" where
  "stamp_es now o' m entries ce =
     (stamp_common now o' m ce)\<lparr>ce_entries := entries, ce_snapshot_policy := so_snapshot o',
        ce_snapshot_anchor_ms := (case so_snapshot o' of CadenceTime _ \<Rightarrow> as_millis now | _ \<Rightarrow> ce_snapshot_anchor_ms ce)\<rparr>"

definition add_routes :: "string \<Rightarrow> string list \<Rightarrow> registry \<Rightarrow> registry" where
  "add_routes path schemas r = fold (\<lambda>schema. add_route schema path) schemas r"

text \<open>
  The registry half of a spawn, shared by both tiers: a fresh cell and its endpoint, the slot, and one
  route per handled schema.  The answer is the pair of cell and endpoint.
\<close>

definition register_actor ::
  "string \<Rightarrow> actor_manifest \<Rightarrow> spawn_opts \<Rightarrow> 'st actor_cell \<Rightarrow> (('st, 'sv, 's) world, nat \<times> nat) act" where
  "register_actor path m o' ce w =
     (let c = w_next w; ep = Suc c
      in case insert_slot path m ep (so_mailbox_policy o') (w_registry w) of
           (Inl err, r) \<Rightarrow> (Panicked ''path free at spawn'', w)
         | (Inr _, r) \<Rightarrow>
             (Done (c, ep),
              w\<lparr>w_next := Suc ep, w_registry := add_routes path (mf_handles m) r,
                w_cell_heap := (w_cell_heap w)(c := ce),
                w_endpoint_heap := (w_endpoint_heap w)
                  (ep := endpoint_new (front_door_channel (so_mailbox_capacity o') (so_mailbox_policy o')) c)\<rparr>))"

record armed =
  ar_loop :: es_loop
  ar_endpoint :: nat

definition with_entries :: "'st command_entry list \<Rightarrow> actor_manifest \<Rightarrow> actor_manifest" where
  "with_entries entries m = fold handles_id (map entry_schema entries) m"

definition arm_tables ::
  "string \<Rightarrow> 'st dyn_es \<Rightarrow> json \<Rightarrow> nat \<Rightarrow> ('st, 'sv, 's) world \<Rightarrow> nat \<times> ('st, 'sv, 's) world" where
  "arm_tables path shell args c w =
     (let i = w_next w
      in (i, w\<lparr>w_next := Suc i, w_shell_heap := (w_shell_heap w)(i := shell),
               w_cells := AList.update path c (w_cells w), w_es_state := AList.update path i (w_es_state w),
               w_genesis_args := AList.update path args (w_genesis_args w)\<rparr>))"

definition arm_es_erased ::
  "string \<Rightarrow> actor_manifest \<Rightarrow> 'st dyn_es \<Rightarrow> 'st command_entry list \<Rightarrow> spawn_opts \<Rightarrow> json
   \<Rightarrow> (('st, 'sv, 's) world, armed) act" where
  "arm_es_erased path manifest shell entries opts args w =
     (let o' = resolve_opts (w_defaults w) opts;
          m = with_entries entries manifest;
          ce = stamp_es (w_now w) o' m entries (spawn_cell path o')
      in act_bind (register_actor path m o' ce)
           (\<lambda>(c, ep) w1.
              (let (i, w2) = arm_tables path shell args c w1
               in (Done \<lparr>ar_loop = \<lparr>lo_path = path, lo_cell = c, lo_is_projector = path \<in> set (w_projectors w2),
                                    lo_state = Some i\<rparr>,
                        ar_endpoint = ep\<rparr>,
                   observe (w_now w2) (ObSpawned path EventSourced False) w2))) w)"

definition start_tracked :: "es_loop \<Rightarrow> nat \<Rightarrow> nat \<Rightarrow> ('st, 'sv, 's) world \<Rightarrow> nat \<times> ('st, 'sv, 's) world" where
  "start_tracked lp ep watch w =
     (let (_, w1) = spawn_task (DoorTask ep DoorReady) w in spawn_task (EsTask lp watch LoopBoot) w1)"

definition start_loop :: "armed \<Rightarrow> ('st, 'sv, 's) world \<Rightarrow> ('st, 'sv, 's) world" where
  "start_loop a w =
     (let (watch, w1) = new_watch w;
          (task, w2) = start_tracked (ar_loop a) (ar_endpoint a) watch w1
      in store_handle (lo_path (ar_loop a)) \<lparr>ah_shutdown = watch, ah_task = task\<rparr> w2)"

definition spawn_es_erased ::
  "string \<Rightarrow> actor_manifest \<Rightarrow> 'st dyn_es \<Rightarrow> 'st command_entry list \<Rightarrow> spawn_opts \<Rightarrow> json
   \<Rightarrow> (('st, 'sv, 's) world, unit) act" where
  "spawn_es_erased path manifest shell entries opts args =
     act_bind (arm_es_erased path manifest shell entries opts args) (\<lambda>a. act_do (start_loop a))"

definition spawn_es_foreign ::
  "string \<Rightarrow> string \<Rightarrow> json \<Rightarrow> foreign_entry \<Rightarrow> 'st es_code \<Rightarrow> spawn_opts \<Rightarrow> (('st, 'sv, 's) world, unit) act" where
  "spawn_es_foreign path schema genesis entry code opts =
     spawn_es_erased path (manifest_kind EventSourced (handles_id schema manifest_new))
       \<lparr>dy_shell = ForeignEs genesis, dy_code = code\<rparr> [ForeignEntry (entry\<lparr>fe_schema := schema\<rparr>)] opts genesis"

definition projector_manifest :: "string list \<Rightarrow> actor_manifest" where
  "projector_manifest consumed =
     manifest_kind EventSourced (fold (\<lambda>s m. emits_id s (handles_id s m)) consumed manifest_new)"

definition arm_projector ::
  "string \<Rightarrow> string list \<Rightarrow> json \<Rightarrow> 'st es_code \<Rightarrow> spawn_opts \<Rightarrow> (('st, 'sv, 's) world, armed) act" where
  "arm_projector path consumed args code opts =
     act_bind (act_do (\<lambda>w. w\<lparr>w_projectors := push_unique path (w_projectors w)\<rparr>))
       (\<lambda>_. arm_es_erased path (projector_manifest consumed)
              \<lparr>dy_shell = TypedProjector (ec_default code), dy_code = code\<rparr> (map ConsumeEntry consumed) opts args)"

definition spawn_service_erased ::
  "string \<Rightarrow> actor_manifest \<Rightarrow> json \<Rightarrow> (string \<times> nat) list \<Rightarrow> spawn_opts \<Rightarrow> nat
   \<Rightarrow> (('st, 'sv, 's) world, unit) act" where
  "spawn_service_erased path m args entries opts init w =
     (let o' = resolve_opts (w_defaults w) opts;
          ce = (stamp_common (w_now w) o' m (spawn_cell path o'))\<lparr>ce_msg_entries := entries\<rparr>
      in act_bind (register_actor path m o' ce)
           (\<lambda>(c, ep) w1.
              (let w2 = w1\<lparr>w_cells := AList.update path c (w_cells w1),
                           w_genesis_args := AList.update path args (w_genesis_args w1)\<rparr>;
                   w3 = observe (w_now w2) (ObSpawned path Service False) w2
               in (Done (), snd (spawn_task (ServiceStart
                     \<lparr>lo_path = path, lo_cell = c, lo_is_projector = False, lo_state = None\<rparr> ep init args) w3)))) w)"

subsection \<open>Boot recovery and restart\<close>

text \<open>
  Recovery replays a journal that holds anything into a fresh shell of the table's kind; the loop's cache
  is bound to it.  A store that fails, a path without state or a failed rebuild leave everything as it
  was.
\<close>

definition install_shell :: "es_loop \<Rightarrow> 'st dyn_es \<Rightarrow> ('st, 'sv, 's) world \<Rightarrow> es_loop \<times> ('st, 'sv, 's) world" where
  "install_shell lp fresh w =
     (let i = w_next w
      in (lp\<lparr>lo_state := Some i\<rparr>,
          w\<lparr>w_next := Suc i, w_shell_heap := (w_shell_heap w)(i := fresh),
            w_es_state := AList.update (lo_path lp) i (w_es_state w)\<rparr>))"

definition load_journal ::
  "('st, 'sv, 's) host \<Rightarrow> string \<Rightarrow> ('st, 'sv, 's) world \<Rightarrow> (journal_error + replay option) \<times> ('st, 'sv, 's) world" where
  "load_journal host path w =
     (let (found, s) = jo_load (ho_store host) path (w_store w) in (found, w\<lparr>w_store := s\<rparr>))"

definition recover_with ::
  "journal_error + replay option \<Rightarrow> es_loop \<Rightarrow> (('st, 'sv, 's) world, es_loop) act" where
  "recover_with found lp w =
     (case found of
        Inl err \<Rightarrow> (Done lp, w)
      | Inr None \<Rightarrow> (Done lp, w)
      | Inr (Some rp) \<Rightarrow>
          if snapshot_state rp = None \<and> rp_tail rp = [] then (Done lp, w)
          else case map_of (w_es_state w) (lo_path lp) of
                 None \<Rightarrow> (Done lp, w)
               | Some i \<Rightarrow>
                   (let old = w_shell_heap w i
                    in case rebuild (dy_code old) (get_or JNull (w_genesis_args w) (lo_path lp))
                              (snapshot_state rp) (rp_tail rp) (dy_shell old) of
                         Panicked m \<Rightarrow> (Panicked m, w)
                       | Done (Inl err) \<Rightarrow> (Done lp, w)
                       | Done (Inr sh) \<Rightarrow>
                           (let (lp', w') = install_shell lp (old\<lparr>dy_shell := sh\<rparr>) w in (Done lp', w'))))"

definition recover_at_boot :: "('st, 'sv, 's) host \<Rightarrow> es_loop \<Rightarrow> (('st, 'sv, 's) world, es_loop) act" where
  "recover_at_boot host lp w = (let (found, w1) = load_journal host (lo_path lp) w in recover_with found lp w1)"

text \<open>The bookkeeping of a restarted cell.\<close>

definition journal_head :: "replay \<Rightarrow> nat" where
  "journal_head rp = (if rp_events rp = [] then cell_sentinel else Max (set (map jd_seq (rp_events rp))))"

definition reset_cell :: "timestamp \<Rightarrow> nat \<Rightarrow> 'st actor_cell \<Rightarrow> 'st actor_cell" where
  "reset_cell now head ce = (clear_crashed ce)\<lparr>ce_last_work_ms := as_millis now, ce_last_event_seq := head\<rparr>"

definition empty_replay :: replay where
  "empty_replay = \<lparr>rp_snapshot = None, rp_tail = [], rp_events = []\<rparr>"

text \<open>
  A fresh endpoint of the same depth over the same cell, the inbox reopened, and a fresh door and loop.
  The sender of the fresh loop's shutdown watch is dropped on return, and the cell keeps its old handle.
\<close>

definition restart_door :: "es_loop \<Rightarrow> (('st, 'sv, 's) world, unit) act" where
  "restart_door lp w =
     (let ce = w_cell_heap w (lo_cell lp);
          ep = w_next w
      in case swap_endpoint (lo_path lp) ep (w_registry w) of
           (Inl err, r) \<Rightarrow> (Panicked ''slot exists at restart'', w)
         | (Inr _, r) \<Rightarrow>
             (let w1 = w\<lparr>w_next := Suc ep, w_registry := r,
                         w_endpoint_heap := (w_endpoint_heap w)
                           (ep := endpoint_new (front_door_channel (ce_mailbox_capacity ce) (ce_mailbox_policy ce)) (lo_cell lp))\<rparr>;
                  w2 = on_cell (lo_cell lp) (\<lambda>c. c\<lparr>ce_inbox := inbox_reopen (ce_inbox c)\<rparr>) w1;
                  (watch, w3) = new_watch w2;
                  (_, w4) = start_tracked lp ep watch w3
              in (Done (), on_watch watch watch_drop_sender w4)))"

definition restart_with ::
  "journal_error + replay option \<Rightarrow> es_loop \<Rightarrow> json \<Rightarrow> (('st, 'sv, 's) world, journal_error + unit) act" where
  "restart_with loaded lp genesis w =
     (case loaded of
        Inl err \<Rightarrow> (Done (Inl err), w)
      | Inr found \<Rightarrow>
          (let rp = (case found of None \<Rightarrow> empty_replay | Some rp \<Rightarrow> rp)
           in case map_of (w_es_state w) (lo_path lp) of
                None \<Rightarrow> (Panicked ''es state present at restart'', w)
              | Some i \<Rightarrow>
                  (let old = w_shell_heap w i
                   in case rebuild (dy_code old) genesis (snapshot_state rp) (rp_tail rp) (dy_shell old) of
                        Panicked m \<Rightarrow> (Panicked m, w)
                      | Done (Inl err) \<Rightarrow> (Done (Inl err), w)
                      | Done (Inr sh) \<Rightarrow>
                          (let (lp', w1) = install_shell lp (old\<lparr>dy_shell := sh\<rparr>) w;
                               w2 = on_cell (lo_cell lp) (reset_cell (w_now w) (journal_head rp)) w1;
                               w3 = observe (w_now w) (ObSpawned (lo_path lp) EventSourced True) w2
                           in act_bind (restart_door lp') (\<lambda>_. act_ret (Inr ())) w3))))"

definition restart_es :: "('st, 'sv, 's) host \<Rightarrow> es_loop \<Rightarrow> json \<Rightarrow> (('st, 'sv, 's) world, journal_error + unit) act" where
  "restart_es host lp genesis w =
     (let (loaded, w1) = load_journal host (lo_path lp) w in restart_with loaded lp genesis w1)"

subsection \<open>Stopping\<close>

definition actor_tier :: "('st, 'sv, 's) world \<Rightarrow> string \<Rightarrow> actor_kind" where
  "actor_tier w path = (if has_key (w_es_state w) path then EventSourced else Service)"

text \<open>Closing the mailbox for good and flushing what is left to the dead letters.\<close>

definition flush_mailbox :: "string \<Rightarrow> ('st, 'sv, 's) world \<Rightarrow> ('st, 'sv, 's) world" where
  "flush_mailbox path w =
     (case map_of (w_cells w) path of
        None \<Rightarrow> w
      | Some c \<Rightarrow>
          (let (drained, ib) = inbox_drain_live (inbox_close (ce_inbox (w_cell_heap w c)));
               w1 = on_cell c (\<lambda>ce. (mark_stopping ce)\<lparr>ce_inbox := ib\<rparr>) w
           in w1\<lparr>w_dead_letters := w_dead_letters w1 @
                   map (\<lambda>e. letter_of e DlStoppedWithMail ''stopped with a non-empty inbox'') drained\<rparr>))"

definition drop_tables :: "string \<Rightarrow> ('st, 'sv, 's) world \<Rightarrow> ('st, 'sv, 's) world" where
  "drop_tables path w =
     w\<lparr>w_registry := drop_routes_of path (snd (remove_slot path (w_registry w))),
       w_cells := AList.delete path (w_cells w), w_es_state := AList.delete path (w_es_state w),
       w_projectors := filter (\<lambda>p. p \<noteq> path) (w_projectors w), w_specs := AList.delete path (w_specs w)\<rparr>"

definition parent_of :: "('st, 'sv, 's) world \<Rightarrow> string \<Rightarrow> string option" where
  "parent_of w path = (case map_of (w_specs w) path of None \<Rightarrow> None | Some sp \<Rightarrow> sp_parent sp)"

definition observe_stopped ::
  "string \<Rightarrow> stop_reason \<Rightarrow> string option \<Rightarrow> ('st, 'sv, 's) world \<Rightarrow> ('st, 'sv, 's) world" where
  "observe_stopped path reason parent w =
     (let w1 = observe (w_now w) (ObStopped path reason) w
      in case parent of None \<Rightarrow> w1 | Some p \<Rightarrow> observe (w_now w) (ObLinkNotified p path) w1)"

definition teardown_tables ::
  "('st, 'sv, 's) host \<Rightarrow> string \<Rightarrow> stop_reason \<Rightarrow> (('st, 'sv, 's) world, unit) act" where
  "teardown_tables host path reason w =
     (let was_live = has_key (w_cells w) path \<or> has_key (w_specs w) path;
          kind = actor_tier w path;
          w1 = flush_mailbox path w;
          w2 = drop_tables path w1
      in if was_live
         then announce_lifecycle host path (lifecycle_of reason) kind (observe_stopped path reason (parent_of w1 path) w2)
         else (Done (), w2))"

text \<open>The stop hook; an event-sourced hook sees the folded state and has no effect the runtime knows of.\<close>

definition run_on_stop :: "('st, 'sv, 's) host \<Rightarrow> es_loop \<Rightarrow> (('st, 'sv, 's) world, unit) act" where
  "run_on_stop host lp w =
     (if w_shutting_down w then (Done (), w)
      else case map_of (w_services w) (lo_path lp) of
             None \<Rightarrow> (Done (), w)
           | Some i \<Rightarrow>
               (let (tr, w1) = new_trace_root w;
                    (ob, sv, w2) = ho_on_stop host \<lparr>mv_path = lo_path lp, mv_trace = tr, mv_reply_to = None\<rparr>
                                     (w_service_heap w1 i) w1
                in case ob of
                     Panicked m \<Rightarrow> (Panicked m, put_service i sv w2)
                   | Done intents \<Rightarrow> act_bind (flush_outbox host lp intents) (\<lambda>_. act_ret ()) (put_service i sv w2)))"

definition graceful_exit :: "('st, 'sv, 's) host \<Rightarrow> es_loop \<Rightarrow> stop_reason \<Rightarrow> (('st, 'sv, 's) world, unit) act" where
  "graceful_exit host lp reason w =
     (let (claimed, ce) = claim_on_stop (w_cell_heap w (lo_cell lp));
          w1 = on_cell (lo_cell lp) (\<lambda>_. ce) w
      in act_bind (if claimed then run_on_stop host lp else act_ret ())
           (\<lambda>_. teardown_tables host (lo_path lp) reason) w1)"

definition drain_inbox_on_stop :: "es_loop \<Rightarrow> ('st, 'sv, 's) world \<Rightarrow> ('st, 'sv, 's) world" where
  "drain_inbox_on_stop lp = on_cell (lo_cell lp) (\<lambda>ce. ce\<lparr>ce_inbox := inbox_reopen (inbox_close (ce_inbox ce))\<rparr>)"

definition stamp_work :: "es_loop \<Rightarrow> ('st, 'sv, 's) world \<Rightarrow> ('st, 'sv, 's) world" where
  "stamp_work lp w = on_cell (lo_cell lp) (\<lambda>ce. ce\<lparr>ce_last_work_ms := as_millis (w_now w)\<rparr>) w"

subsection \<open>Idle duties\<close>

definition next_duty_due_ms :: "'st actor_cell \<Rightarrow> nat option" where
  "next_duty_due_ms ce =
     (let snapshot_due = (case ce_snapshot_policy ce of
            CadenceTime interval \<Rightarrow>
              if ce_snapshot_anchor_ms ce = cell_sentinel \<or> ce_last_event_seq ce = cell_sentinel then None
              else Some (sat_add_u64 (ce_snapshot_anchor_ms ce) (dur_as_millis_u64 interval))
          | _ \<Rightarrow> None);
          passivation_due = map_option (\<lambda>idle. sat_add_u64 (ce_last_work_ms ce) (dur_as_millis_u64 idle)) (ce_passivation ce)
      in case (snapshot_due, passivation_due) of
           (Some a, Some b) \<Rightarrow> Some (min a b)
         | (Some a, None) \<Rightarrow> Some a
         | (None, b) \<Rightarrow> b)"

text \<open>The check that opens a passivation.\<close>

definition passivation_due :: "es_loop \<Rightarrow> ('st, 'sv, 's) world \<Rightarrow> bool" where
  "passivation_due lp w \<longleftrightarrow>
     \<not> w_shutting_down w \<and>
     (case ce_passivation (w_cell_heap w (lo_cell lp)) of
        None \<Rightarrow> False
      | Some idle \<Rightarrow> as_millis (w_now w) - ce_last_work_ms (w_cell_heap w (lo_cell lp)) \<ge> dur_as_millis_u64 idle)"

definition close_door :: "es_loop \<Rightarrow> ('st, 'sv, 's) world \<Rightarrow> ('st, 'sv, 's) world" where
  "close_door lp = on_cell (lo_cell lp) (\<lambda>ce. ce\<lparr>ce_inbox := inbox_close (ce_inbox ce)\<rparr>)"

text \<open>One round of the drain: \<open>True\<close> when the drain is over.\<close>

definition drain_round :: "('st, 'sv, 's) host \<Rightarrow> es_loop \<Rightarrow> (('st, 'sv, 's) world, bool) act" where
  "drain_round host lp =
     act_bind (act_of (\<lambda>w. inbox_peek (ce_inbox (w_cell_heap w (lo_cell lp)))))
       (\<lambda>mail. case mail of
          None \<Rightarrow> act_ret True
        | Some e \<Rightarrow> act_bind (step_es host lp) (\<lambda>st. act_ret (st \<noteq> StWork)))"

definition finish_passivation :: "('st, 'sv, 's) host \<Rightarrow> es_loop \<Rightarrow> (('st, 'sv, 's) world, unit) act" where
  "finish_passivation host lp =
     act_bind (act_do (\<lambda>w. w\<lparr>w_store := snd (jo_passivated (ho_store host) (lo_path lp) (w_store w))\<rparr>))
       (\<lambda>_. graceful_exit host lp StopPassivated)"

end
