(* ===== verification/Projections.thy ===== *)
theory Projections
  imports Lifecycle
begin

text \<open>
  Catching a projector up (\<open>src/src/system.rs\<close>): replay of its own journal, the scan of the store for what
  it lacks, the seeding of the gap, and the start of its loop.

  One call is one turn: the code awaits the store only, and the projector's loop is not running yet.
\<close>

definition last_segment :: "string \<Rightarrow> string" where
  "last_segment path = rev (takeWhile (\<lambda>c. c \<noteq> CHR ''/'') (rev path))"

text \<open>A source journal qualifies for a key when it recorded a fact whose payload names the key.\<close>

definition qualifying :: "serde \<Rightarrow> 's store_ops \<Rightarrow> string \<Rightarrow> string \<Rightarrow> string \<Rightarrow> 's \<Rightarrow> bool \<times> 's" where
  "qualifying sd jo key_field key journal s =
     (let (answer, s') = jo_load jo journal s
      in ((case answer of
             Inr (Some rp) \<Rightarrow> list_ex (recorded_payload_key sd key_field key) (rp_events rp)
           | _ \<Rightarrow> False), s'))"

fun qualify_each ::
  "serde \<Rightarrow> 's store_ops \<Rightarrow> projector_set_spec \<Rightarrow> string \<Rightarrow> scanned_event list \<Rightarrow> 's \<Rightarrow> scanned_event list \<times> 's" where
  "qualify_each sd jo spec key [] s = ([], s)"
| "qualify_each sd jo spec key (sc # scs) s =
     (let (keep, s1) = qualifying sd jo (pj_key_field spec) key (sc_journal sc) s;
          (rest, s2) = qualify_each sd jo spec key scs s1
      in (if keep then sc # rest else rest, s2))"

definition candidates ::
  "('st, 'sv, 's) host \<Rightarrow> string \<Rightarrow> scanned_event list \<Rightarrow> ('st, 'sv, 's) world \<Rightarrow> scanned_event list \<times> 's" where
  "candidates host path scanned w =
     (let others = filter (\<lambda>sc. sc_journal sc \<noteq> path) scanned
      in case projector_set_owning path (w_registry w) of
           None \<Rightarrow> (others, w_store w)
         | Some spec \<Rightarrow>
             qualify_each (ho_serde host) (ho_store host) spec (last_segment path) others (w_store w))"

definition newly_recorded :: "scanned_event list \<Rightarrow> seq_no option list \<Rightarrow> scanned_event list" where
  "newly_recorded scanned results =
     List.map_filter (\<lambda>(sc, slot). map_option (\<lambda>_. sc) slot) (zip scanned results)"

text \<open>The first step: \<open>False\<close> when the catch-up gives up.\<close>

definition replay_with :: "journal_error + replay option \<Rightarrow> string \<Rightarrow> (('st, 'sv, 's) world, bool) act" where
  "replay_with found path w =
     (case found of
        Inr (Some rp) \<Rightarrow>
          (case map_of (w_es_state w) path of
             None \<Rightarrow> (Done False, w)
           | Some i \<Rightarrow>
               (let old = w_shell_heap w i
                in case rebuild (dy_code old) (JObj []) (snapshot_state rp) (rp_tail rp) (dy_shell old) of
                     Panicked m \<Rightarrow> (Panicked m, w)
                   | Done (Inl err) \<Rightarrow> (Done False, w)
                   | Done (Inr sh) \<Rightarrow>
                       (let j = w_next w
                        in (Done True,
                            w\<lparr>w_next := Suc j, w_shell_heap := (w_shell_heap w)(j := old\<lparr>dy_shell := sh\<rparr>),
                              w_es_state := AList.update path j (w_es_state w)\<rparr>))))
      | _ \<Rightarrow> (Done True, w))"

definition replay_own ::
  "('st, 'sv, 's) host \<Rightarrow> string \<Rightarrow> (('st, 'sv, 's) world, bool) act" where
  "replay_own host path w = (let (found, w1) = load_journal host path w in replay_with found path w1)"

text \<open>The second: the number of facts newly recorded, each folded once.\<close>

definition seed_gap ::
  "('st, 'sv, 's) host \<Rightarrow> string \<Rightarrow> string list \<Rightarrow> (('st, 'sv, 's) world, nat) act" where
  "seed_gap host path consumed w =
     (case jo_scan (ho_store host) consumed (w_store w) of
        Inl err \<Rightarrow> (Done 0, w)
      | Inr scanned \<Rightarrow>
          (let (cands, s0) = candidates host path scanned w;
               (answer, s) = jo_append_catchup (ho_store host) path cands s0;
               newly = (case answer of Inl err \<Rightarrow> [] | Inr results \<Rightarrow> newly_recorded cands results);
               w1 = w\<lparr>w_store := s\<rparr>
           in if newly = [] then (Done 0, w1)
              else case map_of (w_es_state w1) path of
                     None \<Rightarrow> (Done (length newly), w1)
                   | Some i \<Rightarrow>
                       act_bind (act_each (apply_in_place i) (map sc_event newly))
                         (\<lambda>_. act_ret (length newly)) w1))"

definition bump_caught_up :: "string \<Rightarrow> ('st, 'sv, 's) world \<Rightarrow> ('st, 'sv, 's) world" where
  "bump_caught_up path w =
     w\<lparr>w_caught_up := AList.update path (get_or 0 (w_caught_up w) path + 1) (w_caught_up w)\<rparr>"

definition go_live :: "armed \<Rightarrow> nat \<Rightarrow> ('st, 'sv, 's) world \<Rightarrow> ('st, 'sv, 's) world" where
  "go_live a seeded w =
     (let lp = ar_loop a; path = lo_path lp;
          state = (case map_of (w_es_state w) path of None \<Rightarrow> lo_state lp | Some i \<Rightarrow> Some i);
          w1 = start_loop (a\<lparr>ar_loop := lp\<lparr>lo_state := state\<rparr>\<rparr>) w
      in observe (w_now w1) (ObCaughtUp path seeded) (bump_caught_up path w1))"

definition catch_up_projector ::
  "('st, 'sv, 's) host \<Rightarrow> armed \<Rightarrow> string list \<Rightarrow> (('st, 'sv, 's) world, unit) act" where
  "catch_up_projector host a consumed =
     act_bind (replay_own host (lo_path (ar_loop a)))
       (\<lambda>going. if \<not> going then act_ret ()
                else act_bind (seed_gap host (lo_path (ar_loop a)) consumed) (\<lambda>seeded. act_do (go_live a seeded)))"

subsection \<open>Reads of live state\<close>

definition read_es_state :: "string \<Rightarrow> ('st, 'sv, 's) world \<Rightarrow> json option outcome" where
  "read_es_state path w =
     (case map_of (w_es_state w) path of
        None \<Rightarrow> Done None
      | Some i \<Rightarrow>
          map_outcome (\<lambda>r. case r of Inl _ \<Rightarrow> None | Inr j \<Rightarrow> Some j)
            (capture_erased (dy_code (w_shell_heap w i)) (dy_shell (w_shell_heap w i))))"

text \<open>A typed read: the closure runs when the shell at the path has the asked-for tier.\<close>

fun with_es_state :: "('st \<Rightarrow> 'r) \<Rightarrow> 'st es_shell \<Rightarrow> 'r option" where
  "with_es_state f (TypedEs s) = Some (f s)"
| "with_es_state f _ = None"

fun with_projector_state :: "('st \<Rightarrow> 'r) \<Rightarrow> 'st es_shell \<Rightarrow> 'r option" where
  "with_projector_state f (TypedProjector s) = Some (f s)"
| "with_projector_state f _ = None"

definition read_es :: "string \<Rightarrow> ('st \<Rightarrow> 'r) \<Rightarrow> ('st, 'sv, 's) world \<Rightarrow> 'r option" where
  "read_es path f w =
     (case map_of (w_es_state w) path of None \<Rightarrow> None | Some i \<Rightarrow> with_es_state f (dy_shell (w_shell_heap w i)))"

definition read_projector :: "string \<Rightarrow> ('st \<Rightarrow> 'r) \<Rightarrow> ('st, 'sv, 's) world \<Rightarrow> 'r option" where
  "read_projector path f w =
     (case map_of (w_es_state w) path of
        None \<Rightarrow> None
      | Some i \<Rightarrow> with_projector_state f (dy_shell (w_shell_heap w i)))"

definition endpoint_pending :: "string \<Rightarrow> ('st, 'sv, 's) world \<Rightarrow> nat" where
  "endpoint_pending path w =
     (case resolve path (w_registry w) of None \<Rightarrow> 0 | Some ep \<Rightarrow> ep_pending (w_endpoint_heap w ep))"

definition inbox_debug_len :: "string \<Rightarrow> ('st, 'sv, 's) world \<Rightarrow> nat" where
  "inbox_debug_len path w =
     (case map_of (w_cells w) path of None \<Rightarrow> 0 | Some c \<Rightarrow> inbox_len (ce_inbox (w_cell_heap w c)))"

definition inbox_cursor :: "string \<Rightarrow> ('st, 'sv, 's) world \<Rightarrow> nat option" where
  "inbox_cursor path w =
     (case map_of (w_cells w) path of None \<Rightarrow> None | Some c \<Rightarrow> Some (ib_cursor (ce_inbox (w_cell_heap w c))))"

text \<open>What the quiescence wait tests each time it looks.\<close>

definition is_quiet :: "string \<Rightarrow> ('st, 'sv, 's) world \<Rightarrow> bool" where
  "is_quiet path w \<longleftrightarrow> inbox_debug_len path w = 0 \<and> endpoint_pending path w = 0"

definition purge_journal ::
  "('st, 'sv, 's) host \<Rightarrow> string \<Rightarrow> ('st, 'sv, 's) world \<Rightarrow> (journal_error + unit) \<times> ('st, 'sv, 's) world" where
  "purge_journal host path w =
     (let (r, s) = jo_purge (ho_store host) path (w_store w) in (r, w\<lparr>w_store := s\<rparr>))"

text \<open>The key of a set-owned path, as the wake and the rebuild derive it.\<close>

definition wake_key :: "projector_set_spec \<Rightarrow> string \<Rightarrow> string" where
  "wake_key spec path = (case strip_prefix (pj_public spec @ ''/'') path of None \<Rightarrow> [] | Some key \<Rightarrow> key)"

text \<open>
  The wake of a cold set-owned projector, up to its wait: \<open>Inl\<close> the answer that needs no wait,
  \<open>Inr\<close> the count the wait must see exceeded.
\<close>

definition wake_owned ::
  "('st, 'sv, 's) host \<Rightarrow> string \<Rightarrow> projector_set_spec \<Rightarrow> (('st, 'sv, 's) world, bool + nat) act" where
  "wake_owned host path spec w =
     (let watermark = get_or 0 (w_caught_up w) path
      in if has_key (w_es_state w) path then (Done (Inl True), w)
         else act_bind (ho_factory host (pj_factory spec) path (projector_entity_args spec (wake_key spec path)))
                (\<lambda>_. act_ret (Inr watermark)) w)"

definition wake_projector ::
  "('st, 'sv, 's) host \<Rightarrow> string \<Rightarrow> (('st, 'sv, 's) world, bool + nat) act" where
  "wake_projector host path w =
     (case projector_set_owning path (w_registry w) of
        None \<Rightarrow> (Done (Inl False), w)
      | Some spec \<Rightarrow> wake_owned host path spec w)"

definition caught_up_past :: "string \<Rightarrow> nat \<Rightarrow> ('st, 'sv, 's) world \<Rightarrow> bool" where
  "caught_up_past path watermark w \<longleftrightarrow> get_or 0 (w_caught_up w) path > watermark"

definition read_projector_live :: "string \<Rightarrow> ('st, 'sv, 's) world \<Rightarrow> bool" where
  "read_projector_live path w \<longleftrightarrow> has_key (w_es_state w) path"

text \<open>
  The turn of a rebuild that follows the stop: the purge, the factory, and the count the wait must see
  exceeded, read after the factory has run.
\<close>

definition rebuild_spec :: "string \<Rightarrow> ('st, 'sv, 's) world \<Rightarrow> registry_error + projector_set_spec" where
  "rebuild_spec path w =
     (case projector_set_owning path (w_registry w) of None \<Rightarrow> Inl InvalidSpec | Some spec \<Rightarrow> Inr spec)"

definition rebuild_after_stop ::
  "('st, 'sv, 's) host \<Rightarrow> string \<Rightarrow> projector_set_spec \<Rightarrow> (('st, 'sv, 's) world, registry_error + nat) act" where
  "rebuild_after_stop host path spec w =
     (case purge_journal host path w of
        (Inl err, w1) \<Rightarrow> (Done (Inl InvalidSpec), w1)
      | (Inr _, w1) \<Rightarrow>
          act_bind (ho_factory host (pj_factory spec) path (projector_entity_args spec (wake_key spec path)))
            (\<lambda>_ w2. (Done (Inr (get_or 0 (w_caught_up w2) path)), w2)) w1)"

end
