(* ===== verification/Asks.thy ===== *)
theory Asks
  imports Projections
begin

text \<open>
  The contexts handlers see and the asks they make (\<open>src/src/context.rs\<close>, the ask port of
  \<open>src/src/kernel.rs\<close>), and the sends from outside the system (\<open>src/src/system.rs\<close>).

  An ask is two turns: opening the lease and delivering the request, and settling it once the reply is
  in, its sender is gone, or the timeout has passed.  Timers are tokio's, not the injected clock's:
  when a timer fires is left open.
\<close>

subsection \<open>Deferred effects of a service handler\<close>

text \<open>The trace of a hop caused by the message being handled.\<close>

definition child_trace :: "msg_view \<Rightarrow> ('st, 'sv, 's) world \<Rightarrow> trace_ctx \<times> ('st, 'sv, 's) world" where
  "child_trace view w =
     (let (tr, g) = trace_caused (w_wall w) (mv_trace view) (w_ids w) in (tr, w\<lparr>w_ids := g\<rparr>))"

definition stop_self :: "outbox \<Rightarrow> outbox" where
  "stop_self = push_stop_self"

type_synonym ('st, 'sv, 's) recording = "outbox \<times> ('st, 'sv, 's) world \<Rightarrow> outbox \<times> ('st, 'sv, 's) world"

definition send_payload ::
  "msg_view \<Rightarrow> address \<Rightarrow> string \<Rightarrow> payload \<Rightarrow> address option \<Rightarrow> ('st, 'sv, 's) recording" where
  "send_payload view dest schema p reply_to = (\<lambda>(ob, w).
     (let (tr, w1) = child_trace view w;
          e = envelope_from (mv_path view) (envelope_raw schema dest p tr);
          e' = (case reply_to of None \<Rightarrow> e | Some a \<Rightarrow> envelope_reply_to a e)
      in (push_send e' ob, w1)))"

definition send_json ::
  "msg_view \<Rightarrow> address \<Rightarrow> string \<Rightarrow> json \<Rightarrow> address option \<Rightarrow> ('st, 'sv, 's) recording" where
  "send_json view dest schema j reply_to = (\<lambda>(ob, w).
     (let (tr, w1) = child_trace view w;
          e = envelope_from (mv_path view) (envelope_raw schema dest (payload_json_view j) tr);
          e' = (case reply_to of None \<Rightarrow> e | Some a \<Rightarrow> envelope_reply_to a e)
      in (push_send e' ob, w1)))"

definition publish_payload :: "msg_view \<Rightarrow> string \<Rightarrow> payload \<Rightarrow> ('st, 'sv, 's) recording" where
  "publish_payload view schema p = (\<lambda>(ob, w).
     (let (tr, w1) = child_trace view w
      in (push_broadcast (envelope_from (mv_path view) (envelope_raw schema (ASchema schema) p tr)) ob, w1)))"

definition publish_json :: "msg_view \<Rightarrow> string \<Rightarrow> json \<Rightarrow> ('st, 'sv, 's) recording" where
  "publish_json view schema j = (\<lambda>(ob, w).
     (let (tr, w1) = child_trace view w
      in (push_broadcast
            (envelope_from (mv_path view) (envelope_raw schema (ASchema schema) (payload_json_view j) tr)) ob, w1)))"

definition reply_payload :: "msg_view \<Rightarrow> string \<Rightarrow> payload \<Rightarrow> ('st, 'sv, 's) recording" where
  "reply_payload view schema p = (\<lambda>(ob, w).
     (case mv_reply_to view of
        None \<Rightarrow> (ob, w)
      | Some to \<Rightarrow> (let (tr, w1) = child_trace view w in (push_reply to schema p tr ob, w1))))"

definition reply_json :: "msg_view \<Rightarrow> string \<Rightarrow> json \<Rightarrow> ('st, 'sv, 's) recording" where
  "reply_json view schema j = (\<lambda>(ob, w).
     (case mv_reply_to view of
        None \<Rightarrow> (ob, w)
      | Some to \<Rightarrow>
          (let (tr, w1) = child_trace view w in (push_reply to schema (payload_json_view j) tr ob, w1))))"

text \<open>The typed verbs: a message moves in as a live value under its type's schema.\<close>

definition ctx_send ::
  "msg_view \<Rightarrow> address \<Rightarrow> string \<Rightarrow> live_value \<Rightarrow> address option \<Rightarrow> ('st, 'sv, 's) recording" where
  "ctx_send view dest schema v reply_to = send_payload view dest schema (payload_value v) reply_to"

definition ctx_send_to_any :: "msg_view \<Rightarrow> string \<Rightarrow> live_value \<Rightarrow> ('st, 'sv, 's) recording" where
  "ctx_send_to_any view schema v = send_payload view (ASchema schema) schema (payload_value v) None"

definition ctx_publish :: "msg_view \<Rightarrow> string \<Rightarrow> live_value \<Rightarrow> ('st, 'sv, 's) recording" where
  "ctx_publish view schema v = publish_payload view schema (payload_value v)"

definition ctx_reply :: "msg_view \<Rightarrow> string \<Rightarrow> live_value \<Rightarrow> ('st, 'sv, 's) recording" where
  "ctx_reply view schema v = reply_payload view schema (payload_value v)"

definition reply_dest :: "msg_view \<Rightarrow> address option" where
  "reply_dest view = mv_reply_to view"

text \<open>
  A delayed self-send: the trace is drawn now, the envelope goes out when the timer fires.  An envelope
  that comes back is dead-lettered.
\<close>

definition schedule_self ::
  "msg_view \<Rightarrow> string \<Rightarrow> live_value \<Rightarrow> ('st, 'sv, 's) world \<Rightarrow> ('st, 'sv, 's) world" where
  "schedule_self view schema v w =
     (let (tr, w1) = child_trace view w
      in snd (spawn_task (ScheduledSend (envelope_from (mv_path view)
           (envelope_raw schema (APath (mv_path view)) (payload_value v) tr))) w1))"

definition fire_scheduled :: "('st, 'sv, 's) host \<Rightarrow> envelope \<Rightarrow> (('st, 'sv, 's) world, unit) act" where
  "fire_scheduled host e = route_or_letter host e ''scheduled self-send to a dead destination''"

subsection \<open>Asks\<close>

datatype ask_error = UnresolvedAt address | UnresolvedNamed string | ReplyTypeError string

definition ask_settled ::
  "nat \<Rightarrow> address \<Rightarrow> ask_outcome \<Rightarrow> trace_ctx \<Rightarrow> ('st, 'sv, 's) world \<Rightarrow> ('st, 'sv, 's) world" where
  "ask_settled lease dest result tr w =
     observe_traced tr (ObAskSettled result tr)
       (w\<lparr>w_ask_facts := w_ask_facts w @ [\<lparr>af_opened = False, af_outcome = Some result, af_dest = dest, af_trace = tr\<rparr>],
          w_replies := reply_cancel lease (w_replies w)\<rparr>)"

text \<open>The lease: expired ones are pruned first, then the fact is recorded under the same lock.\<close>

definition open_lease ::
  "address \<Rightarrow> duration \<Rightarrow> ('st, 'sv, 's) world \<Rightarrow> nat \<times> ('st, 'sv, 's) world" where
  "open_lease dest ttl w =
     (let (tr, w1) = new_trace_root (w\<lparr>w_replies := reply_prune (w_now w) (w_replies w)\<rparr>);
          (lease, w2) = new_id w1
      in (lease, w2\<lparr>w_replies := reply_open lease ttl (w_now w) (w_replies w2),
                    w_ask_facts := w_ask_facts w2 @
                      [\<lparr>af_opened = True, af_outcome = None, af_dest = dest, af_trace = tr\<rparr>]\<rparr>))"

definition observe_opened :: "address \<Rightarrow> ('st, 'sv, 's) world \<Rightarrow> ('st, 'sv, 's) world" where
  "observe_opened dest w =
     (if w_observing w
      then (let (tr, w1) = new_trace_root w in observe (w_now w) (ObAskOpened ''anonymous'' dest tr) w1)
      else w)"

definition deliver_request ::
  "nat \<Rightarrow> nat \<Rightarrow> address \<Rightarrow> string \<Rightarrow> payload \<Rightarrow> ('st, 'sv, 's) world
   \<Rightarrow> (ask_error + nat) \<times> ('st, 'sv, 's) world" where
  "deliver_request ep lease dest schema p w =
     (let (tr, w1) = new_trace_root w;
          e = envelope_reply_to (ASlot lease) (envelope_raw schema dest p tr)
      in case deliver_with_retry ep e w1 of
           (Inr _, w2) \<Rightarrow> (Inr lease, w2)
         | (Inl _, w2) \<Rightarrow>
             (let (tr', w3) = new_trace_root w2 in (Inl (UnresolvedAt dest), ask_settled lease dest AskFailed tr' w3)))"

definition ask_channel ::
  "address \<Rightarrow> string \<Rightarrow> payload \<Rightarrow> duration \<Rightarrow> (('st, 'sv, 's) world, ask_error + nat) act" where
  "ask_channel dest schema p ttl w =
     (case dest of
        APath path \<Rightarrow>
          (case lookup path (w_registry w) of
             Panicked m \<Rightarrow> (Panicked m, w)
           | Done info \<Rightarrow>
               if map_option ei_kind info = Some EventSourced
               then (Done (Inl (UnresolvedNamed
                       ''event-sourced actors do not answer asks -- listen for the fact'')), w)
               else case resolve path (w_registry w) of
                      None \<Rightarrow> (Done (Inl (UnresolvedAt dest)), w)
                    | Some ep \<Rightarrow>
                        (let (lease, w1) = open_lease dest ttl w;
                             (answer, w2) = deliver_request ep lease dest schema p (observe_opened dest w1)
                         in (Done answer, w2)))
      | _ \<Rightarrow> (Done (Inl (UnresolvedAt dest)), w))"

text \<open>
  The wait: \<open>None\<close> while nothing has come and the timeout has not passed.  A reply that is in wins over
  a timeout.
\<close>

definition ask_wait ::
  "nat \<Rightarrow> address \<Rightarrow> trace_ctx \<Rightarrow> bool \<Rightarrow> ('st, 'sv, 's) world
   \<Rightarrow> (ask_error + payload) option \<times> ('st, 'sv, 's) world" where
  "ask_wait lease dest tr elapsed w =
     (case chan_of (w_replies w) lease of
        Some (Delivered p) \<Rightarrow> (Some (Inr p), ask_settled lease dest AskReplied tr w)
      | Some SenderDropped \<Rightarrow> (Some (Inl (UnresolvedAt dest)), ask_settled lease dest AskFailed tr w)
      | _ \<Rightarrow>
          if elapsed
          then (Some (Inl (UnresolvedAt dest)),
                (let w1 = ask_settled lease dest AskTimeout tr w
                 in w1\<lparr>w_replies := asker_gone lease (w_replies w1)\<rparr>))
          else (None, w))"

text \<open>An error of the port is wrapped: the asker sees the destination.\<close>

definition ask_begin ::
  "address \<Rightarrow> string \<Rightarrow> payload \<Rightarrow> duration \<Rightarrow> trace_ctx \<Rightarrow> (('st, 'sv, 's) world, ask_error + nat) act" where
  "ask_begin dest schema p ttl tr =
     act_bind (ask_channel dest schema p ttl)
       (\<lambda>answer. case answer of
          Inl _ \<Rightarrow> act_ret (Inl (UnresolvedAt dest))
        | Inr lease \<Rightarrow> act_bind (act_do (\<lambda>w. snd (spawn_task (AskWait lease dest tr) w))) (\<lambda>_. act_ret (Inr lease)))"

definition downcast_reply ::
  "serde \<Rightarrow> string \<Rightarrow> string \<Rightarrow> (json \<Rightarrow> live_value option) \<Rightarrow> payload \<Rightarrow> ask_error + live_value" where
  "downcast_reply sd schema ty decode p =
     (case downcast sd ty decode (payload_inner p) of
        None \<Rightarrow> Inl (ReplyTypeError (''reply is not a '' @ schema))
      | Some v \<Rightarrow> Inr v)"

definition reply_as_json :: "serde \<Rightarrow> ask_error + payload \<Rightarrow> ask_error + json" where
  "reply_as_json sd r = map_sum id (payload_json sd) r"

subsection \<open>Sends from outside\<close>

definition tell ::
  "('st, 'sv, 's) host \<Rightarrow> string \<Rightarrow> string \<Rightarrow> live_value \<Rightarrow> (('st, 'sv, 's) world, envelope + string) act" where
  "tell host dest schema v w =
     (let (tr, w1) = new_trace_root w in route host (envelope_raw schema (APath dest) (payload_value v) tr) w1)"

definition send_to_any ::
  "('st, 'sv, 's) host \<Rightarrow> string \<Rightarrow> live_value \<Rightarrow> (('st, 'sv, 's) world, envelope + string) act" where
  "send_to_any host schema v w =
     (let (tr, w1) = new_trace_root w in route host (envelope_raw schema (ASchema schema) (payload_value v) tr) w1)"

definition system_ask ::
  "string \<Rightarrow> string \<Rightarrow> live_value \<Rightarrow> duration \<Rightarrow> (('st, 'sv, 's) world, ask_error + nat) act" where
  "system_ask dest schema v ttl w =
     (let (tr, w1) = new_trace_root w in ask_begin (APath dest) schema (payload_value v) ttl tr w1)"

definition publish_value ::
  "('st, 'sv, 's) host \<Rightarrow> string \<Rightarrow> json \<Rightarrow> (('st, 'sv, 's) world, unit) act" where
  "publish_value host schema j w =
     (let (tr, w1) = new_trace_root w
      in case from_bytes_wrapped (ho_serde host) schema (ASchema schema) j tr of
           Panicked m \<Rightarrow> (Panicked m, w1)
         | Done e \<Rightarrow> broadcast host schema e w1)"

definition deliver_schema_value ::
  "('st, 'sv, 's) host \<Rightarrow> string \<Rightarrow> json \<Rightarrow> (('st, 'sv, 's) world, unit) act" where
  "deliver_schema_value host schema j w =
     (if map_option sch_kind (schema_of (w_registry w) schema) = Some Event then publish_value host schema j w
      else
        (let (target, r) = route_schema schema (w_registry w);
             w1 = w\<lparr>w_registry := r\<rparr>
         in case target of
              None \<Rightarrow> (Done (), w1)
            | Some path \<Rightarrow>
                (let (tr, w2) = new_trace_root w1
                 in case from_bytes_wrapped (ho_serde host) schema (APath path) j tr of
                      Panicked m \<Rightarrow> (Panicked m, w2)
                    | Done e \<Rightarrow> act_bind (route host e) (\<lambda>_. act_ret ()) w2)))"

definition system_envelope ::
  "serde \<Rightarrow> string \<Rightarrow> string \<Rightarrow> json \<Rightarrow> ('st, 'sv, 's) world \<Rightarrow> envelope outcome \<times> ('st, 'sv, 's) world" where
  "system_envelope sd schema dest j w =
     (let (tr, w1) = new_trace_root w in (from_bytes_wrapped sd schema (APath dest) j tr, w1))"

end
