(* ===== verification/Tasks.thy ===== *)
theory Tasks
  imports Asks
begin

text \<open>
  The tasks of a running system (\<open>src/src/kernel.rs\<close>, \<open>src/src/system.rs\<close>): one turn of each kind of task, the
  supervision engine, and the step relation of the whole system, which interleaves turns with calls from
  outside.

  A task is suspended only where the code awaits something that may not be ready: an empty channel, a full
  inbox, the idle tail, a crash signal, a backoff sleep, an actor's constructor.  The code between two such
  points is one turn; a passivation's drain takes one turn per step.  A turn that ends its task answers
  \<open>None\<close>; a panic ends the task as well.
\<close>

subsection \<open>Loops\<close>

text \<open>
  Waking from the idle tail: mail, a changed or orphaned watch, or a duty that is due.  The permit is taken
  whichever woke the loop; the step that follows looks at the inbox anyway.
\<close>

definition loop_wakes :: "es_loop \<Rightarrow> nat \<Rightarrow> ('st, 'sv, 's) world \<Rightarrow> bool" where
  "loop_wakes lp watch w \<longleftrightarrow>
     (let ce = w_cell_heap w (lo_cell lp)
      in ce_work ce \<or> w_watch_heap w watch \<noteq> WatchOpen False \<or>
         (case next_duty_due_ms ce of None \<Rightarrow> False | Some due \<Rightarrow> due \<le> as_millis (w_now w)))"

definition take_permit :: "es_loop \<Rightarrow> ('st, 'sv, 's) world \<Rightarrow> ('st, 'sv, 's) world" where
  "take_permit lp = on_cell (lo_cell lp) (\<lambda>ce. ce\<lparr>ce_work := False\<rparr>)"

type_synonym ('st, 'sv, 's) loop_turn = "(('st, 'sv, 's) world, (es_loop \<times> loop_phase) option) act"

definition end_loop :: "es_loop \<Rightarrow> ('st, 'sv, 's) loop_turn" where
  "end_loop lp w = (Done None, drain_inbox_on_stop lp w)"

text \<open>The idle tail: parked, or the door closed for a passivation.\<close>

definition idle_tail :: "es_loop \<Rightarrow> ('st, 'sv, 's) loop_turn" where
  "idle_tail lp w =
     (if passivation_due lp w then (Done (Some (lp, LoopDraining)), close_door lp w)
      else (Done (Some (lp, LoopParked)), w))"

text \<open>The phases both tiers share, given the tier's own step and idle checks.\<close>

definition running_turn ::
  "('st, 'sv, 's) host \<Rightarrow> es_loop \<Rightarrow> nat \<Rightarrow> (('st, 'sv, 's) world, step) act \<Rightarrow> ('st, 'sv, 's) loop_turn
   \<Rightarrow> ('st, 'sv, 's) loop_turn" where
  "running_turn host lp watch step_act idle w =
     (if watch_value (w_watch_heap w watch) then end_loop lp w
      else act_bind step_act
        (\<lambda>st. case st of
           StWork \<Rightarrow> act_bind (act_do (stamp_work lp)) (\<lambda>_. act_ret (Some (lp, LoopRunning)))
         | StIdle \<Rightarrow> idle
         | StCrashed \<Rightarrow> end_loop lp
         | StStop \<Rightarrow> act_bind (graceful_exit host lp StopNormal) (\<lambda>_. end_loop lp)) w)"

definition parked_turn :: "es_loop \<Rightarrow> nat \<Rightarrow> ('st, 'sv, 's) loop_turn" where
  "parked_turn lp watch w =
     (if loop_wakes lp watch w then (Done (Some (lp, LoopRunning)), take_permit lp w)
      else (Done (Some (lp, LoopParked)), w))"

definition draining_turn :: "('st, 'sv, 's) host \<Rightarrow> es_loop \<Rightarrow> ('st, 'sv, 's) loop_turn" where
  "draining_turn host lp =
     act_bind (drain_round host lp)
       (\<lambda>over. if \<not> over then act_ret (Some (lp, LoopDraining))
               else act_bind (finish_passivation host lp) (\<lambda>_. end_loop lp))"

fun es_turn :: "('st, 'sv, 's) host \<Rightarrow> es_loop \<Rightarrow> nat \<Rightarrow> loop_phase \<Rightarrow> ('st, 'sv, 's) loop_turn" where
  "es_turn host lp watch LoopBoot =
     act_bind (recover_at_boot host lp)
       (\<lambda>lp'. act_bind (announce_lifecycle host (lo_path lp) LcRunning EventSourced)
         (\<lambda>_. act_ret (Some (lp', LoopRunning))))"
| "es_turn host lp watch LoopRunning =
     running_turn host lp watch (step_es host lp)
       (act_bind (maybe_snapshot_on_idle host lp) (\<lambda>_. idle_tail lp))"
| "es_turn host lp watch LoopParked = parked_turn lp watch"
| "es_turn host lp watch LoopDraining = draining_turn host lp"

fun service_turn :: "('st, 'sv, 's) host \<Rightarrow> es_loop \<Rightarrow> nat \<Rightarrow> loop_phase \<Rightarrow> ('st, 'sv, 's) loop_turn" where
  "service_turn host lp watch LoopBoot =
     act_bind (announce_lifecycle host (lo_path lp) LcRunning Service) (\<lambda>_. act_ret (Some (lp, LoopRunning)))"
| "service_turn host lp watch LoopRunning = running_turn host lp watch (step_service host lp) (idle_tail lp)"
| "service_turn host lp watch LoopParked = parked_turn lp watch"
| "service_turn host lp watch LoopDraining = draining_turn host lp"

text \<open>The start of a service: its constructor, then its door, its loop and the handle.\<close>

definition put_instance :: "es_loop \<Rightarrow> registry_error + 'sv \<Rightarrow> ('st, 'sv, 's) world \<Rightarrow> ('st, 'sv, 's) world" where
  "put_instance lp answer w =
     (case answer of
        Inl err \<Rightarrow> on_cell (lo_cell lp) mark_crashed w
      | Inr sv \<Rightarrow>
          (let i = w_next w
           in put_service i sv (w\<lparr>w_next := Suc i, w_services := AList.update (lo_path lp) i (w_services w)\<rparr>)))"

definition start_service_loop :: "es_loop \<Rightarrow> nat \<Rightarrow> ('st, 'sv, 's) world \<Rightarrow> ('st, 'sv, 's) world" where
  "start_service_loop lp ep w =
     (let (watch, w1) = new_watch w;
          (_, w2) = spawn_task (DoorTask ep DoorReady) w1;
          (task, w3) = spawn_task (ServiceTask lp watch LoopBoot) w2
      in store_handle (lo_path lp) \<lparr>ah_shutdown = watch, ah_task = task\<rparr> w3)"

definition service_start ::
  "('st, 'sv, 's) host \<Rightarrow> es_loop \<Rightarrow> nat \<Rightarrow> nat \<Rightarrow> json \<Rightarrow> (('st, 'sv, 's) world, unit) act" where
  "service_start host lp ep init args =
     act_bind (ho_init host init args)
       (\<lambda>answer. act_do (\<lambda>w. start_service_loop lp ep (put_instance lp answer w)))"

subsection \<open>Supervision\<close>

definition escalate ::
  "('st, 'sv, 's) host \<Rightarrow> (64 word) actor_spec \<Rightarrow> string \<Rightarrow> stop_reason \<Rightarrow> (('st, 'sv, 's) world, unit) act" where
  "escalate host sp reason stop w =
     act_bind (announce_lifecycle host (sp_path sp) (lifecycle_of stop) (actor_tier w (sp_path sp)))
       (\<lambda>_ w1.
          (let w2 = (case map_of (w_cells w1) (sp_path sp) of None \<Rightarrow> w1 | Some c \<Rightarrow> on_cell c clear_crashed w1);
               w3 = observe (w_now w2) (ObEscalated (sp_path sp) reason) (observe (w_now w2) (ObStopped (sp_path sp) stop) w2);
               w4 = w3\<lparr>w_registry := snd (remove_slot (sp_path sp) (w_registry w3)),
                       w_es_state := AList.delete (sp_path sp) (w_es_state w3)\<rparr>
           in case sp_parent sp of
                None \<Rightarrow> (Done (), w4)
              | Some parent \<Rightarrow>
                  (let (tr, w5) = new_trace_root w4
                   in case from_bytes_wrapped (ho_serde host) ''Escalated'' (APath parent) (escalation_message sp reason) tr of
                        Panicked m \<Rightarrow> (Panicked m, w5)
                      | Done e \<Rightarrow> act_bind (route host e) (\<lambda>_. act_ret ()) w5))) w"

text \<open>The budget: the failure is recorded first, then the pruned window is asked.\<close>

definition record_failure :: "(64 word) actor_spec \<Rightarrow> ('st, 'sv, 's) world \<Rightarrow> bool \<times> ('st, 'sv, 's) world" where
  "record_failure sp w =
     (let now = as_millis (w_now w);
          window = fw_prune now (sp_budget sp) (fw_record now (get_or fw_new (w_failures w) (sp_path sp)))
      in (fw_exhausted now (sp_budget sp) window,
          w\<lparr>w_failures := AList.update (sp_path sp) window (w_failures w)\<rparr>))"

definition backoff_for :: "('st, 'sv, 's) host \<Rightarrow> (64 word) actor_spec \<Rightarrow> ('st, 'sv, 's) world \<Rightarrow> duration" where
  "backoff_for host sp w =
     backoff_delay (ho_f64 host) (sp_backoff sp)
       (case map_of (w_failures w) (sp_path sp) of
          None \<Rightarrow> 1
        | Some window \<Rightarrow> fw_count (as_millis (w_now w)) (sp_budget sp) window mod 2 ^ 32)"

definition restart_loop_of :: "(64 word) actor_spec \<Rightarrow> nat \<Rightarrow> ('st, 'sv, 's) world \<Rightarrow> es_loop" where
  "restart_loop_of sp c w =
     \<lparr>lo_path = sp_path sp, lo_cell = c, lo_is_projector = False, lo_state = map_of (w_es_state w) (sp_path sp)\<rparr>"

text \<open>The restart after the backoff: by replay for a child with state, by its spawn closure otherwise.\<close>

definition restart_child ::
  "('st, 'sv, 's) host \<Rightarrow> (64 word) actor_spec \<Rightarrow> nat option \<Rightarrow> (('st, 'sv, 's) world, nat option) act" where
  "restart_child host sp cell w =
     (if has_key (w_es_state w) (sp_path sp)
      then case map_of (w_cells w) (sp_path sp) of
             None \<Rightarrow> (Panicked ''crashed ES child keeps its cell for redelivery'', w)
           | Some c \<Rightarrow>
               act_bind (restart_es host (restart_loop_of sp c w) (get_or (JObj []) (w_genesis_args w) (sp_path sp)))
                 (\<lambda>r. case r of
                    Inl err \<Rightarrow> act_panic ''supervised ES child restart''
                  | Inr _ \<Rightarrow> act_ret cell) w
      else
        act_bind (ho_factory host (sp_spawn sp) (sp_path sp) (sp_args sp))
          (\<lambda>_ w1. case map_of (w_cells w1) (sp_path sp) of
             None \<Rightarrow> (Done None, w1)
           | Some c \<Rightarrow> (Done (Some c), on_cell c clear_crashed w1))
          (w\<lparr>w_registry := snd (remove_slot (sp_path sp) (w_registry w))\<rparr>))"

definition crash_seen ::
  "('st, 'sv, 's) host \<Rightarrow> (64 word) actor_spec \<Rightarrow> nat option \<Rightarrow> (('st, 'sv, 's) world, (nat option \<times> engine_phase) option) act" where
  "crash_seen host sp cell w =
     (if sp_restart sp = Never
      then act_bind (escalate host sp ''policy Never (crashed)'' StopCrashed) (\<lambda>_. act_ret None) w
      else
        (let (exhausted, w1) = record_failure sp w
         in if exhausted
            then act_bind (escalate host sp ''restart budget exhausted'' StopEscalated) (\<lambda>_. act_ret None) w1
            else (Done (Some (cell, EngineBackoff)), w1)))"

fun engine_turn ::
  "('st, 'sv, 's) host \<Rightarrow> (64 word) actor_spec \<Rightarrow> nat option \<Rightarrow> nat \<Rightarrow> engine_phase
   \<Rightarrow> (('st, 'sv, 's) world, (nat option \<times> engine_phase) option) act" where
  "engine_turn host sp cell watch EngineWaiting w =
     (if watch_value (w_watch_heap w watch) then (Done None, w)
      else case cell of
             None \<Rightarrow> (Done (Some (cell, EngineWaiting)), w)
           | Some c \<Rightarrow>
               if ce_crashed (w_cell_heap w c) then crash_seen host sp cell w
               else (Done (Some (cell, EngineWaiting)), w))"
| "engine_turn host sp cell watch EngineBackoff w =
     (if watch_value (w_watch_heap w watch) then (Done None, w)
      else act_bind (restart_child host sp cell) (\<lambda>cell'. act_ret (Some (cell', EngineWaiting))) w)"

text \<open>Spawning a supervised child.\<close>

definition spawn_supervised ::
  "('st, 'sv, 's) host \<Rightarrow> (64 word) actor_spec \<Rightarrow> (('st, 'sv, 's) world, unit) act" where
  "spawn_supervised host sp w =
     act_bind (ho_factory host (sp_spawn sp) (sp_path sp) (sp_args sp))
       (\<lambda>_ w1.
          (let cell = map_of (w_cells w1) (sp_path sp);
               (watch, w2) = new_watch w1;
               w3 = w2\<lparr>w_engines := w_engines w2 @ [watch]\<rparr>
           in (Done (), snd (spawn_task (EngineTask sp cell watch EngineWaiting) w3))))
       (w\<lparr>w_specs := AList.update (sp_path sp) sp (w_specs w),
          w_failures := AList.update (sp_path sp) fw_new (w_failures w)\<rparr>)"

definition shutdown_engines :: "('st, 'sv, 's) world \<Rightarrow> ('st, 'sv, 's) world" where
  "shutdown_engines w =
     fold (\<lambda>i. on_watch i (watch_drop_sender \<circ> watch_send True)) (w_engines w) (w\<lparr>w_engines := []\<rparr>)"

subsection \<open>Running a task\<close>

text \<open>A door that panics drops its receiver: the channel closes and what it held is gone.\<close>

definition door_died :: "nat \<Rightarrow> ('st, 'sv, 's) world \<Rightarrow> ('st, 'sv, 's) world" where
  "door_died ep = on_endpoint ep (\<lambda>x. x\<lparr>ep_queue := [], ep_closed := True\<rparr>)"

text \<open>The kick of a service builder; an envelope that comes back is dropped.\<close>

definition fire_kickoff ::
  "('st, 'sv, 's) host \<Rightarrow> string \<Rightarrow> string \<Rightarrow> payload \<Rightarrow> (('st, 'sv, 's) world, unit) act" where
  "fire_kickoff host dest schema p w =
     (let (tr, w1) = new_trace_root w
      in act_bind (route host (envelope_from dest (envelope_raw schema (APath dest) p tr))) (\<lambda>_. act_ret ()) w1)"

fun task_turn :: "('st, 'sv, 's) host \<Rightarrow> task \<Rightarrow> (('st, 'sv, 's) world, task option) act" where
  "task_turn host (DoorTask ep d) = act_bind (door_step ep d) (\<lambda>d'. act_ret (Some (DoorTask ep d')))"
| "task_turn host (EsTask lp watch ph) =
     act_bind (es_turn host lp watch ph) (\<lambda>r. act_ret (map_option (\<lambda>(lp', ph'). EsTask lp' watch ph') r))"
| "task_turn host (ServiceStart lp ep init args) = act_bind (service_start host lp ep init args) (\<lambda>_. act_ret None)"
| "task_turn host (ServiceTask lp watch ph) =
     act_bind (service_turn host lp watch ph) (\<lambda>r. act_ret (map_option (\<lambda>(lp', ph'). ServiceTask lp' watch ph') r))"
| "task_turn host (EngineTask sp cell watch ph) =
     act_bind (engine_turn host sp cell watch ph)
       (\<lambda>r. act_ret (map_option (\<lambda>(cell', ph'). EngineTask sp cell' watch ph') r))"
| "task_turn host (CatchUpTask lp ep consumed) =
     act_bind (catch_up_projector host \<lparr>ar_loop = lp, ar_endpoint = ep\<rparr> consumed) (\<lambda>_. act_ret None)"
| "task_turn host (ScheduledSend e) = act_bind (fire_scheduled host e) (\<lambda>_. act_ret None)"
| "task_turn host (KickoffSend dest schema p) = act_bind (fire_kickoff host dest schema p) (\<lambda>_. act_ret None)"
| "task_turn host (AskWait lease dest tr) = (\<lambda>w.
     (case ask_wait lease dest tr False w of
        (None, w1) \<Rightarrow> (Done (Some (AskWait lease dest tr)), w1)
      | (Some _, w1) \<Rightarrow> (Done None, w1)))"

definition set_task :: "nat \<Rightarrow> task option \<Rightarrow> ('st, 'sv, 's) world \<Rightarrow> ('st, 'sv, 's) world" where
  "set_task i t w =
     w\<lparr>w_tasks := (case t of None \<Rightarrow> AList.delete i (w_tasks w) | Some t' \<Rightarrow> AList.update i t' (w_tasks w))\<rparr>"

definition task_died :: "task \<Rightarrow> ('st, 'sv, 's) world \<Rightarrow> ('st, 'sv, 's) world" where
  "task_died t w = (case t of DoorTask ep d \<Rightarrow> door_died ep w | _ \<Rightarrow> w)"

definition run_task :: "('st, 'sv, 's) host \<Rightarrow> nat \<Rightarrow> ('st, 'sv, 's) world \<Rightarrow> ('st, 'sv, 's) world" where
  "run_task host i w =
     (case map_of (w_tasks w) i of
        None \<Rightarrow> w
      | Some t \<Rightarrow>
          (case task_turn host t w of
             (Done t', w') \<Rightarrow> set_task i t' w'
           | (Panicked m, w') \<Rightarrow> set_task i None (task_died t w')))"

text \<open>An ask whose timeout has passed.\<close>

definition time_out_ask :: "nat \<Rightarrow> ('st, 'sv, 's) world \<Rightarrow> ('st, 'sv, 's) world" where
  "time_out_ask i w =
     (case map_of (w_tasks w) i of
        Some (AskWait lease dest tr) \<Rightarrow> set_task i None (snd (ask_wait lease dest tr True w))
      | _ \<Rightarrow> w)"

subsection \<open>Stopping from outside\<close>

definition stop_children :: "string \<Rightarrow> ('st, 'sv, 's) world \<Rightarrow> string list" where
  "stop_children path w = map sp_path (filter (\<lambda>sp. sp_parent sp = Some path) (map snd (w_specs w)))"

text \<open>Taking the handle of a cell: the loop is told, and the sender goes with the handle.\<close>

definition take_handle :: "nat \<Rightarrow> ('st, 'sv, 's) world \<Rightarrow> nat option \<times> ('st, 'sv, 's) world" where
  "take_handle c w =
     (case ce_handle (w_cell_heap w c) of
        None \<Rightarrow> (None, w)
      | Some h \<Rightarrow>
          (Some (ah_task h),
           on_cell c (\<lambda>ce. ce\<lparr>ce_handle := None\<rparr>)
             (on_watch (ah_shutdown h) (watch_drop_sender \<circ> watch_send True) w)))"

text \<open>The signal: \<open>None\<close> without a cell, else the task to join, if there is one.\<close>

definition stop_signal :: "string \<Rightarrow> ('st, 'sv, 's) world \<Rightarrow> nat option option \<times> ('st, 'sv, 's) world" where
  "stop_signal path w =
     (case map_of (w_cells w) path of
        None \<Rightarrow> (None, w)
      | Some c \<Rightarrow> (let (join, w1) = take_handle c w in (Some join, w1)))"

text \<open>After the join: the hook when the loop finished in time, none when it was aborted.\<close>

definition stop_hook :: "('st, 'sv, 's) host \<Rightarrow> string \<Rightarrow> (('st, 'sv, 's) world, unit) act" where
  "stop_hook host path w =
     (case map_of (w_cells w) path of
        None \<Rightarrow> (Done (), w)
      | Some c \<Rightarrow>
          (let (claimed, ce) = claim_on_stop (w_cell_heap w c);
               w1 = on_cell c (\<lambda>_. ce) w
           in if claimed
              then run_on_stop host
                     \<lparr>lo_path = path, lo_cell = c, lo_is_projector = path \<in> set (w_projectors w1), lo_state = None\<rparr> w1
              else (Done (), w1)))"

datatype join_result = NothingToJoin | JoinedLoop | AbortedLoop nat

definition stop_finish ::
  "('st, 'sv, 's) host \<Rightarrow> string \<Rightarrow> join_result \<Rightarrow> (('st, 'sv, 's) world, unit) act" where
  "stop_finish host path joined =
     act_bind (case joined of
         JoinedLoop \<Rightarrow> stop_hook host path
       | AbortedLoop i \<Rightarrow> act_do (set_task i None)
       | NothingToJoin \<Rightarrow> act_ret ())
       (\<lambda>_. teardown_tables host path StopNormal)"

subsection \<open>The shutdown sweep\<close>

fun signal_cells :: "(string \<times> nat) list \<Rightarrow> ('st, 'sv, 's) world \<Rightarrow> (string \<times> nat) list \<times> ('st, 'sv, 's) world" where
  "signal_cells [] w = ([], w)"
| "signal_cells ((path, c) # cs) w =
     (let (join, w1) = take_handle c w; (rest, w2) = signal_cells cs w1
      in ((case join of None \<Rightarrow> rest | Some task \<Rightarrow> (path, task) # rest), w2))"

text \<open>The barrier, and the loops to join.\<close>

definition shutdown_begin :: "('st, 'sv, 's) world \<Rightarrow> (string \<times> nat) list \<times> ('st, 'sv, 's) world" where
  "shutdown_begin w = (let w1 = shutdown_engines (w\<lparr>w_shutting_down := True\<rparr>) in signal_cells (w_cells w1) w1)"

text \<open>After the joins, or the deadline: the tables of every signalled path, the store, the engines' senders.\<close>

definition drop_engine_senders :: "('st, 'sv, 's) world \<Rightarrow> ('st, 'sv, 's) world" where
  "drop_engine_senders w = fold (\<lambda>i. on_watch i watch_drop_sender) (w_engines w) (w\<lparr>w_engines := []\<rparr>)"

definition shutdown_finish :: "('st, 'sv, 's) host \<Rightarrow> string list \<Rightarrow> (('st, 'sv, 's) world, unit) act" where
  "shutdown_finish host paths =
     act_bind (act_each (\<lambda>path. teardown_tables host path StopShutdown) paths)
       (\<lambda>_. act_do (\<lambda>w. drop_engine_senders (w\<lparr>w_store := snd (jo_flush (ho_store host) (w_store w))\<rparr>)))"

subsection \<open>Declared emits\<close>

text \<open>The manifest and the cell's mirror.\<close>

definition declare_emits ::
  "string \<Rightarrow> string \<Rightarrow> ('st, 'sv, 's) world \<Rightarrow> (registry_error + unit) \<times> ('st, 'sv, 's) world" where
  "declare_emits path schema w =
     (case reg_declare_emits path schema (w_registry w) of
        (Inl err, r) \<Rightarrow> (Inl err, w)
      | (Inr _, r) \<Rightarrow>
          (let w1 = w\<lparr>w_registry := r\<rparr>
           in (Inr (),
               case map_of (w_cells w1) path of
                 None \<Rightarrow> w1
               | Some c \<Rightarrow> on_cell c (\<lambda>ce. ce\<lparr>ce_declared_emits := push_unique schema (ce_declared_emits ce)\<rparr>) w1)))"

text \<open>The restart from outside.\<close>

definition restart_es_at ::
  "('st, 'sv, 's) host \<Rightarrow> string \<Rightarrow> json \<Rightarrow> (('st, 'sv, 's) world, journal_error + unit) act" where
  "restart_es_at host path args w =
     (case map_of (w_cells w) path of
        None \<Rightarrow> (Done (Inl RestoreError), w)
      | Some c \<Rightarrow>
          restart_es host
            \<lparr>lo_path = path, lo_cell = c, lo_is_projector = path \<in> set (w_projectors w), lo_state = None\<rparr> args w)"

end
