(* ===== verification/Builders.thy ===== *)
theory Builders
  imports Tasks
begin

text \<open>
  The declarative spawn surface (\<open>src/src/builder.rs\<close>): the event-sourced, service, foreign and
  projector builders over the erased spawns of \<open>Lifecycle\<close>.

  A builder is a record of what was declared; a declaration that registers a schema is a step over the
  world.  A Rust type is known by its descriptor and its type id, an adapter or a constructor by the
  number the host resolves.
\<close>

record rust_schema =
  rs_def :: schema_def
  rs_type :: string

definition rs_name :: "rust_schema \<Rightarrow> string" where
  "rs_name rs = sch_name (rs_def rs)"

text \<open>\<open>register_schema\<close>: the claim decides, the first descriptor of a name stays.\<close>

definition sys_register :: "rust_schema \<Rightarrow> (('st, 'sv, 's) world, unit) act" where
  "sys_register rs w =
     (let (answer, t, claims) = table_register_typed (rs_def rs) (rs_type rs) (rg_schemas (w_registry w)) (w_claims w);
          w1 = w\<lparr>w_registry := (w_registry w)\<lparr>rg_schemas := t\<rparr>, w_claims := claims\<rparr>
      in case answer of
           Inl err \<Rightarrow> (Panicked ''schema TypeId claim: one Rust type per schema name'', w1)
         | Inr _ \<Rightarrow> (Done (), w1))"

definition sys_register_json ::
  "serde \<Rightarrow> json \<Rightarrow> ('st, 'sv, 's) world \<Rightarrow> (schema_error + string) \<times> ('st, 'sv, 's) world" where
  "sys_register_json sd j w =
     (let (answer, t) = table_register_json sd j (rg_schemas (w_registry w))
      in (answer, w\<lparr>w_registry := (w_registry w)\<lparr>rg_schemas := t\<rparr>\<rparr>))"

subsection \<open>The event-sourced builder\<close>

record 'st es_builder =
  eb_path :: "string option"
  eb_args :: json
  eb_entries :: "'st command_entry list"
  eb_emits :: "string list"
  eb_opts :: spawn_opts

definition spawn_es_builder :: "'st es_builder" where
  "spawn_es_builder = \<lparr>eb_path = None, eb_args = JNull, eb_entries = [], eb_emits = [], eb_opts = default_opts\<rparr>"

definition eb_at :: "string \<Rightarrow> 'st es_builder \<Rightarrow> 'st es_builder" where
  "eb_at path b = b\<lparr>eb_path := Some path\<rparr>"

definition eb_with_args :: "json \<Rightarrow> 'st es_builder \<Rightarrow> 'st es_builder" where
  "eb_with_args args b = b\<lparr>eb_args := args\<rparr>"

definition typed_adapter ::
  "rust_schema \<Rightarrow> (json \<Rightarrow> live_value option) \<Rightarrow> (live_value \<Rightarrow> 'st \<Rightarrow> cmd_ctx \<Rightarrow> event list outcome) \<Rightarrow> 'st command_entry" where
  "typed_adapter rs decode handle =
     TypedEntry \<lparr>te_schema = rs_name rs, te_type = rs_type rs, te_decode = decode, te_handle = handle\<rparr>"

definition eb_handles ::
  "rust_schema \<Rightarrow> (json \<Rightarrow> live_value option) \<Rightarrow> (live_value \<Rightarrow> 'st \<Rightarrow> cmd_ctx \<Rightarrow> event list outcome)
   \<Rightarrow> 'st es_builder \<Rightarrow> (('st, 'sv, 's) world, 'st es_builder) act" where
  "eb_handles rs decode handle b =
     act_bind (sys_register rs)
       (\<lambda>_. act_ret (if list_ex (\<lambda>e. entry_schema e = rs_name rs) (eb_entries b) then b
                     else b\<lparr>eb_entries := eb_entries b @ [typed_adapter rs decode handle]\<rparr>))"

definition eb_emits_schema :: "rust_schema \<Rightarrow> 'st es_builder \<Rightarrow> (('st, 'sv, 's) world, 'st es_builder) act" where
  "eb_emits_schema rs b =
     act_bind (sys_register rs) (\<lambda>_. act_ret (b\<lparr>eb_emits := push_unique (rs_name rs) (eb_emits b)\<rparr>))"

definition eb_snapshot :: "snapshot_cadence \<Rightarrow> 'st es_builder \<Rightarrow> 'st es_builder" where
  "eb_snapshot cadence b = b\<lparr>eb_opts := (eb_opts b)\<lparr>so_snapshot := cadence\<rparr>\<rparr>"

definition eb_mailbox :: "nat \<Rightarrow> overload_policy \<Rightarrow> 'st es_builder \<Rightarrow> 'st es_builder" where
  "eb_mailbox capacity policy b =
     b\<lparr>eb_opts := (eb_opts b)\<lparr>so_mailbox_capacity := capacity, so_mailbox_policy := policy\<rparr>\<rparr>"

definition eb_mailbox_unbounded :: "'st es_builder \<Rightarrow> 'st es_builder" where
  "eb_mailbox_unbounded b = b\<lparr>eb_opts := (eb_opts b)\<lparr>so_mailbox_policy := Unbounded\<rparr>\<rparr>"

definition eb_batch :: "nat \<Rightarrow> 'st es_builder \<Rightarrow> 'st es_builder" where
  "eb_batch n b = b\<lparr>eb_opts := (eb_opts b)\<lparr>so_batch := n\<rparr>\<rparr>"

definition eb_high_watermark :: "nat \<Rightarrow> 'st es_builder \<Rightarrow> 'st es_builder" where
  "eb_high_watermark depth b = b\<lparr>eb_opts := (eb_opts b)\<lparr>so_high_watermark := Some depth\<rparr>\<rparr>"

definition eb_passivate_after :: "duration \<Rightarrow> 'st es_builder \<Rightarrow> 'st es_builder" where
  "eb_passivate_after idle_for b = b\<lparr>eb_opts := (eb_opts b)\<lparr>so_passivation := Some idle_for\<rparr>\<rparr>"

text \<open>The declared edges merged over the actor's own manifest.\<close>

definition merged_manifest :: "actor_manifest \<Rightarrow> string list \<Rightarrow> string list \<Rightarrow> actor_kind \<Rightarrow> actor_manifest" where
  "merged_manifest own handled emitted kind =
     manifest_kind kind (fold emits_id emitted (fold handles_id handled own))"

definition eb_start ::
  "actor_manifest \<Rightarrow> 'st es_code \<Rightarrow> 'st es_builder \<Rightarrow> (('st, 'sv, 's) world, string) act" where
  "eb_start own code b =
     (case eb_path b of
        None \<Rightarrow> act_panic ''builder requires .at(path)''
      | Some path \<Rightarrow>
          act_bind (spawn_es_erased path
              (merged_manifest own (map entry_schema (eb_entries b)) (eb_emits b) EventSourced)
              \<lparr>dy_shell = TypedEs (ec_restore code (eb_args b)), dy_code = code\<rparr> (eb_entries b) (eb_opts b) (eb_args b))
            (\<lambda>_. act_ret path))"

subsection \<open>The service builder\<close>

record service_builder =
  sb_path :: "string option"
  sb_args :: json
  sb_init :: nat
  sb_init_override :: "nat option"
  sb_entries :: "(string \<times> nat) list"
  sb_emits :: "string list"
  sb_opts :: spawn_opts
  sb_kickoff :: "(string \<times> payload) option"

definition spawn_service_builder :: "nat \<Rightarrow> service_builder" where
  "spawn_service_builder init =
     \<lparr>sb_path = None, sb_args = JNull, sb_init = init, sb_init_override = None, sb_entries = [], sb_emits = [],
      sb_opts = default_opts, sb_kickoff = None\<rparr>"

definition sb_at :: "string \<Rightarrow> service_builder \<Rightarrow> service_builder" where
  "sb_at path b = b\<lparr>sb_path := Some path\<rparr>"

definition sb_with_args :: "json \<Rightarrow> service_builder \<Rightarrow> service_builder" where
  "sb_with_args args b = b\<lparr>sb_args := args\<rparr>"

definition sb_init_with :: "nat \<Rightarrow> service_builder \<Rightarrow> service_builder" where
  "sb_init_with init b = b\<lparr>sb_init_override := Some init\<rparr>"

definition sb_handles ::
  "rust_schema \<Rightarrow> nat \<Rightarrow> service_builder \<Rightarrow> (('st, 'sv, 's) world, service_builder) act" where
  "sb_handles rs adapter b =
     act_bind (sys_register rs)
       (\<lambda>_. act_ret (if list_ex (\<lambda>(s, a). s = rs_name rs) (sb_entries b) then b
                     else b\<lparr>sb_entries := sb_entries b @ [(rs_name rs, adapter)]\<rparr>))"

definition sb_emits_schema :: "rust_schema \<Rightarrow> service_builder \<Rightarrow> (('st, 'sv, 's) world, service_builder) act" where
  "sb_emits_schema rs b =
     act_bind (sys_register rs) (\<lambda>_. act_ret (b\<lparr>sb_emits := push_unique (rs_name rs) (sb_emits b)\<rparr>))"

definition sb_with_kickoff ::
  "rust_schema \<Rightarrow> live_value \<Rightarrow> service_builder \<Rightarrow> (('st, 'sv, 's) world, service_builder) act" where
  "sb_with_kickoff rs v b =
     act_bind (sys_register rs) (\<lambda>_. act_ret (b\<lparr>sb_kickoff := Some (rs_name rs, payload_value v)\<rparr>))"

definition sb_mailbox :: "nat \<Rightarrow> overload_policy \<Rightarrow> service_builder \<Rightarrow> service_builder" where
  "sb_mailbox capacity policy b =
     b\<lparr>sb_opts := (sb_opts b)\<lparr>so_mailbox_capacity := capacity, so_mailbox_policy := policy\<rparr>\<rparr>"

definition sb_mailbox_unbounded :: "service_builder \<Rightarrow> service_builder" where
  "sb_mailbox_unbounded b = b\<lparr>sb_opts := (sb_opts b)\<lparr>so_mailbox_policy := Unbounded\<rparr>\<rparr>"

definition sb_batch :: "nat \<Rightarrow> service_builder \<Rightarrow> service_builder" where
  "sb_batch n b = b\<lparr>sb_opts := (sb_opts b)\<lparr>so_batch := n\<rparr>\<rparr>"

definition sb_high_watermark :: "nat \<Rightarrow> service_builder \<Rightarrow> service_builder" where
  "sb_high_watermark depth b = b\<lparr>sb_opts := (sb_opts b)\<lparr>so_high_watermark := Some depth\<rparr>\<rparr>"

definition sb_passivate_after :: "duration \<Rightarrow> service_builder \<Rightarrow> service_builder" where
  "sb_passivate_after idle_for b = b\<lparr>sb_opts := (sb_opts b)\<lparr>so_passivation := Some idle_for\<rparr>\<rparr>"

text \<open>The kick is armed after the spawn has returned.\<close>

definition arm_kickoff ::
  "string \<Rightarrow> (string \<times> payload) option \<Rightarrow> ('st, 'sv, 's) world \<Rightarrow> ('st, 'sv, 's) world" where
  "arm_kickoff path kick w =
     (case kick of None \<Rightarrow> w | Some (schema, p) \<Rightarrow> snd (spawn_task (KickoffSend path schema p) w))"

definition sb_start :: "actor_manifest \<Rightarrow> service_builder \<Rightarrow> (('st, 'sv, 's) world, string) act" where
  "sb_start own b =
     (case sb_path b of
        None \<Rightarrow> act_panic ''builder requires .at(path)''
      | Some path \<Rightarrow>
          act_bind (spawn_service_erased path
              (merged_manifest own (map fst (sb_entries b)) (sb_emits b) Service)
              (sb_args b) (sb_entries b) (sb_opts b)
              (case sb_init_override b of Some init \<Rightarrow> init | None \<Rightarrow> sb_init b))
            (\<lambda>_. act_bind (act_do (arm_kickoff path (sb_kickoff b))) (\<lambda>_. act_ret path)))"

subsection \<open>The foreign builder\<close>

record foreign_builder =
  fb_path :: "string option"
  fb_schema_json :: "json option"
  fb_genesis :: json
  fb_emits :: "string list"
  fb_decision :: "(json \<Rightarrow> json \<Rightarrow> cmd_ctx \<Rightarrow> event list outcome) option"
  fb_fold :: "(event \<Rightarrow> json \<Rightarrow> json outcome) option"
  fb_opts :: spawn_opts

definition spawn_foreign_builder :: foreign_builder where
  "spawn_foreign_builder =
     \<lparr>fb_path = None, fb_schema_json = None, fb_genesis = JObj [], fb_emits = [], fb_decision = None,
      fb_fold = None, fb_opts = default_opts\<rparr>"

definition fb_at :: "string \<Rightarrow> foreign_builder \<Rightarrow> foreign_builder" where
  "fb_at path b = b\<lparr>fb_path := Some path\<rparr>"

definition fb_schema :: "json \<Rightarrow> foreign_builder \<Rightarrow> foreign_builder" where
  "fb_schema j b = b\<lparr>fb_schema_json := Some j\<rparr>"

definition fb_args :: "json \<Rightarrow> foreign_builder \<Rightarrow> foreign_builder" where
  "fb_args genesis b = b\<lparr>fb_genesis := genesis\<rparr>"

definition fb_handle ::
  "(json \<Rightarrow> json \<Rightarrow> cmd_ctx \<Rightarrow> event list outcome) \<Rightarrow> foreign_builder \<Rightarrow> foreign_builder" where
  "fb_handle f b = b\<lparr>fb_decision := Some f\<rparr>"

definition fb_apply :: "(event \<Rightarrow> json \<Rightarrow> json outcome) \<Rightarrow> foreign_builder \<Rightarrow> foreign_builder" where
  "fb_apply f b = b\<lparr>fb_fold := Some f\<rparr>"

definition fb_emits_id :: "string \<Rightarrow> foreign_builder \<Rightarrow> foreign_builder" where
  "fb_emits_id s b = b\<lparr>fb_emits := push_unique s (fb_emits b)\<rparr>"

definition fb_snapshot :: "snapshot_cadence \<Rightarrow> foreign_builder \<Rightarrow> foreign_builder" where
  "fb_snapshot cadence b = b\<lparr>fb_opts := (fb_opts b)\<lparr>so_snapshot := cadence\<rparr>\<rparr>"

definition fb_mailbox :: "nat \<Rightarrow> overload_policy \<Rightarrow> foreign_builder \<Rightarrow> foreign_builder" where
  "fb_mailbox capacity policy b =
     b\<lparr>fb_opts := (fb_opts b)\<lparr>so_mailbox_capacity := capacity, so_mailbox_policy := policy\<rparr>\<rparr>"

definition fb_mailbox_unbounded :: "foreign_builder \<Rightarrow> foreign_builder" where
  "fb_mailbox_unbounded b = b\<lparr>fb_opts := (fb_opts b)\<lparr>so_mailbox_policy := Unbounded\<rparr>\<rparr>"

definition fb_batch :: "nat \<Rightarrow> foreign_builder \<Rightarrow> foreign_builder" where
  "fb_batch n b = b\<lparr>fb_opts := (fb_opts b)\<lparr>so_batch := n\<rparr>\<rparr>"

text \<open>
  A start without one of its four parts, or with a descriptor that does not parse, is an error.  The
  typed operations of \<open>code\<close> are never used on a foreign shell.
\<close>

definition fb_spawn ::
  "'st es_code \<Rightarrow> foreign_builder \<Rightarrow> string \<Rightarrow> string \<Rightarrow> (json \<Rightarrow> json \<Rightarrow> cmd_ctx \<Rightarrow> event list outcome)
   \<Rightarrow> (event \<Rightarrow> json \<Rightarrow> json outcome) \<Rightarrow> (('st, 'sv, 's) world, unit) act" where
  "fb_spawn code b path schema decision fold_fn =
     spawn_es_erased path
       (fold emits_id (fb_emits b) (manifest_kind EventSourced (handles_id schema manifest_new)))
       \<lparr>dy_shell = ForeignEs (fb_genesis b), dy_code = code\<lparr>ec_fold := fold_fn\<rparr>\<rparr>
       [ForeignEntry \<lparr>fe_schema = schema, fe_decision = decision\<rparr>] (fb_opts b) (fb_genesis b)"

definition fb_start ::
  "serde \<Rightarrow> 'st es_code \<Rightarrow> foreign_builder \<Rightarrow> (('st, 'sv, 's) world, schema_error + string) act" where
  "fb_start sd code b w =
     (case (fb_path b, fb_schema_json b, fb_decision b, fb_fold b) of
        (Some path, Some j, Some decision, Some fold_fn) \<Rightarrow>
          (case sys_register_json sd j w of
             (Inl err, w1) \<Rightarrow> (Done (Inl InvalidDescriptor), w1)
           | (Inr schema, w1) \<Rightarrow>
               act_bind (fb_spawn code b path schema decision fold_fn) (\<lambda>_. act_ret (Inr path)) w1)
      | _ \<Rightarrow> (Done (Inl InvalidDescriptor), w))"

subsection \<open>The projector builder\<close>

record projector_builder =
  pb_path :: "string option"
  pb_args :: json
  pb_consumed :: "string list"
  pb_opts :: spawn_opts

definition spawn_projector_builder :: projector_builder where
  "spawn_projector_builder = \<lparr>pb_path = None, pb_args = JNull, pb_consumed = [], pb_opts = default_opts\<rparr>"

definition pb_at :: "string \<Rightarrow> projector_builder \<Rightarrow> projector_builder" where
  "pb_at path b = b\<lparr>pb_path := Some path\<rparr>"

definition pb_with_args :: "json \<Rightarrow> projector_builder \<Rightarrow> projector_builder" where
  "pb_with_args args b = b\<lparr>pb_args := args\<rparr>"

definition pb_consumes :: "rust_schema \<Rightarrow> projector_builder \<Rightarrow> (('st, 'sv, 's) world, projector_builder) act" where
  "pb_consumes rs b =
     act_bind (sys_register rs) (\<lambda>_. act_ret (b\<lparr>pb_consumed := push_unique (rs_name rs) (pb_consumed b)\<rparr>))"

definition pb_snapshot :: "snapshot_cadence \<Rightarrow> projector_builder \<Rightarrow> projector_builder" where
  "pb_snapshot cadence b = b\<lparr>pb_opts := (pb_opts b)\<lparr>so_snapshot := cadence\<rparr>\<rparr>"

definition pb_mailbox :: "nat \<Rightarrow> overload_policy \<Rightarrow> projector_builder \<Rightarrow> projector_builder" where
  "pb_mailbox capacity policy b =
     b\<lparr>pb_opts := (pb_opts b)\<lparr>so_mailbox_capacity := capacity, so_mailbox_policy := policy\<rparr>\<rparr>"

definition pb_mailbox_unbounded :: "projector_builder \<Rightarrow> projector_builder" where
  "pb_mailbox_unbounded b = b\<lparr>pb_opts := (pb_opts b)\<lparr>so_mailbox_policy := Unbounded\<rparr>\<rparr>"

definition pb_high_watermark :: "nat \<Rightarrow> projector_builder \<Rightarrow> projector_builder" where
  "pb_high_watermark depth b = b\<lparr>pb_opts := (pb_opts b)\<lparr>so_high_watermark := Some depth\<rparr>\<rparr>"

fun check_consumed :: "registry \<Rightarrow> string list \<Rightarrow> unit outcome" where
  "check_consumed r [] = Done ()"
| "check_consumed r (s # ss) =
     (case schema_of r s of
        None \<Rightarrow> Panicked ''consumed schema vanished after registration''
      | Some d \<Rightarrow>
          if sch_kind d = Event then check_consumed r ss
          else Panicked ''projectors fold facts, not commands'')"

definition validated_parts :: "projector_builder \<Rightarrow> (('st, 'sv, 's) world, string) act" where
  "validated_parts b =
     (case pb_path b of
        None \<Rightarrow> act_panic ''builder requires .at(path)''
      | Some path \<Rightarrow>
          act_bind (act_of (\<lambda>w. check_consumed (w_registry w) (pb_consumed b))) (\<lambda>_. act_ret path))"

definition pb_start :: "'st es_code \<Rightarrow> projector_builder \<Rightarrow> (('st, 'sv, 's) world, string) act" where
  "pb_start code b =
     act_bind (validated_parts b)
       (\<lambda>path. act_bind (arm_projector path (pb_consumed b) (pb_args b) code (pb_opts b))
         (\<lambda>a. act_bind (act_do (\<lambda>w. snd (spawn_task (CatchUpTask (ar_loop a) (ar_endpoint a) (pb_consumed b)) w)))
           (\<lambda>_. act_ret path)))"

definition pb_start_and_catchup ::
  "('st, 'sv, 's) host \<Rightarrow> 'st es_code \<Rightarrow> projector_builder \<Rightarrow> (('st, 'sv, 's) world, string) act" where
  "pb_start_and_catchup host code b =
     act_bind (validated_parts b)
       (\<lambda>path. act_bind (arm_projector path (pb_consumed b) (pb_args b) code (pb_opts b))
         (\<lambda>a. act_bind (catch_up_projector host a (pb_consumed b)) (\<lambda>_. act_ret path)))"

end
