(* ===== verification/Calls.thy ===== *)
theory Calls
  imports StepFrames Builders
begin

text \<open>
  What a callback and a caller outside can do to a system in one turn (\<open>src/src/system.rs\<close>, \<open>src/src/builder.rs\<close>,
  \<open>src/src/context.rs\<close>), as the relations \<open>wiring\<close> and \<open>api\<close>, and their framing: a preorder that the
  elementary writes and the spawns respect is respected by every such call.
\<close>

subsection \<open>Calls and steps\<close>

text \<open>
  What a synchronous callback such as a spawn factory is made of: declarations, builder starts,
  installations and nested supervised spawns, whose own factory call is such a run again.
\<close>

definition install_partition :: "partition_spec \<Rightarrow> ('st, 'sv, 's) world \<Rightarrow> (registry_error + unit) \<times> ('st, 'sv, 's) world" where
  "install_partition spec w =
     (let (answer, r) = install_partition_set spec (w_registry w) in (answer, w\<lparr>w_registry := r\<rparr>))"

definition install_projectors :: "projector_set_spec \<Rightarrow> ('st, 'sv, 's) world \<Rightarrow> (registry_error + unit) \<times> ('st, 'sv, 's) world" where
  "install_projectors spec w =
     (let (answer, r) = install_projector_set spec (w_registry w) in (answer, w\<lparr>w_registry := r\<rparr>))"

definition install_rule :: "rule \<Rightarrow> ('st, 'sv, 's) world \<Rightarrow> ('st, 'sv, 's) world" where
  "install_rule ru w = w\<lparr>w_registry := add_rule ru (w_registry w)\<rparr>"

definition before_supervised :: "(64 word) actor_spec \<Rightarrow> ('st, 'sv, 's) world \<Rightarrow> ('st, 'sv, 's) world" where
  "before_supervised sp w =
     w\<lparr>w_specs := AList.update (sp_path sp) sp (w_specs w), w_failures := AList.update (sp_path sp) fw_new (w_failures w)\<rparr>"

inductive wiring :: "('st, 'sv, 's) host \<Rightarrow> ('st, 'sv, 's) world \<Rightarrow> ('st, 'sv, 's) world \<Rightarrow> bool"
  for host :: "('st, 'sv, 's) host" where
  su_refl: "wiring host w w"
| su_trans: "wiring host w w1 \<Longrightarrow> wiring host w1 w2 \<Longrightarrow> wiring host w w2"
| su_register: "wiring host w (snd (sys_register rs w))"
| su_register_json: "wiring host w (snd (sys_register_json sd j w))"
| su_es: "wiring host w (snd (eb_start own code b w))"
| su_service: "wiring host w (snd (sb_start own sb w))"
| su_foreign: "wiring host w (snd (fb_start sd code fb w))"
| su_projector: "wiring host w (snd (pb_start code pb w))"
| su_partition: "wiring host w (snd (install_partition ps w))"
| su_projectors: "wiring host w (snd (install_projectors pjs w))"
| su_rule: "wiring host w (install_rule ru w)"
| su_emits: "wiring host w (snd (declare_emits path schema w))"
| su_observer: "wiring host w (set_observer on w)"
| su_supervised:
    "wiring host (before_supervised sp w)
       (snd (ho_factory host (sp_spawn sp) (sp_path sp) (sp_args sp) (before_supervised sp w))) \<Longrightarrow>
     wiring host w (snd (spawn_supervised host sp w))"

text \<open>
  What an asynchronous callback or a caller outside can do in one turn on top: routed sends, broadcasts,
  asks, scheduled sends, drains of the dead letters, restarts and stop signals.
\<close>

inductive api :: "('st, 'sv, 's) host \<Rightarrow> ('st, 'sv, 's) world \<Rightarrow> ('st, 'sv, 's) world \<Rightarrow> bool"
  for host :: "('st, 'sv, 's) host" where
  ap_refl: "api host w w"
| ap_trans: "api host w w1 \<Longrightarrow> api host w1 w2 \<Longrightarrow> api host w w2"
| ap_setup: "wiring host w w' \<Longrightarrow> api host w w'"
| ap_trace: "api host w (snd (new_trace_root w))"
| ap_child: "api host w (snd (child_trace view w))"
| ap_send: "api host w (snd (route host e w))"
| ap_publish: "api host w (snd (broadcast host schema e w))"
| ap_ask: "api host w (snd (ask_begin dest schema p ttl tr w))"
| ap_wait: "api host w (snd (ask_wait lease dest tr elapsed w))"
| ap_schedule: "api host w (schedule_self view schema v w)"
| ap_drain: "api host w (snd (drain_dead_letters w))"
| ap_restart: "api host w (snd (restart_es_at host path args w))"
| ap_signal: "api host w (snd (stop_signal path w))"

definition host_ok :: "('st, 'sv, 's) host \<Rightarrow> bool" where
  "host_ok host \<longleftrightarrow>
     (\<forall>f p a w. wiring host w (snd (ho_factory host f p a w))) \<and>
     (\<forall>n p v sv w. api host w (snd (snd (snd (ho_dispatch host n p v sv w))))) \<and>
     (\<forall>v sv w. api host w (snd (snd (ho_on_stop host v sv w)))) \<and>
     (\<forall>n a w. api host w (snd (ho_init host n a w)))"

subsection \<open>The frame\<close>

text \<open>What the frame distinguishes of a world; everything else may change freely.\<close>

definition vital where
  "vital w = (w_registry w, w_cell_heap w, w_endpoint_heap w, w_next w, w_cells w, w_es_state w, w_tasks w, w_store w)"

text \<open>Tasks that hold no loop and no door.\<close>

fun detached :: "task \<Rightarrow> bool" where
  "detached (EngineTask sp cell watch ph) = True"
| "detached (ScheduledSend e) = True"
| "detached (KickoffSend dest schema p) = True"
| "detached (AskWait lease dest tr) = True"
| "detached _ = False"

lemma fold_manifest_kind [simp]:
  "mf_kind (fold handles_id ss m) = mf_kind m" "mf_kind (fold emits_id ss m) = mf_kind m"
  by (induction ss arbitrary: m) (simp_all add: handles_id_def emits_id_def)

locale call_frame = routing_frame R for R :: "('st, 'sv, 's) world \<Rightarrow> ('st, 'sv, 's) world \<Rightarrow> bool" +
  fixes host :: "('st, 'sv, 's) host"
  assumes R_vital: "vital w' = vital w \<Longrightarrow> R w w'"
    and R_quiet_cell: "(\<And>ce. ce_path (g ce) = ce_path ce \<and> ce_inbox (g ce) = ce_inbox ce \<and>
      ce_work (g ce) = ce_work ce \<and> ce_step_batch (g ce) = ce_step_batch ce \<and> ce_stopping (g ce) = ce_stopping ce \<and>
      (ce_space_available (g ce) \<longrightarrow> ce_space_available ce)) \<Longrightarrow> R w (on_cell c g w)"
    and R_next: "R w (w\<lparr>w_next := Suc (w_next w)\<rparr>)"
    and R_detached: "detached t \<Longrightarrow> R w (snd (spawn_task t w))"
    and R_schemas: "R w (w\<lparr>w_registry := (w_registry w)\<lparr>rg_schemas := t'\<rparr>\<rparr>)"
    and R_partitions: "R w (w\<lparr>w_registry := (w_registry w)\<lparr>rg_partitions := ps\<rparr>\<rparr>)"
    and R_projector_sets: "R w (w\<lparr>w_registry := (w_registry w)\<lparr>rg_projector_sets := js\<rparr>\<rparr>)"
    and R_rules: "R w (w\<lparr>w_registry := (w_registry w)\<lparr>rg_rules := rs\<rparr>\<rparr>)"
    and R_declare_emits: "R w (snd (declare_emits path schema w))"
    and R_restart_es: "map_of (w_cells w) (lo_path lp) = Some (lo_cell lp) \<Longrightarrow> R w (snd (restart_es host lp args w))"
    and R_spawn_es: "mf_kind m \<noteq> None \<Longrightarrow> act_rel R (spawn_es_erased path m shell entries opts args)"
    and R_spawn_service: "mf_kind m \<noteq> None \<Longrightarrow> act_rel R (spawn_service_erased path m args mentries opts init)"
    and R_pb_start: "act_rel R (pb_start code b)"
begin

lemma R_fields:
  "R w (w\<lparr>w_ask_facts := fs, w_replies := rt\<rparr>)" "R w (w\<lparr>w_replies := rt, w_ask_facts := fs\<rparr>)"
  "R w (w\<lparr>w_specs := sps, w_failures := fws\<rparr>)" "R w (w\<lparr>w_engines := en\<rparr>)" "R w (w\<lparr>w_watch_heap := wh\<rparr>)"
  "R w (w\<lparr>w_observing := ob\<rparr>)" "R w (w\<lparr>w_claims := cl\<rparr>)" "R w (w\<lparr>w_failures := fws\<rparr>)"
  "R w (w\<lparr>w_services := ss\<rparr>)" "R w (w\<lparr>w_shutting_down := b\<rparr>)" "R w (w\<lparr>w_caught_up := cu\<rparr>)"
  "R w (w\<lparr>w_now := n, w_wall := m\<rparr>)"
  by (rule R_vital, simp add: vital_def)+

lemma R_quiet_const:
  assumes "\<And>ce. ce_path (g ce) = ce_path ce \<and> ce_inbox (g ce) = ce_inbox ce \<and> ce_work (g ce) = ce_work ce \<and>
    ce_step_batch (g ce) = ce_step_batch ce \<and> ce_stopping (g ce) = ce_stopping ce \<and>
    (ce_space_available (g ce) \<longrightarrow> ce_space_available ce)"
  shows "R w (on_cell c (\<lambda>_. g (w_cell_heap w c)) w)"
  using R_quiet_cell [OF assms] by (simp add: on_cell_def)

lemma R_on_watch: "R w (on_watch i f w)"
  by (simp add: on_watch_def R_fields)

lemma R_new_watch: "R w (snd (new_watch w))"
proof -
  have "R w (w\<lparr>w_next := Suc (w_next w), w_watch_heap := wh\<rparr>)" for wh
    using R_trans [OF R_next R_fields(5)] by simp
  then show ?thesis by (simp add: new_watch_def)
qed

subsubsection \<open>Set-up\<close>

lemma rel_panic: "act_rel R (act_panic m)"
  by (simp add: act_rel_def act_panic_def R_refl)

lemma rel_of: "act_rel R (act_of f)"
  by (simp add: act_rel_def act_of_def R_refl)

lemma rel_register: "act_rel R (sys_register rs)"
proof (rule act_relI)
  fix w :: "('st, 'sv, 's) world"
  have *: "R w (w\<lparr>w_registry := (w_registry w)\<lparr>rg_schemas := t\<rparr>, w_claims := c\<rparr>)" for t c
    by (rule R_trans [OF R_schemas R_fields(7)])
  show "R w (snd (sys_register rs w))"
    by (simp add: sys_register_def Let_def * split: prod.split sum.split)
qed

lemma R_register_json: "R w (snd (sys_register_json sd j w))"
  by (simp add: sys_register_json_def R_schemas split: prod.split)

lemma merged_kind: "mf_kind (merged_manifest own hs es k) \<noteq> None"
  by (simp add: merged_manifest_def manifest_kind_def)

lemma rel_eb_start: "act_rel R (eb_start own code b)"
  unfolding eb_start_def
  by (cases "eb_path b") (auto intro!: rel_panic rel_bind R_spawn_es merged_kind rel_ret)

lemma rel_sb_start: "act_rel R (sb_start own b)"
proof -
  have "R w (arm_kickoff path kick w)" for path kick w
    by (auto simp: arm_kickoff_def R_refl intro: R_detached split: option.split)
  then show ?thesis
    unfolding sb_start_def
    by (cases "sb_path b") (auto intro!: rel_panic rel_bind R_spawn_service merged_kind rel_do rel_ret)
qed

lemma R_fb_start: "R w (snd (fb_start sd code b w))"
proof (cases "fb_path b = None \<or> fb_schema_json b = None \<or> fb_decision b = None \<or> fb_fold b = None")
  case True
  then show ?thesis by (auto simp: fb_start_def R_refl split: option.split)
next
  case False
  then obtain path j decision fold_fn where parts: "fb_path b = Some path" "fb_schema_json b = Some j"
    "fb_decision b = Some decision" "fb_fold b = Some fold_fn" by auto
  obtain x w1 where r: "sys_register_json sd j w = (x, w1)" by fastforce
  have w1: "R w w1" using R_register_json [of w sd j] r by simp
  have "act_rel R (act_bind (fb_spawn code b path schema decision fold_fn) (\<lambda>_. act_ret y))" for schema y
    unfolding fb_spawn_def by (intro rel_bind R_spawn_es rel_ret) (simp add: manifest_kind_def)
  from w1 rel_after [OF w1 this] show ?thesis
    by (cases x) (simp_all add: fb_start_def parts r)
qed

lemma rel_validated: "act_rel R (validated_parts b)"
  unfolding validated_parts_def
  by (cases "pb_path b") (auto intro!: rel_panic rel_bind rel_ret rel_of)

lemma R_installs:
  "R w (snd (install_partition ps w))" "R w (snd (install_projectors pjs w))" "R w (install_rule ru w)"
proof -
  show "R w (snd (install_partition ps w))"
    by (simp add: install_partition_def install_partition_set_def R_refl R_partitions split: prod.split if_splits)
  show "R w (snd (install_projectors pjs w))"
    by (simp add: install_projectors_def install_projector_set_def R_refl R_projector_sets split: prod.split if_splits)
  show "R w (install_rule ru w)" by (simp add: install_rule_def add_rule_def R_rules)
qed

lemma R_supervised:
  assumes "R (before_supervised sp w) (snd (ho_factory host (sp_spawn sp) (sp_path sp) (sp_args sp) (before_supervised sp w)))"
  shows "R w (snd (spawn_supervised host sp w))"
proof -
  obtain x w1 where f: "ho_factory host (sp_spawn sp) (sp_path sp) (sp_args sp) (before_supervised sp w) = (x, w1)" by fastforce
  have "R w (before_supervised sp w)" unfolding before_supervised_def by (rule R_fields)
  then have w1: "R w w1" using R_trans [OF _ assms] f by simp
  obtain watch w2 where w2: "new_watch w1 = (watch, w2)" by fastforce
  have "R w w2" using R_trans [OF w1 R_new_watch] w2 by (metis snd_conv)
  then have "R w (snd (spawn_task (EngineTask sp c watch EngineWaiting) (w2\<lparr>w_engines := en\<rparr>)))" for c en
    by (rule R_trans [OF R_trans [OF _ R_fields(4)] R_detached]) simp_all
  with w1 show ?thesis
    using f w2 by (cases x) (simp_all add: spawn_supervised_def before_supervised_def act_bind_def Let_def)
qed

lemma wiring_frame: "wiring host w w' \<Longrightarrow> R w w'"
proof (induction rule: wiring.induct)
  case (su_trans w w1 w2)
  then show ?case using R_trans by blast
qed (auto intro: R_refl R_register_json R_installs R_declare_emits R_supervised R_fb_start
    act_relD [OF rel_register] act_relD [OF rel_eb_start] act_relD [OF rel_sb_start] act_relD [OF R_pb_start]
    simp: set_observer_def R_fields)

subsubsection \<open>Asks, scheduled sends, stop signals\<close>

lemma R_open_lease: "R w (snd (open_lease dest ttl w))"
proof -
  obtain tr w1 where t: "new_trace_root (w\<lparr>w_replies := reply_prune (w_now w) (w_replies w)\<rparr>) = (tr, w1)" by fastforce
  obtain l w2 where i: "new_id w1 = (l, w2)" by fastforce
  have "R w w1" using R_trans [OF R_replies R_new_trace_root] t by (metis snd_conv)
  moreover have "R w1 w2" using R_new_id [of w1] i by simp
  ultimately have "R w (w2\<lparr>w_replies := rt, w_ask_facts := fs\<rparr>)" for rt fs using R_trans R_fields(2) by blast
  then show ?thesis by (simp add: open_lease_def t i)
qed

lemma R_ask_settled: "R w (ask_settled lease dest result tr w)"
  unfolding ask_settled_def by (rule R_trans [OF R_fields(1) R_traced])

lemma R_observe_opened: "R w (observe_opened dest w)"
  by (simp add: observe_opened_def case_prod_beta Let_def R_refl R_trans [OF R_new_trace_root R_observe])

lemma R_deliver_request: "R w (snd (deliver_request ep lease dest schema p w))"
proof -
  obtain tr w1 where t: "new_trace_root w = (tr, w1)" by fastforce
  obtain x w2 where d: "deliver_with_retry ep (envelope_reply_to (ASlot lease) (envelope_raw schema dest p tr)) w1 = (x, w2)"
    by fastforce
  have w2: "R w w2"
    using R_trans [OF R_new_trace_root [of w]] R_back [OF d] t by (metis snd_conv)
  have "R w (ask_settled lease dest AskFailed (fst (new_trace_root w2)) (snd (new_trace_root w2)))"
    by (rule R_trans [OF R_trans [OF w2 R_new_trace_root] R_ask_settled])
  with w2 show ?thesis by (cases x) (simp_all add: deliver_request_def t d Let_def case_prod_beta)
qed

lemma rel_ask_channel: "act_rel R (ask_channel dest schema p ttl)"
proof (rule act_relI)
  fix w :: "('st, 'sv, 's) world"
  have "R w (snd (deliver_request ep l d schema p (observe_opened d (snd (open_lease d ttl w)))))" for ep l d
    by (rule R_trans [OF R_trans [OF R_open_lease R_observe_opened] R_deliver_request])
  then show "R w (snd (ask_channel dest schema p ttl w))"
    by (simp add: ask_channel_def case_prod_beta Let_def R_refl split: address.split outcome.split option.split)
qed

lemma rel_ask_begin: "act_rel R (ask_begin dest schema p ttl tr)"
proof -
  have k: "act_rel R (case answer of Inl _ \<Rightarrow> act_ret (Inl (UnresolvedAt dest))
        | Inr lease \<Rightarrow> act_bind (act_do (\<lambda>w. snd (spawn_task (AskWait lease dest tr) w))) (\<lambda>_. act_ret (Inr lease)))"
    for answer :: "ask_error + nat"
    by (cases answer) (auto intro!: rel_ret rel_bind rel_do R_detached)
  show ?thesis
    unfolding ask_begin_def by (rule rel_bind [OF rel_ask_channel k])
qed

lemma R_ask_wait: "R w (snd (ask_wait lease dest tr elapsed w))"
  by (auto simp: ask_wait_def Let_def R_ask_settled R_refl intro: R_trans [OF R_ask_settled R_replies]
      split: option.split oneshot.split)

lemma R_child: "R w (snd (child_trace view w))"
  by (simp add: child_trace_def R_ids split: prod.split)

lemma R_schedule: "R w (schedule_self view schema v w)"
  unfolding schedule_self_def Let_def case_prod_beta
  by (rule R_trans [OF R_child R_detached]) simp

lemma R_take_handle: "R w (snd (take_handle c w))"
  by (auto simp: take_handle_def R_refl intro: R_trans [OF R_on_watch R_quiet_cell] split: option.split)

lemma R_stop_signal: "R w (snd (stop_signal path w))"
  by (simp add: R_take_handle stop_signal_def R_refl case_prod_beta split: option.split)

lemma rel_restart_at: "act_rel R (restart_es_at host path args)"
  by (rule act_relI) (auto simp: restart_es_at_def R_refl intro: R_restart_es split: option.split)

lemma api_frame:
  assumes fac: "\<And>f p a. act_rel R (ho_factory host f p a)"
  shows "api host w w' \<Longrightarrow> R w w'"
proof (induction rule: api.induct)
  case (ap_trans w w1 w2)
  then show ?case using R_trans by blast
qed (auto intro: R_refl wiring_frame R_new_trace_root R_child act_relD [OF rel_route [OF fac]]
    act_relD [OF rel_broadcast [OF fac]] act_relD [OF rel_ask_begin] R_ask_wait R_schedule
    act_relD [OF rel_restart_at] R_stop_signal simp: drain_dead_letters_def R_letters)

end

end
