(* ===== verification/Wellformed.thy ===== *)
theory Wellformed
  imports Calls
begin

text \<open>
  The shape every reachable world of a running system has: the tables agree with each other and with
  the heaps, and every task holds what it needs.  \<open>good\<close> is the relation every operation of the
  runtime respects; its routing half is an interpretation of \<open>routing_frame\<close>.
\<close>

definition cell_of_loop_ok :: "('st, 'sv, 's) world \<Rightarrow> es_loop \<Rightarrow> bool" where
  "cell_of_loop_ok w lp \<longleftrightarrow> lo_cell lp < w_next w \<and> ce_path (w_cell_heap w (lo_cell lp)) = lo_path lp"

definition loop_ok :: "('st, 'sv, 's) world \<Rightarrow> es_loop \<Rightarrow> bool" where
  "loop_ok w lp \<longleftrightarrow> cell_of_loop_ok w lp \<and> (\<exists>i < w_next w. lo_state lp = Some i)"

fun task_ok :: "('st, 'sv, 's) world \<Rightarrow> task \<Rightarrow> bool" where
  "task_ok w (DoorTask ep d) = (ep < w_next w)"
| "task_ok w (EsTask lp watch ph) = loop_ok w lp"
| "task_ok w (ServiceStart lp ep init args) = (cell_of_loop_ok w lp \<and> ep < w_next w)"
| "task_ok w (ServiceTask lp watch ph) = cell_of_loop_ok w lp"
| "task_ok w (EngineTask sp cell watch ph) = True"
| "task_ok w (CatchUpTask lp ep consumed) = (loop_ok w lp \<and> ep < w_next w)"
| "task_ok w (ScheduledSend e) = True"
| "task_ok w (KickoffSend dest schema p) = True"
| "task_ok w (AskWait lease dest tr) = True"

text \<open>A slot has its kind and an endpoint over the cell the table holds for the path.\<close>

definition slot_ok :: "('st, 'sv, 's) world \<Rightarrow> string \<Rightarrow> slot \<Rightarrow> bool" where
  "slot_ok w p s \<longleftrightarrow> mf_kind (sl_manifest s) \<noteq> None \<and>
     (\<exists>ep < w_next w. sl_endpoint s = Some ep \<and> map_of (w_cells w) p = Some (ep_cell (w_endpoint_heap w ep)))"

definition slots_ok :: "('st, 'sv, 's) world \<Rightarrow> bool" where
  "slots_ok w \<longleftrightarrow> (\<forall>p s. map_of (rg_slots (w_registry w)) p = Some s \<longrightarrow> slot_ok w p s)"

definition cells_ok :: "('st, 'sv, 's) world \<Rightarrow> bool" where
  "cells_ok w \<longleftrightarrow> (\<forall>p c. map_of (w_cells w) p = Some c \<longrightarrow> c < w_next w \<and> ce_path (w_cell_heap w c) = p)"

text \<open>State belongs to an actor with a cell, and no two paths share a shell.\<close>

definition states_ok :: "('st, 'sv, 's) world \<Rightarrow> bool" where
  "states_ok w \<longleftrightarrow>
     (\<forall>p i. map_of (w_es_state w) p = Some i \<longrightarrow> i < w_next w \<and> has_key (w_cells w) p) \<and>
     (\<forall>p q i. map_of (w_es_state w) p = Some i \<longrightarrow> map_of (w_es_state w) q = Some i \<longrightarrow> p = q)"

definition tasks_ok :: "('st, 'sv, 's) world \<Rightarrow> bool" where
  "tasks_ok w \<longleftrightarrow> (\<forall>i t. map_of (w_tasks w) i = Some t \<longrightarrow> i < w_next w \<and> task_ok w t)"

definition world_ok :: "('st, 'sv, 's) world \<Rightarrow> bool" where
  "world_ok w \<longleftrightarrow> rg_ok (w_registry w) \<and> slots_ok w \<and> cells_ok w \<and> states_ok w \<and> tasks_ok w"

text \<open>What is allocated stays, with its path and its cell.\<close>

definition extends :: "('st, 'sv, 's) world \<Rightarrow> ('st, 'sv, 's) world \<Rightarrow> bool" where
  "extends w w' \<longleftrightarrow> w_next w \<le> w_next w' \<and>
     (\<forall>c < w_next w. ce_path (w_cell_heap w' c) = ce_path (w_cell_heap w c)) \<and>
     (\<forall>ep < w_next w. ep_cell (w_endpoint_heap w' ep) = ep_cell (w_endpoint_heap w ep))"

definition good :: "('st, 'sv, 's) world \<Rightarrow> ('st, 'sv, 's) world \<Rightarrow> bool" where
  "good w w' \<longleftrightarrow> (world_ok w \<longrightarrow> world_ok w' \<and> extends w w')"

lemma extends_refl: "extends w w"
  by (simp add: extends_def)

lemma extends_trans: "extends w w1 \<Longrightarrow> extends w1 w2 \<Longrightarrow> extends w w2"
  by (auto simp: extends_def)

lemma good_refl: "good w w"
  by (simp add: good_def extends_refl)

lemma good_trans: "good w w1 \<Longrightarrow> good w1 w2 \<Longrightarrow> good w w2"
  by (auto simp: good_def intro: extends_trans)

lemma goodI: "(world_ok w \<Longrightarrow> world_ok w' \<and> extends w w') \<Longrightarrow> good w w'"
  by (simp add: good_def)

text \<open>The projections the shape speaks of.\<close>

definition shape where
  "shape w = (w_registry w, ce_path \<circ> w_cell_heap w, ep_cell \<circ> w_endpoint_heap w, w_next w, w_cells w,
     w_es_state w, w_tasks w)"

lemma shape_eqD:
  assumes "shape w' = shape w"
  shows "w_registry w' = w_registry w" "ce_path (w_cell_heap w' c) = ce_path (w_cell_heap w c)"
    "ep_cell (w_endpoint_heap w' ep) = ep_cell (w_endpoint_heap w ep)" "w_next w' = w_next w"
    "w_cells w' = w_cells w" "w_es_state w' = w_es_state w" "w_tasks w' = w_tasks w"
  using assms by (auto simp: shape_def fun_eq_iff)

lemma good_same:
  assumes "shape w' = shape w"
  shows "good w w'"
proof -
  note eq [simp] = shape_eqD [OF assms]
  have lp: "loop_ok w' lp = loop_ok w lp" "cell_of_loop_ok w' lp = cell_of_loop_ok w lp" for lp
    by (simp_all add: loop_ok_def cell_of_loop_ok_def)
  have "task_ok w' t = task_ok w t" for t by (cases t) (simp_all add: lp)
  then have "world_ok w' = world_ok w"
    by (simp add: world_ok_def slots_ok_def slot_ok_def cells_ok_def states_ok_def tasks_ok_def)
  then show ?thesis by (simp add: good_def extends_def)
qed

lemma good_on_cell: "(\<And>ce. ce_path (f ce) = ce_path ce) \<Longrightarrow> good w (on_cell c f w)"
  by (rule good_same) (auto simp: shape_def fun_eq_iff)

lemma good_on_cell_const: "ce_path ce = ce_path (w_cell_heap w c) \<Longrightarrow> good w (on_cell c (\<lambda>_. ce) w)"
  by (rule good_same) (auto simp: shape_def fun_eq_iff)

lemma good_with_inbox: "act_rel good (with_inbox c f)"
  by (rule act_relI) (simp add: with_inbox_def good_refl good_on_cell split: outcome.split prod.split)

text \<open>The route cursor is no part of the shape of the registry.\<close>

lemma loop_ok_extends:
  "extends w w' \<Longrightarrow> cell_of_loop_ok w lp \<Longrightarrow> cell_of_loop_ok w' lp"
  "extends w w' \<Longrightarrow> loop_ok w lp \<Longrightarrow> loop_ok w' lp"
  by (force simp: extends_def cell_of_loop_ok_def loop_ok_def)+

lemma task_ok_extends: "extends w w' \<Longrightarrow> task_ok w t \<Longrightarrow> task_ok w' t"
  by (cases t) (auto simp: loop_ok_extends, auto simp: extends_def)

lemma tasks_ok_extends: "tasks_ok w \<Longrightarrow> extends w w' \<Longrightarrow> w_tasks w' = w_tasks w \<Longrightarrow> tasks_ok w'"
  unfolding tasks_ok_def using task_ok_extends by (metis extends_def order_less_le_trans)

text \<open>A change of the registry alone.\<close>

lemma good_registry:
  assumes "world_ok w \<Longrightarrow> rg_ok r"
    and "\<And>p s. map_of (rg_slots r) p = Some s \<Longrightarrow>
      \<exists>s'. map_of (rg_slots (w_registry w)) p = Some s' \<and> sl_endpoint s = sl_endpoint s' \<and>
        (mf_kind (sl_manifest s') \<noteq> None \<longrightarrow> mf_kind (sl_manifest s) \<noteq> None)"
  shows "good w (w\<lparr>w_registry := r\<rparr>)"
proof (rule goodI)
  assume wf: "world_ok w"
  let ?w = "w\<lparr>w_registry := r\<rparr>"
  have ext: "extends w ?w" by (simp add: extends_def)
  have "slots_ok ?w"
    unfolding slots_ok_def
  proof (intro allI impI)
    fix p s
    assume "map_of (rg_slots (w_registry ?w)) p = Some s"
    then obtain s' where s': "map_of (rg_slots (w_registry w)) p = Some s'" "sl_endpoint s = sl_endpoint s'"
      "mf_kind (sl_manifest s') \<noteq> None \<longrightarrow> mf_kind (sl_manifest s) \<noteq> None" using assms(2) [of p s] by auto
    then have "slot_ok w p s'" using wf by (simp add: world_ok_def slots_ok_def)
    then show "slot_ok ?w p s" using s' by (simp add: slot_ok_def)
  qed
  then show "world_ok ?w \<and> extends w ?w"
    using assms(1) wf ext tasks_ok_extends [OF _ ext] by (simp add: world_ok_def cells_ok_def states_ok_def)
qed

lemma good_cursor: "good w (w\<lparr>w_registry := (w_registry w)\<lparr>rg_route_cursor := n\<rparr>\<rparr>)"
  by (rule good_registry) (auto simp: world_ok_def rg_ok_def)

lemma good_endpoint: "ep_cell x = ep_cell (w_endpoint_heap w ep) \<Longrightarrow> good w (on_endpoint ep (\<lambda>_. x) w)"
  by (rule good_same) (auto simp: shape_def fun_eq_iff on_endpoint_def)

lemma good_push: "good w (snd (direct_push ep e tr w))"
proof -
  define d where "d = ep_cell (w_endpoint_heap w ep)"
  have pd: "good w (pushed_directly d tr ev (on_cell d (\<lambda>ce. ce\<lparr>ce_inbox := ib\<rparr>) w))" for ev ib
    using pushed_directly_heap [of d tr ev "on_cell d (\<lambda>ce. ce\<lparr>ce_inbox := ib\<rparr>) w"]
    by (intro good_same) (auto simp: shape_def fun_eq_iff)
  show ?thesis
    by (rule direct_push_cases [OF d_def, of e tr]) (auto simp: pd good_refl intro: good_on_cell)
qed

lemma good_fields:
  "good w (observe ts k w)" "good w (w\<lparr>w_dead_letters := ls\<rparr>)" "good w (w\<lparr>w_ids := g\<rparr>)"
  "good w (w\<lparr>w_replies := rt\<rparr>)" "good w (w\<lparr>w_store := s\<rparr>)" "good w (w\<lparr>w_ask_facts := fs\<rparr>)"
  "good w (w\<lparr>w_genesis_args := gs\<rparr>)" "good w (w\<lparr>w_projectors := ps\<rparr>)" "good w (w\<lparr>w_services := ss\<rparr>)"
  "good w (w\<lparr>w_shell_heap := sh\<rparr>)" "good w (w\<lparr>w_service_heap := sv\<rparr>)" "good w (w\<lparr>w_caught_up := cu\<rparr>)"
  "good w (w\<lparr>w_shutting_down := b\<rparr>)" "good w (w\<lparr>w_specs := sps\<rparr>)" "good w (w\<lparr>w_failures := fws\<rparr>)"
  "good w (w\<lparr>w_engines := en\<rparr>)" "good w (w\<lparr>w_watch_heap := wh\<rparr>)" "good w (w\<lparr>w_claims := cl\<rparr>)"
  "good w (w\<lparr>w_now := t\<rparr>)" "good w (w\<lparr>w_wall := m\<rparr>)" "good w (w\<lparr>w_observing := ob\<rparr>)"
  by (rule good_same, simp add: shape_def)+

interpretation typing: routing_frame good
proof (unfold_locales, goal_cases)
  case (2 w w1 w2) then show ?case by (rule good_trans)
next
  case (6 w n) show ?case by (rule good_cursor)
next
  case (8 x w ep) then show ?case by (rule good_endpoint)
next
  case 10 show ?case by (rule good_push)
qed (auto intro: good_refl good_fields good_on_cell)

subsection \<open>Allocation\<close>

lemma good_goodD: "good w w' \<Longrightarrow> world_ok w \<Longrightarrow> world_ok w'" "good w w' \<Longrightarrow> world_ok w \<Longrightarrow> extends w w'"
  by (simp_all add: good_def)

lemma extends_bound: "extends w w' \<Longrightarrow> n < w_next w \<Longrightarrow> n < w_next w'"
  by (simp add: extends_def)

text \<open>A larger counter, and heaps that changed only above the old one.\<close>

lemma extendsI:
  assumes "w_next w \<le> w_next w'"
    and "\<And>c. c < w_next w \<Longrightarrow> ce_path (w_cell_heap w' c) = ce_path (w_cell_heap w c)"
    and "\<And>ep. ep < w_next w \<Longrightarrow> ep_cell (w_endpoint_heap w' ep) = ep_cell (w_endpoint_heap w ep)"
  shows "extends w w'"
  using assms by (simp add: extends_def)

lemma slot_ok_extends:
  assumes "slot_ok w p s" "extends w w'" "map_of (w_cells w') p = map_of (w_cells w) p"
  shows "slot_ok w' p s"
  using assms by (force simp: slot_ok_def extends_def)

lemma cells_ok_extends:
  assumes "cells_ok w" "extends w w'" "w_cells w' = w_cells w"
  shows "cells_ok w'"
  using assms by (force simp: cells_ok_def extends_def)

lemma states_ok_extends:
  assumes "states_ok w" "extends w w'" "w_es_state w' = w_es_state w"
    and "\<And>p. has_key (w_cells w) p \<Longrightarrow> has_key (w_cells w') p"
  shows "states_ok w'"
  using assms by (fastforce simp: states_ok_def extends_def)

lemma world_ok_extends:
  assumes "world_ok w" "extends w w'" "w_registry w' = w_registry w" "w_cells w' = w_cells w"
    and "w_es_state w' = w_es_state w" "tasks_ok w'"
  shows "world_ok w'"
  using assms slot_ok_extends [of w] cells_ok_extends [of w w'] states_ok_extends [of w w']
  by (simp add: world_ok_def slots_ok_def)

lemma good_spawn_task:
  assumes "world_ok w \<Longrightarrow> task_ok w t"
  shows "good w (snd (spawn_task t w))"
proof (rule goodI)
  assume wf: "world_ok w"
  let ?w = "snd (spawn_task t w)"
  have ext: "extends w ?w" by (rule extendsI) (simp_all add: spawn_task_def)
  have old: "tasks_ok w" using wf by (simp add: world_ok_def)
  have "task_ok ?w t'" "i < w_next ?w" if "map_of (w_tasks ?w) i = Some t'" for i t'
  proof -
    have "map_of (w_tasks w) i = Some t' \<or> i = w_next w \<and> t' = t"
      using that by (auto simp: spawn_task_def map_add_def split: option.splits if_splits)
    then show "task_ok ?w t'" "i < w_next ?w"
      using old assms [OF wf] task_ok_extends [OF ext] by (auto simp: tasks_ok_def spawn_task_def less_Suc_eq)
  qed
  then have "tasks_ok ?w" by (simp add: tasks_ok_def)
  then show "world_ok ?w \<and> extends w ?w"
    using world_ok_extends [OF wf ext] ext by (simp add: spawn_task_def)
qed

lemma good_new_watch: "good w (snd (new_watch w))"
proof (rule goodI)
  assume wf: "world_ok w"
  let ?w = "snd (new_watch w)"
  have ext: "extends w ?w" by (rule extendsI) (simp_all add: new_watch_def)
  then show "world_ok ?w \<and> extends w ?w"
    using world_ok_extends [OF wf ext] tasks_ok_extends [OF _ ext] wf by (simp add: new_watch_def world_ok_def)
qed

lemma good_on_watch: "good w (on_watch i f w)"
  by (simp add: on_watch_def good_fields)

lemma good_store_handle: "good w (store_handle path h w)"
proof -
  have *: "good w (on_cell c (\<lambda>ce. ce\<lparr>ce_handle := h'\<rparr>) (on_watch i f w))" for c h' i f
    by (rule good_trans [OF good_on_watch good_on_cell]) simp
  show ?thesis
    by (auto simp: store_handle_def Let_def good_on_watch * good_on_cell split: option.split)
qed

text \<open>A fresh shell for an actor that has a cell.\<close>

lemma good_new_state:
  assumes "world_ok w \<Longrightarrow> has_key (w_cells w) path"
  shows "good w (w\<lparr>w_next := Suc (w_next w), w_shell_heap := (w_shell_heap w)(w_next w := sh),
    w_es_state := AList.update path (w_next w) (w_es_state w)\<rparr>)"
proof (rule goodI)
  assume wf: "world_ok w"
  let ?w = "w\<lparr>w_next := Suc (w_next w), w_shell_heap := (w_shell_heap w)(w_next w := sh),
    w_es_state := AList.update path (w_next w) (w_es_state w)\<rparr>"
  have ext: "extends w ?w" by (rule extendsI) simp_all
  have old: "states_ok w" using wf by (simp add: world_ok_def)
  then have lt: "map_of (w_es_state w) p = Some i \<Longrightarrow> i < w_next w" for p i by (simp add: states_ok_def)
  have "states_ok ?w"
    using old assms [OF wf] unfolding states_ok_def by (auto simp: update_conv' less_Suc_eq dest: lt)
  then show "world_ok ?w \<and> extends w ?w"
    using wf ext tasks_ok_extends [OF _ ext] slot_ok_extends [OF _ ext] cells_ok_extends [OF _ ext]
    by (simp add: world_ok_def slots_ok_def)
qed

lemma good_install_shell:
  assumes "world_ok w \<Longrightarrow> map_of (w_es_state w) (lo_path lp) \<noteq> None" and "install_shell lp sh w = (lp', w')"
  shows "good w w'" "world_ok w \<Longrightarrow> cell_of_loop_ok w lp \<Longrightarrow> loop_ok w' lp'" "lo_path lp' = lo_path lp" "lo_cell lp' = lo_cell lp"
proof -
  have key: "world_ok w \<Longrightarrow> has_key (w_cells w) (lo_path lp)"
    using assms(1) by (auto simp: world_ok_def states_ok_def)
  have w': "w' = w\<lparr>w_next := Suc (w_next w), w_shell_heap := (w_shell_heap w)(w_next w := sh),
      w_es_state := AList.update (lo_path lp) (w_next w) (w_es_state w)\<rparr>"
    and lp': "lp' = lp\<lparr>lo_state := Some (w_next w)\<rparr>"
    using assms(2) by (auto simp: install_shell_def Let_def)
  show "good w w'" unfolding w' by (rule good_new_state [OF key])
  show "world_ok w \<Longrightarrow> cell_of_loop_ok w lp \<Longrightarrow> loop_ok w' lp'"
    unfolding w' lp' by (simp add: loop_ok_def cell_of_loop_ok_def)
qed (use assms(2) in \<open>auto simp: install_shell_def Let_def\<close>)

subsection \<open>Spawning\<close>

lemma add_routes_ok: "rg_ok r \<Longrightarrow> rg_ok (add_routes path ss r)"
  unfolding add_routes_def by (induction ss arbitrary: r) (simp_all add: rg_ok_add_route)

lemma add_route_slots [simp]: "rg_slots (add_route s p r) = rg_slots r"
  by (simp add: add_route_def split: option.split route_policy.split)

lemma add_routes_slots [simp]: "rg_slots (add_routes path ss r) = rg_slots r"
  unfolding add_routes_def by (induction ss arbitrary: r) simp_all

text \<open>The registry half of a spawn, completed by the cell's table entry.\<close>

lemma register_actor_good:
  assumes reg: "register_actor path m o' ce w = (Done (c, ep), w1)"
    and ce: "ce_path ce = path" and kind: "mf_kind m \<noteq> None" and wf: "world_ok w"
  defines "w2 \<equiv> w1\<lparr>w_cells := AList.update path c (w_cells w1)\<rparr>"
  shows "world_ok w2" "extends w w2" "c < w_next w2" "ep < w_next w2" "ce_path (w_cell_heap w2 c) = path"
proof -
  obtain r where ins: "insert_slot path m ep (so_mailbox_policy o') (w_registry w) = (Inr (), r)"
    and c: "c = w_next w" "ep = Suc c"
    and w1: "w1 = w\<lparr>w_next := Suc ep, w_registry := add_routes path (mf_handles m) r,
        w_cell_heap := (w_cell_heap w)(c := ce),
        w_endpoint_heap := (w_endpoint_heap w)
          (ep := endpoint_new (front_door_channel (so_mailbox_capacity o') (so_mailbox_policy o')) c)\<rparr>"
    using reg by (auto simp: register_actor_def Let_def split: prod.splits sum.splits)
  have slots: "rg_slots r = AList.update path
      \<lparr>sl_manifest = m, sl_endpoint = Some ep, sl_inbox_policy = so_mailbox_policy o'\<rparr> (rg_slots (w_registry w))"
    using ins by (auto simp: insert_slot_def split: if_splits)
  show ext: "extends w w2" by (rule extendsI) (simp_all add: w2_def w1 c)
  show "c < w_next w2" "ep < w_next w2" "ce_path (w_cell_heap w2 c) = path"
    by (simp_all add: w2_def w1 c ce)
  have "slots_ok w2"
    unfolding slots_ok_def
  proof (intro allI impI)
    fix p s
    assume s: "map_of (rg_slots (w_registry w2)) p = Some s"
    show "slot_ok w2 p s"
    proof (cases "p = path")
      case True
      with s have "s = \<lparr>sl_manifest = m, sl_endpoint = Some ep, sl_inbox_policy = so_mailbox_policy o'\<rparr>"
        by (simp add: w2_def w1 slots update_conv')
      then show ?thesis using kind True by (simp add: slot_ok_def w2_def w1 c update_conv' endpoint_new_def)
    next
      case False
      with s have "map_of (rg_slots (w_registry w)) p = Some s" by (simp add: w2_def w1 slots update_conv')
      then have "slot_ok w p s" using wf by (simp add: world_ok_def slots_ok_def)
      then show ?thesis using False by (intro slot_ok_extends [OF _ ext]) (simp_all add: w2_def w1 update_conv')
    qed
  qed
  moreover have "cells_ok w2"
    using wf by (auto simp: world_ok_def cells_ok_def w2_def w1 c ce update_conv' intro: less_SucI split: if_splits)
  moreover have "states_ok w2"
    using wf by (intro states_ok_extends [OF _ ext]) (auto simp: world_ok_def w2_def w1 has_key_def update_conv')
  moreover have "tasks_ok w2"
    using wf by (intro tasks_ok_extends [OF _ ext]) (simp_all add: world_ok_def w2_def w1)
  moreover have "rg_ok (w_registry w2)"
    using rg_ok_slots(1) [OF _ ins] wf by (simp add: world_ok_def w2_def w1 add_routes_ok)
  ultimately show "world_ok w2" by (simp add: world_ok_def)
qed

lemma register_actor_panics:
  "register_actor path m o' ce w = (Panicked s, w1) \<Longrightarrow> w1 = w"
  by (auto simp: register_actor_def Let_def split: prod.splits sum.splits)

lemma spawn_cell_path [simp]:
  "ce_path (spawn_cell path o') = path" "ce_path (stamp_common now o' m ce) = ce_path ce"
  "ce_path (stamp_es now o' m entries ce) = ce_path ce"
  by (simp_all add: spawn_cell_def cell_new_def stamp_common_def stamp_es_def Let_def split: option.split)

lemma with_entries_kind [simp]: "mf_kind (with_entries entries m) = mf_kind m"
  by (simp add: with_entries_def)

lemma arm_tables_split:
  "arm_tables path shell args c w =
     (w_next w,
      (\<lambda>w2. (w2\<lparr>w_next := Suc (w_next w2), w_shell_heap := (w_shell_heap w2)(w_next w2 := shell),
              w_es_state := AList.update path (w_next w2) (w_es_state w2)\<rparr>)
              \<lparr>w_genesis_args := AList.update path args (w_genesis_args w2)\<rparr>)
        (w\<lparr>w_cells := AList.update path c (w_cells w)\<rparr>))"
  by (simp add: arm_tables_def Let_def)

lemma arm_es_good:
  assumes arm: "arm_es_erased path manifest shell entries opts args w = (r, w')"
    and kind: "mf_kind manifest \<noteq> None" and wf: "world_ok w"
  shows "world_ok w' \<and> extends w w' \<and>
    (\<forall>a. r = Done a \<longrightarrow> loop_ok w' (ar_loop a) \<and> ar_endpoint a < w_next w' \<and> lo_path (ar_loop a) = path)"
proof -
  let ?o = "resolve_opts (w_defaults w) opts" and ?m = "with_entries entries manifest"
  let ?ce = "stamp_es (w_now w) ?o ?m entries (spawn_cell path ?o)"
  obtain x w1 where reg: "register_actor path ?m ?o ?ce w = (x, w1)" by fastforce
  show ?thesis
  proof (cases x)
    case (Panicked m)
    then show ?thesis
      using arm reg wf register_actor_panics [OF reg [unfolded Panicked]]
      by (auto simp: arm_es_erased_def Let_def act_bind_def extends_refl)
  next
    case (Done cep)
    obtain c ep where cep: "cep = (c, ep)" by fastforce
    define w2 where "w2 = w1\<lparr>w_cells := AList.update path c (w_cells w1)\<rparr>"
    define w3 where "w3 = w2\<lparr>w_next := Suc (w_next w2), w_shell_heap := (w_shell_heap w2)(w_next w2 := shell),
        w_es_state := AList.update path (w_next w2) (w_es_state w2)\<rparr>"
    note g2 = register_actor_good [OF reg [unfolded Done cep] _ _ wf, folded w2_def]
    have w2: "world_ok w2" "extends w w2" "c < w_next w2" "ep < w_next w2" "ce_path (w_cell_heap w2 c) = path"
      using g2 kind by simp_all
    have "good w2 w3" unfolding w3_def by (rule good_new_state) (simp add: w2_def)
    then have w3: "world_ok w3" "extends w2 w3" using w2 by (simp_all add: good_def)
    let ?w4 = "w3\<lparr>w_genesis_args := AList.update path args (w_genesis_args w2)\<rparr>"
    have w': "w' = observe (w_now ?w4) (ObSpawned path EventSourced False) ?w4"
      and r: "r = Done \<lparr>ar_loop = \<lparr>lo_path = path, lo_cell = c, lo_is_projector = path \<in> set (w_projectors ?w4),
          lo_state = Some (w_next w1)\<rparr>, ar_endpoint = ep\<rparr>"
      using arm reg
      by (auto simp: arm_es_erased_def Let_def act_bind_def Done cep arm_tables_split w3_def w2_def)
    have g: "good w3 w'" unfolding w' by (rule good_trans [OF good_fields(7) good_fields(1)])
    have ext: "extends w2 w'" using w3 g by (auto simp: good_def intro: extends_trans)
    have "loop_ok w' \<lparr>lo_path = path, lo_cell = c, lo_is_projector = b, lo_state = Some (w_next w1)\<rparr>" for b
      using w2 by (simp add: loop_ok_def cell_of_loop_ok_def w' w3_def w2_def)
    moreover have "ep < w_next w'" using w2 ext by (auto simp: extends_def)
    ultimately show ?thesis
      using r w3 g w2 ext by (auto simp: good_def intro: extends_trans)
  qed
qed

lemma good_start_tracked:
  assumes "world_ok w \<Longrightarrow> loop_ok w lp \<and> ep < w_next w"
  shows "good w (snd (start_tracked lp ep watch w))"
proof -
  have d: "good w (snd (spawn_task (DoorTask ep DoorReady) w))" by (rule good_spawn_task) (simp add: assms)
  have "good (snd (spawn_task (DoorTask ep DoorReady) w))
      (snd (spawn_task (EsTask lp watch LoopBoot) (snd (spawn_task (DoorTask ep DoorReady) w))))" if "world_ok w"
    by (rule good_spawn_task) (use assms [OF that] good_goodD(2) [OF d that] loop_ok_extends in auto)
  then have "good w (snd (spawn_task (EsTask lp watch LoopBoot) (snd (spawn_task (DoorTask ep DoorReady) w))))"
    using good_trans [OF d] by (auto simp: good_def)
  then show ?thesis by (simp add: start_tracked_def case_prod_beta)
qed

lemma good_start_loop:
  assumes "world_ok w \<Longrightarrow> loop_ok w (ar_loop a) \<and> ar_endpoint a < w_next w"
  shows "good w (start_loop a w)"
proof (rule goodI)
  assume wf: "world_ok w"
  obtain watch w1 where w1: "new_watch w = (watch, w1)" by fastforce
  obtain task w2 where w2: "start_tracked (ar_loop a) (ar_endpoint a) watch w1 = (task, w2)" by fastforce
  have g1: "good w w1" using good_new_watch [of w] w1 by simp
  have "loop_ok w1 (ar_loop a) \<and> ar_endpoint a < w_next w1"
    using assms [OF wf] good_goodD(2) [OF g1 wf] loop_ok_extends(2) extends_bound by blast
  then have "good w1 w2" using good_start_tracked [of w1 "ar_loop a" "ar_endpoint a" watch] w2 by simp
  then have "good w (start_loop a w)"
    using good_trans [OF g1 good_trans [OF _ good_store_handle]] w1 w2 by (simp add: start_loop_def)
  then show "world_ok (start_loop a w) \<and> extends w (start_loop a w)" using wf by (simp add: good_def)
qed

lemma spawn_es_good:
  assumes "mf_kind manifest \<noteq> None"
  shows "act_rel good (spawn_es_erased path manifest shell entries opts args :: (('st, 'sv, 's) world, unit) act)"
proof (rule act_relI, rule goodI)
  fix w :: "('st, 'sv, 's) world"
  assume wf: "world_ok w"
  obtain r w' where arm: "arm_es_erased path manifest shell entries opts args w = (r, w')" by fastforce
  note g = arm_es_good [OF arm assms wf]
  let ?w = "snd (spawn_es_erased path manifest shell entries opts args w)"
  show "world_ok ?w \<and> extends w ?w"
  proof (cases r)
    case (Panicked m)
    with g show ?thesis by (simp add: spawn_es_erased_def act_bind_def arm)
  next
    case (Done a)
    have "good w' (start_loop a w')" by (rule good_start_loop) (use g Done in simp)
    then show ?thesis
      using g by (auto simp: spawn_es_erased_def act_bind_def arm Done act_do_def good_def intro: extends_trans)
  qed
qed

lemma spawn_service_good:
  assumes kind: "mf_kind m \<noteq> None"
  shows "act_rel good (spawn_service_erased path m args entries opts init :: (('st, 'sv, 's) world, unit) act)"
proof (rule act_relI, rule goodI)
  fix w :: "('st, 'sv, 's) world"
  assume wf: "world_ok w"
  let ?o = "resolve_opts (w_defaults w) opts"
  let ?ce = "(stamp_common (w_now w) ?o m (spawn_cell path ?o))\<lparr>ce_msg_entries := entries\<rparr>"
  obtain x w1 where reg: "register_actor path m ?o ?ce w = (x, w1)" by fastforce
  let ?w = "snd (spawn_service_erased path m args entries opts init w)"
  show "world_ok ?w \<and> extends w ?w"
  proof (cases x)
    case (Panicked s)
    then show ?thesis
      using reg wf register_actor_panics [OF reg [unfolded Panicked]] by (auto simp: spawn_service_erased_def Let_def act_bind_def extends_refl)
  next
    case (Done cep)
    obtain c ep where cep: "cep = (c, ep)" by fastforce
    define w2 where "w2 = w1\<lparr>w_cells := AList.update path c (w_cells w1)\<rparr>"
    have w2: "world_ok w2" "extends w w2" "c < w_next w2" "ep < w_next w2" "ce_path (w_cell_heap w2 c) = path"
      using register_actor_good [OF reg [unfolded Done cep] _ _ wf, folded w2_def] kind by simp_all
    define w3 where "w3 = observe (w_now w) (ObSpawned path Service False)
        (w2\<lparr>w_genesis_args := AList.update path args (w_genesis_args w2)\<rparr>)"
    define lp where "lp = \<lparr>lo_path = path, lo_cell = c, lo_is_projector = False, lo_state = None :: nat option\<rparr>"
    have g3: "good w2 w3" unfolding w3_def by (rule good_trans [OF good_fields(7) good_fields(1)])
    have now: "w_now w1 = w_now w" using reg by (auto simp: register_actor_def Let_def Done split: prod.splits sum.splits)
    have "cell_of_loop_ok w3 lp \<and> ep < w_next w3"
      using w2 by (simp add: cell_of_loop_ok_def lp_def w3_def)
    then have "good w3 (snd (spawn_task (ServiceStart lp ep init args) w3))" by (intro good_spawn_task) simp
    then have "good w2 (snd (spawn_task (ServiceStart lp ep init args) w3))" by (rule good_trans [OF g3])
    moreover have "?w = snd (spawn_task (ServiceStart lp ep init args) w3)"
      by (simp add: spawn_service_erased_def Let_def act_bind_def reg Done cep w3_def w2_def lp_def now)
    ultimately show ?thesis using w2 by (auto simp: good_def intro: extends_trans)
  qed
qed

end
