(* ===== verification/TurnFrames.thy ===== *)
theory TurnFrames
  imports Calls
begin

text \<open>
  Framing, concluded: the turns of loops, engines and doors, stops and the shutdown sweep
  (\<open>src/src/kernel.rs\<close>, \<open>src/src/system.rs\<close>).  A preorder that respects the steps and the calls, and the few
  writes a turn adds to them, is respected by every turn; the identity of a loop over its turns comes
  along.
\<close>

text \<open>A loop keeps its identity over a turn.\<close>

definition same_loop :: "es_loop \<Rightarrow> (('st, 'sv, 's) world, (es_loop \<times> loop_phase) option) act \<Rightarrow> bool" where
  "same_loop lp m \<longleftrightarrow> (\<forall>w lp' ph. fst (m w) = Done (Some (lp', ph)) \<longrightarrow> lp' = lp)"

lemma same_bind: "(\<And>a. same_loop lp (f a)) \<Longrightarrow> same_loop lp (act_bind m f)"
  by (simp add: same_loop_def act_bind_def split: prod.split outcome.split)

lemma same_basic:
  "same_loop lp (act_ret None)" "same_loop lp (act_ret (Some (lp, ph)))" "same_loop lp (end_loop lp')"
  "same_loop lp (idle_tail lp)" "same_loop lp (parked_turn lp watch)"
  by (simp_all add: same_loop_def act_ret_def end_loop_def idle_tail_def parked_turn_def)

lemma same_running: "same_loop lp idle \<Longrightarrow> same_loop lp (running_turn host lp watch step_act idle)"
proof -
  assume idle: "same_loop lp idle"
  have "same_loop lp (act_bind step_act
        (\<lambda>st. case st of
           StWork \<Rightarrow> act_bind (act_do (stamp_work lp)) (\<lambda>_. act_ret (Some (lp, LoopRunning)))
         | StIdle \<Rightarrow> idle
         | StCrashed \<Rightarrow> end_loop lp
         | StStop \<Rightarrow> act_bind (graceful_exit host lp StopNormal) (\<lambda>_. end_loop lp)))"
    by (rule same_bind) (auto intro: same_bind same_basic idle split: step.split)
  then show ?thesis
    by (simp add: same_loop_def running_turn_def end_loop_def)
qed

lemma same_draining: "same_loop lp (draining_turn host lp)"
  unfolding draining_turn_def by (rule same_bind) (auto intro: same_bind same_basic)

locale turn_frame = call_frame R host + step_frame R host mine own
  for R :: "('st, 'sv, 's) world \<Rightarrow> ('st, 'sv, 's) world \<Rightarrow> bool" and host mine own +
  assumes R_on_stop: "R w (snd (snd (ho_on_stop host v sv w)))"
    and R_init: "act_rel R (ho_init host n a)"
    and R_gate: "R w (on_cell c (\<lambda>ce. ce\<lparr>ce_inbox := (ce_inbox ce)\<lparr>ib_open := b\<rparr>\<rparr>) w)"
    and R_permit: "mine c \<Longrightarrow> R w (on_cell c (\<lambda>ce. ce\<lparr>ce_work := False\<rparr>) w)"
    and R_flush_mailbox: "R w (flush_mailbox path w)"
    and R_drop_tables: "R w (drop_tables path w)"
    and R_drop_state: "R w (w\<lparr>w_registry := snd (remove_slot path (w_registry w)),
      w_es_state := AList.delete path (w_es_state w)\<rparr>)"
    and R_remove_slot: "R w (w\<lparr>w_registry := snd (remove_slot path (w_registry w))\<rparr>)"
    and R_reseat: "map_of (w_es_state w) path \<noteq> None \<Longrightarrow>
      R w (w\<lparr>w_next := Suc (w_next w), w_shell_heap := (w_shell_heap w)(w_next w := sh),
        w_es_state := AList.update path (w_next w) (w_es_state w)\<rparr>)"
    and R_clear_task: "R w (set_task i None w)"
    and R_door_try: "act_rel R (door_try c e parks)"
begin

lemma rel_publish: "act_rel R (publish host schema p)"
proof (rule act_relI)
  fix w :: "('st, 'sv, 's) world"
  obtain tr w1 where t: "new_trace_root w = (tr, w1)" by fastforce
  have "R w w1" using R_new_trace_root [of w] t by simp
  then show "R w (snd (publish host schema p w))"
    unfolding publish_def t Let_def prod.case by (rule rel_after) (rule rel_broadcast [OF R_factory])
qed

lemma rel_announce: "act_rel R (announce_lifecycle host path state kind)"
  unfolding announce_lifecycle_def by (rule rel_publish)

lemma rel_letter_route: "act_rel R (route_or_letter host e d)"
  by (rule rel_route_or_letter [OF R_factory])

lemma R_observe_stopped: "R w (observe_stopped path reason parent w)"
  by (auto simp: observe_stopped_def Let_def R_observe intro: R_trans [OF R_observe R_observe] split: option.split)

lemma rel_teardown: "act_rel R (teardown_tables host path reason)"
proof (rule act_relI)
  fix w :: "('st, 'sv, 's) world"
  have w2: "R w (drop_tables path (flush_mailbox path w))" by (rule R_trans [OF R_flush_mailbox R_drop_tables])
  have "R w (snd (announce_lifecycle host path st k
      (observe_stopped path reason parent (drop_tables path (flush_mailbox path w)))))" for st k parent
    by (rule rel_after [OF R_trans [OF w2 R_observe_stopped] rel_announce])
  with w2 show "R w (snd (teardown_tables host path reason w))" by (simp add: teardown_tables_def Let_def)
qed

lemma rel_run_on_stop: "act_rel R (run_on_stop host lp)"
proof (rule act_relI)
  fix w :: "('st, 'sv, 's) world"
  show "R w (snd (run_on_stop host lp w))"
  proof (cases "w_shutting_down w \<or> map_of (w_services w) (lo_path lp) = None")
    case True
    then show ?thesis by (auto simp: run_on_stop_def R_refl split: option.split)
  next
    case False
    then obtain i where i: "map_of (w_services w) (lo_path lp) = Some i" "\<not> w_shutting_down w" by auto
    obtain tr w1 where t: "new_trace_root w = (tr, w1)" by fastforce
    obtain ob sv w2 where s: "ho_on_stop host \<lparr>mv_path = lo_path lp, mv_trace = tr, mv_reply_to = None\<rparr>
        (w_service_heap w1 i) w1 = (ob, sv, w2)" by (metis prod.exhaust)
    have "R w w1" using R_new_trace_root [of w] t by simp
    moreover have "R w1 w2"
      using R_on_stop [of w1 "\<lparr>mv_path = lo_path lp, mv_trace = tr, mv_reply_to = None\<rparr>" "w_service_heap w1 i"] s by simp
    ultimately have w2: "R w (put_service i sv w2)"
      unfolding put_service_def using R_trans R_instances by blast
    have fl: "act_rel R (act_bind (flush_outbox host lp intents) (\<lambda>_. act_ret ()))" for intents
      by (intro rel_bind rel_flush R_factory rel_ret)
    show ?thesis
      by (cases ob) (simp_all add: run_on_stop_def i t s Let_def w2 rel_after [OF w2 fl])
  qed
qed

lemma R_claim_stop: "R w (on_cell c (\<lambda>_. snd (claim_on_stop (w_cell_heap w c))) w)"
  using R_quiet_const [of "\<lambda>ce. ce\<lparr>ce_on_stop_done := True\<rparr>"] by (simp add: claim_on_stop_def)

lemma rel_graceful_exit: "act_rel R (graceful_exit host lp reason)"
proof (rule act_relI)
  fix w :: "('st, 'sv, 's) world"
  obtain claimed ce where c: "claim_on_stop (w_cell_heap w (lo_cell lp)) = (claimed, ce)" by fastforce
  have g: "R w (on_cell (lo_cell lp) (\<lambda>_. ce) w)" using R_claim_stop [of w "lo_cell lp"] c by simp
  have "act_rel R (act_bind (if claimed then run_on_stop host lp else act_ret ())
      (\<lambda>_. teardown_tables host (lo_path lp) reason))"
    by (intro rel_bind rel_teardown) (simp add: rel_run_on_stop rel_ret)
  then show "R w (snd (graceful_exit host lp reason w))"
    unfolding graceful_exit_def c Let_def prod.case by (rule rel_after [OF g])
qed

lemma R_drain_inbox: "R w (drain_inbox_on_stop lp w)"
  using R_gate by (simp add: drain_inbox_on_stop_def inbox_reopen_def inbox_close_def)

lemma rel_end_loop: "act_rel R (end_loop lp)"
  by (rule act_relI) (simp add: end_loop_def R_drain_inbox)

lemma rel_idle_tail: "act_rel R (idle_tail lp)"
  by (rule act_relI) (simp add: idle_tail_def close_door_def inbox_close_def R_refl R_gate)

lemma rel_running:
  assumes "act_rel R step_act" "act_rel R idle"
  shows "act_rel R (running_turn host lp watch step_act idle)"
proof (rule act_relI)
  fix w :: "('st, 'sv, 's) world"
  have stamp: "R w (stamp_work lp w)" for w by (simp add: stamp_work_def R_quiet_cell)
  have "act_rel R (act_bind step_act
        (\<lambda>st. case st of
           StWork \<Rightarrow> act_bind (act_do (stamp_work lp)) (\<lambda>_. act_ret (Some (lp, LoopRunning)))
         | StIdle \<Rightarrow> idle
         | StCrashed \<Rightarrow> end_loop lp
         | StStop \<Rightarrow> act_bind (graceful_exit host lp StopNormal) (\<lambda>_. end_loop lp)))"
    by (rule rel_bind [OF assms(1)])
      (auto intro!: rel_bind rel_do rel_ret stamp rel_end_loop rel_graceful_exit assms(2) split: step.split)
  then show "R w (snd (running_turn host lp watch step_act idle w))"
    by (simp add: running_turn_def act_relD [OF rel_end_loop] act_relD)
qed

lemma rel_parked: "mine (lo_cell lp) \<Longrightarrow> act_rel R (parked_turn lp watch)"
  by (rule act_relI) (simp add: parked_turn_def take_permit_def R_refl R_permit)

lemma rel_drained:
  assumes step: "act_rel R (step_es host lp)"
  shows "act_rel R (draining_turn host lp)"
proof -
  have "act_rel R (drain_round host lp)"
    unfolding drain_round_def
  proof (rule rel_bind)
    show "act_rel R (case mail of None \<Rightarrow> act_ret True
        | Some e \<Rightarrow> act_bind (step_es host lp) (\<lambda>st. act_ret (st \<noteq> StWork)))" for mail :: "envelope option"
      by (cases mail) (auto intro: rel_ret rel_bind step)
  qed (simp add: act_rel_def act_of_def R_refl)
  moreover have "act_rel R (finish_passivation host lp)"
    unfolding finish_passivation_def by (intro rel_bind rel_do R_upkeep store_upkeepI rel_graceful_exit)
  ultimately show ?thesis
    unfolding draining_turn_def by (intro rel_bind) (auto intro: rel_ret rel_bind rel_end_loop)
qed

lemma rel_draining: "mine (lo_cell lp) \<Longrightarrow> own (lo_path lp) \<Longrightarrow> act_rel R (draining_turn host lp)"
  by (intro rel_drained rel_step_es)

lemma rel_escalate: "act_rel R (escalate host sp reason stop)"
proof (rule act_relI)
  fix w :: "('st, 'sv, 's) world"
  have tail: "act_rel R (\<lambda>w1.
          let w2 = (case map_of (w_cells w1) (sp_path sp) of None \<Rightarrow> w1 | Some c \<Rightarrow> on_cell c clear_crashed w1);
               w3 = observe (w_now w2) (ObEscalated (sp_path sp) reason) (observe (w_now w2) (ObStopped (sp_path sp) stop) w2);
               w4 = w3\<lparr>w_registry := snd (remove_slot (sp_path sp) (w_registry w3)),
                       w_es_state := AList.delete (sp_path sp) (w_es_state w3)\<rparr>
           in case sp_parent sp of
                None \<Rightarrow> (Done (), w4)
              | Some parent \<Rightarrow>
                  (let (tr, w5) = new_trace_root w4
                   in case from_bytes_wrapped (ho_serde host) ''Escalated'' (APath parent) (escalation_message sp reason) tr of
                        Panicked m \<Rightarrow> (Panicked m, w5)
                      | Done e \<Rightarrow> act_bind (route host e) (\<lambda>_. act_ret ()) w5))"
  proof (rule act_relI)
    fix w1 :: "('st, 'sv, 's) world"
    define w2 where "w2 = (case map_of (w_cells w1) (sp_path sp) of None \<Rightarrow> w1 | Some c \<Rightarrow> on_cell c clear_crashed w1)"
    define w3 where "w3 = observe (w_now w2) (ObEscalated (sp_path sp) reason) (observe (w_now w2) (ObStopped (sp_path sp) stop) w2)"
    define w4 where "w4 = w3\<lparr>w_registry := snd (remove_slot (sp_path sp) (w_registry w3)),
        w_es_state := AList.delete (sp_path sp) (w_es_state w3)\<rparr>"
    have "R w1 w2" by (auto simp: w2_def R_refl clear_crashed_def intro: R_quiet_cell split: option.split)
    moreover have "R w2 w3" unfolding w3_def by (rule R_trans [OF R_observe R_observe])
    ultimately have g4: "R w1 w4" unfolding w4_def using R_trans R_drop_state by blast
    obtain tr w5 where t: "new_trace_root w4 = (tr, w5)" by fastforce
    have g5: "R w1 w5" using R_trans [OF g4 R_new_trace_root [of w4]] t by simp
    have rt: "act_rel R (act_bind (route host e) (\<lambda>_. act_ret ()))" for e
      by (intro rel_bind rel_route R_factory rel_ret)
    show "R w1 (snd (let w2 = (case map_of (w_cells w1) (sp_path sp) of None \<Rightarrow> w1 | Some c \<Rightarrow> on_cell c clear_crashed w1);
               w3 = observe (w_now w2) (ObEscalated (sp_path sp) reason) (observe (w_now w2) (ObStopped (sp_path sp) stop) w2);
               w4 = w3\<lparr>w_registry := snd (remove_slot (sp_path sp) (w_registry w3)),
                       w_es_state := AList.delete (sp_path sp) (w_es_state w3)\<rparr>
           in case sp_parent sp of
                None \<Rightarrow> (Done (), w4)
              | Some parent \<Rightarrow>
                  (let (tr, w5) = new_trace_root w4
                   in case from_bytes_wrapped (ho_serde host) ''Escalated'' (APath parent) (escalation_message sp reason) tr of
                        Panicked m \<Rightarrow> (Panicked m, w5)
                      | Done e \<Rightarrow> act_bind (route host e) (\<lambda>_. act_ret ()) w5)))"
      unfolding Let_def w2_def [symmetric] w3_def [symmetric] w4_def [symmetric] t prod.case
      using g4 g5 rel_after [OF g5 rt] by (simp split: option.split outcome.split)
  qed
  have "act_rel R (act_bind (announce_lifecycle host p l k) (\<lambda>_. m))" if "act_rel R m" for p l k and m :: "(('st, 'sv, 's) world, unit) act"
    by (intro rel_bind rel_announce that)
  from act_relD [OF this [OF tail]] show "R w (snd (escalate host sp reason stop w))"
    unfolding escalate_def .
qed

lemma R_record_failure: "R w (snd (record_failure sp w))"
  by (simp add: record_failure_def Let_def R_fields)

lemma rel_crash_seen: "act_rel R (crash_seen host sp cell)"
proof (rule act_relI)
  fix w :: "('st, 'sv, 's) world"
  have esc: "act_rel R (act_bind (escalate host sp r st) (\<lambda>_. act_ret None))" for r st
    by (intro rel_bind rel_escalate rel_ret)
  obtain ex w1 where f: "record_failure sp w = (ex, w1)" by fastforce
  have w1: "R w w1" using R_record_failure [of w sp] f by simp
  show "R w (snd (crash_seen host sp cell w))"
    by (simp add: crash_seen_def f act_relD [OF esc] w1 rel_after [OF w1 esc])
qed

lemma rel_restart_child: "act_rel R (restart_child host sp cell)"
proof (rule act_relI)
  fix w :: "('st, 'sv, 's) world"
  show "R w (snd (restart_child host sp cell w))"
  proof (cases "has_key (w_es_state w) (sp_path sp)")
    case True
    show ?thesis
    proof (cases "map_of (w_cells w) (sp_path sp)")
      case None
      with True show ?thesis by (simp add: restart_child_def R_refl)
    next
      case (Some c)
      have "R w (snd (restart_es host (restart_loop_of sp c w) (get_or (JObj []) (w_genesis_args w) (sp_path sp)) w))"
        by (rule R_restart_es) (simp add: restart_loop_of_def Some)
      moreover obtain x w1 where x: "restart_es host (restart_loop_of sp c w)
          (get_or (JObj []) (w_genesis_args w) (sp_path sp)) w = (x, w1)" by fastforce
      ultimately show ?thesis
        using True Some unfolding restart_child_def
        by (cases x) (simp_all add: act_bind_def act_panic_def act_ret_def split: sum.split)
    qed
  next
    case False
    have m: "act_rel R (act_bind (ho_factory host (sp_spawn sp) (sp_path sp) (sp_args sp))
          (\<lambda>_ w1. case map_of (w_cells w1) (sp_path sp) of
             None \<Rightarrow> (Done None, w1)
           | Some c \<Rightarrow> (Done (Some c), on_cell c clear_crashed w1)))"
      by (intro rel_bind R_factory act_relI)
        (auto simp: R_refl clear_crashed_def intro: R_quiet_cell split: option.split)
    from rel_after [OF R_remove_slot m] False show ?thesis by (simp add: restart_child_def)
  qed
qed

lemma rel_engine: "act_rel R (engine_turn host sp cell watch ph)"
proof (cases ph)
  case EngineWaiting
  show ?thesis
    unfolding EngineWaiting
    by (rule act_relI) (simp add: R_refl act_relD [OF rel_crash_seen] split: option.split)
next
  case EngineBackoff
  have "act_rel R (act_bind (restart_child host sp cell) (\<lambda>cell'. act_ret (Some (cell', EngineWaiting))))"
    by (intro rel_bind rel_restart_child rel_ret)
  from act_relD [OF this] show ?thesis
    unfolding EngineBackoff by (intro act_relI) (simp add: R_refl)
qed

lemma R_put_instance: "R w (put_instance lp answer w)"
proof -
  have "R w (put_service i sv (w\<lparr>w_next := Suc (w_next w), w_services := ss\<rparr>))" for i sv ss
    unfolding put_service_def by (rule R_trans [OF R_trans [OF R_next] R_instances], rule R_vital) (simp add: vital_def)
  then show ?thesis by (simp add: put_instance_def Let_def mark_crashed_def R_quiet_cell split: sum.split)
qed

lemma R_load_journal: "R w (snd (load_journal host path w))"
  using R_upkeep [OF store_upkeepI(1)] by (simp add: load_journal_def case_prod_beta)

lemma R_replay_with: "R w (snd (replay_with loaded path w))"
proof (cases loaded)
  case (Inr found)
  show ?thesis
  proof (cases found)
    case (Some rp)
    show ?thesis
    proof (cases "map_of (w_es_state w) path")
      case st: (Some i)
      then have "map_of (w_es_state w) path \<noteq> None" by simp
      from R_reseat [OF this] Some Inr st show ?thesis
        by (simp add: replay_with_def Let_def R_refl split: outcome.split sum.split)
    qed (use Some Inr in \<open>simp add: replay_with_def R_refl\<close>)
  qed (use Inr in \<open>simp add: replay_with_def R_refl\<close>)
qed (simp add: replay_with_def R_refl)

lemma R_replay_own: "R w (snd (replay_own host path w))"
proof -
  obtain r w1 where l: "load_journal host path w = (r, w1)" by fastforce
  have "R w w1" using R_load_journal [of w path] l by simp
  then show ?thesis using R_trans [OF _ R_replay_with] by (simp add: replay_own_def l)
qed

text \<open>Looking into other journals is upkeep.\<close>

lemma R_upkeeps: "(store_upkeep (ho_store host))\<^sup>*\<^sup>* (w_store w) s \<Longrightarrow> R w (w\<lparr>w_store := s\<rparr>)"
proof (induction rule: rtranclp_induct)
  case base
  show ?case by (simp add: R_refl)
next
  case (step s1 s2)
  then show ?case using R_trans [OF step.IH R_upkeep [of "w\<lparr>w_store := s1\<rparr>" s2]] by simp
qed

lemma qualify_each_upkeep: "(store_upkeep jo)\<^sup>*\<^sup>* s (snd (qualify_each sd jo spec key scs s))"
proof (induction scs arbitrary: s)
  case (Cons sc scs)
  have "(store_upkeep jo)\<^sup>*\<^sup>* s (snd (qualifying sd jo field key (sc_journal sc) s))" for field
    using store_upkeepI(1) [of jo s] by (auto simp: qualifying_def Let_def case_prod_beta)
  with Cons.IH show ?case by (auto simp: Let_def case_prod_beta intro: rtranclp_trans)
qed simp

lemma R_candidates: "candidates host path scanned w = (cands, s) \<Longrightarrow> R w (w\<lparr>w_store := s\<rparr>)"
  using qualify_each_upkeep [of "ho_store host" "w_store w"] R_upkeeps
  by (fastforce simp: candidates_def Let_def R_refl split: option.splits dest: arg_cong [of _ _ snd])

lemma R_seed_gap:
  assumes own: "own path"
  shows "R w (snd (seed_gap host path consumed w))"
proof (cases "jo_scan (ho_store host) consumed (w_store w)")
  case (Inr scanned)
  obtain cands s0 where c: "candidates host path scanned w = (cands, s0)" by fastforce
  obtain answer s where a: "jo_append_catchup (ho_store host) path cands s0 = (answer, s)" by fastforce
  define newly where "newly = (case answer of Inl err \<Rightarrow> [] | Inr results \<Rightarrow> newly_recorded cands results)"
  have m: "act_rel R (act_bind (act_each (apply_in_place i) evs) (\<lambda>_. act_ret n)
      :: (('st, 'sv, 's) world, nat) act)" for i evs n
    by (intro rel_bind rel_each rel_apply rel_ret)
  have "R (w\<lparr>w_store := s0\<rparr>) (w\<lparr>w_store := s0\<rparr>\<lparr>w_store := s\<rparr>)"
    using a by (intro R_journal [OF own journal_writeI(2)]) simp
  then have w1: "R w (w\<lparr>w_store := s\<rparr>)" using R_trans [OF R_candidates [OF c]] by simp
  show ?thesis
    using Inr a c w1 rel_after [OF w1 m]
    by (simp add: seed_gap_def Let_def newly_def [symmetric] split: option.split)
qed (simp add: seed_gap_def R_refl)

lemma R_endpoint_map: "(\<And>x. ep_cell (f x) = ep_cell x) \<Longrightarrow> R w (on_endpoint ep f w)"
  using R_endpoint [of "f (w_endpoint_heap w ep)" w ep] by (simp add: on_endpoint_def)

lemma rel_door_step: "act_rel R (door_step ep d)"
proof (rule act_relI)
  fix w :: "('st, 'sv, 's) world"
  have dr: "R w (on_endpoint ep (\<lambda>x. note_channel_drain (x\<lparr>ep_queue := q\<rparr>)) w)" for q
    by (rule R_endpoint_map) (simp add: note_channel_drain_def)
  have sp: "R w (on_cell c (\<lambda>ce. ce\<lparr>ce_space_available := False\<rparr>) w)" for c by (rule R_quiet_cell) simp
  show "R w (snd (door_step ep d w))"
    by (simp add: door_step_def Let_def R_refl rel_after [OF dr R_door_try] rel_after [OF sp R_door_try]
        split: door.split list.split)
qed

lemma R_task_died: "R w (task_died t w)"
  by (cases t) (simp_all add: task_died_def R_refl door_died_def R_endpoint_map)

lemma rel_stop_finish: "act_rel R (stop_finish host path j)"
proof -
  have hook: "act_rel R (stop_hook host path)"
  proof (rule act_relI)
    fix w :: "('st, 'sv, 's) world"
    show "R w (snd (stop_hook host path w))"
      by (simp add: R_claim_stop rel_after [OF R_claim_stop rel_run_on_stop] stop_hook_def R_refl case_prod_beta Let_def split: option.split)
  qed
  have st: "R w (set_task i None w)" for i w by (rule R_clear_task)
  show ?thesis
    unfolding stop_finish_def
    by (rule rel_bind [OF _ rel_teardown])
      (auto intro: hook rel_do st rel_ret split: join_result.split)
qed

lemma R_fold_watch: "R w (fold (\<lambda>i. on_watch i f) is w)"
  by (rule R_fold) (rule R_on_watch)

lemma R_signal_cells: "R w (snd (signal_cells cs w))"
proof (induction cs arbitrary: w)
  case (Cons pc cs)
  obtain p c where pc: "pc = (p, c)" by fastforce
  show ?case
    using R_trans [OF R_take_handle Cons.IH] unfolding pc
    by (simp add: case_prod_beta Let_def)
qed (simp add: R_refl)

lemma R_shutdown_begin: "R w (snd (shutdown_begin w))"
proof -
  have "R w (shutdown_engines (w\<lparr>w_shutting_down := True\<rparr>))"
    unfolding shutdown_engines_def
    by (rule R_trans [OF R_trans [OF R_fields(10) R_fields(4)] R_fold_watch])
  then show ?thesis
    unfolding shutdown_begin_def Let_def by (rule R_trans [OF _ R_signal_cells])
qed

lemma rel_shutdown_finish: "act_rel R (shutdown_finish host paths)"
proof -
  have "R w (drop_engine_senders (w\<lparr>w_store := snd (jo_flush (ho_store host) (w_store w))\<rparr>))" for w :: "('st, 'sv, 's) world"
    unfolding drop_engine_senders_def
    by (rule R_trans [OF R_trans [OF R_upkeep [OF store_upkeepI(3)] R_fields(4)] R_fold_watch])
  then show ?thesis
    unfolding shutdown_finish_def by (intro rel_bind rel_each rel_teardown rel_do)
qed

end

end
