(* ===== verification/Turns.thy ===== *)
theory Turns
  imports Wellformed TurnFrames
begin

text \<open>
  Every turn of every task, and every call from outside, keeps the shape of the world.  What the host's
  callbacks may do is the assumption of the locale \<open>typed_host\<close>; \<open>Systems\<close> derives it from the calls a
  callback is built from.
\<close>

subsection \<open>Tables that shrink\<close>

lemma good_tables:
  assumes "world_ok w \<Longrightarrow> rg_ok r"
    and "\<And>p s. map_of (rg_slots r) p = Some s \<Longrightarrow>
      map_of (rg_slots (w_registry w)) p = Some s \<and> map_of cs p = map_of (w_cells w) p"
    and "\<And>p c. map_of cs p = Some c \<Longrightarrow> map_of (w_cells w) p = Some c"
    and "\<And>p i. map_of es p = Some i \<Longrightarrow>
      map_of (w_es_state w) p = Some i \<and> (has_key (w_cells w) p \<longrightarrow> has_key cs p)"
  shows "good w (w\<lparr>w_registry := r, w_cells := cs, w_es_state := es\<rparr>)"
proof (rule goodI)
  assume ok: "world_ok w"
  let ?w = "w\<lparr>w_registry := r, w_cells := cs, w_es_state := es\<rparr>"
  have ext: "extends w ?w" by (rule extendsI) simp_all
  have "slots_ok ?w"
    using ok assms(2) slot_ok_extends [OF _ ext] by (auto simp: slots_ok_def world_ok_def)
  moreover have "cells_ok ?w" using ok assms(3) by (auto simp: cells_ok_def world_ok_def)
  moreover have "states_ok ?w"
  proof -
    have st: "states_ok w" using ok by (simp add: world_ok_def)
    have "i < w_next w \<and> has_key cs p" if "map_of es p = Some i" for p i
      using st assms(4) [OF that] unfolding states_ok_def by blast
    moreover have "p = q" if "map_of es p = Some i" "map_of es q = Some i" for p q i
      using st assms(4) [OF that(1)] assms(4) [OF that(2)] unfolding states_ok_def by blast
    ultimately show ?thesis by (simp add: states_ok_def)
  qed
  moreover have "tasks_ok ?w" using ok tasks_ok_extends [OF _ ext] by (simp add: world_ok_def)
  ultimately show "world_ok ?w \<and> extends w ?w" using assms(1) [OF ok] ext by (simp add: world_ok_def)
qed

lemma remove_slot_map:
  "map_of (rg_slots (snd (remove_slot path r))) p = (if p = path then None else map_of (rg_slots r) p)"
  by (auto simp: remove_slot_def delete_conv' split: option.split)

lemma remove_slot_ok: "rg_ok r \<Longrightarrow> rg_ok (snd (remove_slot path r))"
  using rg_ok_slots(3) [of r path] by (cases "remove_slot path r") auto

lemma drop_routes_slots [simp]: "rg_slots (drop_routes_of p r) = rg_slots r"
  by (simp add: drop_routes_of_def)

lemma good_drop_tables: "good w (drop_tables path w)"
proof -
  have "good w (w\<lparr>w_registry := drop_routes_of path (snd (remove_slot path (w_registry w))),
       w_cells := AList.delete path (w_cells w), w_es_state := AList.delete path (w_es_state w)\<rparr>)"
    by (rule good_tables)
      (auto simp: remove_slot_map remove_slot_ok rg_ok_drop_routes world_ok_def delete_conv' has_key_def split: if_splits)
  then show ?thesis
    unfolding drop_tables_def by (rule good_trans [OF good_trans [OF _ good_fields(8)] good_fields(14)])
qed

lemma good_remove_slot: "good w (w\<lparr>w_registry := snd (remove_slot path (w_registry w))\<rparr>)"
  by (rule good_registry) (auto simp: remove_slot_ok world_ok_def remove_slot_map split: if_splits)

lemma good_drop_state:
  "good w (w\<lparr>w_registry := snd (remove_slot path (w_registry w)), w_es_state := AList.delete path (w_es_state w)\<rparr>)"
proof -
  have "good w (w\<lparr>w_registry := snd (remove_slot path (w_registry w)), w_cells := w_cells w,
      w_es_state := AList.delete path (w_es_state w)\<rparr>)"
    by (rule good_tables) (auto simp: remove_slot_ok world_ok_def remove_slot_map delete_conv' split: if_splits)
  then show ?thesis by simp
qed

text \<open>A fresh endpoint over the cell of the path.\<close>

lemma good_swap:
  assumes sw: "swap_endpoint path (w_next w) (w_registry w) = (Inr (), r)"
    and cell: "map_of (w_cells w) path = Some (ep_cell e)"
  shows "good w (w\<lparr>w_next := Suc (w_next w), w_registry := r, w_endpoint_heap := (w_endpoint_heap w)(w_next w := e)\<rparr>)"
proof (rule goodI)
  assume ok: "world_ok w"
  let ?w = "w\<lparr>w_next := Suc (w_next w), w_registry := r, w_endpoint_heap := (w_endpoint_heap w)(w_next w := e)\<rparr>"
  have ext: "extends w ?w" by (rule extendsI) simp_all
  obtain s0 where s0: "map_of (rg_slots (w_registry w)) path = Some s0"
    and r: "rg_slots r = AList.update path (s0\<lparr>sl_endpoint := Some (w_next w)\<rparr>) (rg_slots (w_registry w))"
    using sw by (auto simp: swap_endpoint_def split: option.splits)
  have "slots_ok ?w"
    unfolding slots_ok_def
  proof (intro allI impI)
    fix p s
    assume s: "map_of (rg_slots (w_registry ?w)) p = Some s"
    have old: "slot_ok w p s'" if "map_of (rg_slots (w_registry w)) p = Some s'" for s'
      using ok that by (simp add: world_ok_def slots_ok_def)
    show "slot_ok ?w p s"
    proof (cases "p = path")
      case True
      with s r have "s = s0\<lparr>sl_endpoint := Some (w_next w)\<rparr>" by (simp add: update_conv')
      with old s0 True cell show ?thesis by (simp add: slot_ok_def)
    next
      case False
      with s r old have "slot_ok w p s" by (simp add: update_conv')
      then show ?thesis by (rule slot_ok_extends [OF _ ext]) simp
    qed
  qed
  then show "world_ok ?w \<and> extends w ?w"
    using ok ext rg_ok_slots(2) [OF _ sw] tasks_ok_extends [OF _ ext] cells_ok_extends [OF _ ext] states_ok_extends [OF _ ext]
    by (simp add: world_ok_def)
qed

lemma good_restart_door:
  assumes "world_ok w \<Longrightarrow> loop_ok w lp" and cell: "map_of (w_cells w) (lo_path lp) = Some (lo_cell lp)"
  shows "good w (snd (restart_door lp w))"
proof (rule goodI)
  assume ok: "world_ok w"
  let ?ce = "w_cell_heap w (lo_cell lp)"
  let ?e = "endpoint_new (front_door_channel (ce_mailbox_capacity ?ce) (ce_mailbox_policy ?ce)) (lo_cell lp)"
  show "world_ok (snd (restart_door lp w)) \<and> extends w (snd (restart_door lp w))"
  proof (cases "swap_endpoint (lo_path lp) (w_next w) (w_registry w)")
    case (Pair a r)
    show ?thesis
    proof (cases a)
      case (Inl err)
      with Pair ok show ?thesis by (simp add: restart_door_def Let_def extends_refl)
    next
      case (Inr u)
      define w1 where "w1 = w\<lparr>w_next := Suc (w_next w), w_registry := r,
          w_endpoint_heap := (w_endpoint_heap w)(w_next w := ?e)\<rparr>"
      define w2 where "w2 = on_cell (lo_cell lp) (\<lambda>c. c\<lparr>ce_inbox := inbox_reopen (ce_inbox c)\<rparr>) w1"
      obtain watch w3 where w3: "new_watch w2 = (watch, w3)" by fastforce
      obtain t w4 where w4: "start_tracked lp (w_next w) watch w3 = (t, w4)" by fastforce
      have "good w w1"
        unfolding w1_def using Pair Inr cell by (intro good_swap) (simp_all add: endpoint_new_def)
      then have g3: "good w w3"
        using good_trans [OF good_trans [OF _ good_on_cell] good_new_watch, of w w1 "\<lambda>c. c\<lparr>ce_inbox := inbox_reopen (ce_inbox c)\<rparr>" "lo_cell lp"] w3
        by (simp add: w2_def)
      have "w_next w < w_next w3" using w3 by (auto simp: new_watch_def w2_def w1_def)
      moreover have "loop_ok w3 lp" using g3 ok assms(1) loop_ok_extends(2) by (auto simp: good_def)
      ultimately have "good w3 w4" using good_start_tracked [of w3 lp "w_next w" watch] w4 by simp
      then have "good w (on_watch watch watch_drop_sender w4)" by (rule good_trans [OF g3 good_trans [OF _ good_on_watch]])
      moreover have "snd (restart_door lp w) = on_watch watch watch_drop_sender w4"
        using Pair Inr w3 w4 by (simp add: restart_door_def Let_def w1_def w2_def)
      ultimately show ?thesis using ok by (simp add: good_def)
    qed
  qed
qed

lemma good_restart_with:
  assumes cell: "map_of (w_cells w) (lo_path lp) = Some (lo_cell lp)"
  shows "good w (snd (restart_with loaded lp args w))"
proof (rule goodI)
  assume ok: "world_ok w"
  show "world_ok (snd (restart_with loaded lp args w)) \<and> extends w (snd (restart_with loaded lp args w))"
  proof (cases loaded)
    case (Inl err)
    with ok show ?thesis by (simp add: restart_with_def extends_refl)
  next
    case (Inr found)
    define rp where "rp = (case found of None \<Rightarrow> empty_replay | Some rp \<Rightarrow> rp)"
    show ?thesis
    proof (cases "map_of (w_es_state w) (lo_path lp)")
      case None
      with Inr ok show ?thesis by (simp add: restart_with_def extends_refl)
    next
      case (Some i)
      let ?r = "rebuild (dy_code (w_shell_heap w i)) args (snapshot_state rp) (rp_tail rp) (dy_shell (w_shell_heap w i))"
      show ?thesis
      proof (cases "\<exists>sh. ?r = Done (Inr sh)")
        case False
        with Inr Some ok show ?thesis
          by (auto simp: restart_with_def Let_def extends_refl rp_def [symmetric] split: outcome.split sum.split)
      next
        case True
        then obtain sh where sh: "?r = Done (Inr sh)" by blast
        obtain lp' w1 where inst: "install_shell lp ((w_shell_heap w i)\<lparr>dy_shell := sh\<rparr>) w = (lp', w1)" by fastforce
        define w3 where "w3 = observe (w_now w) (ObSpawned (lo_path lp) EventSourced True)
            (on_cell (lo_cell lp) (reset_cell (w_now w) (journal_head rp)) w1)"
        have own: "cell_of_loop_ok w lp" using ok cell by (auto simp: world_ok_def cells_ok_def cell_of_loop_ok_def)
        note g = good_install_shell [OF _ inst]
        have g1: "good w w1" "loop_ok w1 lp'" "lo_path lp' = lo_path lp" "lo_cell lp' = lo_cell lp"
          using g Some ok own by auto
        have g3: "good w1 w3"
          unfolding w3_def by (rule good_trans [OF good_on_cell good_fields(1)]) (simp add: reset_cell_def clear_crashed_def)
        have "loop_ok w3 lp'" using g3 g1 ok loop_ok_extends(2) by (auto simp: good_def)
        moreover have "map_of (w_cells w3) (lo_path lp') = Some (lo_cell lp')"
          using inst cell g1 by (auto simp: w3_def install_shell_def Let_def)
        ultimately have "good w3 (snd (restart_door lp' w3))" by (intro good_restart_door)
        then have "good w (snd (restart_door lp' w3))" by (rule good_trans [OF good_trans [OF g1(1) g3]])
        moreover have "snd (restart_with loaded lp args w) = snd (restart_door lp' w3)"
          using Inr Some sh inst
          by (simp add: restart_with_def rp_def [symmetric] Let_def w3_def act_bind_def act_ret_def split: prod.split outcome.split)
        ultimately show ?thesis using ok by (simp add: good_def)
      qed
    qed
  qed
qed

lemma good_load_journal: "good w (snd (load_journal host path w))"
  by (simp add: load_journal_def good_fields split: prod.split)

lemma load_journal_fields:
  "load_journal host path w = (r, w1) \<Longrightarrow> w_cells w1 = w_cells w \<and> w_es_state w1 = w_es_state w"
  by (auto simp: load_journal_def split: prod.splits)

lemma good_restart_es:
  assumes "map_of (w_cells w) (lo_path lp) = Some (lo_cell lp)"
  shows "good w (snd (restart_es host lp args w))"
proof -
  obtain r w1 where l: "load_journal host (lo_path lp) w = (r, w1)" by fastforce
  have "good w w1" using good_load_journal [of w host "lo_path lp"] l by simp
  moreover have "good w1 (snd (restart_with r lp args w1))"
    using assms load_journal_fields [OF l] by (intro good_restart_with) simp
  ultimately show ?thesis using good_trans by (simp add: restart_es_def l)
qed

subsection \<open>Calls\<close>

lemma good_registry_fields:
  "good w (w\<lparr>w_registry := (w_registry w)\<lparr>rg_schemas := t\<rparr>\<rparr>)"
  "good w (w\<lparr>w_registry := (w_registry w)\<lparr>rg_partitions := ps\<rparr>\<rparr>)"
  "good w (w\<lparr>w_registry := (w_registry w)\<lparr>rg_projector_sets := js\<rparr>\<rparr>)"
  "good w (w\<lparr>w_registry := (w_registry w)\<lparr>rg_rules := rs\<rparr>\<rparr>)"
  by (rule good_registry; auto simp: world_ok_def rg_ok_def)+

lemma good_declare_emits: "good w (snd (declare_emits path schema w))"
proof (cases "reg_declare_emits path schema (w_registry w)")
  case (Pair a r)
  show ?thesis
  proof (cases a)
    case (Inl err)
    with Pair show ?thesis by (simp add: declare_emits_def good_refl)
  next
    case (Inr u)
    obtain s0 where s0: "map_of (rg_slots (w_registry w)) path = Some s0"
      and r: "rg_slots r = AList.update path (s0\<lparr>sl_manifest := emits_id schema (sl_manifest s0)\<rparr>) (rg_slots (w_registry w))"
      using Pair Inr by (auto simp: reg_declare_emits_def split: option.splits)
    have g: "good w (w\<lparr>w_registry := r\<rparr>)"
      using rg_ok_slots(4) [OF _ Pair] s0 r
      by (intro good_registry) (auto simp: world_ok_def update_conv' emits_id_def split: if_splits)
    have "good w (on_cell c (\<lambda>ce. ce\<lparr>ce_declared_emits := push_unique schema (ce_declared_emits ce)\<rparr>) (w\<lparr>w_registry := r\<rparr>))" for c
      by (rule good_trans [OF g good_on_cell]) simp
    with g Pair Inr show ?thesis by (simp add: declare_emits_def Let_def split: option.split)
  qed
qed

lemma arm_projector_good:
  assumes arm: "arm_projector path consumed args code opts w = (r, w')" and ok: "world_ok w"
  shows "world_ok w' \<and> extends w w' \<and>
    (\<forall>a. r = Done a \<longrightarrow> loop_ok w' (ar_loop a) \<and> ar_endpoint a < w_next w' \<and> lo_path (ar_loop a) = path)"
proof -
  let ?w = "w\<lparr>w_projectors := push_unique path (w_projectors w)\<rparr>"
  have g: "world_ok ?w" "extends w ?w" using good_fields(8) [of w] ok by (simp_all add: good_def)
  have "mf_kind (projector_manifest consumed) \<noteq> None" by (simp add: projector_manifest_def manifest_kind_def)
  moreover have "arm_es_erased path (projector_manifest consumed) \<lparr>dy_shell = TypedProjector (ec_default code), dy_code = code\<rparr>
      (map ConsumeEntry consumed) opts args ?w = (r, w')"
    using arm by (simp add: arm_projector_def act_bind_def act_do_def)
  ultimately show ?thesis using arm_es_good [OF _ _ g(1)] g(2) extends_trans by blast
qed

text \<open>Arming a projector and handing it on.\<close>

lemma good_armed:
  assumes "\<And>a w. world_ok w \<Longrightarrow> loop_ok w (ar_loop a) \<Longrightarrow> ar_endpoint a < w_next w \<Longrightarrow> good w (snd (f a w))"
  shows "act_rel good (act_bind (arm_projector path consumed args code opts) f :: (('st, 'sv, 's) world, 'b) act)"
proof (rule act_relI, rule goodI)
  fix w :: "('st, 'sv, 's) world"
  assume ok: "world_ok w"
  obtain r w1 where arm: "arm_projector path consumed args code opts w = (r, w1)" by fastforce
  note g = arm_projector_good [OF arm ok]
  show "world_ok (snd (act_bind (arm_projector path consumed args code opts) f w)) \<and>
      extends w (snd (act_bind (arm_projector path consumed args code opts) f w))"
  proof (cases r)
    case (Panicked m)
    with g arm show ?thesis by (simp add: act_bind_def)
  next
    case (Done a)
    with g assms [of w1 a] have "good w1 (snd (f a w1))" by simp
    then show ?thesis using g arm Done by (auto simp: act_bind_def good_def intro: extends_trans)
  qed
qed

lemma good_validated: "act_rel good (validated_parts b)"
  unfolding validated_parts_def
  by (cases "pb_path b") (auto intro!: typing.rel_bind typing.rel_ret simp: act_panic_def act_of_def good_refl
      intro: act_relI)

lemma good_pb_start: "act_rel good (pb_start code b)"
proof -
  have "act_rel good (act_bind (arm_projector path (pb_consumed b) (pb_args b) code (pb_opts b))
         (\<lambda>a. act_bind (act_do (\<lambda>w. snd (spawn_task (CatchUpTask (ar_loop a) (ar_endpoint a) (pb_consumed b)) w)))
           (\<lambda>_. act_ret path)))" for path
  proof (rule good_armed)
    fix a :: armed and w :: "('st, 'sv, 's) world"
    assume "loop_ok w (ar_loop a)" "ar_endpoint a < w_next w"
    then have "good w (snd (spawn_task (CatchUpTask (ar_loop a) (ar_endpoint a) (pb_consumed b)) w))"
      by (intro good_spawn_task) simp
    then show "good w (snd (act_bind (act_do (\<lambda>w. snd (spawn_task (CatchUpTask (ar_loop a) (ar_endpoint a) (pb_consumed b)) w)))
           (\<lambda>_. act_ret path) w))"
      by (simp add: act_bind_def act_do_def act_ret_def)
  qed
  then show ?thesis unfolding pb_start_def by (rule typing.rel_bind [OF good_validated])
qed

text \<open>Detached tasks, and any write that leaves the vital part of a world alone.\<close>

lemma good_vital: "vital w' = vital w \<Longrightarrow> good w w'"
  by (rule good_same) (auto simp: vital_def shape_def)

lemma good_next: "good w (w\<lparr>w_next := Suc (w_next w)\<rparr>)"
proof (rule goodI)
  assume ok: "world_ok w"
  let ?w = "w\<lparr>w_next := Suc (w_next w)\<rparr>"
  have ext: "extends w ?w" by (rule extendsI) simp_all
  then show "world_ok ?w \<and> extends w ?w"
    using world_ok_extends [OF ok ext] tasks_ok_extends [OF _ ext] ok by (simp add: world_ok_def)
qed

interpretation typed_calls: call_frame good host for host
proof (unfold_locales, goal_cases)
  case 1 then show ?case by (rule good_vital)
next
  case 2 then show ?case by (intro good_on_cell) blast
next
  case 3 show ?case by (rule good_next)
next
  case (4 t w) then show ?case by (intro good_spawn_task) (cases t; simp)
next
  case 9 show ?case by (rule good_declare_emits)
next
  case 10 then show ?case by (rule good_restart_es)
next
  case 11 then show ?case by (rule spawn_es_good)
next
  case 12 then show ?case by (rule spawn_service_good)
next
  case 13 show ?case by (rule good_pb_start)
qed (rule good_registry_fields)+

subsection \<open>Turns\<close>

lemma good_flush_mailbox: "good w (flush_mailbox path w)"
proof -
  have *: "good w ((on_cell c (\<lambda>ce. (mark_stopping ce)\<lparr>ce_inbox := ib\<rparr>) w)\<lparr>w_dead_letters := ls\<rparr>)" for c ib ls
    by (rule good_trans [OF good_on_cell good_fields(2)]) (simp add: mark_stopping_def)
  show ?thesis by (simp add: flush_mailbox_def Let_def good_refl * split: option.split prod.split)
qed

lemma good_latch: "good w (snd (latch_cell c w))"
  using watermark_latch_cell [of "w_cell_heap w c"]
  by (intro good_same) (auto simp: shape_def fun_eq_iff latch_cell_heap)

lemma good_door_after: "good w (snd (door_after c tr answer w))"
proof -
  have "good w (fire_watermark c tr f (snd (latch_cell c w)))" for f
    by (rule good_trans [OF good_latch [of w c]]) (simp add: fire_watermark_def good_refl typing.R_traced split: option.split)
  moreover from this have "good w (on_cell c notify_work (fire_watermark c tr f (snd (latch_cell c w))))" for f
    by (rule good_trans) (rule good_on_cell, simp add: notify_work_def)
  ultimately show ?thesis
    by (cases answer) (simp_all add: door_after_def good_refl Let_def case_prod_beta)
qed

lemma good_door_try: "act_rel good (door_try c e parks :: (('st, 'sv, 's) world, door) act)"
proof -
  have k: "act_rel good (\<lambda>w :: ('st, 'sv, 's) world. case r of
          Inr _ \<Rightarrow> (Done PushAccepted, w)
        | Inl refusal \<Rightarrow>
            (let holds = (case refusal of RefFull _ \<Rightarrow> True | _ \<Rightarrow> False) \<and>
                         ce_mailbox_policy (w_cell_heap w c) = Block
             in if \<not> holds \<or> parks \<ge> block_hold_max_parks then
                  (let detail = (if parks \<ge> block_hold_max_parks
                                 then ''inbox still full after the space-notify hold cap''
                                 else if refused_queued_anyway refusal then ''inbox evicted oldest (DropOld)''
                                 else ''inbox refused (overload/closed)'')
                   in (Done PushLettered, dead_letter (refused_into_envelope refusal) DlInboxRefused detail w))
                else (Done (PushHeld (refused_into_envelope refusal) (parks + 1)), w)))"
    for r :: "envelope refused + nat"
    by (rule act_relI) (simp add: good_refl Let_def typing.R_dead_letter split: sum.split)
  have "act_rel good (\<lambda>w :: ('st, 'sv, 's) world. let (d, w') = door_after c (en_trace e) answer w in (Done d, w'))" for answer
    by (rule act_relI) (simp add: case_prod_beta Let_def good_door_after)
  then show ?thesis
    unfolding door_try_def attempt_push_def by (intro typing.rel_bind good_with_inbox k)
qed

lemma good_set_task:
  assumes "\<And>t'. world_ok w \<Longrightarrow> t = Some t' \<Longrightarrow> task_ok w t' \<and> i < w_next w"
  shows "good w (set_task i t w)"
proof (rule goodI)
  assume ok: "world_ok w"
  let ?w = "set_task i t w"
  have ext: "extends w ?w" by (rule extendsI) (simp_all add: set_task_def)
  have old: "tasks_ok w" using ok by (simp add: world_ok_def)
  have "j < w_next ?w \<and> task_ok ?w u" if "map_of (w_tasks ?w) j = Some u" for j u
  proof -
    have "map_of (w_tasks w) j = Some u \<or> t = Some u \<and> j = i"
      using that by (auto simp: set_task_def update_conv' delete_conv' split: option.splits if_splits)
    then show ?thesis
      using old assms [OF ok] task_ok_extends [OF ext] extends_bound [OF ext] unfolding tasks_ok_def by blast
  qed
  then have "tasks_ok ?w" by (simp add: tasks_ok_def)
  then show "world_ok ?w \<and> extends w ?w" using world_ok_extends [OF ok ext] ext by (simp add: set_task_def)
qed

locale typed_host = turn_frame good host "\<lambda>_. True" "\<lambda>_. True" for host :: "('st, 'sv, 's) host"
begin

lemma recover_with_good:
  assumes rec: "recover_with loaded lp w = (r, w')" and ok: "world_ok w" "loop_ok w lp"
  shows "world_ok w' \<and> extends w w' \<and> (\<forall>lp'. r = Done lp' \<longrightarrow> loop_ok w' lp')"
proof -
  have same: "?thesis" if "w' = w" "\<forall>lp'. r = Done lp' \<longrightarrow> lp' = lp" using that ok by (auto simp: extends_refl)
  consider (keep) "w' = w" "\<forall>lp'. r = Done lp' \<longrightarrow> lp' = lp"
    | (fresh) i sh where "map_of (w_es_state w) (lo_path lp) = Some i"
        "(case install_shell lp ((w_shell_heap w i)\<lparr>dy_shell := sh\<rparr>) w of (lp', w1) \<Rightarrow> (Done lp', w1)) = (r, w')"
  proof (cases loaded)
    case (Inl err)
    then show ?thesis using rec by (intro keep) (auto simp: recover_with_def)
  next
    case load: (Inr found)
    show ?thesis
    proof (cases found)
      case None
      then show ?thesis using rec load by (intro keep) (auto simp: recover_with_def)
    next
      case (Some rp)
      show ?thesis
      proof (cases "(snapshot_state rp = None \<and> rp_tail rp = []) \<or> map_of (w_es_state w) (lo_path lp) = None")
        case True
        then show ?thesis using rec load Some by (intro keep) (auto simp: recover_with_def split: if_splits)
      next
        case False
        then obtain i where i: "map_of (w_es_state w) (lo_path lp) = Some i" by auto
        let ?b = "rebuild (dy_code (w_shell_heap w i)) (get_or JNull (w_genesis_args w) (lo_path lp))
          (snapshot_state rp) (rp_tail rp) (dy_shell (w_shell_heap w i))"
        show ?thesis
        proof (cases "\<exists>sh. ?b = Done (Inr sh)")
          case True
          then obtain sh where "?b = Done (Inr sh)" by blast
          with False i rec load Some show ?thesis by (intro fresh [of i sh]) (auto simp: recover_with_def Let_def split: if_splits)
        next
          case no: False
          then show ?thesis
            using False i rec load Some
            by (intro keep) (auto simp: recover_with_def Let_def split: outcome.splits sum.splits)
        qed
      qed
    qed
  qed
  then show ?thesis
  proof cases
    case keep
    then show ?thesis by (rule same)
  next
    case fresh
    obtain lp' w1 where inst: "install_shell lp ((w_shell_heap w i)\<lparr>dy_shell := sh\<rparr>) w = (lp', w1)" by fastforce
    have "cell_of_loop_ok w lp" using ok by (simp add: loop_ok_def)
    then show ?thesis using good_install_shell(1,2) [OF _ inst] fresh inst ok by (auto simp: good_def)
  qed
qed

lemma recover_good:
  assumes rec: "recover_at_boot host lp w = (r, w')" and ok: "world_ok w" "loop_ok w lp"
  shows "world_ok w' \<and> extends w w' \<and> (\<forall>lp'. r = Done lp' \<longrightarrow> loop_ok w' lp')"
proof -
  obtain f w1 where l: "load_journal host (lo_path lp) w = (f, w1)" by fastforce
  have g: "world_ok w1 \<and> extends w w1"
    using good_goodD [of w w1] good_load_journal [of w host "lo_path lp"] l ok(1) by simp
  have "recover_with f lp w1 = (r, w')" using rec l by (simp add: recover_at_boot_def)
  from recover_with_good [OF this] g loop_ok_extends ok(2) show ?thesis using extends_trans by blast
qed

lemma same_good:
  assumes "act_rel good m" "same_loop lp m" "m w = (r, w')" "world_ok w" "loop_ok w lp"
  shows "world_ok w' \<and> extends w w' \<and> (\<forall>lp' ph'. r = Done (Some (lp', ph')) \<longrightarrow> loop_ok w' lp')"
proof -
  have "good w w'" using act_relD [OF assms(1), of w] assms(3) by simp
  then have g: "world_ok w'" "extends w w'" using assms(4) by (simp_all add: good_def)
  have "lp' = lp" if "r = Done (Some (lp', ph'))" for lp' ph'
    using assms(2,3) that unfolding same_loop_def by (metis fst_conv)
  then show ?thesis using g loop_ok_extends(2) [OF g(2) assms(5)] by blast
qed

lemma es_turn_good:
  assumes turn: "es_turn host lp watch ph w = (r, w')" and ok: "world_ok w" "loop_ok w lp"
  shows "world_ok w' \<and> extends w w' \<and> (\<forall>lp' ph'. r = Done (Some (lp', ph')) \<longrightarrow> loop_ok w' lp')"
proof (cases ph)
  case LoopBoot
  obtain x w1 where rec: "recover_at_boot host lp w = (x, w1)" by fastforce
  note g1 = recover_good [OF rec ok]
  show ?thesis
  proof (cases x)
    case (Panicked m)
    with turn LoopBoot rec g1 show ?thesis by (auto simp: act_bind_def)
  next
    case (Done lp1)
    obtain y w2 where ann: "announce_lifecycle host (lo_path lp) LcRunning EventSourced w1 = (y, w2)" by fastforce
    have g2: "good w1 w2" using act_relD [OF rel_announce, of w1 "lo_path lp" LcRunning EventSourced] ann by simp
    have w': "w' = w2" "\<And>lp' ph'. r = Done (Some (lp', ph')) \<Longrightarrow> lp' = lp1"
      using turn LoopBoot rec Done ann by (auto simp: act_bind_def act_ret_def split: outcome.splits)
    show ?thesis
      using g1 g2 w' Done loop_ok_extends(2) [of w1 w2] by (auto simp: good_def intro: extends_trans)
  qed
next
  case LoopRunning
  have "act_rel good (es_turn host lp watch ph)" "same_loop lp (es_turn host lp watch ph)"
    unfolding LoopRunning es_turn.simps
    by (intro rel_running rel_step_es TrueI typing.rel_bind rel_snapshot_on_idle rel_idle_tail)
      (intro same_running same_bind same_basic)
  from same_good [OF this turn ok] show ?thesis .
next
  case LoopParked
  have "act_rel good (es_turn host lp watch ph)" "same_loop lp (es_turn host lp watch ph)"
    unfolding LoopParked es_turn.simps by (rule rel_parked [OF TrueI]) (rule same_basic)
  from same_good [OF this turn ok] show ?thesis .
next
  case LoopDraining
  have "act_rel good (es_turn host lp watch ph)" "same_loop lp (es_turn host lp watch ph)"
    unfolding LoopDraining es_turn.simps by (rule rel_draining [OF TrueI TrueI]) (rule same_draining)
  from same_good [OF this turn ok] show ?thesis .
qed

lemma service_turn_good: "act_rel good (service_turn host lp watch ph)" "same_loop lp (service_turn host lp watch ph)"
  by (cases ph; simp; intro typing.rel_bind rel_announce typing.rel_ret rel_running rel_step_service TrueI rel_idle_tail
      rel_parked rel_draining)
    (cases ph; simp; intro same_bind same_basic same_running same_draining)

end

end
