(* ===== verification/StepFacts.thy ===== *)
theory StepFacts
  imports Frames
begin

text \<open>
  What one step of an event-sourced actor does (\<open>step_es\<close> of \<open>src/src/kernel.rs\<close>): the decide pass
  against a plain specification of the batch's events, the crash path, and the committed path over any
  journal store, then over the in-memory one.
\<close>

subsection \<open>The decide pass\<close>

definition message_events ::
  "serde \<Rightarrow> 'st command_entry list \<Rightarrow> 'st es_shell \<Rightarrow> cmd_ctx \<Rightarrow> envelope \<Rightarrow> event list outcome" where
  "message_events sd entries shell ctx e =
     (case find_entry entries (en_schema e) of
        None \<Rightarrow> Done []
      | Some en \<Rightarrow>
          map_outcome (\<lambda>r. case r of Inl _ \<Rightarrow> [] | Inr events \<Rightarrow> events) (dispatch sd en shell (en_payload e) ctx))"

fun batch_events ::
  "serde \<Rightarrow> 'st command_entry list \<Rightarrow> 'st es_shell \<Rightarrow> cmd_ctx \<Rightarrow> envelope list \<Rightarrow> event list outcome" where
  "batch_events sd entries shell ctx [] = Done []"
| "batch_events sd entries shell ctx (e # es) =
     bind_outcome (message_events sd entries shell ctx e)
       (\<lambda>evs. map_outcome (\<lambda>rest. evs @ rest) (batch_events sd entries shell ctx es))"

lemma cmd_ctx_of_letter [simp]: "cmd_ctx_of (dead_letter e reason detail w) path = cmd_ctx_of w path"
  by (simp add: cmd_ctx_of_def view_lookup_def fun_eq_iff)

lemma decide_loop_spec:
  "fst (decide_loop sd path entries shell cs evs obs w) =
     (case batch_events sd entries shell (cmd_ctx_of w path) (map snd cs) of
        Done new \<Rightarrow> Decided (evs @ new) (obs @ replicate (length cs) [])
      | Panicked m \<Rightarrow> DecidePanicked (snd (hd (dropWhile (\<lambda>(off, e).
          is_done (message_events sd entries shell (cmd_ctx_of w path) e)) cs))))"
proof (induction cs arbitrary: evs obs w)
  case Nil
  then show ?case by simp
next
  case (Cons c cs)
  obtain off e where c: "c = (off, e)" by (cases c)
  show ?case
  proof (cases "find_entry entries (en_schema e)")
    case None
    then have "message_events sd entries shell (cmd_ctx_of w path) e = Done []"
      by (simp add: message_events_def)
    with None show ?thesis
      by (cases "batch_events sd entries shell (cmd_ctx_of w path) (map snd cs)") (simp_all add: c Cons.IH)
  next
    case (Some en)
    show ?thesis
    proof (cases "dispatch sd en shell (en_payload e) (cmd_ctx_of w path)")
      case (Done r)
      with Some have "message_events sd entries shell (cmd_ctx_of w path) e =
          Done (case r of Inl _ \<Rightarrow> [] | Inr events \<Rightarrow> events)"
        by (simp add: message_events_def)
      with Done Some show ?thesis
        by (cases r; cases "batch_events sd entries shell (cmd_ctx_of w path) (map snd cs)")
          (simp_all add: c Cons.IH)
    next
      case (Panicked m)
      with Some have "message_events sd entries shell (cmd_ctx_of w path) e = Panicked m"
        by (simp add: message_events_def)
      with Panicked Some show ?thesis by (simp add: c)
    qed
  qed
qed

subsection \<open>Steps that only add records\<close>

definition records_only :: "('st, 'sv, 's) world \<Rightarrow> ('st, 'sv, 's) world \<Rightarrow> bool" where
  "records_only w w' \<longleftrightarrow>
     (\<exists>letters obs g. w' = w\<lparr>w_dead_letters := w_dead_letters w @ letters, w_observed := obs, w_ids := g\<rparr>)"

lemma records_only_refl: "records_only w w"
  unfolding records_only_def
  by (rule exI [of _ "[]"], rule exI [of _ "w_observed w"], rule exI [of _ "w_ids w"]) simp

lemma records_only_trans: "records_only w w1 \<Longrightarrow> records_only w1 w2 \<Longrightarrow> records_only w w2"
  unfolding records_only_def by (elim exE, hypsubst) (simp, blast)

lemma records_only_observe: "records_only w (observe ts k w)"
proof (cases "w_observing w")
  case True
  show ?thesis unfolding records_only_def
    by (rule exI [of _ "[]"], rule exI [of _ "w_observed w @ [observation_new ts k]"], rule exI [of _ "w_ids w"])
      (simp add: observe_def True)
next
  case False
  then show ?thesis by (simp add: observe_def records_only_refl)
qed

lemma records_only_traced: "records_only w (observe_traced tr k w)"
  by (simp add: observe_traced_def records_only_observe)

lemma records_only_letter: "records_only w (dead_letter e reason detail w)"
proof -
  have "records_only w (w\<lparr>w_dead_letters := w_dead_letters w @ [letter_of e reason detail]\<rparr>)"
    unfolding records_only_def
    by (rule exI [of _ "[letter_of e reason detail]"], rule exI [of _ "w_observed w"], rule exI [of _ "w_ids w"]) simp
  then show ?thesis unfolding dead_letter_def by (rule records_only_trans [OF _ records_only_traced])
qed

lemma records_only_ids: "records_only w (w\<lparr>w_ids := g\<rparr>)"
  unfolding records_only_def
  by (rule exI [of _ "[]"], rule exI [of _ "w_observed w"], rule exI [of _ g]) simp

lemma records_only_fold: "(\<And>x w. records_only w (f x w)) \<Longrightarrow> records_only w (fold f xs w)"
proof (induction xs arbitrary: w)
  case (Cons x xs)
  then show ?case using records_only_trans [of w "f x w" "fold f xs (f x w)"] by simp
qed (simp add: records_only_refl)

lemma records_only_claims: "records_only w (observe_claims k cs w)"
  unfolding observe_claims_def by (rule records_only_fold) (simp add: records_only_traced split: prod.split)

lemma records_only_undeclared: "records_only w (letter_undeclared path ev w)"
proof -
  obtain tr w1 where c: "new_trace_root w = (tr, w1)" by (cases "new_trace_root w")
  have "records_only w w1" using c by (auto simp: new_trace_root_def records_only_ids split: prod.splits)
  then show ?thesis unfolding letter_undeclared_def c Let_def prod.case
    by (rule records_only_trans [OF _ records_only_letter])
qed

lemma records_only_filter: "records_only w (snd (emit_filter lp evs w))"
  by (simp add: emit_filter_def Let_def records_only_fold records_only_undeclared)

lemma records_only_decide: "records_only w (snd (decide_loop sd path entries shell cs evs obs w))"
proof (induction cs arbitrary: evs obs w)
  case Nil
  then show ?case by (simp add: records_only_refl)
next
  case (Cons c cs)
  obtain off e where c: "c = (off, e)" by (cases c)
  have *: "records_only w (snd (decide_loop sd path entries shell cs evs' obs' (dead_letter e reason detail w)))"
    for evs' obs' reason detail
    by (rule records_only_trans [OF records_only_letter Cons.IH])
  show ?case
    unfolding c decide_loop.simps
    by (simp add: * Cons.IH records_only_refl split: option.split outcome.split sum.split)
qed

lemma records_only_fields:
  assumes "records_only w w'"
  shows "w_registry w' = w_registry w" "w_cell_heap w' = w_cell_heap w" "w_endpoint_heap w' = w_endpoint_heap w"
    "w_shell_heap w' = w_shell_heap w" "w_store w' = w_store w" "w_replies w' = w_replies w" "w_now w' = w_now w"
    "w_cells w' = w_cells w" "w_es_state w' = w_es_state w"
    "\<exists>letters. w_dead_letters w' = w_dead_letters w @ letters"
  using assms by (auto simp: records_only_def)

subsection \<open>The inbox under a step\<close>

lemma queued_len: "queued ib c k es \<Longrightarrow> ib_next_offset ib = c + k + length es"
  by (simp add: queued_def ib_rep_def ib_tight_def)

lemma queuedI:
  "ib_rep ib c k es \<Longrightarrow> ib_next_offset ib = c + k + length es \<Longrightarrow> queued ib c k es"
  by (simp add: queued_def ib_rep_def ib_tight_def)

lemma claim_queued:
  assumes "queued ib c 0 es"
  shows "\<exists>ib'. inbox_claim_up_to n ib = Done (enumerate c (take n es), ib') \<and>
    queued ib' c (min n (length es)) (drop n es) \<and> ib_policy ib' = ib_policy ib"
proof -
  obtain ib' where ib': "inbox_claim_up_to n ib = Done (enumerate c (take n es), ib')"
      "ib_rep ib' c (min n (length es)) (drop n es)"
    using claim_rep [OF queued_rep [OF assms]] by blast
  have "ib_next_offset ib' = ib_next_offset ib" "ib_policy ib' = ib_policy ib"
    using ib'(1) by (auto simp: inbox_claim_up_to_def outcome_simps)
  with ib' queued_len [OF assms] show ?thesis by (auto intro: queuedI)
qed

lemma restore_queued:
  assumes "queued ib c (length xs) es"
  shows "\<exists>ib'. inbox_restore_claims (enumerate c xs) ib = Done (xs \<noteq> [], ib') \<and> queued ib' c 0 (xs @ es) \<and>
    ib_policy ib' = ib_policy ib"
proof -
  obtain ib' where ib': "inbox_restore_claims (enumerate c xs) ib = Done (xs \<noteq> [], ib')" "ib_rep ib' c 0 (xs @ es)"
    using restore_rep [OF queued_rep [OF assms]] by blast
  have "ib_next_offset ib' = ib_next_offset ib" "ib_policy ib' = ib_policy ib"
    using ib'(1) by (auto simp: inbox_restore_claims_def outcome_simps)
  with ib' queued_len [OF assms] show ?thesis by (auto intro: queuedI)
qed

lemma commit_queued:
  assumes "queued ib c (Suc k) es"
  shows "\<exists>ib'. inbox_commit_through c ib = Done (True, ib') \<and> queued ib' (Suc c) k es \<and> ib_policy ib' = ib_policy ib"
proof -
  obtain ib' where ib': "inbox_commit_through c ib = Done (True, ib')" "ib_rep ib' (Suc c) k es"
    using commit_rep [OF queued_rep [OF assms], of 0] by auto
  have "ib_next_offset ib' = ib_next_offset ib" "ib_policy ib' = ib_policy ib"
    using ib'(1) by (auto simp: inbox_commit_through_def Let_def split: if_splits)
  with ib' queued_len [OF assms] show ?thesis by (auto intro: queuedI)
qed

lemma commit_run_queued:
  "queued ib c (j + k) es \<Longrightarrow>
   \<exists>freed ib'. commit_run [c..<c + j] ib = Done (freed, ib') \<and> queued ib' (c + j) k es \<and> ib_policy ib' = ib_policy ib"
proof (induction j arbitrary: ib c)
  case 0
  then show ?case by (intro exI [of _ False] exI [of _ ib]) simp
next
  case (Suc j)
  obtain ib1 where ib1: "inbox_commit_through c ib = Done (True, ib1)" "queued ib1 (Suc c) (j + k) es"
      "ib_policy ib1 = ib_policy ib"
    using commit_queued [of ib c "j + k" es] Suc.prems by auto
  obtain freed ib2 where ib2: "commit_run [Suc c..<Suc c + j] ib1 = Done (freed, ib2)" "queued ib2 (Suc c + j) k es"
      "ib_policy ib2 = ib_policy ib1"
    using Suc.IH [OF ib1(2)] by blast
  have "[c..<c + Suc j] = c # [Suc c..<Suc c + j]" by (simp add: upt_conv_Cons del: upt_Suc)
  with ib1 ib2 show ?case by (intro exI [of _ True] exI [of _ ib2]) (simp del: upt_Suc)
qed

lemma map_fst_enumerate [simp]: "map fst (enumerate c xs) = [c..<c + length xs]"
  by (simp add: enumerate_eq_zip)

lemma commit_offsets_queued:
  assumes "queued (ce_inbox (w_cell_heap w c)) cu (length xs + k) es"
  shows "\<exists>freed ib'. commit_offsets c (map fst (enumerate cu xs)) w =
      (Done (), (if freed then on_cell c notify_space else id) (on_cell c (\<lambda>ce. ce\<lparr>ce_inbox := ib'\<rparr>) w)) \<and>
    queued ib' (cu + length xs) k es \<and> ib_policy ib' = ib_policy (ce_inbox (w_cell_heap w c))"
proof -
  obtain freed ib' where ib': "commit_run [cu..<cu + length xs] (ce_inbox (w_cell_heap w c)) = Done (freed, ib')"
      "queued ib' (cu + length xs) k es" "ib_policy ib' = ib_policy (ce_inbox (w_cell_heap w c))"
    using commit_run_queued [OF assms] by blast
  have "commit_offsets c (map fst (enumerate cu xs)) w =
      (Done (), (if freed then on_cell c notify_space else id) (on_cell c (\<lambda>ce. ce\<lparr>ce_inbox := ib'\<rparr>) w))"
  proof -
    have "with_inbox c (commit_run [cu..<cu + length xs]) w =
        (Done freed, on_cell c (\<lambda>ce. ce\<lparr>ce_inbox := ib'\<rparr>) w)"
      using ib'(1) by (simp only: with_inbox_Done)
    then show ?thesis unfolding commit_offsets_def map_fst_enumerate by (simp add: act_bind_def act_do_def)
  qed
  with ib' show ?thesis by blast
qed

lemma guard_drop_queued:
  assumes "queued (ce_inbox (w_cell_heap w c)) cu (length xs) es" "\<not> ce_stopping (w_cell_heap w c)" "xs \<noteq> []"
  shows "\<exists>ib'. guard_drop c (enumerate cu xs) w =
      (Done (), on_cell c notify_space (on_cell c (\<lambda>ce. ce\<lparr>ce_inbox := ib'\<rparr>) w)) \<and> queued ib' cu 0 (xs @ es)"
proof -
  obtain ib' where ib': "inbox_restore_claims (enumerate cu xs) (ce_inbox (w_cell_heap w c)) = Done (xs \<noteq> [], ib')"
      "queued ib' cu 0 (xs @ es)"
    using restore_queued [OF assms(1)] by blast
  have "guard_drop c (enumerate cu xs) w =
      (Done (), on_cell c notify_space (on_cell c (\<lambda>ce. ce\<lparr>ce_inbox := ib'\<rparr>) w))"
  proof -
    have "with_inbox c (inbox_restore_claims (enumerate cu xs)) w =
        (Done (xs \<noteq> []), on_cell c (\<lambda>ce. ce\<lparr>ce_inbox := ib'\<rparr>) w)"
      using ib'(1) by (simp only: with_inbox_Done)
    then show ?thesis using assms(2,3) by (simp add: guard_drop_def act_bind_def act_do_def)
  qed
  with ib'(2) show ?thesis by blast
qed

subsection \<open>The crash path\<close>

lemma after_commit_result:
  assumes "after_commit host lp cs evs seqs obs w = (Done st, w')"
  shows "st = StWork \<or> st = StStop"
  using assms
  by (auto simp: after_commit_def act_bind_def act_ret_def split: prod.splits outcome.splits if_splits)

text \<open>A store whose refused appends change nothing.\<close>

definition refusals_inert :: "'s store_ops \<Rightarrow> bool" where
  "refusals_inert jo \<longleftrightarrow>
     (\<forall>p es s err s'. jo_append jo p es s = (Inl err, s') \<longrightarrow> s' = s) \<and>
     (\<forall>p es s err s'. jo_append_catchup jo p es s = (Inl err, s') \<longrightarrow> s' = s)"

lemma refusals_inertD:
  "refusals_inert jo \<Longrightarrow> jo_append jo p es s = (Inl err, s') \<Longrightarrow> s' = s"
  "refusals_inert jo \<Longrightarrow> jo_append_catchup jo p scs s = (Inl err, s') \<Longrightarrow> s' = s"
  unfolding refusals_inert_def by blast+

lemma mem_refusals_inert: "refusals_inert mem_ops"
  by (auto simp: refusals_inert_def mem_ops_def mem_append_def mem_append_catchup_def split: prod.splits)

lemma append_batch_fails:
  assumes inert: "refusals_inert jo"
    and a: "append_batch jo path cs evs w = (AppendFailed, w')"
  shows "w' = w"
proof (cases "all_same_origin cs")
  case None
  obtain r s where r: "jo_append jo path evs (w_store w) = (r, s)" by (cases "jo_append jo path evs (w_store w)")
  show ?thesis
  proof (cases r)
    case (Inl err)
    with refusals_inertD(1) [OF inert, of path evs "w_store w" err s] r a None show ?thesis by (simp add: append_batch_def split: if_splits)
  qed (use a None r in \<open>simp add: append_batch_def split: if_splits\<close>)
next
  case (Some origin)
  obtain r s where r: "jo_append_catchup jo path (checkpoint_copies origin evs) (w_store w) = (r, s)"
    by (cases "jo_append_catchup jo path (checkpoint_copies origin evs) (w_store w)")
  show ?thesis
  proof (cases r)
    case (Inl err)
    with refusals_inertD(2) [OF inert, of path "checkpoint_copies origin evs" "w_store w" err s] r a Some show ?thesis
      by (simp add: append_batch_def split: if_splits)
  qed (use a Some r in \<open>simp add: append_batch_def split: if_splits\<close>)
qed

lemma decide_and_append_crash:
  assumes inert: "refusals_inert (ho_store host)"
    and r: "decide_and_append host lp cs w = (Done r, w')" "r = BcPanicked \<or> r = BcAppendFailed"
  shows "\<exists>w1. records_only w w1 \<and> (\<exists>w2. records_only (on_cell (lo_cell lp) mark_crashed w1) w2 \<and> w' = w2)"
proof -
  obtain i where i: "loop_state lp = Done i"
    using r(1) by (cases "loop_state lp") (auto simp: decide_and_append_def)
  let ?d = "decide_loop (ho_serde host) (lo_path lp) (ce_entries (w_cell_heap w (lo_cell lp)))
      (dy_shell (w_shell_heap w i)) cs [] [] w"
  obtain d w1 where d: "?d = (d, w1)" by (cases ?d)
  have "records_only w (snd ?d)" by (rule records_only_decide)
  then have w1: "records_only w w1" by (simp add: d)
  show ?thesis
  proof (cases d)
    case (DecidePanicked e)
    then have "w' = observe_traced (en_trace e) (ObFailed (lo_path lp) ''handler panic'')
        (on_cell (lo_cell lp) mark_crashed w1)"
      using r(1) i d by (simp add: decide_and_append_def)
    with w1 show ?thesis by (blast intro: records_only_traced)
  next
    case (Decided evs obs)
    obtain declared w2 where f: "emit_filter lp evs w1 = (declared, w2)" by (cases "emit_filter lp evs w1")
    have w2: "records_only w w2"
      using records_only_trans [OF w1, of w2] records_only_filter [of w1 lp evs] f by simp
    obtain ar w3 where a: "append_batch (ho_store host) (lo_path lp) cs declared w2 = (ar, w3)"
      by (cases "append_batch (ho_store host) (lo_path lp) cs declared w2")
    have ar: "ar = AppendFailed" "w' = on_cell (lo_cell lp) mark_crashed w3"
    proof -
      have "decide_and_append host lp cs w =
          (case ar of
             AppendFailed \<Rightarrow> (Done BcAppendFailed, on_cell (lo_cell lp) mark_crashed w3)
           | AlreadyHeld \<Rightarrow> (Done BcHeld, w3)
           | AppendedAs seqs \<Rightarrow> (Done (BcAppended declared seqs obs), w3))"
        using i d Decided f a by (simp add: decide_and_append_def)
      with r show "ar = AppendFailed" "w' = on_cell (lo_cell lp) mark_crashed w3" by (cases ar; auto)+
    qed
    have "w3 = w2" by (rule append_batch_fails [OF inert a [unfolded ar(1)]])
    with ar(2) w2 show ?thesis by (blast intro: records_only_refl)
  qed
qed

text \<open>A step with a non-empty batch: claimed, observed, then the guarded region and the finish.\<close>

lemma step_es_unfold:
  assumes q: "queued (ce_inbox (w_cell_heap w (lo_cell lp))) cu 0 es"
    and xs: "xs = take (ce_step_batch (w_cell_heap w (lo_cell lp))) es" "xs \<noteq> []"
  shows "\<exists>ib w1.
    queued ib cu (length xs) (drop (length xs) es) \<and>
    ib_policy ib = ib_policy (ce_inbox (w_cell_heap w (lo_cell lp))) \<and>
    records_only (on_cell (lo_cell lp) (\<lambda>ce. ce\<lparr>ce_inbox := ib\<rparr>) w) w1 \<and>
    step_es host lp w =
      act_bind (guarded (lo_cell lp) (enumerate cu xs) (decide_and_append host lp (enumerate cu xs)))
        (finish_step host lp (enumerate cu xs)) w1"
proof -
  let ?c = "lo_cell lp" and ?n = "ce_step_batch (w_cell_heap w (lo_cell lp))" and ?cs = "enumerate cu xs"
  obtain ib where ib: "inbox_claim_up_to ?n (ce_inbox (w_cell_heap w ?c)) = Done (?cs, ib)"
      "queued ib cu (min ?n (length es)) (drop ?n es)" "ib_policy ib = ib_policy (ce_inbox (w_cell_heap w ?c))"
    using claim_queued [OF q] xs(1) by blast
  have len: "length xs = min ?n (length es)" by (simp add: xs(1) min.commute)
  have dr: "drop ?n es = drop (length xs) es" by (simp add: xs(1) min_def)
  let ?w0 = "on_cell ?c (\<lambda>ce. ce\<lparr>ce_inbox := ib\<rparr>) w"
  define w1 where "w1 = observe_claims (\<lambda>e. ObDelivered (lo_path lp) (en_schema e) (en_trace e)) ?cs ?w0"
  have wi: "with_inbox ?c (inbox_claim_up_to ?n) w = (Done ?cs, ?w0)" using ib(1) by (simp only: with_inbox_Done)
  have ne: "?cs \<noteq> []" using xs(2) by simp
  have "step_es host lp w = step_claimed host lp ?cs ?w0"
    unfolding step_es_def act_bind_def wi prod.case outcome.case if_not_P [OF ne] by (rule refl)
  also have "\<dots> = act_bind (guarded ?c ?cs (decide_and_append host lp ?cs)) (finish_step host lp ?cs) w1"
    unfolding step_claimed_def w1_def by (simp add: act_bind_def act_do_def)
  finally have eq: "step_es host lp w =
      act_bind (guarded ?c ?cs (decide_and_append host lp ?cs)) (finish_step host lp ?cs) w1" .
  have "records_only ?w0 w1" unfolding w1_def by (rule records_only_claims)
  with ib len dr eq show ?thesis by auto
qed

lemma step_es_region:
  assumes q: "queued (ce_inbox (w_cell_heap w (lo_cell lp))) cu 0 es"
    and xs: "xs = take (ce_step_batch (w_cell_heap w (lo_cell lp))) es" "xs \<noteq> []"
    and st: "step_es host lp w = (Done st, w')"
  shows "\<exists>ib w1 r w2.
    queued ib cu (length xs) (drop (length xs) es) \<and>
    ib_policy ib = ib_policy (ce_inbox (w_cell_heap w (lo_cell lp))) \<and>
    records_only (on_cell (lo_cell lp) (\<lambda>ce. ce\<lparr>ce_inbox := ib\<rparr>) w) w1 \<and>
    decide_and_append host lp (enumerate cu xs) w1 = (Done r, w2) \<and>
    finish_step host lp (enumerate cu xs) r w2 = (Done st, w')"
proof -
  let ?cs = "enumerate cu xs"
  obtain ib w1 where ib: "queued ib cu (length xs) (drop (length xs) es)"
      "ib_policy ib = ib_policy (ce_inbox (w_cell_heap w (lo_cell lp)))"
      "records_only (on_cell (lo_cell lp) (\<lambda>ce. ce\<lparr>ce_inbox := ib\<rparr>) w) w1"
    and eq: "step_es host lp w =
      act_bind (guarded (lo_cell lp) ?cs (decide_and_append host lp ?cs)) (finish_step host lp ?cs) w1"
    using step_es_unfold [OF q xs] by blast
  obtain r w2 where d: "decide_and_append host lp ?cs w1 = (r, w2)" by (cases "decide_and_append host lp ?cs w1")
  then obtain r' where "r = Done r'" "finish_step host lp ?cs r' w2 = (Done st, w')"
    using eq st by (cases r) (auto simp: act_bind_def guarded_def)
  with ib d show ?thesis by auto
qed

lemma cmd_ctx_of_records:
  "records_only (on_cell c f w) w1 \<Longrightarrow> cmd_ctx_of w1 path = cmd_ctx_of w path"
  using records_only_fields(1,7) [of "on_cell c f w" w1] by (simp add: cmd_ctx_of_def view_lookup_def fun_eq_iff)

text \<open>A panicking decision does crash the step.\<close>

lemma panic_crashes_step:
  assumes q: "queued (ce_inbox (w_cell_heap w (lo_cell lp))) cu 0 es"
    and xs: "xs = take (ce_step_batch (w_cell_heap w (lo_cell lp))) es" "xs \<noteq> []"
    and ns: "\<not> ce_stopping (w_cell_heap w (lo_cell lp))" and i: "lo_state lp = Some i"
    and panic: "batch_events (ho_serde host) (ce_entries (w_cell_heap w (lo_cell lp))) (dy_shell (w_shell_heap w i))
        (cmd_ctx_of w (lo_path lp)) xs = Panicked m"
  shows "\<exists>w'. step_es host lp w = (Done StCrashed, w')"
proof -
  let ?c = "lo_cell lp" and ?cs = "enumerate cu xs"
  obtain ib w1 where ib: "queued ib cu (length xs) (drop (length xs) es)"
      and w1: "records_only (on_cell ?c (\<lambda>ce. ce\<lparr>ce_inbox := ib\<rparr>) w) w1"
      and eq: "step_es host lp w =
        act_bind (guarded ?c ?cs (decide_and_append host lp ?cs)) (finish_step host lp ?cs) w1"
    using step_es_unfold [OF q xs] by blast
  note h1 = records_only_fields [OF w1]
  let ?d = "decide_loop (ho_serde host) (lo_path lp) (ce_entries (w_cell_heap w1 ?c))
      (dy_shell (w_shell_heap w1 i)) ?cs [] [] w1"
  obtain d w2 where d: "?d = (d, w2)" by (cases ?d)
  have w2: "records_only w1 w2" using records_only_decide [of w1] d by (metis snd_conv)
  have "batch_events (ho_serde host) (ce_entries (w_cell_heap w1 ?c)) (dy_shell (w_shell_heap w1 i))
      (cmd_ctx_of w1 (lo_path lp)) (map snd ?cs) = Panicked m"
    using panic h1 cmd_ctx_of_records [OF w1] by simp
  then obtain e where e: "d = DecidePanicked e"
    using decide_loop_spec [of "ho_serde host" "lo_path lp" "ce_entries (w_cell_heap w1 ?c)"
        "dy_shell (w_shell_heap w1 i)" ?cs "[]" "[]" w1] d by simp
  define w3 where "w3 = observe_traced (en_trace e) (ObFailed (lo_path lp) ''handler panic'') (on_cell ?c mark_crashed w2)"
  have dec: "decide_and_append host lp ?cs w1 = (Done BcPanicked, w3)"
    using d e i by (simp add: decide_and_append_def loop_state_def w3_def)
  have cell: "w_cell_heap w3 ?c = mark_crashed ((w_cell_heap w ?c)\<lparr>ce_inbox := ib\<rparr>)"
    using h1(2) records_only_fields(2) [OF w2] by (simp add: w3_def)
  have nsq: "\<not> ce_stopping (w_cell_heap w3 ?c)" "queued (ce_inbox (w_cell_heap w3 ?c)) cu (length xs) (drop (length xs) es)"
    using cell ib ns by (simp_all add: mark_crashed_def)
  show ?thesis
    using guard_drop_queued [OF nsq(2,1) xs(2)] dec unfolding eq
    by (auto simp: act_bind_def guarded_def finish_step_def act_ret_def)
qed

lemma crash_facts:
  assumes "refusals_inert (ho_store host)"
    and "queued (ce_inbox (w_cell_heap w (lo_cell lp))) cu 0 es"
    and "\<not> ce_stopping (w_cell_heap w (lo_cell lp))"
    and "step_es host lp w = (Done StCrashed, w')"
  shows "queued (ce_inbox (w_cell_heap w' (lo_cell lp))) cu 0 es \<and> ce_crashed (w_cell_heap w' (lo_cell lp)) \<and>
    (\<forall>c. c \<noteq> lo_cell lp \<longrightarrow> w_cell_heap w' c = w_cell_heap w c) \<and>
    w_store w' = w_store w \<and> w_shell_heap w' = w_shell_heap w \<and> w_registry w' = w_registry w \<and>
    w_endpoint_heap w' = w_endpoint_heap w \<and> w_replies w' = w_replies w \<and>
    (\<exists>letters. w_dead_letters w' = w_dead_letters w @ letters)"
proof -
  let ?c = "lo_cell lp"
  define xs where "xs = take (ce_step_batch (w_cell_heap w ?c)) es"
  have "xs \<noteq> []"
  proof
    assume "xs = []"
    with claim_queued [OF assms(2), of "ce_step_batch (w_cell_heap w ?c)"] assms(4) show False
      by (auto simp: step_es_def with_inbox_def act_bind_def act_ret_def xs_def)
  qed
  obtain ib w1 r w2 where q: "queued ib cu (length xs) (drop (length xs) es)"
      and w1: "records_only (on_cell ?c (\<lambda>ce. ce\<lparr>ce_inbox := ib\<rparr>) w) w1"
      and d: "decide_and_append host lp (enumerate cu xs) w1 = (Done r, w2)"
      and f: "finish_step host lp (enumerate cu xs) r w2 = (Done StCrashed, w')"
    using step_es_region [OF assms(2) xs_def \<open>xs \<noteq> []\<close> assms(4)] by blast
  have r: "r = BcPanicked \<or> r = BcAppendFailed"
  proof (cases r)
    case BcHeld
    then show ?thesis using f by (auto simp: finish_step_def act_bind_def act_ret_def split: prod.splits outcome.splits)
  next
    case (BcAppended evs seqs obs)
    then show ?thesis
      using f after_commit_result [of host lp "enumerate cu xs" evs seqs obs]
      by (auto simp: finish_step_def act_bind_def split: prod.splits outcome.splits)
  qed simp_all
  then have g: "act_bind (guard_drop ?c (enumerate cu xs)) (\<lambda>_. act_ret StCrashed) w2 = (Done StCrashed, w')"
    using f by (auto simp: finish_step_def)
  obtain v where v: "records_only w1 v" "records_only (on_cell ?c mark_crashed v) w2"
    using decide_and_append_crash [OF assms(1) d r] by blast
  note h1 = records_only_fields [OF w1] and h2 = records_only_fields [OF v(1)] and h3 = records_only_fields [OF v(2)]
  have cell: "w_cell_heap w2 ?c = mark_crashed ((w_cell_heap w ?c)\<lparr>ce_inbox := ib\<rparr>)"
    using h1(2) h2(2) h3(2) by simp
  have ns: "\<not> ce_stopping (w_cell_heap w2 ?c)" "queued (ce_inbox (w_cell_heap w2 ?c)) cu (length xs) (drop (length xs) es)"
    using cell q assms(3) by (simp_all add: mark_crashed_def)
  obtain ib' where gd: "guard_drop ?c (enumerate cu xs) w2 =
      (Done (), on_cell ?c notify_space (on_cell ?c (\<lambda>ce. ce\<lparr>ce_inbox := ib'\<rparr>) w2))"
    and q': "queued ib' cu 0 (xs @ drop (length xs) es)"
    using guard_drop_queued [OF ns(2,1) \<open>xs \<noteq> []\<close>] by blast
  have w': "w' = on_cell ?c notify_space (on_cell ?c (\<lambda>ce. ce\<lparr>ce_inbox := ib'\<rparr>) w2)"
    using g gd by (simp add: act_bind_def act_ret_def)
  have "xs @ drop (length xs) es = es" unfolding xs_def by (simp add: min_def)
  then show ?thesis
    using q' cell h1 h2 h3 by (auto simp: w' notify_space_def mark_crashed_def)
qed

subsection \<open>The committed path\<close>

lemma decide_and_append_done:
  assumes "decide_and_append host lp cs w = (Done (BcAppended evs seqs obs), w')" "loop_state lp = Done i"
  shows "\<exists>new w1.
    batch_events (ho_serde host) (ce_entries (w_cell_heap w (lo_cell lp))) (dy_shell (w_shell_heap w i))
      (cmd_ctx_of w (lo_path lp)) (map snd cs) = Done new \<and>
    evs = map share_event (filter (\<lambda>ev. ev_schema ev \<in> set (ce_declared_emits (w_cell_heap w (lo_cell lp)))) new) \<and>
    obs = replicate (length cs) [] \<and> records_only w w1 \<and>
    append_batch (ho_store host) (lo_path lp) cs evs w1 = (AppendedAs seqs, w')"
proof -
  let ?d = "decide_loop (ho_serde host) (lo_path lp) (ce_entries (w_cell_heap w (lo_cell lp)))
      (dy_shell (w_shell_heap w i)) cs [] [] w"
  obtain d w1 where d: "?d = (d, w1)" by (cases ?d)
  have "records_only w (snd ?d)" by (rule records_only_decide)
  then have w1: "records_only w w1" by (simp add: d)
  note spec = decide_loop_spec [of "ho_serde host" "lo_path lp" "ce_entries (w_cell_heap w (lo_cell lp))"
      "dy_shell (w_shell_heap w i)" cs "[]" "[]" w, unfolded d fst_conv]
  show ?thesis
  proof (cases d)
    case (DecidePanicked e)
    then show ?thesis using assms d by (simp add: decide_and_append_def)
  next
    case (Decided all obs')
    obtain declared w2 where f: "emit_filter lp all w1 = (declared, w2)" by (cases "emit_filter lp all w1")
    have w2: "records_only w w2"
      using records_only_trans [OF w1, of w2] records_only_filter [of w1 lp all] f by simp
    obtain ar w3 where a: "append_batch (ho_store host) (lo_path lp) cs declared w2 = (ar, w3)"
      by (cases "append_batch (ho_store host) (lo_path lp) cs declared w2")
    have "decide_and_append host lp cs w =
        (case ar of
           AppendFailed \<Rightarrow> (Done BcAppendFailed, on_cell (lo_cell lp) mark_crashed w3)
         | AlreadyHeld \<Rightarrow> (Done BcHeld, w3)
         | AppendedAs seqs \<Rightarrow> (Done (BcAppended declared seqs obs'), w3))"
      using assms(2) d Decided f a by (simp add: decide_and_append_def)
    with assms(1) have ar: "ar = AppendedAs seqs" "declared = evs" "obs' = obs" "w3 = w'"
      by (cases ar; auto)+
    have decl: "evs = map share_event (filter (\<lambda>ev. ev_schema ev \<in> set (ce_declared_emits (w_cell_heap w (lo_cell lp)))) all)"
      using f ar(2) records_only_fields(2) [OF w1] by (simp add: emit_filter_def Let_def)
    obtain new where "batch_events (ho_serde host) (ce_entries (w_cell_heap w (lo_cell lp)))
        (dy_shell (w_shell_heap w i)) (cmd_ctx_of w (lo_path lp)) (map snd cs) = Done new"
        "all = new" "obs = replicate (length cs) []"
      using spec Decided ar(3) by (auto split: outcome.splits)
    with decl w2 a ar show ?thesis by auto
  qed
qed

lemma put_shell_twice [simp]: "put_shell i sh2 (put_shell i sh1 w) = put_shell i sh2 w"
  by (simp add: put_shell_def)

lemma put_shell_same: "put_shell i (dy_shell (w_shell_heap w i)) w = w"
  by (simp add: put_shell_def)

lemma put_shell_fields [simp]:
  "dy_shell (w_shell_heap (put_shell i sh w) i) = sh" "dy_code (w_shell_heap (put_shell i sh w) i) = dy_code (w_shell_heap w i)"
  "w_store (put_shell i sh w) = w_store w" "w_cell_heap (put_shell i sh w) = w_cell_heap w"
  by (simp_all add: put_shell_def)

lemma apply_each_done:
  "act_each (apply_in_place i) evs w = (Done u, w') \<Longrightarrow>
   \<exists>sh. apply_all (dy_code (w_shell_heap w i)) evs (dy_shell (w_shell_heap w i)) = Done sh \<and> w' = put_shell i sh w"
proof (induction evs arbitrary: w)
  case Nil
  then show ?case by (simp add: act_ret_def put_shell_same)
next
  case (Cons ev evs)
  obtain sh where sh: "apply_erased (dy_code (w_shell_heap w i)) ev (dy_shell (w_shell_heap w i)) = Done sh"
    using Cons.prems by (cases "apply_erased (dy_code (w_shell_heap w i)) ev (dy_shell (w_shell_heap w i))")
      (auto simp: act_bind_def apply_in_place_def)
  then have "apply_in_place i ev w = (Done (), put_shell i sh w)" by (simp add: apply_in_place_def)
  then have "act_each (apply_in_place i) evs (put_shell i sh w) = (Done u, w')"
    using Cons.prems by (simp add: act_bind_def)
  from Cons.IH [OF this] sh show ?case by auto
qed

lemma apply_batch_done:
  assumes "apply_batch lp evs w = (Done u, w')" "loop_state lp = Done i"
  shows "\<exists>sh. apply_all (dy_code (w_shell_heap w i)) evs (dy_shell (w_shell_heap w i)) = Done sh \<and> w' = put_shell i sh w"
  using assms apply_each_done [of i evs w u w']
  by (auto simp: apply_batch_def put_shell_same split: if_splits)

lemma act_bind_doneE:
  assumes "act_bind m f w = (Done b, w')"
  obtains a w1 where "m w = (Done a, w1)" "f a w1 = (Done b, w')"
  using assms by (cases "m w"; cases "fst (m w)") (auto simp: act_bind_def)

context journal_store
begin

text \<open>Snapshots change no history, no state and no inbox.\<close>

definition snapshots_only :: "nat \<Rightarrow> ('st, 'sv, 's) world \<Rightarrow> ('st, 'sv, 's) world \<Rightarrow> bool" where
  "snapshots_only c w w' \<longleftrightarrow>
     (inv (w_store w) \<longrightarrow> inv (w_store w') \<and> hist (w_store w') = hist (w_store w)) \<and>
     w_shell_heap w' = w_shell_heap w \<and> ce_inbox (w_cell_heap w' c) = ce_inbox (w_cell_heap w c) \<and>
     ce_last_event_seq (w_cell_heap w' c) = ce_last_event_seq (w_cell_heap w c)"

lemma snapshots_only_refl: "snapshots_only c w w"
  by (simp add: snapshots_only_def)

lemma snapshots_only_trans: "snapshots_only c w w1 \<Longrightarrow> snapshots_only c w1 w2 \<Longrightarrow> snapshots_only c w w2"
  by (auto simp: snapshots_only_def)

lemma snapshot_now_only:
  assumes "jo_append_snapshot (ho_store host) = snapshot"
  shows "snapshots_only c w (snd (snapshot_now host lp seq w))"
proof -
  let ?cap = "bind_outcome (loop_state lp)
         (\<lambda>i. capture_erased (dy_code (w_shell_heap w i)) (dy_shell (w_shell_heap w i)))"
  show ?thesis
  proof (cases ?cap)
    case (Panicked m)
    then show ?thesis by (simp add: snapshot_now_def act_bind_def act_of_def snapshots_only_refl)
  next
    case (Done captured)
    show ?thesis
    proof (cases captured)
      case (Inl err)
      with Done show ?thesis
        by (simp add: snapshot_now_def act_bind_def act_of_def act_do_def snapshots_only_refl)
    next
      case (Inr blob)
      obtain r s where rs: "snapshot (lo_path lp) seq blob (as_millis (w_now w)) (w_store w) = (r, s)"
        by (cases "snapshot (lo_path lp) seq blob (as_millis (w_now w)) (w_store w)")
      have inv: "inv s \<and> hist s = hist (w_store w)" if "inv (w_store w)"
      proof (cases r)
        case (Inl e)
        then show ?thesis using snapshot_fail [OF that rs [unfolded Inl]] by simp
      next
        case (Inr u)
        then have "r = Inr ()" by simp
        then show ?thesis using snapshot_law [OF that rs [unfolded \<open>r = Inr ()\<close>]] by simp
      qed
      then show ?thesis
        using Done Inr rs assms
        by (cases r) (simp_all add: snapshot_now_def act_bind_def act_of_def act_do_def snapshots_only_def)
    qed
  qed
qed

lemma snapshots_each:
  assumes "jo_append_snapshot (ho_store host) = snapshot"
  shows "snapshots_only c w (snd (act_each (snapshot_now host lp) seqs w))"
proof (induction seqs arbitrary: w)
  case Nil
  then show ?case by (simp add: act_ret_def snapshots_only_refl)
next
  case (Cons seq seqs)
  obtain r w1 where w1: "snapshot_now host lp seq w = (r, w1)" by (cases "snapshot_now host lp seq w")
  have "snapshots_only c w w1" using snapshot_now_only [OF assms, of c w lp seq] w1 by simp
  then show ?case
    using w1 snapshots_only_trans [OF _ Cons.IH] by (cases r) (auto simp: act_bind_def)
qed

lemma maybe_snapshot_only:
  assumes "jo_append_snapshot (ho_store host) = snapshot"
  shows "snapshots_only c w (snd (maybe_snapshot host lp seqs w))"
  using snapshots_each [OF assms] by (simp add: maybe_snapshot_def snapshots_only_refl split: snapshot_cadence.split)

lemma after_commit_facts:
  fixes host :: "('st, 'sv, 's) host" and w w' :: "('st, 'sv, 's) world"
  assumes snap: "jo_append_snapshot (ho_store host) = snapshot" and inv: "inv (w_store w)"
    and i: "loop_state lp = Done i"
    and fac: "\<And>f p a. act_rel (steady i (lo_cell lp)) (ho_factory host f p a)"
      "\<And>f p a. act_rel (gains (lo_cell lp)) (ho_factory host f p a)"
    and fin: "after_commit host lp cs evs seqs obs w = (Done st, w')"
  shows "\<exists>sh. apply_all (dy_code (w_shell_heap w i)) evs (dy_shell (w_shell_heap w i)) = Done sh \<and>
    w_shell_heap w' i = (w_shell_heap w i)\<lparr>dy_shell := sh\<rparr> \<and>
    inv (w_store w') \<and> hist (w_store w') = hist (w_store w) \<and>
    ce_last_event_seq (w_cell_heap w' (lo_cell lp)) =
      (if seqs = [] then ce_last_event_seq (w_cell_heap w (lo_cell lp)) else last seqs) \<and>
    gains (lo_cell lp) w w'"
proof -
  let ?c = "lo_cell lp"
  define wA where "wA = observe_claims (\<lambda>e. ObAcked (lo_path lp) (en_schema e) (en_trace e)) cs (record_last_seq ?c seqs w)"
  have wA: "records_only (record_last_seq ?c seqs w) wA" unfolding wA_def by (rule records_only_claims)
  note hA = records_only_fields [OF wA]
  have d1: "act_bind (apply_batch lp evs) (\<lambda>_. act_bind (flush_all host lp obs)
      (\<lambda>stop. act_bind (if lo_is_projector lp then act_ret () else fan_out_emits host (lo_path lp) evs seqs)
         (\<lambda>_. act_bind (maybe_snapshot host lp seqs) (\<lambda>_. act_ret (if stop then StStop else StWork))))) wA = (Done st, w')"
    using fin unfolding after_commit_def wA_def by (simp add: act_bind_def act_do_def)
  obtain u wB where b: "apply_batch lp evs wA = (Done u, wB)"
    and d2: "act_bind (flush_all host lp obs)
      (\<lambda>stop. act_bind (if lo_is_projector lp then act_ret () else fan_out_emits host (lo_path lp) evs seqs)
         (\<lambda>_. act_bind (maybe_snapshot host lp seqs) (\<lambda>_. act_ret (if stop then StStop else StWork)))) wB = (Done st, w')"
    using d1 by (rule act_bind_doneE)
  obtain stop wC where c: "flush_all host lp obs wB = (Done stop, wC)"
    and d3: "act_bind (if lo_is_projector lp then act_ret () else fan_out_emits host (lo_path lp) evs seqs)
         (\<lambda>_. act_bind (maybe_snapshot host lp seqs) (\<lambda>_. act_ret (if stop then StStop else StWork))) wC = (Done st, w')"
    using d2 by (rule act_bind_doneE)
  obtain u' wD where d: "(if lo_is_projector lp then act_ret () else fan_out_emits host (lo_path lp) evs seqs) wC = (Done u', wD)"
    and d4: "act_bind (maybe_snapshot host lp seqs) (\<lambda>_. act_ret (if stop then StStop else StWork)) wD = (Done st, w')"
    using d3 by (rule act_bind_doneE)
  obtain u'' where e: "maybe_snapshot host lp seqs wD = (Done u'', w')"
    using d4 by (rule act_bind_doneE) (auto simp: act_ret_def)
  obtain sh where sh: "apply_all (dy_code (w_shell_heap wA i)) evs (dy_shell (w_shell_heap wA i)) = Done sh"
      "wB = put_shell i sh wA"
    using apply_batch_done [OF b i] by blast
  have steadyD: "steady i ?c wB wD"
  proof (rule steady.R_trans)
    have "steady i ?c wB (snd (flush_all host lp obs wB))" by (rule act_relD [OF steady.rel_flush_all [OF fac(1)]])
    then show "steady i ?c wB wC" by (simp add: c)
    have "steady i ?c wC (snd (fan_out_emits host (lo_path lp) evs seqs wC))"
      by (rule act_relD [OF steady.rel_fan_out [OF fac(1)]])
    then show "steady i ?c wC wD"
      using d by (auto simp: act_ret_def steady.R_refl split: if_splits)
  qed
  have gainsD: "gains ?c wB wD"
  proof (rule gains_trans)
    have "gains ?c wB (snd (flush_all host lp obs wB))" by (rule act_relD [OF gains.rel_flush_all [OF fac(2)]])
    then show "gains ?c wB wC" by (simp add: c)
    have "gains ?c wC (snd (fan_out_emits host (lo_path lp) evs seqs wC))"
      by (rule act_relD [OF gains.rel_fan_out [OF fac(2)]])
    then show "gains ?c wC wD"
      using d by (auto simp: act_ret_def gains_refl split: if_splits)
  qed
  have so: "snapshots_only ?c wD w'" using maybe_snapshot_only [OF snap, of ?c wD lp seqs] e by simp
  have A: "w_store wA = w_store w" "w_shell_heap wA = w_shell_heap w" "ce_inbox (w_cell_heap wA ?c) = ce_inbox (w_cell_heap w ?c)"
    "ce_last_event_seq (w_cell_heap wA ?c) = (if seqs = [] then ce_last_event_seq (w_cell_heap w ?c) else last seqs)"
    using hA by (simp_all add: record_last_seq_def)
  have "gains ?c w wB" using A sh by (intro gains_same) simp
  moreover have "gains ?c wD w'" using so by (intro gains_same) (simp add: snapshots_only_def)
  ultimately have "gains ?c w w'" using gainsD gains_trans by blast
  moreover have "w_store wD = w_store w" "w_shell_heap wD i = (w_shell_heap w i)\<lparr>dy_shell := sh\<rparr>"
    "ce_last_event_seq (w_cell_heap wD ?c) = ce_last_event_seq (w_cell_heap wA ?c)"
    using steadyD sh A by (simp_all add: steady_def cell_config_def put_shell_def)
  ultimately show ?thesis using so sh(1) inv A by (auto simp: snapshots_only_def)
qed

text \<open>The whole step, on a batch that is not a run of stamped copies.\<close>

lemma step_commits:
  fixes host :: "('st, 'sv, 's) host" and w w' :: "('st, 'sv, 's) world"
  assumes jo: "jo_append (ho_store host) = append" "jo_append_snapshot (ho_store host) = snapshot"
    and inv: "inv (w_store w)"
    and q: "queued (ce_inbox (w_cell_heap w (lo_cell lp))) cu 0 es"
    and xs: "xs = take (ce_step_batch (w_cell_heap w (lo_cell lp))) es" "xs \<noteq> []"
    and i: "lo_state lp = Some i" and plain: "all_same_origin (enumerate cu xs) = None"
    and fac: "\<And>f p a. act_rel (steady i (lo_cell lp)) (ho_factory host f p a)"
      "\<And>f p a. act_rel (gains (lo_cell lp)) (ho_factory host f p a)"
    and fin: "step_es host lp w = (Done st, w')" "st \<noteq> StCrashed"
  shows "\<exists>new kept sh.
    batch_events (ho_serde host) (ce_entries (w_cell_heap w (lo_cell lp))) (dy_shell (w_shell_heap w i))
      (cmd_ctx_of w (lo_path lp)) xs = Done new \<and>
    kept = map share_event (filter (\<lambda>ev. ev_schema ev \<in> set (ce_declared_emits (w_cell_heap w (lo_cell lp)))) new) \<and>
    inv (w_store w') \<and>
    map jd_event (hist (w_store w') (lo_path lp)) = map jd_event (hist (w_store w) (lo_path lp)) @ kept \<and>
    apply_all (dy_code (w_shell_heap w i)) kept (dy_shell (w_shell_heap w i)) = Done sh \<and>
    w_shell_heap w' i = (w_shell_heap w i)\<lparr>dy_shell := sh\<rparr> \<and>
    ce_last_event_seq (w_cell_heap w' (lo_cell lp)) =
      (if kept = [] then ce_last_event_seq (w_cell_heap w (lo_cell lp))
       else length (hist (w_store w') (lo_path lp)) - 1) \<and>
    (ib_policy (ce_inbox (w_cell_heap w (lo_cell lp))) \<noteq> DropOld \<longrightarrow>
      (\<exists>more. queued (ce_inbox (w_cell_heap w' (lo_cell lp))) (cu + length xs) 0 (drop (length xs) es @ more)))"
proof -
  let ?c = "lo_cell lp" and ?cs = "enumerate cu xs"
  obtain ib w1 r w2 where ib: "queued ib cu (length xs) (drop (length xs) es)"
      and pol: "ib_policy ib = ib_policy (ce_inbox (w_cell_heap w ?c))"
      and w1: "records_only (on_cell ?c (\<lambda>ce. ce\<lparr>ce_inbox := ib\<rparr>) w) w1"
      and d: "decide_and_append host lp ?cs w1 = (Done r, w2)"
      and f: "finish_step host lp ?cs r w2 = (Done st, w')"
    using step_es_region [OF q xs fin(1)] by blast
  note h1 = records_only_fields [OF w1]
  have li: "loop_state lp = Done i" using i by (simp add: loop_state_def)
  have "\<exists>evs seqs obs. r = BcAppended evs seqs obs"
  proof (cases r)
    case BcHeld
    have "append_batch (ho_store host) (lo_path lp) ?cs evs v \<noteq> (AlreadyHeld, v')"
      for evs and v v' :: "('st, 'sv, 's) world"
      using plain by (simp add: append_batch_def split: prod.split sum.split)
    then show ?thesis
      using d BcHeld by (auto simp: decide_and_append_def Let_def split: outcome.splits prod.splits decided.splits append_result.splits)
  qed (use f fin(2) in \<open>auto simp: finish_step_def act_bind_def act_ret_def split: prod.splits outcome.splits\<close>)
  then obtain evs seqs obs where r: "r = BcAppended evs seqs obs" by blast
  obtain new w3 where be: "batch_events (ho_serde host) (ce_entries (w_cell_heap w1 ?c)) (dy_shell (w_shell_heap w1 i))
        (cmd_ctx_of w1 (lo_path lp)) (map snd ?cs) = Done new"
      and kept: "evs = map share_event (filter (\<lambda>ev. ev_schema ev \<in> set (ce_declared_emits (w_cell_heap w1 ?c))) new)"
      and w3: "records_only w1 w3" and ap: "append_batch (ho_store host) (lo_path lp) ?cs evs w3 = (AppendedAs seqs, w2)"
    using decide_and_append_done [OF d [unfolded r] li] by blast
  note h3 = records_only_fields [OF w3]
  let ?p = "lo_path lp" and ?s = "w_store w"
  have store: "w_store w3 = ?s" using h1 h3 by simp
  obtain s2 where s2: "w2 = w3\<lparr>w_store := s2\<rparr>" "inv s2" "map jd_event (hist s2 ?p) = map jd_event (hist ?s ?p) @ evs"
      "seqs = [length (hist ?s ?p)..<length (hist ?s ?p) + length evs]"
  proof (cases "evs = []")
    case True
    then show ?thesis using ap store inv that [of "w_store w3"] by (simp add: append_batch_def)
  next
    case False
    obtain a s' where as: "append ?p evs ?s = (a, s')" by (cases "append ?p evs ?s")
    have a: "a = Inr seqs" "w2 = w3\<lparr>w_store := s'\<rparr>"
      using ap False plain store jo(1) as by (simp_all add: append_batch_def split: sum.splits)
    show ?thesis
      using append_law [OF inv as [unfolded a(1)]] append_inv [OF inv as] a(2) that by blast
  qed
  have cell2: "w_cell_heap w2 ?c = (w_cell_heap w ?c)\<lparr>ce_inbox := ib\<rparr>" "w_shell_heap w2 = w_shell_heap w"
    "w_store w2 = s2"
    using s2(1) h1 h3 by simp_all
  have q2: "queued (ce_inbox (w_cell_heap w2 ?c)) cu (length xs + 0) (drop (length xs) es)"
    using cell2 ib by simp
  obtain freed ib' where co: "commit_offsets ?c (map fst ?cs) w2 =
      (Done (), (if freed then on_cell ?c notify_space else id) (on_cell ?c (\<lambda>ce. ce\<lparr>ce_inbox := ib'\<rparr>) w2))"
    and q3: "queued ib' (cu + length xs) 0 (drop (length xs) es)" "ib_policy ib' = ib_policy (ce_inbox (w_cell_heap w2 ?c))"
    using commit_offsets_queued [OF q2] by blast
  define wc where "wc = (if freed then on_cell ?c notify_space else id) (on_cell ?c (\<lambda>ce. ce\<lparr>ce_inbox := ib'\<rparr>) w2)"
  have co': "commit_offsets ?c (map fst ?cs) w2 = (Done (), wc)" using co by (simp only: wc_def)
  have wc: "w_store wc = s2" "w_shell_heap wc = w_shell_heap w" "ce_inbox (w_cell_heap wc ?c) = ib'"
    "ce_last_event_seq (w_cell_heap wc ?c) = ce_last_event_seq (w_cell_heap w ?c)"
    using cell2 by (simp_all add: wc_def notify_space_def)
  have af: "after_commit host lp ?cs evs seqs obs wc = (Done st, w')"
    using f unfolding r finish_step_def before_commit.case act_bind_def using co' by (simp add: guarded_def)
  have invc: "inv (w_store wc)" using wc(1) s2(2) by simp
  obtain sh where sh: "apply_all (dy_code (w_shell_heap wc i)) evs (dy_shell (w_shell_heap wc i)) = Done sh"
    and fin': "w_shell_heap w' i = (w_shell_heap wc i)\<lparr>dy_shell := sh\<rparr>"
      "inv (w_store w')" "hist (w_store w') = hist (w_store wc)"
      "ce_last_event_seq (w_cell_heap w' ?c) =
        (if seqs = [] then ce_last_event_seq (w_cell_heap wc ?c) else last seqs)"
      "gains ?c wc w'"
    using after_commit_facts [OF jo(2) invc li fac af] by blast
  have hw: "map jd_event (hist (w_store w') ?p) = map jd_event (hist ?s ?p) @ evs" using fin'(3) wc(1) s2(3) by simp
  have len: "length (hist (w_store w') ?p) = length (hist ?s ?p) + length evs"
    using arg_cong [OF hw, of length] by simp
  have last: "ce_last_event_seq (w_cell_heap w' ?c) =
      (if evs = [] then ce_last_event_seq (w_cell_heap w ?c) else length (hist (w_store w') ?p) - 1)"
    using fin'(4) s2(4) wc(4) len by (cases "evs = []") (simp_all add: last_upt)
  have more: "\<exists>more. queued (ce_inbox (w_cell_heap w' ?c)) (cu + length xs) 0 (drop (length xs) es @ more)"
    if "ib_policy (ce_inbox (w_cell_heap w ?c)) \<noteq> DropOld"
    using fin'(5) q3 wc(3) that pol cell2(1) unfolding gains_def by simp
  have be': "batch_events (ho_serde host) (ce_entries (w_cell_heap w ?c)) (dy_shell (w_shell_heap w i))
      (cmd_ctx_of w ?p) xs = Done new"
    using be h1 cmd_ctx_of_records [OF w1] by simp
  have kept': "evs = map share_event (filter (\<lambda>ev. ev_schema ev \<in> set (ce_declared_emits (w_cell_heap w ?c))) new)"
    using kept h1 by simp
  show ?thesis
    by (rule exI [of _ new], rule exI [of _ evs], rule exI [of _ sh])
      (use be' kept' fin'(1,2) hw sh last more wc(2) in simp)
qed

end

text \<open>
  A one-actor system for the witnesses: a counter at path \<open>a\<close> that records \<open>Ticked\<close> on \<open>Add\<close> and panics
  on \<open>Boom\<close>, over the in-memory store.  Its factory spawns nothing.
\<close>

definition demo_host :: "(int, nat, mem_store) host" where
  "demo_host = \<lparr>ho_serde = demo_serde, ho_store = mem_ops, ho_factory = (\<lambda>f p a. act_ret ()),
     ho_dispatch = (\<lambda>i p v sv w. (if i = 0 then MsgOk else MsgPanic, [], Suc sv, w)),
     ho_on_stop = (\<lambda>v sv w. (Done [], sv, w)), ho_init = (\<lambda>i args. act_ret (Inr 0)),
     ho_f64 = \<lparr>fo_powi = (\<lambda>f n. f), fo_mul = (\<lambda>f g. f), fo_min = (\<lambda>f g. f), fo_as_secs = (\<lambda>d. 0), fo_from_secs = (\<lambda>f. 0)\<rparr>\<rparr>"

definition demo_live :: live_value where
  "demo_live = \<lparr>lv_type = ''Add'', lv_fields = [], lv_json = JNull\<rparr>"

definition demo_entry :: "string \<Rightarrow> event list outcome \<Rightarrow> int command_entry" where
  "demo_entry schema answer =
     TypedEntry \<lparr>te_schema = schema, te_type = ''Add'', te_decode = (\<lambda>j. Some demo_live),
       te_handle = (\<lambda>cmd s ctx. answer)\<rparr>"

definition demo_envelope :: "string \<Rightarrow> envelope" where
  "demo_envelope schema = envelope_raw schema (APath ''a'') (payload_value demo_live) \<lparr>tr_trace = 1, tr_causality = 2\<rparr>"

definition demo_inbox :: "string list \<Rightarrow> envelope inbox" where
  "demo_inbox schemas = fold (\<lambda>s. queue_next (demo_envelope s)) schemas (inbox_new 4 Block)"

definition demo_cell :: "string list \<Rightarrow> int actor_cell" where
  "demo_cell schemas =
     (cell_new ''a'' (demo_inbox schemas) 4 Block 4)
       \<lparr>ce_entries := [demo_entry ''Add'' (Done [demo_event]), demo_entry ''Boom'' (Panicked ''boom'')],
        ce_msg_entries := [(''Add'', 0), (''Boom'', 1)],
        ce_declared_emits := [''Ticked'']\<rparr>"

definition demo_world :: "string list \<Rightarrow> (int, nat, mem_store) world" where
  "demo_world schemas =
     \<lparr>w_registry = registry_new, w_cell_heap = (\<lambda>_. demo_cell schemas), w_endpoint_heap = (\<lambda>_. endpoint_new (Some 4) 0),
      w_shell_heap = (\<lambda>_. \<lparr>dy_shell = TypedEs 0, dy_code = demo_code\<rparr>), w_service_heap = (\<lambda>_. 0), w_next = 1,
      w_cells = [(''a'', 0)], w_es_state = [(''a'', 0)], w_projectors = [], w_services = [(''a'', 0)],
      w_replies = reply_empty, w_ask_facts = [], w_genesis_args = [(''a'', JNull)], w_dead_letters = [],
      w_specs = [], w_failures = [], w_caught_up = [], w_shutting_down = False, w_store = mem_new,
      w_observing = False, w_observed = [], w_ids = id_gen_init, w_wall = 5, w_now = from_millis 1000,
      w_defaults = \<lparr>md_capacity = 64, md_policy = Block\<rparr>,
      w_tasks = [], w_watch_heap = (\<lambda>_. WatchOpen False), w_engines = [], w_claims = []\<rparr>"

definition demo_loop :: es_loop where
  "demo_loop = \<lparr>lo_path = ''a'', lo_cell = 0, lo_is_projector = False, lo_state = Some 0\<rparr>"

lemma demo_inbox_queued: "queued (demo_inbox schemas) 0 0 (map demo_envelope schemas)"
proof (induction schemas rule: rev_induct)
  case Nil
  show ?case using ib_rep_new [of 4 Block] ib_tight_new [of 4 Block] by (simp add: queued_def demo_inbox_def)
next
  case (snoc s schemas)
  then show ?case using queue_next_rep [of "demo_inbox schemas" 0 0 "map demo_envelope schemas" "demo_envelope s"]
    by (simp add: queued_def demo_inbox_def)
qed

lemma demo_world_queued: "queued (ce_inbox (w_cell_heap (demo_world schemas) c)) 0 0 (map demo_envelope schemas)"
  by (simp add: demo_world_def demo_cell_def cell_new_def demo_inbox_queued)

lemma demo_world_cell [simp]: "w_cell_heap (demo_world schemas) c = demo_cell schemas"
  by (simp add: demo_world_def)

lemma demo_cell_fields [simp]:
  "ce_inbox (demo_cell schemas) = demo_inbox schemas" "ce_step_batch (demo_cell schemas) = 4"
  "\<not> ce_stopping (demo_cell schemas)" "ce_declared_emits (demo_cell schemas) = [''Ticked'']"
  "ce_entries (demo_cell schemas) = [demo_entry ''Add'' (Done [demo_event]), demo_entry ''Boom'' (Panicked ''boom'')]"
  "ce_snapshot_policy (demo_cell schemas) = CadenceOff"
  by (simp_all add: demo_cell_def cell_new_def)

lemma demo_loop_fields [simp]: "lo_cell demo_loop = 0" "lo_state demo_loop = Some 0" "lo_path demo_loop = ''a''"
  by (simp_all add: demo_loop_def)

lemma demo_message_events:
  "message_events sd [demo_entry ''Add'' x, demo_entry ''Boom'' y] (TypedEs s) ctx (demo_envelope ''Add'') = x"
  "message_events sd [demo_entry ''Add'' x, demo_entry ''Boom'' y] (TypedEs s) ctx (demo_envelope ''Boom'') = y"
  by (cases x; cases y; simp add: message_events_def find_entry_def demo_entry_def demo_envelope_def
      envelope_raw_def payload_value_def demo_live_def)+

lemma demo_crash_step: "\<exists>w'. step_es demo_host demo_loop (demo_world [''Add'', ''Boom'']) = (Done StCrashed, w')"
proof (rule panic_crashes_step)
  show "queued (ce_inbox (w_cell_heap (demo_world [''Add'', ''Boom'']) (lo_cell demo_loop))) 0 0
      (map demo_envelope [''Add'', ''Boom''])"
    by (simp only: demo_world_cell demo_cell_fields(1)) (rule demo_inbox_queued)
  show "batch_events (ho_serde demo_host) (ce_entries (w_cell_heap (demo_world [''Add'', ''Boom'']) (lo_cell demo_loop)))
      (dy_shell (w_shell_heap (demo_world [''Add'', ''Boom'']) 0)) (cmd_ctx_of (demo_world [''Add'', ''Boom'']) (lo_path demo_loop))
      [demo_envelope ''Add'', demo_envelope ''Boom''] = Panicked ''boom''"
    by (simp add: demo_message_events demo_world_def)
qed simp_all

text \<open>
  C3. A crashed step takes everything back.  Whenever a step of an event-sourced actor ends in a crash,
  because a decision of the batch panicked or because the store refused the append, every claimed
  envelope is back in the inbox at its place and in order, nothing was appended, no actor's state
  moved, no route, channel or reply lease changed, and the cell is marked crashed for its supervisor.
  Only the record of dead letters and observations may have grown.  The hypothesis on the store says that
  an append that reports an error changed nothing.
\<close>

theorem crash_restores_batch:
  assumes "refusals_inert (ho_store host)"
    and "queued (ce_inbox (w_cell_heap w (lo_cell lp))) cu 0 es"
    and "\<not> ce_stopping (w_cell_heap w (lo_cell lp))"
    and "step_es host lp w = (Done StCrashed, w')"
  shows "queued (ce_inbox (w_cell_heap w' (lo_cell lp))) cu 0 es \<and> ce_crashed (w_cell_heap w' (lo_cell lp)) \<and>
    (\<forall>c. c \<noteq> lo_cell lp \<longrightarrow> w_cell_heap w' c = w_cell_heap w c) \<and>
    w_store w' = w_store w \<and> w_shell_heap w' = w_shell_heap w \<and> w_registry w' = w_registry w \<and>
    w_endpoint_heap w' = w_endpoint_heap w \<and> w_replies w' = w_replies w \<and>
    (\<exists>letters. w_dead_letters w' = w_dead_letters w @ letters)"
  by (rule crash_facts [OF assms])

theorem crash_restores_batch_witness:
  "\<exists>w'. step_es demo_host demo_loop (demo_world [''Add'', ''Boom'']) = (Done StCrashed, w') \<and>
     queued (ce_inbox (w_cell_heap w' 0)) 0 0 [demo_envelope ''Add'', demo_envelope ''Boom''] \<and>
     ce_crashed (w_cell_heap w' 0) \<and> w_store w' = mem_new"
proof -
  obtain w' where w': "step_es demo_host demo_loop (demo_world [''Add'', ''Boom'']) = (Done StCrashed, w')"
    using demo_crash_step by blast
  have inert: "refusals_inert (ho_store demo_host)" by (simp add: demo_host_def mem_refusals_inert)
  have ns: "\<not> ce_stopping (w_cell_heap (demo_world [''Add'', ''Boom'']) (lo_cell demo_loop))"
    by simp
  have "w_store (demo_world [''Add'', ''Boom'']) = mem_new" by (simp add: demo_world_def)
  with crash_restores_batch [OF inert demo_world_queued ns w'] w'
  show ?thesis by (simp add: demo_loop_def)
qed

text \<open>What evaluates a step of the demonstration system.\<close>

lemmas demo_eval =
  step_es_def with_inbox_def demo_inbox_def queue_next_def inbox_new_def inbox_claim_up_to_def act_bind_def
  step_claimed_def observe_claims_def observe_traced_def observe_def demo_world_def act_do_def guarded_def
  decide_and_append_def loop_state_def find_entry_def demo_entry_def demo_envelope_def envelope_raw_def
  payload_value_def demo_live_def act_ret_def emit_filter_def append_batch_def all_same_origin_def
  List.map_filter_def Let_def demo_event_def event_new_def share_event_def demo_host_def mem_ops_def
  mem_append_def append_event_def append_event_with_origin_def mem_journal_def get_or_def mem_new_def
  jn_next_seq_def journal_new_def finish_step_def commit_offsets_def inbox_commit_through_def
  notify_space_def after_commit_def record_last_seq_def apply_batch_def apply_in_place_def demo_code_def
  put_shell_def flush_outbox_def demo_loop_def fan_out_emits_def fan_out_one_def broadcast_def
  broadcast_targets_def handlers_of_def registry_new_def with_recorded_origin_def envelope_from_def
  projector_sets_consuming_def maybe_snapshot_def split_beta

lemma demo_frames: "act_rel (steady i c) (ho_factory demo_host f p a)" "act_rel (gains c) (ho_factory demo_host f p a)"
  by (simp_all add: demo_host_def steady.rel_ret gains.rel_ret)

lemma demo_work_step: "\<exists>w'. step_es demo_host demo_loop (demo_world [''Add'', ''Add'']) = (Done StWork, w')"
proof -
  have "fst (step_es demo_host demo_loop (demo_world [''Add'', ''Add''])) = Done StWork"
    by (simp add: demo_eval)
  then show ?thesis by (cases "step_es demo_host demo_loop (demo_world [''Add'', ''Add''])") simp
qed


lemma unstamped_plain:
  assumes "\<forall>e \<in> set xs. en_origin e = None"
  shows "all_same_origin (enumerate c xs) = None"
proof -
  have "List.map_filter (\<lambda>(off, e). en_origin e) (enumerate c xs) = []"
    using assms by (induction xs arbitrary: c) (simp_all add: List.map_filter_simps)
  then show ?thesis by (simp add: all_same_origin_def)
qed

lemma demo_plain: "all_same_origin (enumerate 0 (map demo_envelope schemas)) = None"
  by (rule unstamped_plain) (simp add: demo_envelope_def envelope_raw_def)


subsection \<open>The live state and its history\<close>

lemma idle_step:
  assumes "queued (ce_inbox (w_cell_heap w (lo_cell lp))) cu 0 es"
    and "take (ce_step_batch (w_cell_heap w (lo_cell lp))) es = []"
  shows "\<exists>ib. step_es host lp w = (Done StIdle, on_cell (lo_cell lp) (\<lambda>ce. ce\<lparr>ce_inbox := ib\<rparr>) w)"
proof -
  obtain ib where ib: "inbox_claim_up_to (ce_step_batch (w_cell_heap w (lo_cell lp))) (ce_inbox (w_cell_heap w (lo_cell lp)))
      = Done ([], ib)"
    using claim_queued [OF assms(1), of "ce_step_batch (w_cell_heap w (lo_cell lp))"] assms(2) by auto
  have "with_inbox (lo_cell lp) (inbox_claim_up_to (ce_step_batch (w_cell_heap w (lo_cell lp)))) w =
      (Done [], on_cell (lo_cell lp) (\<lambda>ce. ce\<lparr>ce_inbox := ib\<rparr>) w)"
    using ib by (simp only: with_inbox_Done)
  then show ?thesis by (intro exI [of _ ib]) (simp add: step_es_def act_bind_def act_ret_def)
qed



subsection \<open>Where a step loses or hides something\<close>

lemma decide_forward:
  assumes "loop_state lp = Done i"
    and be: "batch_events (ho_serde host) (ce_entries (w_cell_heap w (lo_cell lp))) (dy_shell (w_shell_heap w i))
      (cmd_ctx_of w (lo_path lp)) (map snd cs) = Done new"
    and kept: "kept = map share_event (filter (\<lambda>ev. ev_schema ev \<in> set (ce_declared_emits (w_cell_heap w (lo_cell lp)))) new)"
  shows "\<exists>wr obs. records_only w wr \<and> decide_and_append host lp cs w =
     (case append_batch (ho_store host) (lo_path lp) cs kept wr of
        (AppendFailed, w3) \<Rightarrow> (Done BcAppendFailed, on_cell (lo_cell lp) mark_crashed w3)
      | (AlreadyHeld, w3) \<Rightarrow> (Done BcHeld, w3)
      | (AppendedAs seqs, w3) \<Rightarrow> (Done (BcAppended kept seqs obs), w3))"
proof -
  let ?d = "decide_loop (ho_serde host) (lo_path lp) (ce_entries (w_cell_heap w (lo_cell lp)))
      (dy_shell (w_shell_heap w i)) cs [] [] w"
  obtain d w1 where d: "?d = (d, w1)" by (cases ?d)
  have "records_only w (snd ?d)" by (rule records_only_decide)
  then have w1: "records_only w w1" by (simp add: d)
  have dd: "d = Decided new (replicate (length cs) [])"
    using decide_loop_spec [of "ho_serde host" "lo_path lp" "ce_entries (w_cell_heap w (lo_cell lp))"
        "dy_shell (w_shell_heap w i)" cs "[]" "[]" w, unfolded d fst_conv be] by simp
  obtain declared w2 where f: "emit_filter lp new w1 = (declared, w2)" by (cases "emit_filter lp new w1")
  have w2: "records_only w w2"
    using records_only_trans [OF w1, of w2] records_only_filter [of w1 lp new] f by simp
  have "declared = kept"
    using f kept records_only_fields(2) [OF w1] by (simp add: emit_filter_def Let_def)
  then show ?thesis
    using assms(1) d dd f w2
    by (intro exI [of _ w2] exI [of _ "replicate (length cs) []"])
      (simp add: decide_and_append_def)
qed

lemma step_forward:
  fixes host :: "('st, 'sv, 's) host" and w :: "('st, 'sv, 's) world"
  assumes q: "queued (ce_inbox (w_cell_heap w (lo_cell lp))) cu 0 es"
    and xs: "xs = take (ce_step_batch (w_cell_heap w (lo_cell lp))) es" "xs \<noteq> []"
    and i: "lo_state lp = Some i"
    and be: "batch_events (ho_serde host) (ce_entries (w_cell_heap w (lo_cell lp))) (dy_shell (w_shell_heap w i))
      (cmd_ctx_of w (lo_path lp)) xs = Done new"
    and kept: "kept = map share_event (filter (\<lambda>ev. ev_schema ev \<in> set (ce_declared_emits (w_cell_heap w (lo_cell lp)))) new)"
    and app: "\<And>v :: ('st, 'sv, 's) world. w_store v = w_store w \<Longrightarrow>
      append_batch (ho_store host) (lo_path lp) (enumerate cu xs) kept v = (answer, v\<lparr>w_store := s\<rparr>)"
      "answer \<noteq> AppendFailed"
  shows "\<exists>wc obs.
    step_es host lp w =
      (case answer of
         AppendedAs seqs \<Rightarrow> after_commit host lp (enumerate cu xs) kept seqs obs wc
       | _ \<Rightarrow> (Done StWork, wc)) \<and>
    w_store wc = s \<and> w_shell_heap wc = w_shell_heap w \<and>
    ce_crashed (w_cell_heap wc (lo_cell lp)) = ce_crashed (w_cell_heap w (lo_cell lp)) \<and>
    queued (ce_inbox (w_cell_heap wc (lo_cell lp))) (cu + length xs) 0 (drop (length xs) es)"
proof -
  let ?c = "lo_cell lp" and ?cs = "enumerate cu xs"
  obtain ib w1 where ib: "queued ib cu (length xs) (drop (length xs) es)"
      and w1: "records_only (on_cell ?c (\<lambda>ce. ce\<lparr>ce_inbox := ib\<rparr>) w) w1"
      and eq: "step_es host lp w =
        act_bind (guarded ?c ?cs (decide_and_append host lp ?cs)) (finish_step host lp ?cs) w1"
    using step_es_unfold [OF q xs] by blast
  note h1 = records_only_fields [OF w1]
  have be1: "batch_events (ho_serde host) (ce_entries (w_cell_heap w1 ?c)) (dy_shell (w_shell_heap w1 i))
      (cmd_ctx_of w1 (lo_path lp)) (map snd ?cs) = Done new"
    using be h1 cmd_ctx_of_records [OF w1] by simp
  have kept1: "kept = map share_event (filter (\<lambda>ev. ev_schema ev \<in> set (ce_declared_emits (w_cell_heap w1 ?c))) new)"
    using kept h1 by simp
  have li: "loop_state lp = Done i" using i by (simp add: loop_state_def)
  obtain wr obs where wr: "records_only w1 wr" and d: "decide_and_append host lp ?cs w1 =
     (case append_batch (ho_store host) (lo_path lp) ?cs kept wr of
        (AppendFailed, w3) \<Rightarrow> (Done BcAppendFailed, on_cell ?c mark_crashed w3)
      | (AlreadyHeld, w3) \<Rightarrow> (Done BcHeld, w3)
      | (AppendedAs seqs, w3) \<Rightarrow> (Done (BcAppended kept seqs obs), w3))"
    using decide_forward [OF li be1 kept1] by blast
  note hr = records_only_fields [OF wr]
  define w2 where "w2 = wr\<lparr>w_store := s\<rparr>"
  have ap: "append_batch (ho_store host) (lo_path lp) ?cs kept wr = (answer, w2)"
    unfolding w2_def using h1 hr by (intro app(1)) simp
  have cell2: "w_cell_heap w2 ?c = (w_cell_heap w ?c)\<lparr>ce_inbox := ib\<rparr>" "w_shell_heap w2 = w_shell_heap w" "w_store w2 = s"
    using h1 hr by (simp_all add: w2_def)
  have q2: "queued (ce_inbox (w_cell_heap w2 ?c)) cu (length xs + 0) (drop (length xs) es)"
    using cell2 ib by simp
  obtain freed ib' where co: "commit_offsets ?c (map fst ?cs) w2 =
      (Done (), (if freed then on_cell ?c notify_space else id) (on_cell ?c (\<lambda>ce. ce\<lparr>ce_inbox := ib'\<rparr>) w2))"
    and q3: "queued ib' (cu + length xs) 0 (drop (length xs) es)"
    using commit_offsets_queued [OF q2] by blast
  define wc where "wc = (if freed then on_cell ?c notify_space else id) (on_cell ?c (\<lambda>ce. ce\<lparr>ce_inbox := ib'\<rparr>) w2)"
  have co': "commit_offsets ?c (map fst ?cs) w2 = (Done (), wc)" using co by (simp only: wc_def)
  have "step_es host lp w =
      (case answer of
         AppendedAs seqs \<Rightarrow> after_commit host lp ?cs kept seqs obs wc
       | _ \<Rightarrow> (Done StWork, wc))"
    unfolding eq using d ap app(2) co'
    by (cases answer) (simp_all add: act_bind_def guarded_def finish_step_def act_ret_def)
  moreover have "w_store wc = s" "w_shell_heap wc = w_shell_heap w"
    "ce_crashed (w_cell_heap wc ?c) = ce_crashed (w_cell_heap w ?c)" "ce_inbox (w_cell_heap wc ?c) = ib'"
    using cell2 by (simp_all add: wc_def notify_space_def)
  ultimately show ?thesis using q3 by blast
qed

lemma act_each_panics:
  "apply_all (dy_code (w_shell_heap w i)) evs (dy_shell (w_shell_heap w i)) = Panicked m \<Longrightarrow>
   \<exists>sh. act_each (apply_in_place i) evs w = (Panicked m, put_shell i sh w)"
proof (induction evs arbitrary: w)
  case Nil
  then show ?case by simp
next
  case (Cons ev evs)
  show ?case
  proof (cases "apply_erased (dy_code (w_shell_heap w i)) ev (dy_shell (w_shell_heap w i))")
    case (Done sh)
    then have one: "apply_in_place i ev w = (Done (), put_shell i sh w)" by (simp add: apply_in_place_def)
    obtain sh' where "act_each (apply_in_place i) evs (put_shell i sh w) = (Panicked m, put_shell i sh' (put_shell i sh w))"
      using Cons.IH [of "put_shell i sh w"] Cons.prems Done by auto
    then show ?thesis using one by (auto simp: act_bind_def)
  next
    case (Panicked m')
    then have "apply_in_place i ev w = (Panicked m', w)" by (simp add: apply_in_place_def)
    with Panicked Cons.prems show ?thesis
      by (intro exI [of _ "dy_shell (w_shell_heap w i)"]) (simp add: act_bind_def put_shell_same)
  qed
qed

text \<open>
  C30. A fold that panics kills an actor silently.  If the fold panics on the events a plain batch
  decided, the step dies in the apply pass: the events are already in the journal and the messages
  already consumed, but the cell is not marked crashed, so the supervision engine, which waits for that
  mark, never restarts the actor (and a restart would fold the same events and panic again).
\<close>

theorem fold_panic_is_unsupervised:
  fixes host :: "('st, 'sv, mem_store) host" and w :: "('st, 'sv, mem_store) world"
  assumes "ho_store host = mem_ops" and "mem_ok (w_store w)"
    and "queued (ce_inbox (w_cell_heap w (lo_cell lp))) cu 0 es"
    and "xs = take (ce_step_batch (w_cell_heap w (lo_cell lp))) es" and "xs \<noteq> []"
    and "lo_state lp = Some i" and "all_same_origin (enumerate cu xs) = None"
    and "batch_events (ho_serde host) (ce_entries (w_cell_heap w (lo_cell lp))) (dy_shell (w_shell_heap w i))
      (cmd_ctx_of w (lo_path lp)) xs = Done new"
    and "kept = map share_event (filter (\<lambda>ev. ev_schema ev \<in> set (ce_declared_emits (w_cell_heap w (lo_cell lp)))) new)"
    and "apply_all (dy_code (w_shell_heap w i)) kept (dy_shell (w_shell_heap w i)) = Panicked m"
  shows "\<exists>w'. step_es host lp w = (Panicked m, w') \<and>
    ce_crashed (w_cell_heap w' (lo_cell lp)) = ce_crashed (w_cell_heap w (lo_cell lp)) \<and>
    map jd_event (mem_hist (w_store w') (lo_path lp)) = map jd_event (mem_hist (w_store w) (lo_path lp)) @ kept \<and>
    queued (ce_inbox (w_cell_heap w' (lo_cell lp))) (cu + length xs) 0 (drop (length xs) es)"
proof -
  let ?c = "lo_cell lp" and ?cs = "enumerate cu xs"
  have ne: "kept \<noteq> []" using assms(10) by (cases kept) auto
  obtain r s where ap: "mem_append (lo_path lp) kept (w_store w) = (r, s)"
    by (cases "mem_append (lo_path lp) kept (w_store w)")
  note f = mem_append_facts [OF assms(2) ap]
  let ?seqs = "[length (mem_hist (w_store w) (lo_path lp))..<length (mem_hist (w_store w) (lo_path lp)) + length kept]"
  have app: "append_batch (ho_store host) (lo_path lp) ?cs kept v = (AppendedAs ?seqs, v\<lparr>w_store := s\<rparr>)"
    if "w_store v = w_store w" for v :: "('st, 'sv, mem_store) world"
    using that ne assms(1,7) ap f(3) by (simp add: append_batch_def mem_ops_def)
  obtain wc obs where eq: "step_es host lp w = after_commit host lp ?cs kept ?seqs obs wc"
    and wc: "w_store wc = s" "w_shell_heap wc = w_shell_heap w" "ce_crashed (w_cell_heap wc ?c) = ce_crashed (w_cell_heap w ?c)"
      "queued (ce_inbox (w_cell_heap wc ?c)) (cu + length xs) 0 (drop (length xs) es)"
    using step_forward [OF assms(3-6,8,9) app] by auto
  define wA where "wA = observe_claims (\<lambda>e. ObAcked (lo_path lp) (en_schema e) (en_trace e)) ?cs (record_last_seq ?c ?seqs wc)"
  have rec: "records_only (record_last_seq ?c ?seqs wc) wA" unfolding wA_def by (rule records_only_claims)
  note hA = records_only_fields [OF rec]
  have A: "w_store wA = s" "w_shell_heap wA = w_shell_heap w" "ce_crashed (w_cell_heap wA ?c) = ce_crashed (w_cell_heap w ?c)"
    "ce_inbox (w_cell_heap wA ?c) = ce_inbox (w_cell_heap wc ?c)"
    using hA wc by (simp_all add: record_last_seq_def)
  obtain sh where "act_each (apply_in_place i) kept wA = (Panicked m, put_shell i sh wA)"
    using act_each_panics [of wA i kept m] assms(10) A by auto
  then have b: "apply_batch lp kept wA = (Panicked m, put_shell i sh wA)"
    using ne assms(6) by (simp add: apply_batch_def loop_state_def)
  have "step_es host lp w = (Panicked m, put_shell i sh wA)"
    unfolding eq after_commit_def using b by (simp add: act_bind_def act_do_def wA_def)
  then show ?thesis using A wc f(4) by (intro exI [of _ "put_shell i sh wA"]) simp
qed

theorem fold_panic_is_unsupervised_witness:
  "\<exists>w w'. step_es demo_host demo_loop w = (Panicked ''overflow'', w') \<and> \<not> ce_crashed (w_cell_heap w' 0) \<and>
     length (mem_hist (w_store w') ''a'') = 1 \<and> queued (ce_inbox (w_cell_heap w' 0)) 1 0 []"
proof -
  let ?code = "demo_code\<lparr>ec_apply := (\<lambda>e s. Panicked ''overflow'')\<rparr>"
  define w where "w = (demo_world [''Add''])\<lparr>w_shell_heap := (\<lambda>_. \<lparr>dy_shell = TypedEs 0, dy_code = ?code\<rparr>)\<rparr>"
  have w: "w_cell_heap w = w_cell_heap (demo_world [''Add''])" "w_store w = mem_new"
      "w_shell_heap w = (\<lambda>_. \<lparr>dy_shell = TypedEs 0, dy_code = ?code\<rparr>)"
    by (simp_all add: w_def demo_world_def)
  have st: "ho_store demo_host = mem_ops" "mem_ok (w_store w)" by (simp_all add: demo_host_def w mem_ok_new)
  have q: "queued (ce_inbox (w_cell_heap w (lo_cell demo_loop))) 0 0 (map demo_envelope [''Add''])"
    unfolding w(1) by (rule demo_world_queued)
  have xs: "map demo_envelope [''Add''] = take (ce_step_batch (w_cell_heap w (lo_cell demo_loop))) (map demo_envelope [''Add''])"
    by (simp add: w)
  have be: "batch_events (ho_serde demo_host) (ce_entries (w_cell_heap w (lo_cell demo_loop))) (dy_shell (w_shell_heap w 0))
      (cmd_ctx_of w (lo_path demo_loop)) (map demo_envelope [''Add'']) = Done [demo_event]"
    by (simp add: w demo_message_events)
  have kept: "[share_event demo_event] = map share_event
      (filter (\<lambda>ev. ev_schema ev \<in> set (ce_declared_emits (w_cell_heap w (lo_cell demo_loop)))) [demo_event])"
    by (simp add: w demo_event_def event_new_def)
  have fold: "apply_all (dy_code (w_shell_heap w 0)) [share_event demo_event] (dy_shell (w_shell_heap w 0)) =
      Panicked ''overflow''"
    by (simp add: w)
  have ne: "map demo_envelope [''Add''] \<noteq> []" by simp
  obtain w' where w': "step_es demo_host demo_loop w = (Panicked ''overflow'', w')"
      "ce_crashed (w_cell_heap w' (lo_cell demo_loop)) = ce_crashed (w_cell_heap w (lo_cell demo_loop))"
      "map jd_event (mem_hist (w_store w') (lo_path demo_loop)) =
        map jd_event (mem_hist (w_store w) (lo_path demo_loop)) @ [share_event demo_event]"
      "queued (ce_inbox (w_cell_heap w' (lo_cell demo_loop))) (0 + length (map demo_envelope [''Add''])) 0
        (drop (length (map demo_envelope [''Add''])) (map demo_envelope [''Add'']))"
    using fold_panic_is_unsupervised [OF st q xs ne demo_loop_fields(2) demo_plain be kept fold] by blast
  have "mem_hist mem_new p = []" for p by (simp add: mem_hist_def mem_journal_def mem_new_def get_or_def journal_new_def)
  then have "length (mem_hist (w_store w') ''a'') = 1"
    using arg_cong [OF w'(3), of length] w(2) by simp
  with w' w(1) show ?thesis by (intro exI [of _ w] exI [of _ w']) (simp add: demo_cell_def cell_new_def)
qed

text \<open>The checkpoint arm on several events of one origin keeps the first only.\<close>

lemma checkpoint_keeps_first:
  assumes "mem_ok s" "\<not> holds_origin (ro_journal og) (ro_seq og) (mem_journal s p)"
  shows "\<exists>s' seq. mem_append_catchup p (checkpoint_copies og (ev # evs)) s =
      (Inr (Some seq # replicate (length evs) None), s') \<and>
    map jd_event (mem_hist s' p) = map jd_event (mem_hist s p) @ [ev]"
proof -
  let ?j = "mem_journal s p"
  obtain seq j1 where a: "append_event_with_origin ev (CatchUp (ro_journal og) (ro_seq og)) (ms_ingest s) ?j = (seq, j1)"
    by (cases "append_event_with_origin ev (CatchUp (ro_journal og) (ro_seq og)) (ms_ingest s) ?j")
  have og: "catchup_origins j1 = catchup_origins ?j @ [(ro_journal og, ro_seq og)]"
    using catchup_origins_append [of ev "ro_journal og" "ro_seq og" "ms_ingest s" ?j] a by simp
  have sub: "scan_origin ` set (checkpoint_copies og evs) \<subseteq> set (catchup_origins j1)"
    by (auto simp: og checkpoint_copies_def scan_origin_def)
  have len: "length (checkpoint_copies og evs) = length evs" by (simp add: checkpoint_copies_def)
  have rest: "catchup_loop (checkpoint_copies og evs) j1 i = (replicate (length evs) None, j1, i)" for i
    using catchup_loop_known [OF sub, of i] by (simp only: len)
  have cons: "checkpoint_copies og (ev # evs) = \<lparr>sc_journal = ro_journal og, sc_seq = ro_seq og, sc_ingest = 0,
      sc_event = ev\<rparr> # checkpoint_copies og evs"
    by (simp add: checkpoint_copies_def)
  have "catchup_loop (checkpoint_copies og (ev # evs)) ?j (ms_ingest s) =
      (Some seq # replicate (length evs) None, j1, ms_ingest s + 1)"
    using assms(2) a rest by (simp add: cons)
  moreover have "map jd_event (events_in (jn_entries j1)) = map jd_event (events_in (jn_entries ?j)) @ [ev]"
    using a by (auto simp: append_event_with_origin_def Let_def)
  ultimately show ?thesis by (simp add: mem_append_catchup_def mem_hist_def)
qed

text \<open>
  C29. A reaction of several events loses all but its first.  A fact that the fan-out delivers carries
  its recording stamp, and the step journals whatever a handler decides on a stamped message through the
  checkpoint arm, under that one origin.  If an entity answers such a fact with two or more declared
  events, the first is journalled (as a checkpoint, so no scan will see it) and the others are dropped
  as already held; the message is consumed, and not even the first event is applied to the live state,
  which is then no longer the fold of the journal.
\<close>

theorem stamped_reaction_loses_events:
  fixes host :: "('st, 'sv, mem_store) host" and w :: "('st, 'sv, mem_store) world"
  assumes "ho_store host = mem_ops" and "mem_ok (w_store w)"
    and "queued (ce_inbox (w_cell_heap w (lo_cell lp))) cu 0 es"
    and "[e] = take (ce_step_batch (w_cell_heap w (lo_cell lp))) es"
    and "lo_state lp = Some i" and "en_origin e = Some og"
    and "\<not> holds_origin (ro_journal og) (ro_seq og) (mem_journal (w_store w) (lo_path lp))"
    and "batch_events (ho_serde host) (ce_entries (w_cell_heap w (lo_cell lp))) (dy_shell (w_shell_heap w i))
      (cmd_ctx_of w (lo_path lp)) [e] = Done new"
    and "ev # ev' # evs = map share_event (filter (\<lambda>ev. ev_schema ev \<in> set (ce_declared_emits (w_cell_heap w (lo_cell lp)))) new)"
  shows "\<exists>w'. step_es host lp w = (Done StWork, w') \<and>
    map jd_event (mem_hist (w_store w') (lo_path lp)) = map jd_event (mem_hist (w_store w) (lo_path lp)) @ [ev] \<and>
    w_shell_heap w' = w_shell_heap w \<and>
    queued (ce_inbox (w_cell_heap w' (lo_cell lp))) (Suc cu) 0 (drop 1 es)"
proof -
  obtain s' seq where ca: "mem_append_catchup (lo_path lp) (checkpoint_copies og (ev # ev' # evs)) (w_store w) =
      (Inr (Some seq # replicate (length (ev' # evs)) None), s')"
    and h: "map jd_event (mem_hist s' (lo_path lp)) = map jd_event (mem_hist (w_store w) (lo_path lp)) @ [ev]"
    using checkpoint_keeps_first [OF assms(2,7)] by blast
  have same: "all_same_origin (enumerate cu [e]) = Some og"
    using assms(6) by (simp add: all_same_origin_def List.map_filter_simps)
  have app: "append_batch (ho_store host) (lo_path lp) (enumerate cu [e]) (ev # ev' # evs) v = (AlreadyHeld, v\<lparr>w_store := s'\<rparr>)"
    if "w_store v = w_store w" for v :: "('st, 'sv, mem_store) world"
    using that same ca by (simp add: append_batch_def assms(1) mem_ops_def)
  have ne: "[e] \<noteq> []" by simp
  obtain wc where "step_es host lp w = (Done StWork, wc)" "w_store wc = s'" "w_shell_heap wc = w_shell_heap w"
      "queued (ce_inbox (w_cell_heap wc (lo_cell lp))) (cu + length [e]) 0 (drop (length [e]) es)"
    using step_forward [OF assms(3,4) ne assms(5,8,9) app] by auto
  with h show ?thesis by auto
qed

theorem stamped_reaction_loses_events_witness:
  "\<exists>w w'. step_es demo_host demo_loop w = (Done StWork, w') \<and>
     length (mem_hist (w_store w') ''a'') = 1 \<and> dy_shell (w_shell_heap w' 0) = TypedEs 0"
proof -
  define e where "e = with_recorded_origin ''b'' 3 (demo_envelope ''Add'')"
  define w where "w = (demo_world [])\<lparr>w_cell_heap := (\<lambda>_. (demo_cell [])
      \<lparr>ce_inbox := queue_next e (inbox_new 4 Block),
       ce_entries := [demo_entry ''Add'' (Done [demo_event, demo_event]), demo_entry ''Boom'' (Done [])]\<rparr>)\<rparr>"
  have st: "ho_store demo_host = mem_ops" "mem_ok (w_store w)" "w_store w = mem_new"
    by (simp_all add: demo_host_def w_def demo_world_def mem_ok_new)
  have q: "queued (ce_inbox (w_cell_heap w (lo_cell demo_loop))) 0 0 [e]"
    using queue_next_rep [OF ib_rep_new ib_tight_new, of e 4 Block] by (simp add: w_def queued_def)
  have xs: "[e] = take (ce_step_batch (w_cell_heap w (lo_cell demo_loop))) [e]" by (simp add: w_def)
  have og: "en_origin e = Some \<lparr>ro_journal = ''b'', ro_seq = 3\<rparr>" by (simp add: e_def with_recorded_origin_def)
  have new: "\<not> holds_origin (ro_journal \<lparr>ro_journal = ''b'', ro_seq = 3\<rparr>) (ro_seq \<lparr>ro_journal = ''b'', ro_seq = 3\<rparr>)
      (mem_journal (w_store w) (lo_path demo_loop))"
    by (simp add: st(3) holds_origin_def mem_journal_def mem_new_def get_or_def journal_new_def)
  have view: "en_schema e = en_schema (demo_envelope ''Add'')" "en_payload e = en_payload (demo_envelope ''Add'')"
    by (simp_all add: e_def with_recorded_origin_def)
  have same: "message_events sd es sh ctx e = message_events sd es sh ctx (demo_envelope ''Add'')"
    for sd and es :: "int command_entry list" and sh ctx
    unfolding message_events_def view by (rule refl)
  have be: "batch_events (ho_serde demo_host) (ce_entries (w_cell_heap w (lo_cell demo_loop))) (dy_shell (w_shell_heap w 0))
      (cmd_ctx_of w (lo_path demo_loop)) [e] = Done [demo_event, demo_event]"
    by (simp add: w_def demo_world_def same demo_message_events)
  have kept: "share_event demo_event # share_event demo_event # [] = map share_event
      (filter (\<lambda>ev. ev_schema ev \<in> set (ce_declared_emits (w_cell_heap w (lo_cell demo_loop)))) [demo_event, demo_event])"
    by (simp add: w_def demo_event_def event_new_def)
  obtain w' where w': "step_es demo_host demo_loop w = (Done StWork, w')"
      "map jd_event (mem_hist (w_store w') (lo_path demo_loop)) =
        map jd_event (mem_hist (w_store w) (lo_path demo_loop)) @ [share_event demo_event]"
      "w_shell_heap w' = w_shell_heap w"
    using stamped_reaction_loses_events [OF st(1,2) q xs demo_loop_fields(2) og new be kept] by blast
  have "mem_hist mem_new p = []" for p by (simp add: mem_hist_def mem_journal_def mem_new_def get_or_def journal_new_def)
  then have "length (mem_hist (w_store w') ''a'') = 1" using arg_cong [OF w'(2), of length] st(3) by simp
  with w' show ?thesis by (intro exI [of _ w] exI [of _ w']) (simp add: w_def demo_world_def)
qed

end
