(* ===== verification/Systems.thy ===== *)
theory Systems
  imports Turns StepFacts
begin

text \<open>
  The whole system: the turns of all tasks, the calls a callback may make, the step relation that
  interleaves turns with calls from outside, and the shape invariant over every reachable world.
\<close>

context typed_host
begin

lemma R_start_service_loop:
  assumes "world_ok w \<Longrightarrow> cell_of_loop_ok w lp \<and> ep < w_next w"
  shows "good w (start_service_loop lp ep w)"
proof (rule goodI)
  assume ok: "world_ok w"
  obtain watch w1 where w1: "new_watch w = (watch, w1)" by fastforce
  obtain d w2 where w2: "spawn_task (DoorTask ep DoorReady) w1 = (d, w2)" by fastforce
  obtain t w3 where w3: "spawn_task (ServiceTask lp watch LoopBoot) w2 = (t, w3)" by fastforce
  have g1: "good w w1" using good_new_watch [of w] w1 by simp
  have "ep < w_next w1" using good_goodD(2) [OF g1 ok] assms [OF ok] extends_bound by blast
  then have g2: "good w w2"
    using good_trans [OF g1 good_spawn_task [of w1 "DoorTask ep DoorReady"]] w2 by simp
  have "cell_of_loop_ok w2 lp" using good_goodD(2) [OF g2 ok] assms [OF ok] loop_ok_extends(1) by blast
  then have "good w w3"
    using good_trans [OF g2 good_spawn_task [of w2 "ServiceTask lp watch LoopBoot"]] w3 by simp
  then have "good w (start_service_loop lp ep w)"
    using w1 w2 w3 good_trans [OF _ good_store_handle] by (simp add: start_service_loop_def)
  then show "world_ok (start_service_loop lp ep w) \<and> extends w (start_service_loop lp ep w)" using ok by (simp add: good_def)
qed

lemma R_service_start:
  assumes "world_ok w \<Longrightarrow> cell_of_loop_ok w lp \<and> ep < w_next w"
  shows "good w (snd (service_start host lp ep init args w))"
proof (rule goodI)
  assume ok: "world_ok w"
  obtain x w1 where i: "ho_init host init args w = (x, w1)" by fastforce
  have g1: "good w w1" using act_relD [OF R_init, of w init args] i by simp
  have "good w1 (start_service_loop lp ep (put_instance lp a w1))" for a
  proof -
    have g2: "good w (put_instance lp a w1)" by (rule good_trans [OF g1 R_put_instance])
    have "cell_of_loop_ok (put_instance lp a w1) lp \<and> ep < w_next (put_instance lp a w1)"
      using good_goodD(2) [OF g2 ok] assms [OF ok] loop_ok_extends(1) extends_bound by blast
    then show ?thesis by (intro good_trans [OF R_put_instance R_start_service_loop])
  qed
  then have "good w (snd (service_start host lp ep init args w))"
    using g1 good_trans by (cases x) (auto simp: service_start_def act_bind_def i act_do_def)
  then show "world_ok (snd (service_start host lp ep init args w)) \<and> extends w (snd (service_start host lp ep init args w))"
    using ok by (simp add: good_def)
qed

lemma R_go_live:
  assumes "world_ok w \<Longrightarrow> loop_ok w (ar_loop a) \<and> ar_endpoint a < w_next w"
  shows "good w (go_live a seeded w)"
proof -
  define lp where "lp = (ar_loop a)\<lparr>lo_state := (case map_of (w_es_state w) (lo_path (ar_loop a)) of
      None \<Rightarrow> lo_state (ar_loop a) | Some i \<Rightarrow> Some i)\<rparr>"
  have "loop_ok w lp" if ok: "world_ok w"
  proof (cases "map_of (w_es_state w) (lo_path (ar_loop a))")
    case None
    then show ?thesis using assms [OF ok] by (simp add: lp_def)
  next
    case (Some i)
    then have "i < w_next w" using ok by (simp add: world_ok_def states_ok_def)
    then show ?thesis using assms [OF ok] Some by (simp add: lp_def loop_ok_def cell_of_loop_ok_def)
  qed
  then have "good w (start_loop (a\<lparr>ar_loop := lp\<rparr>) w)" using assms by (intro good_start_loop) simp
  then show ?thesis
    unfolding go_live_def Let_def bump_caught_up_def lp_def [symmetric]
    by (rule good_trans [OF _ good_trans [OF good_fields(12) good_fields(1)]])
qed

lemma R_catch_up:
  assumes "world_ok w \<Longrightarrow> loop_ok w (ar_loop a) \<and> ar_endpoint a < w_next w"
  shows "good w (snd (catch_up_projector host a consumed w))"
proof (rule goodI)
  assume ok: "world_ok w"
  obtain x w1 where r: "replay_own host (lo_path (ar_loop a)) w = (x, w1)" by fastforce
  have g1: "good w w1" using R_replay_own [of w "lo_path (ar_loop a)"] r by simp
  obtain y w2 where s: "seed_gap host (lo_path (ar_loop a)) consumed w1 = (y, w2)" by fastforce
  have g2: "good w w2" using good_trans [OF g1] R_seed_gap [of w1 "lo_path (ar_loop a)" consumed] s by simp
  have "good w (go_live a n w2)" for n
    using good_trans [OF g2 R_go_live [of w2 a]] good_goodD(2) [OF g2 ok] assms [OF ok] loop_ok_extends(2) extends_bound
    by blast
  then have "good w (snd (catch_up_projector host a consumed w))"
    using g1 g2 by (cases x; cases y) (simp_all add: catch_up_projector_def act_bind_def r s act_ret_def act_do_def)
  then show "world_ok (snd (catch_up_projector host a consumed w)) \<and> extends w (snd (catch_up_projector host a consumed w))"
    using ok by (simp add: good_def)
qed

text \<open>One turn of any task.\<close>

lemma loop_result:
  assumes "act_rel good m" "m w = (x, w')" "world_ok w"
  shows "world_ok w'" "extends w w'"
  using act_relD [OF assms(1), of w] assms(2,3) by (simp_all add: good_def)

lemma task_turn_good:
  assumes turn: "task_turn host t w = (r, w')" and ok: "world_ok w" "task_ok w t"
  shows "world_ok w' \<and> extends w w' \<and> (\<forall>t'. r = Done (Some t') \<longrightarrow> task_ok w' t')"
proof (cases t)
  case (DoorTask ep d)
  obtain x w1 where x: "door_step ep d w = (x, w1)" by fastforce
  note g = loop_result [OF rel_door_step x ok(1)]
  show ?thesis
    using turn DoorTask x g ok extends_bound [OF g(2)]
    by (cases x) (auto simp: act_bind_def act_ret_def)
next
  case (EsTask lp watch ph)
  obtain x w1 where x: "es_turn host lp watch ph w = (x, w1)" by fastforce
  have "loop_ok w lp" using ok EsTask by simp
  note g = es_turn_good [OF x ok(1) this]
  show ?thesis
    using turn EsTask x g by (cases x) (auto simp: act_bind_def act_ret_def)
next
  case (ServiceStart lp ep init args)
  have "good w (snd (service_start host lp ep init args w))" by (rule R_service_start) (use ok ServiceStart in simp)
  moreover obtain x w1 where x: "service_start host lp ep init args w = (x, w1)" by fastforce
  ultimately show ?thesis
    using turn ServiceStart ok by (cases x) (auto simp: act_bind_def act_ret_def good_def)
next
  case (ServiceTask lp watch ph)
  obtain x w1 where x: "service_turn host lp watch ph w = (x, w1)" by fastforce
  note g = loop_result [OF service_turn_good(1) x ok(1)]
  have "cell_of_loop_ok w1 lp" using ok ServiceTask loop_ok_extends(1) [OF g(2)] by simp
  moreover have "lp' = lp" if "x = Done (Some (lp', ph'))" for lp' ph'
    using service_turn_good(2) [of lp watch ph] x that unfolding same_loop_def by (metis fst_conv)
  ultimately show ?thesis
    using turn ServiceTask x g by (cases x) (auto simp: act_bind_def act_ret_def)
next
  case (EngineTask sp cell watch ph)
  obtain x w1 where x: "engine_turn host sp cell watch ph w = (x, w1)" by fastforce
  note g = loop_result [OF rel_engine x ok(1)]
  show ?thesis
    using turn EngineTask x g by (cases x) (auto simp: act_bind_def act_ret_def)
next
  case (CatchUpTask lp ep consumed)
  have "good w (snd (catch_up_projector host \<lparr>ar_loop = lp, ar_endpoint = ep\<rparr> consumed w))"
    by (rule R_catch_up) (use ok CatchUpTask in simp)
  moreover obtain x w1 where x: "catch_up_projector host \<lparr>ar_loop = lp, ar_endpoint = ep\<rparr> consumed w = (x, w1)" by fastforce
  ultimately show ?thesis
    using turn CatchUpTask ok by (cases x) (auto simp: act_bind_def act_ret_def good_def)
next
  case (ScheduledSend e)
  obtain x w1 where x: "fire_scheduled host e w = (x, w1)" by fastforce
  note g = loop_result [OF rel_letter_route x [unfolded fire_scheduled_def] ok(1)]
  show ?thesis using turn ScheduledSend x g by (cases x) (auto simp: act_bind_def act_ret_def)
next
  case (KickoffSend dest schema p)
  have "act_rel good (act_bind (route host e) (\<lambda>_. act_ret ()))" for e
    by (intro typing.rel_bind typing.rel_route R_factory typing.rel_ret)
  from typing.rel_after [OF typing.R_new_trace_root this]
  have "good w (snd (fire_kickoff host dest schema p w))" by (simp add: fire_kickoff_def case_prod_beta Let_def)
  moreover obtain x w1 where x: "fire_kickoff host dest schema p w = (x, w1)" by fastforce
  ultimately show ?thesis
    using turn KickoffSend ok by (cases x) (auto simp: act_bind_def act_ret_def good_def)
next
  case (AskWait lease dest tr)
  obtain x w1 where x: "ask_wait lease dest tr False w = (x, w1)" by fastforce
  then show ?thesis
    using turn AskWait ok R_ask_wait [of w lease dest tr False] by (cases x) (auto simp: good_def)
qed

lemma run_task_good: "good w (run_task host i w)"
proof (cases "map_of (w_tasks w) i")
  case None
  then show ?thesis by (simp add: run_task_def good_refl)
next
  case (Some t)
  obtain x w1 where x: "task_turn host t w = (x, w1)" by fastforce
  show ?thesis
  proof (rule goodI)
    assume ok: "world_ok w"
    then have t: "task_ok w t" "i < w_next w" using Some by (auto simp: world_ok_def tasks_ok_def)
    note g = task_turn_good [OF x ok t(1)]
    have w1: "good w w1" using g by (simp add: good_def)
    have "good w (run_task host i w)"
    proof (cases x)
      case (Done t')
      have "good w1 (set_task i t' w1)"
        using g Done t(2) extends_bound by (intro good_set_task) auto
      with w1 have "good w (set_task i t' w1)" by (rule good_trans)
      then show ?thesis by (simp add: run_task_def Some x Done)
    next
      case (Panicked m)
      have "good (task_died t w1) (set_task i None (task_died t w1))" by (rule good_set_task) simp
      with good_trans [OF w1 R_task_died] have "good w (set_task i None (task_died t w1))" by (rule good_trans)
      then show ?thesis by (simp add: run_task_def Some x Panicked)
    qed
    then show "world_ok (run_task host i w) \<and> extends w (run_task host i w)" using ok by (simp add: good_def)
  qed
qed

lemma time_out_good: "good w (time_out_ask i w)" for w :: "('st, 'sv, 's) world"
proof -
  have "good w (set_task i None (snd (ask_wait l d tr b w)))" for l d tr b
    by (rule good_trans [OF R_ask_wait good_set_task]) simp
  then show ?thesis
    by (simp add: time_out_ask_def good_refl split: option.split task.split)
qed

lemmas stops_good = rel_stop_finish R_shutdown_begin rel_shutdown_finish

end

subsection \<open>Steps\<close>

text \<open>
  One step of the system: a turn of a task, a timeout, a call from outside, the joins of a stop and of
  the shutdown sweep, the start of a projector with its catch-up, a wake, a purge, or the clocks.
\<close>

inductive sys_step :: "('st, 'sv, 's) host \<Rightarrow> ('st, 'sv, 's) world \<Rightarrow> ('st, 'sv, 's) world \<Rightarrow> bool"
  for host :: "('st, 'sv, 's) host" where
  st_turn: "sys_step host w (run_task host i w)"
| st_timeout: "sys_step host w (time_out_ask i w)"
| st_call: "api host w w' \<Longrightarrow> sys_step host w w'"
| st_stop: "sys_step host w (snd (stop_finish host path joined w))"
| st_shutdown: "sys_step host w (snd (shutdown_begin w))"
| st_sweep: "sys_step host w (snd (shutdown_finish host paths w))"
| st_catch_up: "sys_step host w (snd (pb_start_and_catchup host code b w))"
| st_wake: "sys_step host w (snd (wake_projector host path w))"
| st_purge: "sys_step host w (snd (purge_journal host path w))"
| st_clock: "sys_step host w (w\<lparr>w_now := t, w_wall := m\<rparr>)"

inductive reachable :: "('st, 'sv, 's) host \<Rightarrow> ('st, 'sv, 's) world \<Rightarrow> ('st, 'sv, 's) world \<Rightarrow> bool"
  for host :: "('st, 'sv, 's) host" and w0 :: "('st, 'sv, 's) world" where
  rc_start: "reachable host w0 w0"
| rc_step: "reachable host w0 w \<Longrightarrow> sys_step host w w' \<Longrightarrow> reachable host w0 w'"

text \<open>
  A fresh fabric (\<open>ActorSystemCore::new\<close>).  A heap's content at a number that is not allocated is never
  read.
\<close>

definition system_new ::
  "'s \<Rightarrow> mailbox_defaults \<Rightarrow> bool \<Rightarrow> 64 word \<Rightarrow> timestamp \<Rightarrow> 'st dyn_es \<Rightarrow> 'sv \<Rightarrow> ('st, 'sv, 's) world" where
  "system_new store defaults observing wall now any_shell any_service =
     \<lparr>w_registry = registry_new, w_cell_heap = (\<lambda>_. cell_new [] (inbox_new 1 Block) 1 Block 1),
      w_endpoint_heap = (\<lambda>_. endpoint_new None 0), w_shell_heap = (\<lambda>_. any_shell),
      w_service_heap = (\<lambda>_. any_service), w_next = 0, w_cells = [], w_es_state = [], w_projectors = [],
      w_services = [], w_replies = reply_empty, w_ask_facts = [], w_genesis_args = [], w_dead_letters = [],
      w_specs = [], w_failures = [], w_caught_up = [], w_shutting_down = False, w_store = store,
      w_observing = observing, w_observed = [], w_ids = id_gen_init, w_wall = wall, w_now = now,
      w_defaults = defaults, w_tasks = [], w_watch_heap = (\<lambda>_. WatchOpen False), w_engines = [], w_claims = []\<rparr>"

lemma system_new_ok: "world_ok (system_new store defaults observing wall now any_shell any_service)"
  by (simp add: world_ok_def system_new_def rg_ok_def slots_ok_def cells_ok_def states_ok_def tasks_ok_def registry_new_def)

lemma host_ok_typed:
  assumes "host_ok host"
  shows "typed_host host"
proof -
  have fac: "act_rel good (ho_factory host f p a)" for f p a
    using assms typed_calls.wiring_frame [of host] by (simp add: host_ok_def act_rel_def)
  have api: "api host w w' \<Longrightarrow> good w w'" for w w' by (rule typed_calls.api_frame [OF fac])
  show ?thesis
  proof (unfold_locales, goal_cases)
    case 2 show ?case using assms by (auto simp: host_ok_def intro: api)
  next
    case 11 show ?case using assms by (auto simp: host_ok_def intro: api)
  next
    case 12 show ?case using assms by (simp add: host_ok_def act_rel_def api)
  next
    case (19 w path sh)
    then show ?case by (intro good_new_state) (auto simp: world_ok_def states_ok_def)
  next
    case 21 show ?case by (rule good_door_try)
  qed (auto intro: fac good_on_cell good_with_inbox good_fields good_flush_mailbox good_drop_tables good_drop_state
      good_remove_slot good_set_task)
qed

lemma sys_step_good:
  assumes "host_ok host"
  shows "sys_step host w w' \<Longrightarrow> good w w'"
proof (induction rule: sys_step.induct)
  note th = host_ok_typed [OF assms]
  have fac: "act_rel good (ho_factory host f p a)" for f p a
    using assms typed_calls.wiring_frame [of host] by (simp add: host_ok_def act_rel_def)
  {
    case (st_turn w i) show ?case by (rule typed_host.run_task_good [OF th])
  next
    case (st_timeout w i) show ?case by (rule typed_host.time_out_good [OF th])
  next
    case (st_call w w') then show ?case by (rule typed_calls.api_frame [OF fac])
  next
    case (st_stop w path joined) show ?case by (rule act_relD [OF typed_host.stops_good(1) [OF th]])
  next
    case (st_shutdown w) show ?case by (rule typed_host.stops_good(2) [OF th])
  next
    case (st_sweep w paths) show ?case by (rule act_relD [OF typed_host.stops_good(3) [OF th]])
  next
    case (st_catch_up w code b)
    have "act_rel good (act_bind (arm_projector path (pb_consumed b) (pb_args b) code (pb_opts b))
        (\<lambda>a. act_bind (catch_up_projector host a (pb_consumed b)) (\<lambda>_. act_ret path)))" for path
    proof (rule good_armed)
      fix a :: armed and w :: "('a, 'b, 'c) world"
      assume "loop_ok w (ar_loop a)" "ar_endpoint a < w_next w"
      then have "good w (snd (catch_up_projector host a (pb_consumed b) w))"
        by (intro typed_host.R_catch_up [OF th]) simp
      then show "good w (snd (act_bind (catch_up_projector host a (pb_consumed b)) (\<lambda>_. act_ret path) w))"
        by (cases "catch_up_projector host a (pb_consumed b) w") (simp add: act_bind_def act_ret_def split: outcome.split)
    qed
    then show ?case
      unfolding pb_start_and_catchup_def by (intro act_relD [OF typing.rel_bind [OF good_validated]])
  next
    case (st_wake w path)
    have "act_rel good (act_bind (ho_factory host f p a) (\<lambda>_. act_ret x))" for f p a and x :: "bool + nat"
      by (intro typing.rel_bind fac typing.rel_ret)
    then show ?case
      by (simp add: wake_projector_def wake_owned_def Let_def good_refl act_rel_def split: option.split)
  next
    case (st_purge w path) show ?case by (simp add: purge_journal_def good_fields split: prod.split)
  next
    case (st_clock w t m) show ?case by (rule good_trans [OF good_fields(19) good_fields(20)])
  }
qed

lemma reachable_ok:
  assumes "host_ok host" "reachable host w0 w" "world_ok w0"
  shows "world_ok w"
  using assms(2,3)
proof (induction rule: reachable.induct)
  case (rc_step w w')
  then show ?case using sys_step_good [OF assms(1)] by (auto simp: good_def)
qed

lemma world_ok_lookup: "world_ok w \<Longrightarrow> \<exists>info. lookup p (w_registry w) = Done info"
  by (cases "map_of (rg_slots (w_registry w)) p")
    (auto simp: lookup_def slot_kind_def world_ok_def slots_ok_def slot_ok_def split: option.split)

lemma world_ok_resolve:
  "world_ok w \<Longrightarrow> resolve p (w_registry w) = Some ep \<Longrightarrow> map_of (w_cells w) p = Some (ep_cell (w_endpoint_heap w ep))"
  by (force simp: resolve_def world_ok_def slots_ok_def slot_ok_def split: option.splits)

text \<open>
  C13. The tables of a running system are typed.  From a fresh fabric, whatever the tasks, the callbacks
  and the callers outside do, in any order: every slot has its kind, so a lookup never panics; a path
  resolves only to an endpoint over the cell the table holds for it; and every event-sourced loop works
  on a cell of its own path with a state shell cached, so reading its state never panics.
\<close>

theorem reachable_worlds_are_typed:
  assumes "host_ok host"
    and "reachable host (system_new store defaults observing wall now any_shell any_service) w"
  shows "world_ok w \<and>
    (\<forall>p. \<exists>info. lookup p (w_registry w) = Done info) \<and>
    (\<forall>p ep. resolve p (w_registry w) = Some ep \<longrightarrow> map_of (w_cells w) p = Some (ep_cell (w_endpoint_heap w ep))) \<and>
    (\<forall>i lp watch ph. map_of (w_tasks w) i = Some (EsTask lp watch ph) \<longrightarrow>
       (\<exists>sh. loop_state lp = Done sh) \<and> ce_path (w_cell_heap w (lo_cell lp)) = lo_path lp)"
proof -
  have ok: "world_ok w" by (rule reachable_ok [OF assms system_new_ok])
  moreover have "(\<exists>sh. loop_state lp = Done sh) \<and> ce_path (w_cell_heap w (lo_cell lp)) = lo_path lp"
    if "map_of (w_tasks w) i = Some (EsTask lp watch ph)" for i lp watch ph
  proof -
    have "task_ok w (EsTask lp watch ph)" using ok that unfolding world_ok_def tasks_ok_def by blast
    then show ?thesis by (auto simp: loop_ok_def cell_of_loop_ok_def loop_state_def)
  qed
  ultimately show ?thesis using world_ok_lookup world_ok_resolve by blast
qed

lemma demo_host_ok: "host_ok demo_host"
  by (simp add: host_ok_def demo_host_def act_ret_def su_refl ap_refl)

interpretation demo_typed: typed_host demo_host
  by (rule host_ok_typed [OF demo_host_ok])

text \<open>A fabric with one counter started at path \<open>a\<close>; task 5 is its loop.\<close>

definition demo_start :: "(int, nat, mem_store) world" where
  "demo_start = system_new mem_new \<lparr>md_capacity = 64, md_policy = Block\<rparr> False 5 (from_millis 1000)
     \<lparr>dy_shell = TypedEs 0, dy_code = demo_code\<rparr> 0"

definition demo_running :: "(int, nat, mem_store) world" where
  "demo_running = snd (eb_start manifest_new demo_code (eb_at ''a'' spawn_es_builder) demo_start)"

lemma demo_running_reachable: "reachable demo_host demo_start demo_running"
  unfolding demo_running_def by (intro rc_step [OF rc_start st_call] ap_setup su_es)

theorem reachable_worlds_are_typed_witness:
  "world_ok (run_task demo_host 5 demo_running)"
  using reachable_worlds_are_typed [OF demo_host_ok
      rc_step [OF demo_running_reachable [unfolded demo_start_def] st_turn, of 5]] by simp

end
