(* ===== verification/Delivery.thy ===== *)
theory Delivery
  imports Systems "HOL-Library.Multiset"
begin

text \<open>
  Where an envelope is (\<open>route\<close>, \<open>direct_push\<close>, \<open>deliver_with_retry\<close> and \<open>front_door_loop\<close> of
  \<open>src/src/kernel.rs\<close>): mail rests in inboxes, in front-door channels, in the hands of a door that waits for
  room, or in the dead letters; sends and doors move it between these and neither lose nor repeat any.
\<close>

subsection \<open>The mail of a world\<close>

definition inbox_mail :: "envelope inbox \<Rightarrow> envelope multiset" where
  "inbox_mail ib = mset (fst (inbox_drain_live ib))"

fun task_mail :: "task \<Rightarrow> envelope multiset" where
  "task_mail (DoorTask ep (DoorHolding e parks)) = {#e#}"
| "task_mail _ = {#}"

definition tasks_mail :: "(nat \<times> task) list \<Rightarrow> envelope multiset" where
  "tasks_mail ts = (\<Sum>t \<leftarrow> map snd ts. task_mail t)"

definition letters_mail :: "('st, 'sv, 's) world \<Rightarrow> envelope multiset" where
  "letters_mail w = mset (map dl_envelope (w_dead_letters w))"

definition mail :: "('st, 'sv, 's) world \<Rightarrow> envelope multiset" where
  "mail w = (\<Sum>c < w_next w. inbox_mail (ce_inbox (w_cell_heap w c))) +
     (\<Sum>ep < w_next w. mset (ep_queue (w_endpoint_heap w ep))) + tasks_mail (w_tasks w) + letters_mail w"

text \<open>The part of it that sends and doors move, the tasks aside.\<close>

definition resting :: "('st, 'sv, 's) world \<Rightarrow> envelope multiset" where
  "resting w = (\<Sum>c < w_next w. inbox_mail (ce_inbox (w_cell_heap w c))) +
     (\<Sum>ep < w_next w. mset (ep_queue (w_endpoint_heap w ep))) + letters_mail w"

lemma mail_resting: "mail w = resting w + tasks_mail (w_tasks w)"
  by (simp add: mail_def resting_def)

lemma sum_upd:
  fixes g :: "'a \<Rightarrow> 'm::comm_monoid_add"
  assumes "c < (n::nat)"
  shows "(\<Sum>i < n. g ((f(c := x)) i)) + g (f c) = (\<Sum>i < n. g (f i)) + g x"
proof -
  have c: "c \<in> {..<n}" using assms by simp
  have "(\<Sum>i < n. g ((f(c := x)) i)) = g x + (\<Sum>i \<in> {..<n} - {c}. g (f i))"
    by (subst sum.remove [OF _ c]) (auto intro!: sum.cong)
  moreover have "(\<Sum>i < n. g (f i)) = g (f c) + (\<Sum>i \<in> {..<n} - {c}. g (f i))"
    by (subst sum.remove [OF _ c]) auto
  ultimately show ?thesis by (simp add: ac_simps)
qed

lemma resting_cell:
  assumes "c < w_next w" "inbox_mail (ce_inbox (f (w_cell_heap w c))) + x = inbox_mail (ce_inbox (w_cell_heap w c)) + y"
  shows "resting (on_cell c f w) + x = resting w + y"
proof -
  let ?S = "\<lambda>h. \<Sum>i < w_next w. inbox_mail (ce_inbox (h i))"
  let ?old = "inbox_mail (ce_inbox (w_cell_heap w c))" and ?new = "inbox_mail (ce_inbox (f (w_cell_heap w c)))"
  have s: "?S ((w_cell_heap w)(c := f (w_cell_heap w c))) + ?old = ?S (w_cell_heap w) + ?new"
    by (rule sum_upd [where g = "\<lambda>ce. inbox_mail (ce_inbox ce)", OF assms(1)])
  have "?S ((w_cell_heap w)(c := f (w_cell_heap w c))) + x + ?old = ?S (w_cell_heap w) + (?new + x)"
    using s by (simp add: ac_simps)
  also have "\<dots> = ?S (w_cell_heap w) + y + ?old" using assms(2) by (simp add: ac_simps)
  finally have "?S ((w_cell_heap w)(c := f (w_cell_heap w c))) + x = ?S (w_cell_heap w) + y" by simp
  then show ?thesis by (simp add: resting_def letters_mail_def on_cell_def ac_simps)
qed

lemma resting_endpoint:
  assumes "ep < w_next w" "mset (ep_queue (f (w_endpoint_heap w ep))) + x = mset (ep_queue (w_endpoint_heap w ep)) + y"
  shows "resting (on_endpoint ep f w) + x = resting w + y"
proof -
  let ?S = "\<lambda>h. \<Sum>i < w_next w. mset (ep_queue (h i))"
  let ?old = "mset (ep_queue (w_endpoint_heap w ep))" and ?new = "mset (ep_queue (f (w_endpoint_heap w ep)))"
  have s: "?S ((w_endpoint_heap w)(ep := f (w_endpoint_heap w ep))) + ?old = ?S (w_endpoint_heap w) + ?new"
    by (rule sum_upd [where g = "\<lambda>e. mset (ep_queue e)", OF assms(1)])
  have "?S ((w_endpoint_heap w)(ep := f (w_endpoint_heap w ep))) + x + ?old = ?S (w_endpoint_heap w) + (?new + x)"
    using s by (simp add: ac_simps)
  also have "\<dots> = ?S (w_endpoint_heap w) + y + ?old" using assms(2) by (simp add: ac_simps)
  finally have "?S ((w_endpoint_heap w)(ep := f (w_endpoint_heap w ep))) + x = ?S (w_endpoint_heap w) + y" by simp
  then show ?thesis by (simp add: resting_def letters_mail_def on_endpoint_def ac_simps)
qed

lemma resting_fields [simp]:
  "resting (observe t k w) = resting w" "resting (observe_traced tr k w) = resting w"
  "resting (w\<lparr>w_ids := g\<rparr>) = resting w" "resting (w\<lparr>w_registry := r\<rparr>) = resting w"
  "resting (w\<lparr>w_tasks := tasks\<rparr>) = resting w"
  by (simp_all add: resting_def letters_mail_def)

lemma resting_letter [simp]: "resting (dead_letter e reason detail w) = resting w + {#e#}"
  by (simp add: dead_letter_def) (simp add: resting_def letters_mail_def letter_of_def)

subsection \<open>Pushing\<close>

lemma drain_live_append: "fst (drain_live_loop (xs @ ys)) = fst (drain_live_loop xs) @ fst (drain_live_loop ys)"
  by (induction xs rule: drain_live_loop.induct) (simp_all add: case_prod_beta)

lemma inbox_mail_next: "inbox_mail (queue_next e ib) = inbox_mail ib + {#e#}"
  by (simp add: inbox_mail_def inbox_drain_live_def queue_next_def case_prod_beta drain_live_append)

text \<open>What a push hands back with its refusal, and what it takes in.\<close>

lemma push_mail:
  assumes "inbox_push e ib = Done (r, ib')"
  shows "inbox_mail ib' + (case r of Inl refused \<Rightarrow> {#refused_into_envelope refused#} | Inr _ \<Rightarrow> {#}) = inbox_mail ib + {#e#}"
proof -
  have evict: "ib_queue ib = (off, Some old) # q \<Longrightarrow>
      add_mset old (inbox_mail (ib\<lparr>ib_queue := q, ib_cursor := k\<rparr>)) = inbox_mail ib" for off old q k
    by (simp add: inbox_mail_def inbox_drain_live_def case_prod_beta)
  show ?thesis
    using assms
    by (auto simp: inbox_push_def queue_ok_def inbox_mail_next evict
        split: if_splits overload_policy.splits list.splits prod.splits option.splits)
qed

lemma resting_pushed:
  assumes "c < w_next w"
  shows "resting (pushed_directly c tr ev w) = resting w + (case ev of None \<Rightarrow> {#} | Some old \<Rightarrow> {#old#})"
proof -
  have latch: "resting (snd (latch_cell c w)) = resting w"
    using resting_cell [OF assms, of "\<lambda>_. snd (watermark_latch (w_cell_heap w c))" "{#}" "{#}"]
      watermark_latch_cell [of "w_cell_heap w c"]
    by (auto simp: latch_cell_def case_prod_beta)
  have work: "c < w_next x \<Longrightarrow> resting (on_cell c notify_work x) = resting x" for x :: "('a, 'b, 'c) world"
    using resting_cell [of c x notify_work "{#}" "{#}"] by (simp add: notify_work_def)
  have fire: "resting (fire_watermark c tr f x) = resting x" for f and x :: "('a, 'b, 'c) world"
    by (simp add: fire_watermark_def split: option.split)
  show ?thesis
    using assms by (simp add: pushed_directly_alt work) (simp add: letter_evicted_def fire latch split: option.split)
qed

lemma direct_push_mail:
  assumes "ep_cell (w_endpoint_heap w ep) < w_next w" "direct_push ep e tr w = (Done r, w')"
  shows "resting w' + (case r of Inl back \<Rightarrow> {#back#} | Inr _ \<Rightarrow> {#}) = resting w + {#e#}"
proof -
  define c where "c = ep_cell (w_endpoint_heap w ep)"
  have c: "c < w_next w" using assms(1) by (simp add: c_def)
  have box: "resting (on_cell c (\<lambda>ce. ce\<lparr>ce_inbox := ib\<rparr>) w) +
      (case x of Inl refused \<Rightarrow> {#refused_into_envelope refused#} | Inr _ \<Rightarrow> {#}) = resting w + {#e#}"
    if "inbox_push e (ce_inbox (w_cell_heap w c)) = Done (x, ib)" for x ib
    by (rule resting_cell [OF c]) (simp add: push_mail [OF that])
  have p: "resting (pushed_directly c tr ev (on_cell c (\<lambda>ce. ce\<lparr>ce_inbox := ib\<rparr>) w)) =
      resting (on_cell c (\<lambda>ce. ce\<lparr>ce_inbox := ib\<rparr>) w) + (case ev of None \<Rightarrow> {#} | Some old \<Rightarrow> {#old#})" for ev ib
    by (rule resting_pushed) (simp add: c)
  show ?thesis
  proof (rule direct_push_cases [OF c_def, of e tr], goal_cases)
    case (1 m)
    then show ?case using assms(2) by simp
  next
    case (2 off ib)
    then show ?case using assms(2) box [OF 2(1)] p [of None ib] by auto
  next
    case (3 r ib)
    then show ?case using assms(2) box [OF 3(1)] p [of "Some (refused_into_envelope r)" ib] by auto
  next
    case (4 r ib)
    then show ?case using assms(2) box [OF 4(1)] by auto
  qed
qed

lemma retry_mail:
  assumes "ep < w_next w" "deliver_with_retry ep e w = (r, w')"
  shows "resting w' + (case r of Inl back \<Rightarrow> {#back#} | Inr _ \<Rightarrow> {#}) = resting w + {#e#}"
proof -
  have same: "resting (on_endpoint ep (\<lambda>_. w_endpoint_heap w ep) w) = resting w"
    using resting_endpoint [OF assms(1), of "\<lambda>_. w_endpoint_heap w ep" "{#}" "{#}"] by simp
  have grown: "resting (on_endpoint ep (\<lambda>_. w_endpoint_heap w ep
      \<lparr>ep_queue := ep_queue (w_endpoint_heap w ep) @ [e], ep_pending := n\<rparr>) w) = add_mset e (resting w)" for n
    using resting_endpoint [OF assms(1), of "\<lambda>x. x\<lparr>ep_queue := ep_queue x @ [e], ep_pending := n\<rparr>" "{#}" "{#e#}"]
    by (simp add: on_endpoint_def)
  show ?thesis
    using assms(2)
    by (auto simp: deliver_with_retry_def try_deliver_def deliver_def note_channel_accept_def same grown split: if_splits)
qed

lemma retry_back: "deliver_with_retry ep e w = (Inl b, w') \<Longrightarrow> b = e"
  by (auto simp: deliver_with_retry_def try_deliver_def deliver_def split: if_splits)

subsection \<open>Routing without rules and sets\<close>

text \<open>What the delivery of one envelope leaves as it was.\<close>

definition fixed :: "('st, 'sv, 's) world \<Rightarrow> ('st, 'sv, 's) world \<Rightarrow> bool" where
  "fixed w w' \<longleftrightarrow> w_next w' = w_next w \<and> w_tasks w' = w_tasks w \<and> w_shutting_down w' = w_shutting_down w \<and>
     rg_slots (w_registry w') = rg_slots (w_registry w) \<and> rg_rules (w_registry w') = rg_rules (w_registry w) \<and>
     rg_partitions (w_registry w') = rg_partitions (w_registry w) \<and>
     rg_projector_sets (w_registry w') = rg_projector_sets (w_registry w) \<and>
     (\<forall>ep. ep_cell (w_endpoint_heap w' ep) = ep_cell (w_endpoint_heap w ep))"

lemma direct_push_fixed: "fixed w (snd (direct_push ep e tr w))"
  by (rule direct_push_cases [OF refl, where w = w and ep = ep and e = e and tr = tr]) (simp_all add: fixed_def)

lemma retry_fixed: "fixed w (snd (deliver_with_retry ep e w))"
  by (auto simp: deliver_with_retry_def try_deliver_def deliver_def note_channel_accept_def fixed_def on_endpoint_def
      split: prod.split sum.split)

lemma fixed_trans: "fixed w w1 \<Longrightarrow> fixed w1 w2 \<Longrightarrow> fixed w w2"
  by (simp add: fixed_def)

lemma fixed_simple [simp]:
  "fixed w w" "fixed w (observe_traced tr k w)" "fixed w (dead_letter e reason detail w)"
  "fixed w (w\<lparr>w_registry := (w_registry w)\<lparr>rg_route_cursor := n\<rparr>\<rparr>)"
  by (simp_all add: fixed_def)

text \<open>A fabric without rules, partitions and projector sets that is not shutting down.\<close>

definition plain :: "('st, 'sv, 's) world \<Rightarrow> bool" where
  "plain w \<longleftrightarrow> rg_rules (w_registry w) = [] \<and> rg_partitions (w_registry w) = [] \<and>
     rg_projector_sets (w_registry w) = [] \<and> \<not> w_shutting_down w \<and>
     (\<forall>p ep. resolve p (w_registry w) = Some ep \<longrightarrow> ep < w_next w \<and> ep_cell (w_endpoint_heap w ep) < w_next w) \<and>
     (\<forall>i ep d. (i, DoorTask ep d) \<in> set (w_tasks w) \<longrightarrow> ep < w_next w \<and> ep_cell (w_endpoint_heap w ep) < w_next w) \<and>
     distinct (map fst (w_tasks w))"

lemma plain_fixed: "plain w \<Longrightarrow> fixed w w' \<Longrightarrow> plain w'"
  by (auto simp: plain_def fixed_def resolve_def)

definition returned :: "envelope + 'a \<Rightarrow> envelope multiset" where
  "returned r = (case r of Inl back \<Rightarrow> {#back#} | Inr _ \<Rightarrow> {#})"

lemma returned_simps [simp]: "returned (Inl b) = {#b#}" "returned (Inr x) = {#}"
  by (simp_all add: returned_def)

lemma primary_mail:
  assumes p: "plain w" and ep: "resolve path (w_registry w) = Some ep"
    and d: "deliver_primary host e path ep None None w = (Done r, w')"
  shows "resting w' + returned r = resting w + {#e#} \<and> fixed w w'"
proof -
  have b: "ep < w_next w" "ep_cell (w_endpoint_heap w ep) < w_next w" using p ep by (simp_all add: plain_def)
  obtain a w1 where push: "direct_push ep e (en_trace e) w = (a, w1)" by fastforce
  have f1: "fixed w w1" using direct_push_fixed [of w ep e "en_trace e"] push by simp
  obtain x where a: "a = Done x" using d push by (cases a) (simp_all add: deliver_primary_def act_bind_def)
  have m1: "resting w1 + returned x = resting w + {#e#}"
    using direct_push_mail [OF b(2) push [unfolded a]] by (simp add: returned_def)
  show ?thesis
  proof (cases x)
    case (Inr u)
    then have "r = Inr path" "w' = observe_sent e (APath path) w1" using d push a by (simp_all add: deliver_primary_def act_bind_def)
    then show ?thesis using m1 f1 fixed_trans [OF f1] Inr by (simp add: observe_sent_def)
  next
    case (Inl refused)
    obtain y w2 where tr: "deliver_with_retry ep refused w1 = (y, w2)" by fastforce
    have f2: "fixed w w2" using fixed_trans [OF f1] retry_fixed [of w1 ep refused] tr by simp
    have b1: "ep < w_next w1" using b(1) f1 by (simp add: fixed_def)
    have m2: "resting w2 + returned y = resting w + {#e#}"
      using retry_mail [OF b1 tr] m1 Inl by (simp add: returned_def)
    show ?thesis
    proof (cases y)
      case (Inr u)
      then have "r = Inr path" "w' = observe_sent e (APath path) w2"
        using d push a Inl tr by (simp_all add: deliver_primary_def act_bind_def)
      then show ?thesis using m2 f2 fixed_trans [OF f2] Inr by (simp add: observe_sent_def)
    next
      case kept: (Inl kept')
      have [simp]: "kept' = refused" using retry_back tr kept by blast
      have ep2: "resolve path (w_registry w2) = Some ep" using ep f2 by (simp add: resolve_def fixed_def)
      obtain z w3 where again: "deliver_with_retry ep refused w2 = (z, w3)" by fastforce
      have b2: "ep < w_next w2" using b(1) f2 by (simp add: fixed_def)
      have m3: "resting w3 + returned z = resting w + {#e#}"
        using retry_mail [OF b2 again] m2 kept by (simp add: returned_def)
      have f3: "fixed w w3" using fixed_trans [OF f2] retry_fixed [of w2 ep refused] again by simp
      have "w' = w3" "returned r = returned z"
        using d push a Inl tr kept ep2 again
        by (auto simp: deliver_primary_def act_bind_def resolve_partition_def resolve_projector_set_def split: sum.splits)
      then show ?thesis using m3 f3 by simp
    qed
  qed
qed

lemma route_plain:
  assumes p: "plain w" and e: "en_dest e = APath path"
  shows "route host e w = (case resolve path (w_registry w) of
      None \<Rightarrow> (Done (Inl e), w)
    | Some ep \<Rightarrow> deliver_primary host e path ep None None w)"
proof -
  have "rules_loop [] e path = (None, None)" "projector_set_owning path (w_registry w) = None"
    using p by (simp_all add: projector_set_owning_def plain_def)
  then show ?thesis
    using p e
    by (simp add: route_def route_path_def apply_rules_def plain_def Let_def deliver_tee_def resolve_partition_def
        resolve_projector_set_def act_bind_def split: option.split)
qed

lemma route_mail:
  assumes p: "plain w" and r: "route host e w = (Done r, w')"
  shows "resting w' + returned r = resting w + {#e#} \<and> fixed w w'"
proof -
  have sd: "\<not> w_shutting_down w" using p by (simp add: plain_def)
  show ?thesis
  proof (cases "en_dest e")
    case (APath path)
    from route_plain [OF p this, of host]
    show ?thesis using r primary_mail [OF p, of path _ host e r w'] by (cases "resolve path (w_registry w)") simp_all
  next
    case (ASlot lease)
    then show ?thesis using r sd by (auto simp: route_def)
  next
    case (ASchema schema)
    obtain target ep r1 where rr: "route_resolved schema (w_registry w) = ((target, ep), r1)" by (metis prod.exhaust)
    obtain n where r1: "r1 = (w_registry w)\<lparr>rg_route_cursor := n\<rparr>" using route_resolved_cursor [OF rr] by blast
    define w1 where "w1 = w\<lparr>w_registry := r1\<rparr>"
    have f1: "fixed w w1" "resting w1 = resting w" by (simp_all add: w1_def r1)
    have one: "route host e w = route_one_of e schema w" using sd ASchema by (simp add: route_def)
    show ?thesis
    proof (cases "\<exists>path k. target = Some path \<and> ep = Some k")
      case True
      then obtain path k where tk: "target = Some path" "ep = Some k" by blast
      have "k < w_next w1"
        using rr tk p by (auto simp: route_resolved_def plain_def w1_def resolve_def r1 split: prod.splits option.splits)
      note m = retry_mail [OF this]
      obtain y w2 where tr: "deliver_with_retry k e w1 = (y, w2)" by fastforce
      have f2: "fixed w w2" using fixed_trans [OF f1(1)] retry_fixed [of w1 k e] tr by simp
      have "resting w' = resting w2 \<and> returned r = returned y \<and> fixed w2 w'"
        using r one rr tk tr by (auto simp: route_one_of_def w1_def Let_def split: sum.splits)
      then show ?thesis using m [OF tr] f1(2) fixed_trans [OF f2] by (simp add: returned_def)
    next
      case False
      then have "r = Inl e \<and> w' = w1" using r one rr by (auto simp: route_one_of_def w1_def Let_def split: option.splits)
      then show ?thesis using f1 by simp
    qed
  qed
qed

subsection \<open>Doors\<close>

definition door_mail :: "door \<Rightarrow> envelope multiset" where
  "door_mail d = (case d of DoorReady \<Rightarrow> {#} | DoorHolding e parks \<Rightarrow> {#e#})"

lemma task_mail_door [simp]: "task_mail (DoorTask ep d) = door_mail d"
  by (cases d) (simp_all add: door_mail_def)

lemma door_try_mail:
  assumes c: "c < w_next w" and d: "door_try c e parks w = (Done d, w')"
  shows "resting w' + door_mail d = resting w + {#e#} \<and> fixed w w'"
proof -
  obtain x ib where push: "inbox_push e (ce_inbox (w_cell_heap w c)) = Done (x, ib)"
    using d by (cases "inbox_push e (ce_inbox (w_cell_heap w c))")
      (auto simp: door_try_def attempt_push_def act_bind_def with_inbox_def)
  define w1 where "w1 = on_cell c (\<lambda>ce. ce\<lparr>ce_inbox := ib\<rparr>) w"
  have wi: "with_inbox c (inbox_push e) w = (Done x, w1)" using push by (simp add: with_inbox_def w1_def)
  have f1: "fixed w w1" by (simp add: w1_def fixed_def)
  have m1: "resting w1 + (case x of Inl refused \<Rightarrow> {#refused_into_envelope refused#} | Inr _ \<Rightarrow> {#}) = resting w + {#e#}"
    unfolding w1_def by (rule resting_cell [OF c]) (simp add: push_mail [OF push])
  obtain answer w2 where att: "attempt_push c e parks w = (Done answer, w2)"
    using d by (auto simp: door_try_def act_bind_def split: prod.splits outcome.splits)
  have a: "fixed w1 w2 \<and> resting w2 + (case answer of PushHeld h n \<Rightarrow> {#h#} | _ \<Rightarrow> {#}) = resting w + {#e#}"
    using att m1 wi by (auto simp: attempt_push_def act_bind_def Let_def split: sum.splits if_splits)
  have c2: "c < w_next w2" using c f1 a by (simp add: fixed_def)
  have latch: "resting (snd (latch_cell c w2)) = resting w2"
    using resting_cell [OF c2, of "\<lambda>_. snd (watermark_latch (w_cell_heap w2 c))" "{#}" "{#}"]
      watermark_latch_cell [of "w_cell_heap w2 c"]
    by (auto simp: latch_cell_def case_prod_beta)
  have fire: "resting (fire_watermark c (en_trace e) f y) = resting y" "fixed y (fire_watermark c (en_trace e) f y)"
    for f and y :: "('a, 'b, 'c) world"
    by (simp_all add: fire_watermark_def split: option.split)
  define w3 where "w3 = fire_watermark c (en_trace e) (fst (latch_cell c w2)) (snd (latch_cell c w2))"
  have w3: "resting w3 = resting w2" "fixed w2 w3" "w_next w3 = w_next w2"
    by (simp_all add: w3_def fire latch) (simp add: fixed_def latch_cell_def case_prod_beta)
  have work: "resting (on_cell c notify_work w3) = resting w3" "fixed w2 (on_cell c notify_work w3)"
    using resting_cell [of c w3 notify_work "{#}" "{#}"] c2 w3(2,3) by (simp_all add: notify_work_def fixed_def)
  have d': "Done d = Done (fst (door_after c (en_trace e) answer w2))" "w' = snd (door_after c (en_trace e) answer w2)"
    using d att by (simp_all add: door_try_def act_bind_def case_prod_beta)
  show ?thesis
    using a w3 work d' fixed_trans [OF f1] fixed_trans
    by (cases answer) (auto simp: door_after_def case_prod_beta door_mail_def w3_def [symmetric])
qed

lemma plain_door:
  "plain w \<Longrightarrow> (i, DoorTask ep d) \<in> set (w_tasks w) \<Longrightarrow> ep < w_next w \<and> ep_cell (w_endpoint_heap w ep) < w_next w"
  unfolding plain_def by blast

lemma door_step_mail:
  assumes p: "plain w" and i: "(i, DoorTask ep d) \<in> set (w_tasks w)" and s: "door_step ep d w = (Done d', w')"
  shows "resting w' + door_mail d' = resting w + door_mail d \<and> fixed w w'"
proof -
  define c where "c = ep_cell (w_endpoint_heap w ep)"
  have b: "ep < w_next w" "c < w_next w" using plain_door [OF p i] by (simp_all add: c_def)
  show ?thesis
  proof (cases d)
    case DoorReady
    show ?thesis
    proof (cases "ep_queue (w_endpoint_heap w ep)")
      case Nil
      then show ?thesis using s DoorReady by (simp add: door_step_def)
    next
      case (Cons e q)
      let ?w = "on_endpoint ep (\<lambda>x. note_channel_drain (x\<lparr>ep_queue := q\<rparr>)) w"
      have f: "fixed w ?w" by (simp add: fixed_def on_endpoint_def note_channel_drain_def)
      have "resting ?w + {#e#} = resting w + {#}"
        by (rule resting_endpoint [OF b(1)]) (simp add: Cons note_channel_drain_def)
      moreover have "door_try c e 0 ?w = (Done d', w')" using s DoorReady Cons by (simp add: door_step_def c_def)
      ultimately show ?thesis
        using door_try_mail [of c ?w e 0 d' w'] b(2) f fixed_trans [OF f] DoorReady by (auto simp: door_mail_def fixed_def)
    qed
  next
    case (DoorHolding e parks)
    show ?thesis
    proof (cases "ce_space_available (w_cell_heap w c)")
      case True
      let ?w = "on_cell c (\<lambda>ce. ce\<lparr>ce_space_available := False\<rparr>) w"
      have f: "fixed w ?w" by (simp add: fixed_def)
      have "resting ?w + {#} = resting w + {#}" by (rule resting_cell [OF b(2)]) simp
      moreover have "door_try c e parks ?w = (Done d', w')" using s DoorHolding True by (simp add: door_step_def c_def [symmetric])
      ultimately show ?thesis
        using door_try_mail [of c ?w e parks d' w'] b(2) fixed_trans [OF f] DoorHolding by (simp add: door_mail_def)
    next
      case False
      then show ?thesis using s DoorHolding by (simp add: door_step_def c_def [symmetric])
    qed
  qed
qed

lemma direct_push_full:
  assumes "inbox_push e (ce_inbox (w_cell_heap w (ep_cell (w_endpoint_heap w ep)))) =
      Done (Inl (RefFull e), ce_inbox (w_cell_heap w (ep_cell (w_endpoint_heap w ep))))"
  shows "direct_push ep e tr w = (Done (Inl e), w)"
  by (rule direct_push_cases [OF refl, where w = w and ep = ep and e = e and tr = tr])
    (use assms in \<open>auto simp: on_cell_def fun_upd_idem\<close>)

subsection \<open>Traffic\<close>

text \<open>Sends from anywhere and turns of doors, in any order; what was sent and what came back is noted.\<close>

inductive traffic ::
  "('st, 'sv, 's) host \<Rightarrow> ('st, 'sv, 's) world \<times> envelope list \<times> envelope list
   \<Rightarrow> ('st, 'sv, 's) world \<times> envelope list \<times> envelope list \<Rightarrow> bool" for host where
  tr_send: "route host e w = (Done (Inr path), w') \<Longrightarrow> traffic host (w, sent, back) (w', e # sent, back)"
| tr_back: "route host e w = (Done (Inl b), w') \<Longrightarrow> traffic host (w, sent, back) (w', e # sent, b # back)"
| tr_door: "map_of (w_tasks w) i = Some (DoorTask ep d) \<Longrightarrow> door_step ep d w = (Done d', w') \<Longrightarrow>
    traffic host (w, sent, back) (run_task host i w, sent, back)"

inductive_cases traffic_cases: "traffic host a b"

lemma tasks_mail_update:
  "distinct (map fst ts) \<Longrightarrow> map_of ts i = Some t \<Longrightarrow>
   tasks_mail (AList.update i t' ts) + task_mail t = tasks_mail ts + task_mail t'"
proof (induction ts)
  case (Cons x ts)
  then show ?case by (cases x) (auto simp: tasks_mail_def ac_simps split: if_splits)
qed simp

lemma traffic_step:
  assumes tr: "traffic host (w, sent, back) (w', sent', back')" and p: "plain w"
    and m: "mail w + mset back = start + mset sent"
  shows "plain w' \<and> mail w' + mset back' = start + mset sent'"
proof -
  from tr consider
      (send) e path where "route host e w = (Done (Inr path), w')" "sent' = e # sent" "back' = back"
    | (refused) e b where "route host e w = (Done (Inl b), w')" "sent' = e # sent" "back' = b # back"
    | (door) i ep d d' w2 where "map_of (w_tasks w) i = Some (DoorTask ep d)" "door_step ep d w = (Done d', w2)"
        "w' = run_task host i w" "sent' = sent" "back' = back"
    by (rule traffic_cases) blast+
  then show ?thesis
  proof cases
    case send
    then have "resting w' = resting w + {#e#}" "fixed w w'" using route_mail [OF p send(1)] by simp_all
    then show ?thesis using p m send plain_fixed by (auto simp: mail_resting fixed_def ac_simps)
  next
    case refused
    then have r: "resting w' + {#b#} = resting w + {#e#}" "fixed w w'" using route_mail [OF p refused(1)] by simp_all
    have "mail w' + mset back' = (resting w' + {#b#}) + tasks_mail (w_tasks w) + mset back"
      using r(2) refused(3) by (simp add: mail_resting fixed_def)
    also have "\<dots> = (mail w + mset back) + {#e#}" unfolding r(1) by (simp add: mail_resting ac_simps)
    also have "\<dots> = start + mset sent'" using m refused(2) by simp
    finally show ?thesis using p r(2) plain_fixed by blast
  next
    case door
    then have i: "(i, DoorTask ep d) \<in> set (w_tasks w)" by (auto dest: map_of_SomeD)
    have f: "resting w2 + door_mail d' = resting w + door_mail d" "fixed w w2"
      using door_step_mail [OF p i door(2)] by simp_all
    have w': "w' = set_task i (Some (DoorTask ep d')) w2" using door by (simp add: run_task_def act_bind_def act_ret_def)
    have d: "distinct (map fst (w_tasks w))" using p by (simp add: plain_def)
    have t: "tasks_mail (w_tasks w') + door_mail d = tasks_mail (w_tasks w) + door_mail d'"
      using tasks_mail_update [OF d door(1), of "DoorTask ep d'"] f(2) by (simp add: w' set_task_def fixed_def)
    have "resting w' = resting w2" by (simp add: w' set_task_def)
    then have "mail w' + (door_mail d + door_mail d') = mail w + (door_mail d + door_mail d')"
      using f(1) t unfolding mail_resting by (metis (no_types, lifting) add.assoc add.commute)
    moreover have "plain w'"
    proof -
      have p2: "plain w2" using p f(2) by (rule plain_fixed)
      have "\<exists>y. (j, DoorTask q y) \<in> set (w_tasks w2)" if "(j, DoorTask q x) \<in> set (w_tasks w')" for j q x
      proof -
        have ts: "w_tasks w' = AList.update i (DoorTask ep d') (w_tasks w2)" and ds: "distinct (map fst (w_tasks w'))"
          using d f(2) by (simp_all add: w' set_task_def fixed_def)
        have "map_of (w_tasks w') j = Some (DoorTask q x)" using ds that by (rule map_of_is_SomeI)
        moreover have "(i, DoorTask ep d) \<in> set (w_tasks w2)" using i f(2) by (simp add: fixed_def)
        ultimately show ?thesis by (auto simp: ts split: if_splits dest: map_of_SomeD)
      qed
      then have doors: "q < w_next w2 \<and> ep_cell (w_endpoint_heap w2 q) < w_next w2"
        if "(j, DoorTask q x) \<in> set (w_tasks w')" for j q x
        using plain_door [OF p2] that by blast
      have "distinct (map fst (w_tasks w'))" using p2 by (simp add: w' set_task_def plain_def)
      with doors p2 show ?thesis unfolding plain_def by (simp add: w' set_task_def)
    qed
    ultimately show ?thesis using m door by simp
  qed
qed


text \<open>One actor behind a door of a full mailbox: the envelope goes round by the channel and ends in the door's hands.\<close>

definition demo_full :: "(int, nat, mem_store) world" where
  "demo_full = (demo_world [''Add'', ''Add'', ''Add'', ''Add''])
     \<lparr>w_registry := registry_new\<lparr>rg_slots := [(''a'', \<lparr>sl_manifest = manifest_kind EventSourced manifest_new,
        sl_endpoint = Some 0, sl_inbox_policy = Block\<rparr>)]\<rparr>,
      w_tasks := [(0, DoorTask 0 DoorReady)]\<rparr>"


end
