(* ===== verification/Restarts.thy ===== *)
theory Restarts
  imports Systems StepFacts
begin

text \<open>
  What a restart gives back (\<open>restart_es\<close> and the supervision engine of \<open>src/src/kernel.rs\<close>): the world after
  a restart written out, the two turns that bring a crashed child back, and what becomes of the restarted
  loop's shutdown watch.
\<close>

subsection \<open>The world after a restart\<close>

text \<open>The tables and heaps a restart leaves, over the world it started from.\<close>

definition restarted ::
  "es_loop \<Rightarrow> 'st dyn_es \<Rightarrow> nat \<Rightarrow> ('st, 'sv, 's) world \<Rightarrow> ('st, 'sv, 's) world \<Rightarrow> bool" where
  "restarted lp sh head w w' \<longleftrightarrow>
     (let c = lo_cell lp; n = w_next w; ep = Suc n; watch = Suc ep
      in w_cell_heap w' = (w_cell_heap w)(c := (reset_cell (w_now w) head (w_cell_heap w c))
             \<lparr>ce_inbox := inbox_reopen (ce_inbox (w_cell_heap w c))\<rparr>) \<and>
         resolve (lo_path lp) (w_registry w') = Some ep \<and>
         (\<forall>p. p \<noteq> lo_path lp \<longrightarrow> resolve p (w_registry w') = resolve p (w_registry w)) \<and>
         ep_cell (w_endpoint_heap w' ep) = c \<and> ep_queue (w_endpoint_heap w' ep) = [] \<and>
         \<not> ep_closed (w_endpoint_heap w' ep) \<and>
         map_of (w_es_state w') (lo_path lp) = Some n \<and> w_shell_heap w' n = sh \<and>
         w_tasks w' = w_tasks w @ [(Suc watch, DoorTask ep DoorReady),
           (Suc (Suc watch), EsTask (lp\<lparr>lo_state := Some n\<rparr>) watch LoopBoot)] \<and>
         w_watch_heap w' = (w_watch_heap w)(watch := WatchClosed False) \<and>
         w_next w' = Suc (Suc (Suc watch)) \<and>
         w_cells w' = w_cells w \<and> w_dead_letters w' = w_dead_letters w \<and> w_store w' = w_store w \<and>
         w_specs w' = w_specs w \<and> w_genesis_args w' = w_genesis_args w)"

lemma restart_with_done:
  assumes slot: "map_of (rg_slots (w_registry w)) (lo_path lp) = Some s"
    and st: "map_of (w_es_state w) (lo_path lp) = Some i"
    and rp: "rp = (case found of None \<Rightarrow> empty_replay | Some rp \<Rightarrow> rp)"
    and rb: "rebuild (dy_code (w_shell_heap w i)) genesis (snapshot_state rp) (rp_tail rp) (dy_shell (w_shell_heap w i)) =
      Done (Inr sh)"
  shows "\<exists>w'. restart_with (Inr found) lp genesis w = (Done (Inr ()), w') \<and>
    restarted lp ((w_shell_heap w i)\<lparr>dy_shell := sh\<rparr>) (journal_head rp) w w'"
proof -
  let ?new = "(w_shell_heap w i)\<lparr>dy_shell := sh\<rparr>"
  define w1 where "w1 = w\<lparr>w_next := Suc (w_next w), w_shell_heap := (w_shell_heap w)(w_next w := ?new),
      w_es_state := AList.update (lo_path lp) (w_next w) (w_es_state w)\<rparr>"
  define w2 where "w2 = on_cell (lo_cell lp) (reset_cell (w_now w) (journal_head rp)) w1"
  define w3 where "w3 = observe (w_now w) (ObSpawned (lo_path lp) EventSourced True) w2"
  define lp' where "lp' = lp\<lparr>lo_state := Some (w_next w)\<rparr>"
  have s3: "swap_endpoint (lo_path lp') (w_next w3) (w_registry w3) =
      (Inr (), (w_registry w)\<lparr>rg_slots := AList.update (lo_path lp) (s\<lparr>sl_endpoint := Some (Suc (w_next w))\<rparr>)
        (rg_slots (w_registry w))\<rparr>)"
    using slot by (simp add: swap_endpoint_def lp'_def w3_def w2_def w1_def)
  obtain w' where d: "restart_door lp' w3 = (Done (), w')"
    by (simp add: restart_door_def Let_def s3 new_watch_def start_tracked_def spawn_task_def)
  have w': "w' = snd (restart_door lp' w3)" by (simp add: d)
  have "restarted lp ?new (journal_head rp) w w'"
    unfolding restarted_def Let_def w' restart_door_def s3
    by (simp add: new_watch_def start_tracked_def spawn_task_def on_watch_def endpoint_new_def resolve_def
        lp'_def w3_def w2_def w1_def reset_cell_def clear_crashed_def on_cell_def)
  moreover have "restart_with (Inr found) lp genesis w = (Done (Inr ()), w')"
    using st rb
    by (simp add: restart_with_def rp [symmetric] Let_def install_shell_def act_bind_def act_ret_def
        lp'_def [symmetric] w1_def [symmetric] w2_def [symmetric] w3_def [symmetric] d)
  ultimately show ?thesis by blast
qed

subsection \<open>The engine's two turns\<close>

lemma crash_turn:
  assumes "map_of (w_tasks w) i = Some (EngineTask sp (Some c) watch EngineWaiting)"
    and "\<not> watch_value (w_watch_heap w watch)" "ce_crashed (w_cell_heap w c)" "sp_restart sp \<noteq> Never"
    and "\<not> fst (record_failure sp w)"
  shows "run_task host i w = set_task i (Some (EngineTask sp (Some c) watch EngineBackoff)) (snd (record_failure sp w))"
  using assms
  by (simp add: run_task_def crash_seen_def act_bind_def act_ret_def case_prod_beta)

context journal_store
begin

text \<open>Whether or not anything is stored, what a load gives is rebuilt to the fold of the whole history.\<close>

lemma load_rebuilds:
  assumes "inv s" "load p s = Inr found" "length (hist s p) \<le> u64_max"
    and "sound_snap c args shell (snap s p) (map jd_event (hist s p))"
    and "rebuild_start c args None shell = Inr g"
    and "rp = (case found of None \<Rightarrow> empty_replay | Some rp \<Rightarrow> rp)"
  shows "rebuild c args (snapshot_state rp) (rp_tail rp) shell =
    map_outcome Inr (apply_all c (map jd_event (hist s p)) g)"
proof (cases found)
  case None
  have "hist s p = []" using load_none [OF assms(1)] assms(2) None by simp
  then show ?thesis using assms(5,6) None by (simp add: empty_replay_def snapshot_state_def rebuild_unfold)
next
  case (Some rp')
  then show ?thesis using rebuild_is_full_fold [OF assms(1) _ assms(3-5)] assms(2,6) by simp
qed

lemma restart_turn:
  assumes jo: "jo_load (ho_store host) = (\<lambda>p s. (load p s, s))" and inv: "inv (w_store w)"
    and task: "map_of (w_tasks w) i = Some (EngineTask sp (Some c) watch EngineBackoff)"
    and run: "\<not> watch_value (w_watch_heap w watch)"
    and cell: "map_of (w_cells w) (sp_path sp) = Some c"
    and slot: "map_of (rg_slots (w_registry w)) (sp_path sp) = Some s"
    and st: "map_of (w_es_state w) (sp_path sp) = Some j" and sh: "w_shell_heap w j = old"
    and found: "load (sp_path sp) (w_store w) = Inr found" and len: "length (hist (w_store w) (sp_path sp)) \<le> u64_max"
    and args: "args = get_or (JObj []) (w_genesis_args w) (sp_path sp)"
    and sound: "sound_snap (dy_code old) args (dy_shell old) (snap (w_store w) (sp_path sp))
      (map jd_event (hist (w_store w) (sp_path sp)))"
    and g: "rebuild_start (dy_code old) args None (dy_shell old) = Inr g"
    and fold: "apply_all (dy_code old) (map jd_event (hist (w_store w) (sp_path sp))) g = Done live"
  shows "\<exists>w' head. run_task host i w = set_task i (Some (EngineTask sp (Some c) watch EngineWaiting)) w' \<and>
    restarted (restart_loop_of sp c w) (old\<lparr>dy_shell := live\<rparr>) head w w'"
proof -
  define rp where "rp = (case found of None \<Rightarrow> empty_replay | Some rp \<Rightarrow> rp)"
  have rb: "rebuild (dy_code (w_shell_heap w j)) args (snapshot_state rp) (rp_tail rp) (dy_shell (w_shell_heap w j)) =
      Done (Inr live)"
    using load_rebuilds [OF inv found len sound g rp_def] fold by (simp add: sh)
  have slot': "map_of (rg_slots (w_registry w)) (lo_path (restart_loop_of sp c w)) = Some s"
    and st': "map_of (w_es_state w) (lo_path (restart_loop_of sp c w)) = Some j"
    using slot st by (simp_all add: restart_loop_of_def)
  obtain w' where w': "restart_with (Inr found) (restart_loop_of sp c w) args w = (Done (Inr ()), w')"
      "restarted (restart_loop_of sp c w) (old\<lparr>dy_shell := live\<rparr>) (journal_head rp) w w'"
    using restart_with_done [OF slot' st' rp_def rb] sh by auto
  have "load_journal host (lo_path (restart_loop_of sp c w)) w = (Inr found, w)"
    by (simp add: load_journal_def jo found restart_loop_of_def)
  then have "restart_child host sp (Some c) w = (Done (Some c), w')"
    using st cell w'(1) by (simp add: restart_child_def has_key_def restart_es_def act_bind_def act_ret_def args)
  then have "run_task host i w = set_task i (Some (EngineTask sp (Some c) watch EngineWaiting)) w'"
    using task run by (simp add: run_task_def act_bind_def act_ret_def)
  with w'(2) show ?thesis by blast
qed

end

lemma mem_load_succeeds: "\<exists>found. mem_load p s = Inr found"
  by (cases "map_of (ms_journals s) p") (simp_all add: mem_load_def Let_def)

text \<open>New tasks do not hide old ones.\<close>

lemma tasks_ok_new: "tasks_ok w \<Longrightarrow> w_next w \<le> n \<Longrightarrow> map_of (w_tasks w) n = None"
  by (cases "map_of (w_tasks w) n") (force simp: tasks_ok_def)+

text \<open>
  C7. A crashed child comes back.  Let the engine of a supervised event-sourced child find its cell
  crashed, with restarts allowed and the budget not used up.  Then its next turn starts the backoff; and
  whatever the system does meanwhile, as long as the child is still registered and not stopped, the turn
  after the backoff brings it back: the crash mark is gone, the same path leads to a fresh open door
  over the same cell, every envelope of the inbox is still there and the inbox accepts again, the state
  is the fold of the whole recorded history, a loop is about to boot on it, no dead letter was written,
  and the engine waits for the next crash.  Over the in-memory store, for snapshots that are sound for
  the history.
\<close>

theorem crashed_child_comes_back:
  assumes "map_of (w_tasks w) i = Some (EngineTask sp (Some c) watch EngineWaiting)"
    and "\<not> watch_value (w_watch_heap w watch)" "ce_crashed (w_cell_heap w c)" "sp_restart sp \<noteq> Never"
    and "\<not> fst (record_failure sp w)"
    and "map_of (w_tasks w2) i = map_of (w_tasks (run_task host i w)) i"
    and "world_ok w2" "\<not> watch_value (w_watch_heap w2 watch)"
    and "map_of (w_cells w2) (sp_path sp) = Some c" "map_of (rg_slots (w_registry w2)) (sp_path sp) = Some s"
    and "map_of (w_es_state w2) (sp_path sp) = Some j" "w_shell_heap w2 j = old"
    and "ho_store host = mem_ops" "mem_ok (w_store w2)" "length (mem_hist (w_store w2) (sp_path sp)) \<le> u64_max"
    and "args = get_or (JObj []) (w_genesis_args w2) (sp_path sp)"
    and "sound_snap (dy_code old) args (dy_shell old) (mem_snap (w_store w2) (sp_path sp))
      (map jd_event (mem_hist (w_store w2) (sp_path sp)))"
    and "rebuild_start (dy_code old) args None (dy_shell old) = Inr g"
    and "apply_all (dy_code old) (map jd_event (mem_hist (w_store w2) (sp_path sp))) g = Done live"
    and "w3 = run_task host i w2"
  shows "\<not> ce_crashed (w_cell_heap w3 c) \<and> ce_inbox (w_cell_heap w3 c) = inbox_reopen (ce_inbox (w_cell_heap w2 c)) \<and>
    (\<exists>ep. resolve (sp_path sp) (w_registry w3) = Some ep \<and> ep_cell (w_endpoint_heap w3 ep) = c \<and>
      \<not> ep_closed (w_endpoint_heap w3 ep)) \<and>
    (\<exists>n k lw. map_of (w_es_state w3) (sp_path sp) = Some n \<and> w_shell_heap w3 n = old\<lparr>dy_shell := live\<rparr> \<and>
      map_of (w_tasks w3) k = Some (EsTask \<lparr>lo_path = sp_path sp, lo_cell = c, lo_is_projector = False, lo_state = Some n\<rparr>
        lw LoopBoot)) \<and>
    w_dead_letters w3 = w_dead_letters w2 \<and>
    map_of (w_tasks w3) i = Some (EngineTask sp (Some c) watch EngineWaiting)"
proof -
  have backoff: "map_of (w_tasks w2) i = Some (EngineTask sp (Some c) watch EngineBackoff)"
    using assms(6) crash_turn [OF assms(1-5), of host] by (simp add: set_task_def)
  have jo: "jo_load (ho_store host) = (\<lambda>p s. (mem_load p s, s))" using assms(13) by (simp add: mem_ops_def)
  obtain found where found: "mem_load (sp_path sp) (w_store w2) = Inr found" using mem_load_succeeds by blast
  obtain w' head where w3: "w3 = set_task i (Some (EngineTask sp (Some c) watch EngineWaiting)) w'"
      and r: "restarted (restart_loop_of sp c w2) (old\<lparr>dy_shell := live\<rparr>) head w2 w'"
    using mem_store.restart_turn [OF jo assms(14) backoff assms(8-12) found assms(15-19)] assms(20) by auto
  have t: "map_of (w_tasks w2) (Suc (Suc (Suc (w_next w2)))) = None" "map_of (w_tasks w2) (Suc (Suc (Suc (Suc (w_next w2))))) = None"
    using assms(7) by (auto intro!: tasks_ok_new simp: world_ok_def)
  have ni: "i \<noteq> Suc (Suc (Suc (w_next w2)))" "i \<noteq> Suc (Suc (Suc (Suc (w_next w2))))" using backoff t by auto
  then show ?thesis
    using r t unfolding w3
    by (auto simp: restarted_def Let_def set_task_def restart_loop_of_def reset_cell_def clear_crashed_def map_add_def)
qed

text \<open>A crashed counter with two recorded events, under an engine; its live state is lost.\<close>

definition demo_spec :: "(64 word) actor_spec" where
  "demo_spec = \<lparr>sp_path = ''a'', sp_parent = None, sp_restart = Permanent, sp_budget = budget_per 3 (dur_millis 1000),
     sp_backoff = \<lparr>bo_base = dur_millis 10, bo_max = dur_millis 10, bo_factor = 2\<rparr>, sp_args = JNull, sp_spawn = 0\<rparr>"

definition demo_crashed :: "(int, nat, mem_store) world" where
  "demo_crashed = (demo_world [''Add''])
     \<lparr>w_registry := registry_new\<lparr>rg_slots := [(''a'', \<lparr>sl_manifest = manifest_kind EventSourced manifest_new,
        sl_endpoint = Some 0, sl_inbox_policy = Block\<rparr>)]\<rparr>,
      w_cell_heap := (\<lambda>_. mark_crashed (demo_cell [''Add''])), w_next := 5,
      w_store := snd (mem_append ''a'' [demo_event, demo_event] mem_new),
      w_tasks := [(1, EngineTask demo_spec (Some 0) 2 EngineWaiting)]\<rparr>"

lemma demo_crashed_ok: "world_ok demo_crashed"
  by (auto simp: world_ok_def rg_ok_def slots_ok_def slot_ok_def cells_ok_def states_ok_def tasks_ok_def has_key_def
      demo_crashed_def demo_world_def registry_new_def manifest_kind_def manifest_new_def
      endpoint_new_def mark_crashed_def demo_cell_def cell_new_def split: if_splits)

lemma demo_crashed_store:
  "mem_ok (w_store demo_crashed)" "map jd_event (mem_hist (w_store demo_crashed) ''a'') = [demo_event, demo_event]"
  "mem_snap (w_store demo_crashed) ''a'' = None"
proof -
  obtain seqs s where a: "mem_append ''a'' [demo_event, demo_event] mem_new = (Inr seqs, s)"
    by (simp add: mem_append_def case_prod_beta)
  have e: "mem_hist mem_new ''a'' = []" "mem_snap mem_new ''a'' = None"
    by (simp_all add: mem_hist_def mem_snap_def mem_journal_def mem_new_def get_or_def journal_new_def last_snapshot_def)
  show "mem_ok (w_store demo_crashed)" "map jd_event (mem_hist (w_store demo_crashed) ''a'') = [demo_event, demo_event]"
    "mem_snap (w_store demo_crashed) ''a'' = None"
    using mem_store.append_inv [OF mem_ok_new a] mem_store.append_law [OF mem_ok_new a] e by (simp_all add: demo_crashed_def a)
qed

theorem crashed_child_comes_back_witness:
  "(let w3 = run_task demo_host 1 (run_task demo_host 1 demo_crashed)
    in \<not> ce_crashed (w_cell_heap w3 0) \<and> w_dead_letters w3 = [] \<and>
       (\<exists>n. map_of (w_es_state w3) ''a'' = Some n \<and> dy_shell (w_shell_heap w3 n) = TypedEs 2))"
proof -
  let ?w = demo_crashed and ?w2 = "run_task demo_host 1 demo_crashed"
  have sp: "sp_path demo_spec = ''a''" "sp_restart demo_spec \<noteq> Never" by (simp_all add: demo_spec_def)
  have pre: "map_of (w_tasks ?w) 1 = Some (EngineTask demo_spec (Some 0) 2 EngineWaiting)"
      "\<not> watch_value (w_watch_heap ?w 2)" "ce_crashed (w_cell_heap ?w 0)"
    by (simp_all add: demo_crashed_def demo_world_def mark_crashed_def)
  have budget: "\<not> fst (record_failure demo_spec ?w)"
    by (simp add: record_failure_def Let_def demo_spec_def demo_crashed_def demo_world_def get_or_def fw_new_def
        fw_record_def fw_prune_def fw_exhausted_def budget_per_def)
  have w2: "?w2 = set_task 1 (Some (EngineTask demo_spec (Some 0) 2 EngineBackoff)) (snd (record_failure demo_spec ?w))"
    by (rule crash_turn [OF pre sp(2) budget])
  have ok: "world_ok ?w2" using demo_typed.run_task_good [of demo_crashed 1] demo_crashed_ok by (simp add: good_def)
  have f: "w_watch_heap ?w2 = w_watch_heap ?w" "w_cells ?w2 = [(''a'', 0)]" "w_es_state ?w2 = [(''a'', 0)]"
      "w_shell_heap ?w2 0 = \<lparr>dy_shell = TypedEs 0, dy_code = demo_code\<rparr>" "w_store ?w2 = w_store ?w"
      "w_genesis_args ?w2 = [(''a'', JNull)]" "w_dead_letters ?w2 = []"
      "map_of (rg_slots (w_registry ?w2)) ''a'' \<noteq> None"
    unfolding w2 by (simp_all add: set_task_def record_failure_def Let_def demo_crashed_def demo_world_def)
  obtain s where s: "map_of (rg_slots (w_registry ?w2)) (sp_path demo_spec) = Some s" using f(8) sp(1) by auto
  have len: "length (mem_hist (w_store ?w2) (sp_path demo_spec)) \<le> u64_max"
    using arg_cong [OF demo_crashed_store(2), of length] f(5) sp(1) by (simp add: u64_max_def)
  have watch: "\<not> watch_value (w_watch_heap ?w2 2)" and cell: "map_of (w_cells ?w2) (sp_path demo_spec) = Some 0"
    and st: "map_of (w_es_state ?w2) (sp_path demo_spec) = Some 0" and mem: "ho_store demo_host = mem_ops" "mem_ok (w_store ?w2)"
    using pre(2) f sp(1) demo_crashed_store(1) by (simp_all add: demo_host_def)
  let ?old = "\<lparr>dy_shell = TypedEs 0, dy_code = demo_code\<rparr>"
  have h: "map jd_event (mem_hist (w_store ?w2) (sp_path demo_spec)) = [demo_event, demo_event]"
    and sn: "mem_snap (w_store ?w2) (sp_path demo_spec) = None"
    using f(5) sp(1) demo_crashed_store by simp_all
  have sound: "sound_snap (dy_code ?old) a (dy_shell ?old) (mem_snap (w_store ?w2) (sp_path demo_spec)) es" for a es
    unfolding sn sound_snap_def by simp
  have g: "rebuild_start (dy_code ?old) a None (dy_shell ?old) = Inr (TypedEs 0)" for a by (simp add: demo_code_def)
  have fold: "apply_all (dy_code ?old) (map jd_event (mem_hist (w_store ?w2) (sp_path demo_spec))) (TypedEs 0) =
      Done (TypedEs 2)"
    unfolding h using demo_apply_all [of "[demo_event, demo_event]" 0] by simp
  note again = crashed_child_comes_back [OF pre sp(2) budget refl ok watch cell s st f(4) mem len refl sound g fold refl]
  show ?thesis using again f(7) sp(1) by (auto simp: Let_def)
qed

subsection \<open>The shutdown watch of a restarted loop\<close>

text \<open>A cell with nothing to do: no mail and no idle duty.\<close>

definition quiet :: "'st actor_cell \<Rightarrow> bool" where
  "quiet ce \<longleftrightarrow> (\<exists>cu. queued (ce_inbox ce) cu 0 []) \<and> ce_passivation ce = None \<and> ce_snapshot_policy ce = CadenceOff"

lemma quiet_running_turn:
  assumes "quiet (w_cell_heap w (lo_cell lp))" "\<not> watch_value (w_watch_heap w watch)"
  shows "\<exists>ib. es_turn host lp watch LoopRunning w =
      (Done (Some (lp, LoopParked)), on_cell (lo_cell lp) (\<lambda>ce. ce\<lparr>ce_inbox := ib\<rparr>) w) \<and> (\<exists>cu. queued ib cu 0 [])"
proof -
  let ?n = "ce_step_batch (w_cell_heap w (lo_cell lp))"
  obtain cu where "queued (ce_inbox (w_cell_heap w (lo_cell lp))) cu 0 []" using assms(1) by (auto simp: quiet_def)
  from claim_queued [OF this, of ?n] obtain ib where
    ib: "inbox_claim_up_to ?n (ce_inbox (w_cell_heap w (lo_cell lp))) = Done ([], ib)" "queued ib cu 0 []"
    by auto
  have "step_es host lp w = (Done StIdle, on_cell (lo_cell lp) (\<lambda>ce. ce\<lparr>ce_inbox := ib\<rparr>) w)"
    using ib(1) by (simp add: step_es_def with_inbox_def act_bind_def act_ret_def)
  then have "es_turn host lp watch LoopRunning w =
      (Done (Some (lp, LoopParked)), on_cell (lo_cell lp) (\<lambda>ce. ce\<lparr>ce_inbox := ib\<rparr>) w)"
    using assms by (simp add: running_turn_def act_bind_def maybe_snapshot_on_idle_def idle_tail_def passivation_due_def quiet_def)
  with ib(2) show ?thesis by blast
qed

lemma es_task_turn:
  "map_of (w_tasks w) k = Some (EsTask lp watch ph) \<Longrightarrow> es_turn host lp watch ph w = (Done (Some (lp', ph')), w') \<Longrightarrow>
   run_task host k w = set_task k (Some (EsTask lp' watch ph')) w'"
  by (simp add: run_task_def act_bind_def act_ret_def)

lemma orphan_turns:
  assumes "map_of (w_tasks w) k = Some (EsTask lp watch LoopRunning)" "w_watch_heap w watch = WatchClosed False"
    and "quiet (w_cell_heap w (lo_cell lp))"
  shows "map_of (w_tasks ((run_task host k ^^ n) w)) k = Some (EsTask lp watch (if even n then LoopRunning else LoopParked)) \<and>
    w_watch_heap ((run_task host k ^^ n) w) watch = WatchClosed False \<and>
    quiet (w_cell_heap ((run_task host k ^^ n) w) (lo_cell lp))"
proof (induction n)
  case 0
  then show ?case using assms by simp
next
  case (Suc n)
  let ?w = "(run_task host k ^^ n) w"
  show ?case
  proof (cases "even n")
    case True
    obtain ib cu where "es_turn host lp watch LoopRunning ?w =
        (Done (Some (lp, LoopParked)), on_cell (lo_cell lp) (\<lambda>ce. ce\<lparr>ce_inbox := ib\<rparr>) ?w)" "queued ib cu 0 []"
      using quiet_running_turn [of ?w lp watch host] Suc.IH by auto
    with es_task_turn [of ?w k lp watch LoopRunning host] Suc.IH True show ?thesis
      by (auto simp: set_task_def quiet_def)
  next
    case False
    then have "es_turn host lp watch LoopParked ?w = (Done (Some (lp, LoopRunning)), take_permit lp ?w)"
      using Suc.IH by (simp add: parked_turn_def loop_wakes_def Let_def)
    with es_task_turn [of ?w k lp watch LoopParked host] Suc.IH False show ?thesis
      by (auto simp: set_task_def quiet_def take_permit_def)
  qed
qed

text \<open>
  C33. A restarted loop never sleeps again.  A restart drops the sender of the fresh loop's shutdown
  watch as it returns, and a wait on a watch without a sender returns at once.  So although a restarted
  actor has no mail and no idle duty, its loop leaves every idle wait at its next turn and goes round
  again, for ever; a loop started by a spawn, whose sender lives in the cell's handle, stays parked.
\<close>

theorem restarted_loop_spins:
  fixes w w1 :: "('st, 'sv, 's) world" and host :: "('st, 'sv, 's) host"
  assumes "map_of (rg_slots (w_registry w)) (lo_path lp) = Some s" "map_of (w_es_state w) (lo_path lp) = Some i"
    and "rp = (case found of None \<Rightarrow> empty_replay | Some rp \<Rightarrow> rp)"
    and "rebuild (dy_code (w_shell_heap w i)) genesis (snapshot_state rp) (rp_tail rp) (dy_shell (w_shell_heap w i)) =
      Done (Inr sh)"
    and "world_ok w" and "restart_with (Inr found) lp genesis w = (Done (Inr ()), w1)"
  shows "\<exists>k watch lp'. map_of (w_tasks w1) k = Some (EsTask lp' watch LoopBoot) \<and> lo_cell lp' = lo_cell lp \<and>
    w_watch_heap w1 watch = WatchClosed False \<and>
    (\<forall>w2 n. map_of (w_tasks w2) k = Some (EsTask lp' watch LoopRunning) \<longrightarrow> w_watch_heap w2 watch = WatchClosed False \<longrightarrow>
       quiet (w_cell_heap w2 (lo_cell lp)) \<longrightarrow>
       map_of (w_tasks ((run_task host k ^^ n) w2)) k = Some (EsTask lp' watch (if even n then LoopRunning else LoopParked))) \<and>
    (\<forall>w2 :: ('st, 'sv, 's) world. w_watch_heap w2 watch = WatchOpen False \<longrightarrow> \<not> ce_work (w_cell_heap w2 (lo_cell lp)) \<longrightarrow>
       quiet (w_cell_heap w2 (lo_cell lp)) \<longrightarrow> parked_turn lp' watch w2 = (Done (Some (lp', LoopParked)), w2))"
proof -
  have r: "restarted lp ((w_shell_heap w i)\<lparr>dy_shell := sh\<rparr>) (journal_head rp) w w1"
    using restart_with_done [OF assms(1-4)] assms(6) by auto
  let ?n = "w_next w"
  let ?lp = "lp\<lparr>lo_state := Some ?n\<rparr>"
  have "map_of (w_tasks w) (Suc (Suc (Suc ?n))) = None" "map_of (w_tasks w) (Suc (Suc (Suc (Suc ?n)))) = None"
    using assms(5) by (auto intro!: tasks_ok_new simp: world_ok_def)
  then have new: "map_of (w_tasks w1) (Suc (Suc (Suc (Suc ?n)))) = Some (EsTask ?lp (Suc (Suc ?n)) LoopBoot)"
      "w_watch_heap w1 (Suc (Suc ?n)) = WatchClosed False"
    using r by (simp_all add: restarted_def Let_def map_add_def)
  let ?k = "Suc (Suc (Suc (Suc ?n)))"
  have spin: "\<forall>w2 n. map_of (w_tasks w2) ?k = Some (EsTask ?lp (Suc (Suc ?n)) LoopRunning) \<longrightarrow>
      w_watch_heap w2 (Suc (Suc ?n)) = WatchClosed False \<longrightarrow> quiet (w_cell_heap w2 (lo_cell lp)) \<longrightarrow>
      map_of (w_tasks ((run_task host ?k ^^ n) w2)) ?k =
        Some (EsTask ?lp (Suc (Suc ?n)) (if even n then LoopRunning else LoopParked))"
    using orphan_turns [where k = ?k and lp = ?lp and watch = "Suc (Suc ?n)" and host = host] by simp
  have park: "\<forall>w2 :: ('st, 'sv, 's) world. w_watch_heap w2 (Suc (Suc ?n)) = WatchOpen False \<longrightarrow>
      \<not> ce_work (w_cell_heap w2 (lo_cell lp)) \<longrightarrow> quiet (w_cell_heap w2 (lo_cell lp)) \<longrightarrow>
      parked_turn ?lp (Suc (Suc ?n)) w2 = (Done (Some (?lp, LoopParked)), w2)"
    by (simp add: parked_turn_def loop_wakes_def Let_def quiet_def next_duty_due_ms_def)
  show ?thesis
    by (intro exI [of _ ?k] exI [of _ "Suc (Suc ?n)"] exI [of _ ?lp] conjI new spin park) simp
qed

text \<open>Over the crashed counter: the loop of its restart, put to work with an empty inbox.\<close>

theorem restarted_loop_spins_witness:
  "\<exists>w1 k watch lp'. restart_with (Inr None) (restart_loop_of demo_spec 0 demo_crashed) JNull demo_crashed = (Done (Inr ()), w1) \<and>
     map_of (w_tasks w1) k = Some (EsTask lp' watch LoopBoot) \<and>
     (\<forall>n. map_of (w_tasks ((run_task demo_host k ^^ n)
         ((demo_world [])\<lparr>w_tasks := [(k, EsTask lp' watch LoopRunning)],
            w_watch_heap := (\<lambda>_. WatchClosed False)\<rparr>))) k =
       Some (EsTask lp' watch (if even n then LoopRunning else LoopParked)))"
proof -
  let ?lp = "restart_loop_of demo_spec 0 demo_crashed"
  have slot: "map_of (rg_slots (w_registry demo_crashed)) (lo_path ?lp) =
      Some \<lparr>sl_manifest = manifest_kind EventSourced manifest_new, sl_endpoint = Some 0, sl_inbox_policy = Block\<rparr>"
    and st: "map_of (w_es_state demo_crashed) (lo_path ?lp) = Some 0"
    by (simp_all add: demo_crashed_def demo_world_def restart_loop_of_def demo_spec_def)
  have rp: "empty_replay = (case None of None \<Rightarrow> empty_replay | Some rp \<Rightarrow> rp)" by simp
  have rb: "rebuild (dy_code (w_shell_heap demo_crashed 0)) JNull (snapshot_state empty_replay) (rp_tail empty_replay)
      (dy_shell (w_shell_heap demo_crashed 0)) = Done (Inr (TypedEs 0))"
    by (simp add: demo_crashed_def demo_world_def empty_replay_def snapshot_state_def rebuild_unfold demo_code_def)
  obtain w1 where w1: "restart_with (Inr None) ?lp JNull demo_crashed = (Done (Inr ()), w1)"
    using restart_with_done [OF slot st rp rb] by blast
  have quiet: "quiet (w_cell_heap ((demo_world [])\<lparr>w_tasks := ts, w_watch_heap := h\<rparr>) c)" for ts h c
    using demo_inbox_queued [of "[]"] by (auto simp: quiet_def demo_cell_def cell_new_def)
  from restarted_loop_spins [OF slot st rp rb demo_crashed_ok w1, of demo_host] w1 quiet show ?thesis
    by (elim exE conjE) (intro exI conjI, assumption, assumption, simp)
qed

end
