(* ===== verification/Stops.thy ===== *)
theory Stops
  imports Delivery Restarts
begin

text \<open>
  What stopping leaves (\<open>teardown_tables\<close> of \<open>src/src/system.rs\<close> and the loops of \<open>src/src/kernel.rs\<close>): the tables and
  the mail of a stopped actor, a passivation and the wake that follows it, and the shutdown sweep.
\<close>

subsection \<open>Teardown\<close>

lemma drop_route_again: "drop_route p policy = Some q \<Longrightarrow> drop_route p q = Some q"
  by (cases policy) (auto simp: Let_def split: if_splits)

lemma drop_routes_again [simp]: "drop_routes_of p (drop_routes_of p r) = drop_routes_of p r"
proof -
  have "List.map_filter (\<lambda>(s, policy). map_option (Pair s) (drop_route p policy))
      (List.map_filter (\<lambda>(s, policy). map_option (Pair s) (drop_route p policy)) m) =
    List.map_filter (\<lambda>(s, policy). map_option (Pair s) (drop_route p policy)) m" for m :: "(string \<times> route_policy) list"
    by (induction m) (auto simp: List.map_filter_simps drop_route_again split: option.split)
  then show ?thesis by (simp add: drop_routes_of_def)
qed

lemma delete_absent: "map_of m k = None \<Longrightarrow> AList.delete k m = m"
  by (induction m) (auto split: if_splits)

definition stopped_mail :: "string \<Rightarrow> ('st, 'sv, 's) world \<Rightarrow> envelope list" where
  "stopped_mail path w =
     (case map_of (w_cells w) path of
        None \<Rightarrow> []
      | Some c \<Rightarrow> fst (inbox_drain_live (ce_inbox (w_cell_heap w c))))"

lemma flush_mailbox_letters:
  "w_dead_letters (flush_mailbox path w) = w_dead_letters w @
     map (\<lambda>e. letter_of e DlStoppedWithMail ''stopped with a non-empty inbox'') (stopped_mail path w)"
  by (simp add: flush_mailbox_def stopped_mail_def inbox_drain_live_def inbox_close_def case_prod_beta split: option.split)

lemma flush_mailbox_tables [simp]:
  "w_registry (flush_mailbox path w) = w_registry w" "w_cells (flush_mailbox path w) = w_cells w"
  "w_es_state (flush_mailbox path w) = w_es_state w" "w_specs (flush_mailbox path w) = w_specs w"
  "w_projectors (flush_mailbox path w) = w_projectors w" "w_tasks (flush_mailbox path w) = w_tasks w"
  "w_store (flush_mailbox path w) = w_store w"
  by (simp_all add: flush_mailbox_def case_prod_beta split: option.split)

lemma flush_mailbox_cell:
  "map_of (w_cells w) path = Some c \<Longrightarrow>
   \<not> ib_open (ce_inbox (w_cell_heap (flush_mailbox path w) c)) \<and>
   fst (inbox_drain_live (ce_inbox (w_cell_heap (flush_mailbox path w) c))) = [] \<and>
   ce_stopping (w_cell_heap (flush_mailbox path w) c)"
proof -
  have again: "fst (drain_live_loop (snd (drain_live_loop q))) = []" for q :: "(nat \<times> envelope option) list"
    by (induction q rule: drain_live_loop.induct) (simp_all add: case_prod_beta)
  show "map_of (w_cells w) path = Some c \<Longrightarrow> ?thesis"
    by (simp add: flush_mailbox_def inbox_drain_live_def inbox_close_def case_prod_beta mark_stopping_def again)
qed

lemma flush_mailbox_other:
  "map_of (w_cells w) path \<noteq> Some c \<Longrightarrow> w_cell_heap (flush_mailbox path w) c = w_cell_heap w c"
  by (auto simp: flush_mailbox_def case_prod_beta split: option.split)

text \<open>The world the tables leave behind, before the stop is announced.\<close>

definition torn_down :: "string \<Rightarrow> ('st, 'sv, 's) world \<Rightarrow> ('st, 'sv, 's) world \<Rightarrow> bool" where
  "torn_down path w w' \<longleftrightarrow>
     w_dead_letters w' = w_dead_letters w @
       map (\<lambda>e. letter_of e DlStoppedWithMail ''stopped with a non-empty inbox'') (stopped_mail path w) \<and>
     (\<forall>p. resolve p (w_registry w') = (if p = path then None else resolve p (w_registry w)) \<and>
          map_of (w_cells w') p = (if p = path then None else map_of (w_cells w) p) \<and>
          map_of (w_es_state w') p = (if p = path then None else map_of (w_es_state w) p) \<and>
          map_of (w_specs w') p = (if p = path then None else map_of (w_specs w) p) \<and>
          (p \<in> set (w_projectors w') \<longleftrightarrow> p \<noteq> path \<and> p \<in> set (w_projectors w))) \<and>
     (\<forall>schema. handlers_of schema (w_registry w') = filter (\<lambda>p. p \<noteq> path) (handlers_of schema (w_registry w))) \<and>
     (\<forall>c. if map_of (w_cells w) path = Some c
          then \<not> ib_open (ce_inbox (w_cell_heap w' c)) \<and> fst (inbox_drain_live (ce_inbox (w_cell_heap w' c))) = []
          else w_cell_heap w' c = w_cell_heap w c) \<and>
     w_store w' = w_store w"

lemma resolve_remove: "resolve p (snd (remove_slot path r)) = (if p = path then None else resolve p r)"
  by (simp add: resolve_def remove_slot_map)

lemma remove_slot_routes [simp]: "rg_routes (snd (remove_slot path r)) = rg_routes r"
  by (simp add: remove_slot_def split: option.split)

lemma resolve_drop_routes [simp]: "resolve p (drop_routes_of path r) = resolve p r"
  by (simp add: resolve_def)

lemma drop_tables_torn:
  assumes "rg_ok (w_registry w)"
  shows "torn_down path w (drop_tables path (flush_mailbox path w))"
proof -
  have h: "handlers_of s (snd (remove_slot path r)) = handlers_of s r" for s r by (simp add: handlers_of_def)
  have "rg_ok (snd (remove_slot path (w_registry w)))" using assms by (rule remove_slot_ok)
  from handlers_of_drop [OF this] show ?thesis
    unfolding torn_down_def
    by (auto simp: drop_tables_def flush_mailbox_letters resolve_remove h flush_mailbox_cell flush_mailbox_other)
qed

lemma observe_stopped_fields [simp]:
  "w_registry (observe_stopped path reason parent w) = w_registry w"
  "w_cells (observe_stopped path reason parent w) = w_cells w"
  "w_cell_heap (observe_stopped path reason parent w) = w_cell_heap w"
  "w_es_state (observe_stopped path reason parent w) = w_es_state w"
  "w_specs (observe_stopped path reason parent w) = w_specs w"
  "w_projectors (observe_stopped path reason parent w) = w_projectors w"
  "w_dead_letters (observe_stopped path reason parent w) = w_dead_letters w"
  "w_store (observe_stopped path reason parent w) = w_store w"
  by (simp_all add: observe_stopped_def Let_def split: option.split)

lemma observe_stopped_torn: "torn_down path w (observe_stopped path reason parent w') = torn_down path w w'"
  by (simp add: torn_down_def)

lemma torn_down_again:
  assumes "w' = observe_stopped path reason parent (drop_tables path (flush_mailbox path w)) \<or>
    w' = drop_tables path (flush_mailbox path w)"
  shows "teardown_tables host path again w' = (Done (), w')"
proof -
  have t: "w_cells w' = AList.delete path (w_cells w)" "w_es_state w' = AList.delete path (w_es_state w)"
      "w_specs w' = AList.delete path (w_specs w)" "w_projectors w' = filter (\<lambda>p. p \<noteq> path) (w_projectors w)"
      "w_registry w' = drop_routes_of path (snd (remove_slot path (w_registry w)))"
    using assms by (auto simp: drop_tables_def)
  have r: "snd (remove_slot path (w_registry w')) = w_registry w'"
    by (simp add: t remove_slot_def delete_absent split: option.split)
  have "drop_tables path w' = w'"
    unfolding drop_tables_def r by (simp add: t delete_idem)
  moreover have "flush_mailbox path w' = w'" by (simp add: flush_mailbox_def t)
  ultimately show ?thesis by (simp add: teardown_tables_def Let_def t has_key_def)
qed



subsection \<open>Waking up\<close>

lemma arm_facts:
  assumes "arm_es_erased path m shell entries opts args w = (Done a, w1)"
  shows "\<exists>i. map_of (w_es_state w1) path = Some i \<and> w_shell_heap w1 i = shell \<and> lo_path (ar_loop a) = path \<and>
    lo_state (ar_loop a) = Some i \<and> w_store w1 = w_store w \<and> get_or JNull (w_genesis_args w1) path = args"
  using assms
  by (auto simp: arm_es_erased_def Let_def act_bind_def register_actor_def arm_tables_def get_or_def
      split: sum.splits outcome.splits prod.splits)

text \<open>
  C19. An actor wakes with the state it fell asleep with.  Arm an event-sourced actor at a path whose
  journal holds a history, as the factory of an entity does on the first command after a passivation, or
  as a host does after a process start.  If folding that history from the start state of the fresh
  shell gives some state, then the boot turn of the loop, before it handles any command, has exactly
  that state in place and journals nothing; with the invariant of the running loop this is the state at
  the passivation.
\<close>

theorem wake_restores_state:
  assumes "ho_store host = mem_ops" and "mem_ok (w_store w)" and "length (mem_hist (w_store w) path) \<le> u64_max"
    and "arm_es_erased path m \<lparr>dy_shell = start, dy_code = code\<rparr> entries opts args w = (Done a, w1)"
    and "rebuild_start code args None start = Inr start"
    and "sound_snap code args start (mem_snap (w_store w) path) (map jd_event (mem_hist (w_store w) path))"
    and "apply_all code (map jd_event (mem_hist (w_store w) path)) start = Done live"
  shows "\<exists>lp w2 j. recover_at_boot host (ar_loop a) w1 = (Done lp, w2) \<and> lo_path lp = path \<and>
    lo_cell lp = lo_cell (ar_loop a) \<and> lo_state lp = Some j \<and> map_of (w_es_state w2) path = Some j \<and>
    w_shell_heap w2 j = \<lparr>dy_shell = live, dy_code = code\<rparr> \<and> w_store w2 = w_store w"
proof -
  obtain i where i: "map_of (w_es_state w1) path = Some i" "w_shell_heap w1 i = \<lparr>dy_shell = start, dy_code = code\<rparr>"
      "lo_path (ar_loop a) = path" "lo_state (ar_loop a) = Some i" "w_store w1 = w_store w"
      "get_or JNull (w_genesis_args w1) path = args"
    using arm_facts [OF assms(4)] by blast
  obtain found where found: "mem_load path (w_store w) = Inr found" using mem_load_succeeds by blast
  define rp where "rp = (case found of None \<Rightarrow> empty_replay | Some rp \<Rightarrow> rp)"
  have rb: "rebuild code args (snapshot_state rp) (rp_tail rp) start = Done (Inr live)"
    using mem_store.load_rebuilds [OF assms(2) found assms(3,6,5) rp_def] assms(7) by simp
  have load: "recover_at_boot host (ar_loop a) w1 = recover_with (Inr found) (ar_loop a) w1"
    using found i(3) i(5) [symmetric] by (simp add: recover_at_boot_def load_journal_def assms(1) mem_ops_def)
  show ?thesis
  proof (cases "snapshot_state rp = None \<and> rp_tail rp = []")
    case True
    then have "live = start" using rb assms(5) by (simp add: rebuild_unfold)
    moreover have "recover_with (Inr found) (ar_loop a) w1 = (Done (ar_loop a), w1)"
      using True by (auto simp: recover_with_def rp_def split: option.splits)
    ultimately show ?thesis
      using load i by (intro exI [of _ "ar_loop a"] exI [of _ w1] exI [of _ i] conjI) simp_all
  next
    case False
    have f: "found = Some rp" using False by (auto simp: rp_def empty_replay_def snapshot_state_def split: option.splits)
    have "recover_with (Inr found) (ar_loop a) w1 =
        (let (lp, w2) = install_shell (ar_loop a) \<lparr>dy_shell = live, dy_code = code\<rparr> w1 in (Done lp, w2))"
      by (simp add: recover_with_def f False i rb)
    then show ?thesis using i load by (simp add: Let_def install_shell_def)
  qed
qed

definition demo_asleep :: "(int, nat, mem_store) world" where
  "demo_asleep = demo_crashed\<lparr>w_store := snd (mem_append ''b'' [demo_event] mem_new)\<rparr>"

lemma demo_asleep_store:
  "mem_ok (w_store demo_asleep)" "map jd_event (mem_hist (w_store demo_asleep) ''b'') = [demo_event]"
  "mem_snap (w_store demo_asleep) ''b'' = None"
proof -
  obtain seqs s where a: "mem_append ''b'' [demo_event] mem_new = (Inr seqs, s)"
    by (simp add: mem_append_def case_prod_beta)
  have e: "mem_hist mem_new ''b'' = []" "mem_snap mem_new ''b'' = None"
    by (simp_all add: mem_hist_def mem_snap_def mem_journal_def mem_new_def get_or_def journal_new_def last_snapshot_def)
  show "mem_ok (w_store demo_asleep)" "map jd_event (mem_hist (w_store demo_asleep) ''b'') = [demo_event]"
    "mem_snap (w_store demo_asleep) ''b'' = None"
    using mem_store.append_inv [OF mem_ok_new a] mem_store.append_law [OF mem_ok_new a] e by (simp_all add: demo_asleep_def a)
qed

theorem wake_restores_state_witness:
  "\<exists>a w1 lp w2 j. arm_es_erased ''b'' manifest_new \<lparr>dy_shell = TypedEs 0, dy_code = demo_code\<rparr> [] default_opts JNull
       demo_asleep = (Done a, w1) \<and>
     recover_at_boot demo_host (ar_loop a) w1 = (Done lp, w2) \<and> lo_state lp = Some j \<and> dy_shell (w_shell_heap w2 j) = TypedEs 1"
proof -
  have free: "\<not> has_key (rg_slots (w_registry demo_asleep)) ''b''"
    by (simp add: demo_asleep_def demo_crashed_def has_key_def)
  obtain a w1 where arm: "arm_es_erased ''b'' manifest_new \<lparr>dy_shell = TypedEs 0, dy_code = demo_code\<rparr> [] default_opts JNull
      demo_asleep = (Done a, w1)"
    using free by (simp add: arm_es_erased_def Let_def register_actor_def insert_slot_def act_bind_def arm_tables_def case_prod_beta)
  have store: "ho_store demo_host = mem_ops" by (simp add: demo_host_def)
  have len: "length (mem_hist (w_store demo_asleep) ''b'') \<le> u64_max"
    using arg_cong [OF demo_asleep_store(2), of length] by (simp add: u64_max_def)
  have start: "rebuild_start demo_code JNull None (TypedEs 0) = Inr (TypedEs 0)" by (simp add: demo_code_def)
  have sound: "sound_snap demo_code JNull (TypedEs 0) (mem_snap (w_store demo_asleep) ''b'') es" for es
    by (simp add: demo_asleep_store(3) sound_snap_def)
  have fold: "apply_all demo_code (map jd_event (mem_hist (w_store demo_asleep) ''b'')) (TypedEs 0) = Done (TypedEs 1)"
    unfolding demo_asleep_store(2) using demo_apply_all [of "[demo_event]" 0] by simp
  from wake_restores_state [OF store demo_asleep_store(1) len arm start sound fold] arm show ?thesis by fastforce
qed

subsection \<open>The shutdown sweep\<close>

text \<open>A loop whose handle is in its cell is told, and stays told.\<close>

definition tellable :: "nat \<Rightarrow> nat \<Rightarrow> ('st, 'sv, 's) world \<Rightarrow> bool" where
  "tellable c watch w \<longleftrightarrow>
     (\<exists>h b. ce_handle (w_cell_heap w c) = Some h \<and> ah_shutdown h = watch \<and> w_watch_heap w watch = WatchOpen b) \<or>
     watch_value (w_watch_heap w watch)"

lemma told_again: "watch_value x \<Longrightarrow> watch_value (watch_drop_sender (watch_send True x))"
  by (cases x) simp_all

lemma take_handle_watch:
  "w_watch_heap (snd (take_handle d w)) watch =
     (if map_option ah_shutdown (ce_handle (w_cell_heap w d)) = Some watch
      then watch_drop_sender (watch_send True (w_watch_heap w watch)) else w_watch_heap w watch)"
  by (cases "ce_handle (w_cell_heap w d)") (simp_all add: take_handle_def on_watch_def)

lemma take_handle_handle:
  "d \<noteq> c \<Longrightarrow> ce_handle (w_cell_heap (snd (take_handle d w)) c) = ce_handle (w_cell_heap w c)"
  by (cases "ce_handle (w_cell_heap w d)") (simp_all add: take_handle_def on_watch_def)

lemma take_handle_keeps:
  "watch_value (w_watch_heap w watch) \<Longrightarrow> watch_value (w_watch_heap (snd (take_handle d w)) watch)"
  by (simp add: take_handle_watch told_again)

lemma take_handle_tells:
  assumes "tellable c watch w"
  shows "watch_value (w_watch_heap (snd (take_handle c w)) watch)" "tellable c watch (snd (take_handle d w))"
proof -
  show own: "watch_value (w_watch_heap (snd (take_handle c w)) watch)"
  proof (cases "watch_value (w_watch_heap w watch)")
    case True
    then show ?thesis by (rule take_handle_keeps)
  next
    case False
    then show ?thesis using assms by (auto simp: tellable_def take_handle_watch)
  qed
  show "tellable c watch (snd (take_handle d w))"
  proof (cases "d = c \<or> watch_value (w_watch_heap w watch)")
    case True
    then have "watch_value (w_watch_heap (snd (take_handle d w)) watch)" using own take_handle_keeps by blast
    then show ?thesis by (simp add: tellable_def)
  next
    case False
    then obtain h b where "ce_handle (w_cell_heap w c) = Some h" "ah_shutdown h = watch" "w_watch_heap w watch = WatchOpen b"
      using assms by (auto simp: tellable_def)
    moreover have "ce_handle (w_cell_heap (snd (take_handle d w)) c) = ce_handle (w_cell_heap w c)"
      using False by (simp add: take_handle_handle)
    moreover have "w_watch_heap (snd (take_handle d w)) watch \<in> {WatchOpen b, WatchClosed True}"
      using calculation(3) by (simp add: take_handle_watch)
    ultimately show ?thesis unfolding tellable_def by auto
  qed
qed

lemma take_handle_cell:
  "ce_inbox (w_cell_heap (snd (take_handle d w)) c) = ce_inbox (w_cell_heap w c)"
  "ce_on_stop_done (w_cell_heap (snd (take_handle d w)) c) = ce_on_stop_done (w_cell_heap w c)"
  by (simp_all add: take_handle_def on_watch_def split: option.split)

lemma signal_cells_Cons: "snd (signal_cells ((p, c) # cs) w) = snd (signal_cells cs (snd (take_handle c w)))"
  by (simp add: Let_def case_prod_beta)

lemma signal_cells_keeps: "watch_value (w_watch_heap w watch) \<Longrightarrow> watch_value (w_watch_heap (snd (signal_cells cs w)) watch)"
proof (induction cs arbitrary: w)
  case (Cons x cs)
  then show ?case
    using take_handle_keeps [of w watch "snd x"] by (cases x) (simp only: signal_cells_Cons snd_conv)
qed simp

lemma signal_cells_tells:
  "tellable c watch w \<Longrightarrow> (path, c) \<in> set cs \<Longrightarrow> watch_value (w_watch_heap (snd (signal_cells cs w)) watch)"
proof (induction cs arbitrary: w)
  case (Cons x cs)
  obtain p d where x: "x = (p, d)" by (cases x)
  show ?case
  proof (cases "d = c")
    case True
    show ?thesis
      unfolding x signal_cells_Cons True by (rule signal_cells_keeps [OF take_handle_tells(1) [OF Cons.prems(1)]])
  next
    case False
    then show ?thesis
      unfolding x signal_cells_Cons
      using Cons.IH [OF take_handle_tells(2) [OF Cons.prems(1)]] Cons.prems(2) x by auto
  qed
qed simp

lemma signal_cells_fields:
  "ce_inbox (w_cell_heap (snd (signal_cells cs w)) c) = ce_inbox (w_cell_heap w c)"
  "ce_on_stop_done (w_cell_heap (snd (signal_cells cs w)) c) = ce_on_stop_done (w_cell_heap w c)"
  "w_tasks (snd (signal_cells cs w)) = w_tasks w" "w_service_heap (snd (signal_cells cs w)) = w_service_heap w"
  "w_cells (snd (signal_cells cs w)) = w_cells w" "w_shutting_down (snd (signal_cells cs w)) = w_shutting_down w"
  "w_dead_letters (snd (signal_cells cs w)) = w_dead_letters w" "w_registry (snd (signal_cells cs w)) = w_registry w"
proof (induction cs arbitrary: w)
  case (Cons x cs)
  obtain p d where x: "x = (p, d)" by (cases x)
  have t: "w_tasks (snd (take_handle d w)) = w_tasks w" "w_service_heap (snd (take_handle d w)) = w_service_heap w"
    "w_cells (snd (take_handle d w)) = w_cells w" "w_shutting_down (snd (take_handle d w)) = w_shutting_down w"
    "w_dead_letters (snd (take_handle d w)) = w_dead_letters w" "w_registry (snd (take_handle d w)) = w_registry w"
    for w :: "('a, 'b, 'c) world"
    by (simp_all add: take_handle_def on_watch_def split: option.split)
  {
    case 1 show ?case unfolding x signal_cells_Cons Cons.IH take_handle_cell ..
  next
    case 2 show ?case unfolding x signal_cells_Cons Cons.IH take_handle_cell ..
  next
    case 3 show ?case unfolding x signal_cells_Cons Cons.IH t ..
  next
    case 4 show ?case unfolding x signal_cells_Cons Cons.IH t ..
  next
    case 5 show ?case unfolding x signal_cells_Cons Cons.IH t ..
  next
    case 6 show ?case unfolding x signal_cells_Cons Cons.IH t ..
  next
    case 7 show ?case unfolding x signal_cells_Cons Cons.IH t ..
  next
    case 8 show ?case unfolding x signal_cells_Cons Cons.IH t ..
  }
qed simp_all

lemma engines_told:
  "tellable c watch w \<Longrightarrow> tellable c watch (fold (\<lambda>i. on_watch i (watch_drop_sender \<circ> watch_send True)) is w)"
proof (induction "is" arbitrary: w)
  case (Cons i js)
  have "tellable c watch (on_watch i (watch_drop_sender \<circ> watch_send True) w)"
    using Cons.prems by (cases "i = watch") (auto simp: tellable_def on_watch_def told_again)
  from Cons.IH [OF this] show ?case by (simp only: fold_Cons comp_apply [of "fold _ _"])
qed simp

lemma on_watch_only: "\<exists>h. on_watch i f w = w\<lparr>w_watch_heap := h\<rparr>"
  by (auto simp: on_watch_def)

lemma shutdown_engines_only: "\<exists>h. shutdown_engines w = w\<lparr>w_watch_heap := h, w_engines := []\<rparr>"
proof -
  have "\<exists>h. fold (\<lambda>i. on_watch i f) is x = x\<lparr>w_watch_heap := h\<rparr>" for f "is" and x :: "('a, 'b, 'c) world"
  proof (induction "is" arbitrary: x)
    case Nil
    show ?case by (rule exI [of _ "w_watch_heap x"]) simp
  next
    case (Cons i js)
    show ?case using Cons [of "on_watch i f x"] by (auto simp: on_watch_def)
  qed
  then obtain h where "shutdown_engines w = w\<lparr>w_engines := []\<rparr>\<lparr>w_watch_heap := h\<rparr>"
    unfolding shutdown_engines_def by blast
  then show ?thesis by (intro exI [of _ h]) simp
qed

text \<open>The sweep reaches a running loop, which then ends with its inbox as it was.\<close>

lemma swept_loop_ends:
  assumes "map_of (w_cells w) (lo_path lp) = Some (lo_cell lp)"
    and "ce_handle (w_cell_heap w (lo_cell lp)) = Some h" "w_watch_heap w (ah_shutdown h) = WatchOpen False"
    and "map_of (w_tasks w) i = Some (ServiceTask lp (ah_shutdown h) LoopRunning)"
    and "shutdown_begin w = (joins, w1)" and "w2 = run_task host i w1"
  shows "map_of (w_tasks w2) i = None" "w_shutting_down w2" "w_cells w2 = w_cells w" "w_registry w2 = w_registry w"
    "w_dead_letters w2 = w_dead_letters w" "w_service_heap w2 = w_service_heap w"
    "stopped_mail (lo_path lp) w2 = stopped_mail (lo_path lp) w"
proof -
  define w0 where "w0 = shutdown_engines (w\<lparr>w_shutting_down := True\<rparr>)"
  obtain wh where w0: "w0 = w\<lparr>w_shutting_down := True, w_watch_heap := wh, w_engines := []\<rparr>"
    using shutdown_engines_only [of "w\<lparr>w_shutting_down := True\<rparr>"] by (auto simp: w0_def)
  have w1: "w1 = snd (signal_cells (w_cells w0) w0)" using assms(5) by (simp add: shutdown_begin_def w0_def Let_def)
  have "tellable (lo_cell lp) (ah_shutdown h) (w\<lparr>w_shutting_down := True, w_engines := []\<rparr>)"
    using assms(2,3) by (auto simp: tellable_def)
  then have "tellable (lo_cell lp) (ah_shutdown h) w0"
    using engines_told by (simp add: w0_def shutdown_engines_def)
  moreover have "(lo_path lp, lo_cell lp) \<in> set (w_cells w0)" using assms(1) by (simp add: w0 map_of_SomeD)
  ultimately have told: "watch_value (w_watch_heap w1 (ah_shutdown h))" unfolding w1 by (rule signal_cells_tells)
  note f = signal_cells_fields [of "w_cells w0" w0, folded w1]
  have w2: "w2 = set_task i None (drain_inbox_on_stop lp w1)"
    using assms(4) told f(3) by (simp add: assms(6) run_task_def w0 act_bind_def act_ret_def running_turn_def end_loop_def)
  show "map_of (w_tasks w2) i = None" by (simp add: w2 set_task_def)
  show "w_shutting_down w2" by (simp add: w2 set_task_def drain_inbox_on_stop_def f(6) w0)
  show cells: "w_cells w2 = w_cells w" and "w_registry w2 = w_registry w" "w_dead_letters w2 = w_dead_letters w"
    "w_service_heap w2 = w_service_heap w"
    using f by (simp_all add: w2 set_task_def drain_inbox_on_stop_def w0)
  show "stopped_mail (lo_path lp) w2 = stopped_mail (lo_path lp) w"
    using assms(1) cells f(1)
    by (simp add: stopped_mail_def w2 set_task_def drain_inbox_on_stop_def inbox_drain_live_def inbox_close_def
        inbox_reopen_def case_prod_beta w0)
qed

text \<open>
  C34. A graceful shutdown runs no stop hook and handles no queued mail.  The sweep raises its barrier,
  tells every loop and joins it.  A service loop that is told ends at its next turn, before it takes
  another message: its instance is left as it is, the hook has not run and from then on never will,
  for every later attempt stands down behind the barrier; and every envelope that was waiting in the
  inbox becomes a dead letter of the teardown that follows.
\<close>

theorem shutdown_skips_hooks_and_mail:
  assumes "world_ok w" and "map_of (w_cells w) (lo_path lp) = Some (lo_cell lp)"
    and "ce_handle (w_cell_heap w (lo_cell lp)) = Some h" "w_watch_heap w (ah_shutdown h) = WatchOpen False"
    and "map_of (w_tasks w) i = Some (ServiceTask lp (ah_shutdown h) LoopRunning)"
    and "shutdown_begin w = (joins, w1)" and "w2 = run_task host i w1"
  shows "map_of (w_tasks w2) i = None \<and> w_service_heap w2 = w_service_heap w \<and>
    stopped_mail (lo_path lp) w2 = stopped_mail (lo_path lp) w \<and>
    (\<forall>lp'. run_on_stop host lp' w2 = (Done (), w2)) \<and>
    (\<exists>w3. teardown_tables host (lo_path lp) StopShutdown w2 =
        announce_lifecycle host (lo_path lp) LcShutdown (actor_tier w2 (lo_path lp)) w3 \<and>
      w_dead_letters w3 = w_dead_letters w @
        map (\<lambda>e. letter_of e DlStoppedWithMail ''stopped with a non-empty inbox'') (stopped_mail (lo_path lp) w))"
proof -
  note ended = swept_loop_ends [OF assms(2-7)]
  let ?p = "lo_path lp"
  let ?w3 = "observe_stopped ?p StopShutdown (parent_of (flush_mailbox ?p w2) ?p) (drop_tables ?p (flush_mailbox ?p w2))"
  have "has_key (w_cells w2) ?p" using assms(2) ended(3) by (simp add: has_key_def)
  then have td: "teardown_tables host ?p StopShutdown w2 = announce_lifecycle host ?p LcShutdown (actor_tier w2 ?p) ?w3"
    unfolding teardown_tables_def Let_def by simp
  have "rg_ok (w_registry w2)" using assms(1) ended(4) by (simp add: world_ok_def)
  from drop_tables_torn [OF this, of ?p] have "torn_down ?p w2 ?w3" by (simp add: observe_stopped_torn)
  then have "w_dead_letters ?w3 = w_dead_letters w @
      map (\<lambda>e. letter_of e DlStoppedWithMail ''stopped with a non-empty inbox'') (stopped_mail ?p w)"
    by (simp add: torn_down_def ended(5,7))
  moreover have "run_on_stop host lp' w2 = (Done (), w2)" for lp' using ended(2) by (simp add: run_on_stop_def)
  ultimately show ?thesis using td ended(1,6,7) by blast
qed

text \<open>A service with one message waiting.\<close>

definition demo_service :: "(int, nat, mem_store) world" where
  "demo_service = demo_crashed
     \<lparr>w_cell_heap := (\<lambda>_. (demo_cell [''Add''])\<lparr>ce_handle := Some \<lparr>ah_shutdown = 3, ah_task = 1\<rparr>\<rparr>),
      w_es_state := [], w_tasks := [(1, ServiceTask demo_loop 3 LoopRunning)]\<rparr>"

theorem shutdown_skips_hooks_and_mail_witness:
  "(let w2 = run_task demo_host 1 (snd (shutdown_begin demo_service))
    in map_of (w_tasks w2) 1 = None \<and> w_service_heap w2 = w_service_heap demo_service \<and>
       stopped_mail ''a'' w2 = [demo_envelope ''Add''])"
proof -
  have ok: "world_ok demo_service"
    by (auto simp: world_ok_def rg_ok_def slots_ok_def slot_ok_def cells_ok_def states_ok_def tasks_ok_def has_key_def
        demo_service_def demo_crashed_def demo_world_def registry_new_def manifest_kind_def manifest_new_def
        endpoint_new_def demo_cell_def cell_new_def cell_of_loop_ok_def demo_loop_def split: if_splits)
  have pre: "map_of (w_cells demo_service) (lo_path demo_loop) = Some (lo_cell demo_loop)"
    "ce_handle (w_cell_heap demo_service (lo_cell demo_loop)) = Some \<lparr>ah_shutdown = 3, ah_task = 1\<rparr>"
    "w_watch_heap demo_service (ah_shutdown \<lparr>ah_shutdown = 3, ah_task = 1\<rparr>) = WatchOpen False"
    "map_of (w_tasks demo_service) 1 = Some (ServiceTask demo_loop (ah_shutdown \<lparr>ah_shutdown = 3, ah_task = 1\<rparr>) LoopRunning)"
    by (simp_all add: demo_service_def demo_crashed_def demo_world_def)
  obtain joins w1 where b: "shutdown_begin demo_service = (joins, w1)" by fastforce
  have "stopped_mail ''a'' demo_service = [demo_envelope ''Add'']"
    by (simp add: stopped_mail_def demo_service_def demo_crashed_def demo_world_def demo_inbox_def inbox_drain_live_def
        queue_next_def inbox_new_def)
  with shutdown_skips_hooks_and_mail [OF ok pre b refl, of demo_host] show ?thesis
    unfolding b Let_def snd_conv demo_loop_fields(3) by (elim conjE) (intro conjI, simp_all)
qed

end
