(* ===== verification/Derives.thy ===== *)
theory Derives
  imports Routing
begin

text \<open>
  The derive macros \<open>Event\<close> and \<open>Command\<close> (\<open>src/trouper_macros/src/expand.rs\<close>).

  The input is the parsed struct; what it generates is kept as the data the generated code evaluates
  to: the schema name, the descriptor, and the arms of the \<open>field\<close> match.  Walking the comma-separated
  metas of an attribute is \<open>syn\<close>'s: the walker is the parameter \<open>nested\<close>, and its documented contract is
  \<open>nested_laws\<close>.  The state of the three visiting closures is one record, since they are all handed
  to the same walker; a closure answers an error, or whether it consumed the meta's value.
\<close>

subsection \<open>The parsed input\<close>

datatype meta_value = NoValue | LitStrValue string | OtherValue

record meta_item =
  mt_path :: string
  mt_value :: meta_value

record attribute =
  at_path :: string
  at_metas :: "meta_item list"

text \<open>A path type holds its self-qualifier and leading-colon flags and its segments, each with a flag for
  generic arguments.\<close>

datatype rust_ty =
    TyPath bool bool "(string \<times> bool) list"
  | TyRef rust_ty
  | TyGroup rust_ty
  | TyParen rust_ty
  | TyOther

record struct_field =
  sf_ident :: string
  sf_ty :: rust_ty
  sf_attrs :: "attribute list"

datatype struct_body = NamedFields "struct_field list" | UnitFields | TupleFields | NotStruct

record derive_input =
  di_ident :: string
  di_attrs :: "attribute list"
  di_generics :: "string list"
  di_body :: struct_body

datatype derive_kind = DeriveEvent | DeriveCommand

fun kind_variant :: "derive_kind \<Rightarrow> schema_kind" where
  "kind_variant DeriveEvent = Event"
| "kind_variant DeriveCommand = Command"

datatype derive_error =
    SynError
  | VersionRejected
  | UnknownContainerAttribute
  | NotANamedStruct
  | GenericStruct
  | ManyShardKeys nat "string list"
  | DuplicateAttribute string
  | UnsupportedTy string
  | UnknownFieldAttribute

text \<open>An error-or-value step, the \<open>?\<close> of the sources.\<close>

fun and_then :: "'e + 'a \<Rightarrow> ('a \<Rightarrow> 'e + 'b) \<Rightarrow> 'e + 'b" where
  "and_then (Inl e) f = Inl e"
| "and_then (Inr x) f = f x"

lemma and_then_Inr_iff [simp]: "and_then x f = Inr y \<longleftrightarrow> (\<exists>z. x = Inr z \<and> f z = Inr y)"
  by (cases x) auto

subsection \<open>Walking attributes\<close>

record attr_scan =
  sc_description :: "string option"
  sc_shard_key :: bool
  sc_ty :: "field_ty option"

definition scan_start :: attr_scan where
  "scan_start = \<lparr>sc_description = None, sc_shard_key = False, sc_ty = None\<rparr>"

type_synonym visitor = "meta_item \<Rightarrow> attr_scan \<Rightarrow> attr_scan \<times> (derive_error + bool)"

type_synonym walker = "attribute \<Rightarrow> visitor \<Rightarrow> attr_scan \<Rightarrow> attr_scan \<times> derive_error option"

text \<open>
  The contract of \<open>parse_nested_meta\<close>: the closure sees the metas in order, its error ends the walk, and
  so does a value it left unread, since a comma is expected there.  The closure's effects stay.
\<close>

definition nested_laws :: "walker \<Rightarrow> bool" where
  "nested_laws nested \<longleftrightarrow>
     (\<forall>p f s. nested \<lparr>at_path = p, at_metas = []\<rparr> f s = (s, None)) \<and>
     (\<forall>p m ms f s. nested \<lparr>at_path = p, at_metas = m # ms\<rparr> f s =
        (case f m s of
           (s', Inl e) \<Rightarrow> (s', Some e)
         | (s', Inr consumed) \<Rightarrow>
             if consumed \<or> mt_value m = NoValue then nested \<lparr>at_path = p, at_metas = ms\<rparr> f s'
             else (s', Some SynError)))"

text \<open>\<open>meta.value()?.parse::<LitStr>()?\<close>\<close>

fun meta_lit :: "meta_value \<Rightarrow> derive_error + string" where
  "meta_lit (LitStrValue s) = Inr s"
| "meta_lit _ = Inl SynError"

text \<open>The loop over the attributes of an item: only \<open>schema\<close> attributes are walked, the first error returns.\<close>

fun scan_attrs :: "walker \<Rightarrow> visitor \<Rightarrow> attribute list \<Rightarrow> attr_scan \<Rightarrow> derive_error + attr_scan" where
  "scan_attrs nested f [] s = Inr s"
| "scan_attrs nested f (a # as) s =
     (if at_path a \<noteq> ''schema'' then scan_attrs nested f as s
      else case nested a f s of
             (s', Some e) \<Rightarrow> Inl e
           | (s', None) \<Rightarrow> scan_attrs nested f as s')"

definition container_meta :: visitor where
  "container_meta m s =
     (if mt_path m = ''version'' then (s, Inl VersionRejected)
      else if mt_path m = ''description'' then
        (if sc_description s \<noteq> None then (s, Inl (DuplicateAttribute ''description''))
         else case meta_lit (mt_value m) of
                Inl e \<Rightarrow> (s, Inl e)
              | Inr text \<Rightarrow> (s\<lparr>sc_description := Some text\<rparr>, Inr True))
      else (s, Inl UnknownContainerAttribute))"

definition field_list :: "derive_input \<Rightarrow> derive_error + struct_field list" where
  "field_list input =
     (case di_body input of
        NamedFields fs \<Rightarrow> Inr fs
      | UnitFields \<Rightarrow> Inr []
      | TupleFields \<Rightarrow> Inl NotANamedStruct
      | NotStruct \<Rightarrow> Inl NotANamedStruct)"

text \<open>The probe for the shard key ignores the walk's errors and reads no value.\<close>

definition probe_meta :: visitor where
  "probe_meta m s = (if mt_path m = ''shard_key'' then s\<lparr>sc_shard_key := True\<rparr> else s, Inr False)"

fun probe_attrs :: "walker \<Rightarrow> attribute list \<Rightarrow> attr_scan \<Rightarrow> attr_scan" where
  "probe_attrs nested [] s = s"
| "probe_attrs nested (a # as) s =
     probe_attrs nested as (if at_path a \<noteq> ''schema'' then s else fst (nested a probe_meta s))"

definition has_shard_key :: "walker \<Rightarrow> struct_field \<Rightarrow> bool" where
  "has_shard_key nested f = sc_shard_key (probe_attrs nested (sf_attrs f) scan_start)"

definition shard_keys :: "walker \<Rightarrow> struct_field list \<Rightarrow> string list" where
  "shard_keys nested fs = List.map sf_ident (filter (has_shard_key nested) fs)"

subsection \<open>Types\<close>

fun path_is :: "rust_ty \<Rightarrow> string \<Rightarrow> bool" where
  "path_is (TyPath qself leading segs) n = (\<not> qself \<and> \<not> leading \<and> segs = [(n, False)])"
| "path_is _ n = False"

fun last_ident :: "(string \<times> bool) list \<Rightarrow> string option" where
  "last_ident [] = None"
| "last_ident segs = Some (fst (List.last segs))"

fun pivot_ident :: "rust_ty \<Rightarrow> string option" where
  "pivot_ident (TyPath qself leading segs) = (if qself then None else last_ident segs)"
| "pivot_ident (TyRef t) = pivot_ident t"
| "pivot_ident (TyGroup t) = pivot_ident t"
| "pivot_ident (TyParen t) = pivot_ident t"
| "pivot_ident TyOther = None"

fun path_ends_with :: "rust_ty \<Rightarrow> string \<Rightarrow> bool" where
  "path_ends_with (TyPath qself leading segs) n = (\<not> qself \<and> last_ident segs = Some n)"
| "path_ends_with (TyGroup t) n = path_ends_with t n"
| "path_ends_with (TyParen t) n = path_ends_with t n"
| "path_ends_with _ n = False"

fun stringish_check :: "rust_ty \<Rightarrow> bool option" where
  "stringish_check (TyPath qself leading segs) =
     (if qself then None
      else map_option (\<lambda>p. p \<in> set [''String'', ''Uuid'', ''PathBuf'']) (last_ident segs))"
| "stringish_check (TyRef t) = (if path_is t ''str'' then Some True else stringish_check t)"
| "stringish_check (TyGroup t) = stringish_check t"
| "stringish_check (TyParen t) = stringish_check t"
| "stringish_check TyOther = None"

definition ty_is_stringish :: "rust_ty \<Rightarrow> bool" where
  "ty_is_stringish t = (stringish_check t = Some True)"

definition int_idents :: "string list" where
  "int_idents = [''i8'', ''i16'', ''i32'', ''i64'', ''u8'', ''u16'', ''u32'', ''u64'', ''usize'', ''isize'']"

definition float_idents :: "string list" where
  "float_idents = [''f32'', ''f64'']"

fun numeric_check :: "rust_ty \<Rightarrow> bool option" where
  "numeric_check (TyPath qself leading segs) =
     (if qself then None else map_option (\<lambda>p. p \<in> set (int_idents @ float_idents)) (last_ident segs))"
| "numeric_check (TyRef t) = numeric_check t"
| "numeric_check (TyGroup t) = numeric_check t"
| "numeric_check (TyParen t) = numeric_check t"
| "numeric_check TyOther = None"

definition ty_is_numeric :: "rust_ty \<Rightarrow> bool" where
  "ty_is_numeric t = (numeric_check t = Some True)"

definition flat_ty_variant :: "rust_ty \<Rightarrow> field_ty" where
  "flat_ty_variant t =
     (case pivot_ident t of
        None \<Rightarrow> TJson
      | Some p \<Rightarrow>
          if p \<in> set int_idents then TInt
          else if p \<in> set float_idents then TFloat
          else if p = ''bool'' then TBool
          else if p = ''str'' \<or> p = ''String'' then TStr
          else if p = ''Uuid'' then TUuid
          else TJson)"

text \<open>The generated string read of the key field.\<close>

datatype read_expr = ReadLossy | ReadToString | ReadClone | ReadNone

definition field_string_read :: "rust_ty \<Rightarrow> read_expr" where
  "field_string_read t =
     (if path_ends_with t ''PathBuf'' then ReadLossy
      else if path_ends_with t ''Uuid'' then ReadToString
      else if path_ends_with t ''String'' then ReadClone
      else if ty_is_stringish t then ReadToString
      else if ty_is_numeric t \<or> path_is t ''bool'' then ReadToString
      else ReadNone)"

subsection \<open>Field descriptors\<close>

definition strip_raw :: "string \<Rightarrow> string" where
  "strip_raw s = (if take 2 s = ''r#'' then drop 2 s else s)"

definition ty_override :: "string \<Rightarrow> field_ty option" where
  "ty_override s =
     map_of [(''bool'', TBool), (''int'', TInt), (''float'', TFloat), (''str'', TStr), (''uuid'', TUuid),
             (''json'', TJson)] s"

definition field_meta :: visitor where
  "field_meta m s =
     (if mt_path m = ''shard_key'' then
        (if sc_shard_key s then (s, Inl (DuplicateAttribute ''shard_key''))
         else (s\<lparr>sc_shard_key := True\<rparr>, Inr False))
      else if mt_path m = ''ty'' then
        (if sc_ty s \<noteq> None then (s, Inl (DuplicateAttribute ''ty''))
         else case meta_lit (mt_value m) of
                Inl e \<Rightarrow> (s, Inl e)
              | Inr text \<Rightarrow>
                  (case ty_override text of
                     None \<Rightarrow> (s, Inl (UnsupportedTy text))
                   | Some t \<Rightarrow> (s\<lparr>sc_ty := Some t\<rparr>, Inr True)))
      else if mt_path m = ''description'' then
        (if sc_description s \<noteq> None then (s, Inl (DuplicateAttribute ''description''))
         else case meta_lit (mt_value m) of
                Inl e \<Rightarrow> (s, Inl e)
              | Inr text \<Rightarrow> (s\<lparr>sc_description := Some text\<rparr>, Inr True))
      else (s, Inl UnknownFieldAttribute))"

definition field_def_expr :: "walker \<Rightarrow> struct_field \<Rightarrow> derive_error + field_def \<times> bool" where
  "field_def_expr nested f =
     and_then (scan_attrs nested field_meta (sf_attrs f) scan_start) (\<lambda>s.
       let ty = (case sc_ty s of
                   Some t \<Rightarrow> t
                 | None \<Rightarrow> if sc_shard_key s then flat_ty_variant (sf_ty f) else TJson);
           base = field_required (strip_raw (sf_ident f)) ty;
           keyed = (if sc_shard_key s then as_shard_key base else base);
           full = (case sc_description s of Some d \<Rightarrow> with_description d keyed | None \<Rightarrow> keyed)
       in Inr (full, sc_shard_key s))"

subsection \<open>The expansion\<close>

record derived =
  dv_name :: string
  dv_schema :: schema_def
  dv_arms :: "(string \<times> string \<times> read_expr) list"

fun derive_fields ::
  "walker \<Rightarrow> struct_field list \<Rightarrow> derive_error + field_def list \<times> (string \<times> string \<times> read_expr) list" where
  "derive_fields nested [] = Inr ([], [])"
| "derive_fields nested (f # fs) =
     and_then (field_def_expr nested f) (\<lambda>(d, key).
       and_then (derive_fields nested fs) (\<lambda>(ds, arms).
         let n = strip_raw (sf_ident f)
         in Inr (d # ds, if key then (n, n, field_string_read (sf_ty f)) # arms else arms)))"

definition generate :: "walker \<Rightarrow> derive_input \<Rightarrow> derive_kind \<Rightarrow> derive_error + derived" where
  "generate nested input kind =
     and_then (scan_attrs nested container_meta (di_attrs input) scan_start) (\<lambda>container.
     and_then (field_list input) (\<lambda>fs.
       if di_generics input \<noteq> [] then Inl GenericStruct
       else (let keys = shard_keys nested fs
             in if length keys > 1 then Inl (ManyShardKeys (length keys) keys)
                else and_then (derive_fields nested fs) (\<lambda>(defs, arms).
                       Inr \<lparr>dv_name = di_ident input,
                            dv_schema = \<lparr>sch_name = di_ident input, sch_kind = kind_variant kind,
                                         sch_fields = defs, sch_description = sc_description container\<rparr>,
                            dv_arms = arms\<rparr>))))"

text \<open>\<open>derive_event\<close> and \<open>derive_command\<close>: an error becomes a compile error.\<close>

datatype expansion = Impls derived | CompileError derive_error

definition expand_derive :: "walker \<Rightarrow> derive_input \<Rightarrow> derive_kind \<Rightarrow> expansion" where
  "expand_derive nested input kind =
     (case generate nested input kind of Inr tokens \<Rightarrow> Impls tokens | Inl e \<Rightarrow> CompileError e)"

definition derive_event :: "walker \<Rightarrow> derive_input \<Rightarrow> expansion" where
  "derive_event nested input = expand_derive nested input DeriveEvent"

definition derive_command :: "walker \<Rightarrow> derive_input \<Rightarrow> expansion" where
  "derive_command nested input = expand_derive nested input DeriveCommand"

subsection \<open>Values of a derived struct\<close>

text \<open>
  A value is known by its fields under their stripped idents.  \<open>disp\<close> is the \<open>Display\<close> form of a Rust
  float.
\<close>

datatype field_value =
    FvStr string
  | FvInt int
  | FvBool bool
  | FvFloat "64 word"
  | FvUuid string
  | FvPath string
  | FvOther json

fun display_value :: "(64 word \<Rightarrow> string) \<Rightarrow> field_value \<Rightarrow> string option" where
  "display_value disp (FvStr s) = Some s"
| "display_value disp (FvInt i) = Some (int_text i)"
| "display_value disp (FvBool b) = Some (bool_text b)"
| "display_value disp (FvFloat b) = Some (disp b)"
| "display_value disp (FvUuid u) = Some u"
| "display_value disp _ = None"

fun read_value :: "(64 word \<Rightarrow> string) \<Rightarrow> read_expr \<Rightarrow> field_value \<Rightarrow> string option" where
  "read_value disp ReadLossy (FvPath p) = Some p"
| "read_value disp ReadClone (FvStr s) = Some s"
| "read_value disp ReadToString v = display_value disp v"
| "read_value disp _ v = None"

definition derived_field ::
  "(64 word \<Rightarrow> string) \<Rightarrow> derived \<Rightarrow> (string \<times> field_value) list \<Rightarrow> string \<Rightarrow> string option" where
  "derived_field disp d vals name =
     (case map_of (dv_arms d) name of
        None \<Rightarrow> None
      | Some (member, read) \<Rightarrow> Option.bind (map_of vals member) (read_value disp read))"

text \<open>The live value the runtime sees, with the tree its encoding prints.\<close>

definition derived_live ::
  "(64 word \<Rightarrow> string) \<Rightarrow> derived \<Rightarrow> (string \<times> field_value) list \<Rightarrow> json \<Rightarrow> live_value" where
  "derived_live disp d vals tree =
     \<lparr>lv_type = dv_name d,
      lv_fields = List.concat (List.map (\<lambda>(n, _). case derived_field disp d vals n of
                                                 None \<Rightarrow> [] | Some s \<Rightarrow> [(n, s)]) (dv_arms d)),
      lv_json = tree\<rparr>"


subsection \<open>What the walks amount to\<close>

text \<open>A walker that keeps the contract: it shows that the contract can be kept.\<close>

fun walk :: "visitor \<Rightarrow> meta_item list \<Rightarrow> attr_scan \<Rightarrow> attr_scan \<times> derive_error option" where
  "walk f [] s = (s, None)"
| "walk f (m # ms) s =
     (case f m s of
        (s', Inl e) \<Rightarrow> (s', Some e)
      | (s', Inr consumed) \<Rightarrow>
          if consumed \<or> mt_value m = NoValue then walk f ms s' else (s', Some SynError))"

definition plain_walker :: walker where
  "plain_walker a f s = walk f (at_metas a) s"

lemma plain_walker_laws: "nested_laws plain_walker"
  by (auto simp: nested_laws_def plain_walker_def split: prod.splits sum.splits)

lemma nested_walks:
  assumes "nested_laws nested"
  shows "nested a f s = walk f (at_metas a) s"
proof -
  have "nested \<lparr>at_path = p, at_metas = ms\<rparr> f s = walk f ms s" for p ms
    using assms by (induction ms arbitrary: s) (auto simp: nested_laws_def split: prod.splits sum.splits)
  then show ?thesis by (cases a) simp
qed

text \<open>One walk over all the metas of the item's \<open>schema\<close> attributes.\<close>

definition metas_of :: "attribute list \<Rightarrow> meta_item list" where
  "metas_of as = List.concat (List.map at_metas (filter (\<lambda>a. at_path a = ''schema'') as))"

lemma metas_of_simps [simp]:
  "metas_of [] = []"
  "metas_of (a # as) = (if at_path a = ''schema'' then at_metas a else []) @ metas_of as"
  by (simp_all add: metas_of_def)

lemma walk_append:
  "walk f (ms @ ns) s = (case walk f ms s of (s', None) \<Rightarrow> walk f ns s' | (s', Some e) \<Rightarrow> (s', Some e))"
  by (induction ms arbitrary: s) (auto split: prod.splits sum.splits)

lemma scan_attrs_flat:
  assumes "nested_laws nested"
  shows "scan_attrs nested f as s = Inr t \<longleftrightarrow> walk f (metas_of as) s = (t, None)"
  by (induction as arbitrary: s)
    (auto simp: nested_walks [OF assms] walk_append split: prod.splits option.splits)

definition meta_text :: "string \<Rightarrow> meta_item list \<Rightarrow> string option" where
  "meta_text p ms =
     Option.bind (List.find (\<lambda>m. mt_path m = p) ms) (\<lambda>m. case mt_value m of LitStrValue t \<Rightarrow> Some t | _ \<Rightarrow> None)"

lemma meta_text_simps [simp]:
  "meta_text p [] = None"
  "meta_text p (m # ms) =
     (if mt_path m = p then case mt_value m of LitStrValue t \<Rightarrow> Some t | _ \<Rightarrow> None else meta_text p ms)"
  by (simp_all add: meta_text_def)

lemma meta_lit_Inr [simp]: "meta_lit v = Inr t \<longleftrightarrow> v = LitStrValue t"
  by (cases v) auto

lemma field_meta_step:
  assumes "field_meta m s = (s', Inr consumed)"
  shows "(mt_path m = ''shard_key'' \<and> \<not> sc_shard_key s \<and> s' = s\<lparr>sc_shard_key := True\<rparr>) \<or>
    (\<exists>text t. mt_path m = ''ty'' \<and> sc_ty s = None \<and> mt_value m = LitStrValue text \<and> ty_override text = Some t \<and>
       s' = s\<lparr>sc_ty := Some t\<rparr>) \<or>
    (\<exists>text. mt_path m = ''description'' \<and> sc_description s = None \<and> mt_value m = LitStrValue text \<and>
       s' = s\<lparr>sc_description := Some text\<rparr>)"
  using assms by (auto simp: field_meta_def split: if_splits sum.splits option.splits)

lemma walk_Cons_ok:
  "walk f (m # ms) s = (t, None) \<longleftrightarrow>
     (\<exists>s' c. f m s = (s', Inr c) \<and> (c \<or> mt_value m = NoValue) \<and> walk f ms s' = (t, None))"
  by (auto split: prod.splits sum.splits if_splits)

definition opt_or :: "'a option \<Rightarrow> 'a option \<Rightarrow> 'a option" where
  "opt_or x y = (case x of None \<Rightarrow> y | Some a \<Rightarrow> Some a)"

lemma opt_or_simps [simp]: "opt_or None y = y" "opt_or (Some a) y = Some a" "opt_or x None = x"
  by (simp_all add: opt_or_def split: option.split)

lemma walk_field_meta:
  "walk field_meta ms s = (t, None) \<Longrightarrow>
     sc_shard_key t = (sc_shard_key s \<or> ''shard_key'' \<in> mt_path ` set ms) \<and>
     sc_ty t = opt_or (sc_ty s) (Option.bind (meta_text ''ty'' ms) ty_override) \<and>
     sc_description t = opt_or (sc_description s) (meta_text ''description'' ms)"
proof (induction ms arbitrary: s)
  case (Cons m ms)
  from Cons.prems obtain s' c where
    step: "field_meta m s = (s', Inr c)" and rest: "walk field_meta ms s' = (t, None)"
    unfolding walk_Cons_ok by blast
  from Cons.IH [OF rest] field_meta_step [OF step] show ?case
    by (elim disjE exE conjE) simp_all
qed simp

lemma walk_container_meta:
  "walk container_meta ms s = (t, None) \<Longrightarrow>
     sc_description t = opt_or (sc_description s) (meta_text ''description'' ms)"
proof (induction ms arbitrary: s)
  case (Cons m ms)
  from Cons.prems obtain s' c where
    step: "container_meta m s = (s', Inr c)" and rest: "walk container_meta ms s' = (t, None)"
    unfolding walk_Cons_ok by blast
  from step have "sc_description s = None" "\<exists>x. mt_path m = ''description'' \<and> mt_value m = LitStrValue x \<and>
      s' = s\<lparr>sc_description := Some x\<rparr>"
    by (auto simp: container_meta_def split: if_splits sum.splits)
  with Cons.IH [OF rest] show ?case by auto
qed simp

subsection \<open>The declarative reading of a struct\<close>

definition is_key :: "struct_field \<Rightarrow> bool" where
  "is_key f \<longleftrightarrow> ''shard_key'' \<in> mt_path ` set (metas_of (sf_attrs f))"

definition field_text :: "string \<Rightarrow> struct_field \<Rightarrow> string option" where
  "field_text p f = meta_text p (metas_of (sf_attrs f))"

text \<open>The descriptor of a field, read off its attributes.\<close>

definition described :: "struct_field \<Rightarrow> field_def" where
  "described f =
     \<lparr>fd_name = strip_raw (sf_ident f),
      fd_ty = (case Option.bind (field_text ''ty'' f) ty_override of
                 Some t \<Rightarrow> t | None \<Rightarrow> if is_key f then flat_ty_variant (sf_ty f) else TJson),
      fd_unit = None, fd_range = None, fd_role = (if is_key f then Some ShardKey else None),
      fd_description = field_text ''description'' f\<rparr>"

definition key_arm :: "struct_field \<Rightarrow> string \<times> string \<times> read_expr" where
  "key_arm f = (strip_raw (sf_ident f), strip_raw (sf_ident f), field_string_read (sf_ty f))"

definition named_fields :: "derive_input \<Rightarrow> struct_field list" where
  "named_fields input = (case di_body input of NamedFields fs \<Rightarrow> fs | _ \<Rightarrow> [])"

lemma field_def_expr_described:
  assumes "nested_laws nested" "field_def_expr nested f = Inr (d, key)"
  shows "d = described f" "key = is_key f"
proof -
  from assms(2) obtain s where scan: "scan_attrs nested field_meta (sf_attrs f) scan_start = Inr s"
    and eq: "Inr (d, key) = (let ty = (case sc_ty s of
                   Some t \<Rightarrow> t
                 | None \<Rightarrow> if sc_shard_key s then flat_ty_variant (sf_ty f) else TJson);
           base = field_required (strip_raw (sf_ident f)) ty;
           keyed = (if sc_shard_key s then as_shard_key base else base);
           full = (case sc_description s of Some d \<Rightarrow> with_description d keyed | None \<Rightarrow> keyed)
       in (Inr (full, sc_shard_key s) :: derive_error + field_def \<times> bool))"
    unfolding field_def_expr_def and_then_Inr_iff by metis
  from scan have "walk field_meta (metas_of (sf_attrs f)) scan_start = (s, None)"
    by (simp add: scan_attrs_flat [OF assms(1)])
  from walk_field_meta [OF this]
  have facts: "sc_shard_key s = is_key f" "sc_ty s = Option.bind (field_text ''ty'' f) ty_override"
    "sc_description s = field_text ''description'' f"
    by (auto simp: scan_start_def is_key_def field_text_def)
  from eq show "d = described f" "key = is_key f"
    by (auto simp: Let_def facts described_def field_required_def as_shard_key_def with_description_def
        split: option.splits)
qed

lemma derive_fields_described:
  assumes "nested_laws nested"
  shows "derive_fields nested fs = Inr (defs, arms) \<Longrightarrow>
    defs = List.map described fs \<and> arms = List.map key_arm (filter is_key fs)"
proof (induction fs arbitrary: defs arms)
  case (Cons f fs)
  from Cons.prems obtain d key ds as where
    "field_def_expr nested f = Inr (d, key)" "derive_fields nested fs = Inr (ds, as)"
    "defs = d # ds" "arms = (if key then key_arm f # as else as)"
    by (auto simp: Let_def key_arm_def)
  with Cons.IH field_def_expr_described [OF assms] show ?case by auto
qed simp

lemma generate_Inr:
  assumes "generate nested input kind = Inr d"
  obtains container fs where
    "scan_attrs nested container_meta (di_attrs input) scan_start = Inr container"
    "field_list input = Inr fs" "di_generics input = []" "length (shard_keys nested fs) \<le> 1"
    "derive_fields nested fs = Inr (sch_fields (dv_schema d), dv_arms d)"
    "dv_name d = di_ident input" "sch_name (dv_schema d) = di_ident input"
    "sch_kind (dv_schema d) = kind_variant kind" "sch_description (dv_schema d) = sc_description container"
  using assms unfolding generate_def and_then_Inr_iff Let_def
  by (auto split: if_splits)

lemma field_list_named: "field_list input = Inr fs \<Longrightarrow> fs = named_fields input"
  by (auto simp: field_list_def named_fields_def split: struct_body.splits)

lemma generate_described:
  assumes "nested_laws nested" and "generate nested input kind = Inr d"
  shows "dv_name d = di_ident input \<and>
    dv_schema d = \<lparr>sch_name = di_ident input, sch_kind = kind_variant kind,
                   sch_fields = List.map described (named_fields input),
                   sch_description = meta_text ''description'' (metas_of (di_attrs input))\<rparr> \<and>
    dv_arms d = List.map key_arm (filter is_key (named_fields input))"
  using assms(2)
proof (rule generate_Inr)
  fix container fs
  assume scan: "scan_attrs nested container_meta (di_attrs input) scan_start = Inr container"
    and fs: "field_list input = Inr fs"
    and "derive_fields nested fs = Inr (sch_fields (dv_schema d), dv_arms d)"
    and names: "dv_name d = di_ident input" "sch_name (dv_schema d) = di_ident input"
      "sch_kind (dv_schema d) = kind_variant kind" "sch_description (dv_schema d) = sc_description container"
  then have "sch_fields (dv_schema d) = List.map described (named_fields input)"
    "dv_arms d = List.map key_arm (filter is_key (named_fields input))"
    using derive_fields_described [OF assms(1)] field_list_named [OF fs] by blast+
  moreover from walk_container_meta [OF scan [unfolded scan_attrs_flat [OF assms(1)]]]
  have "sc_description container = meta_text ''description'' (metas_of (di_attrs input))"
    by (simp add: scan_start_def)
  ultimately show ?thesis using names by simp
qed


text \<open>
  C35. What a derive generates is what the struct's source says.  When the expansion succeeds, the schema
  is named by the struct, has the kind of the macro and the container's description; its descriptors
  are the fields in order, each named by the field without a raw prefix, typed by its override, else
  flatly for a shard key and as JSON for every other field, with the shard-key role exactly on the
  declared keys and the field's own description; and \<open>field\<close> answers for the declared keys only.
\<close>

theorem derive_describes:
  assumes "nested_laws nested" and "generate nested input kind = Inr d"
  shows "dv_name d = di_ident input \<and>
    dv_schema d = \<lparr>sch_name = di_ident input, sch_kind = kind_variant kind,
                   sch_fields = List.map described (named_fields input),
                   sch_description = meta_text ''description'' (metas_of (di_attrs input))\<rparr> \<and>
    dv_arms d = List.map key_arm (filter is_key (named_fields input))"
  by (rule generate_described [OF assms])

definition demo_order :: derive_input where
  "demo_order =
     \<lparr>di_ident = ''Move'', di_attrs = [\<lparr>at_path = ''schema'', at_metas = [\<lparr>mt_path = ''description'', mt_value = LitStrValue ''a move''\<rparr>]\<rparr>],
      di_generics = [],
      di_body = NamedFields
        [\<lparr>sf_ident = ''id'', sf_ty = TyPath False False [(''u64'', False)],
          sf_attrs = [\<lparr>at_path = ''schema'', at_metas = [\<lparr>mt_path = ''shard_key'', mt_value = NoValue\<rparr>]\<rparr>]\<rparr>,
         \<lparr>sf_ident = ''meta'', sf_ty = TyPath False False [(''Vec'', True)], sf_attrs = []\<rparr>]\<rparr>"

definition demo_derived :: derived where
  "demo_derived =
     \<lparr>dv_name = ''Move'',
      dv_schema = \<lparr>sch_name = ''Move'', sch_kind = Command,
                   sch_fields = [as_shard_key (field_required ''id'' TInt), field_required ''meta'' TJson],
                   sch_description = Some ''a move''\<rparr>,
      dv_arms = [(''id'', ''id'', ReadToString)]\<rparr>"

lemma demo_order_derives: "generate plain_walker demo_order DeriveCommand = Inr demo_derived"
  by code_simp

theorem derive_describes_witness:
  "sch_fields (dv_schema demo_derived) = List.map described (named_fields demo_order)"
  using derive_describes [OF plain_walker_laws demo_order_derives] by simp

subsection \<open>The check for a second shard key\<close>

text \<open>The probe stops at the first meta with a value, and its error is ignored.\<close>

fun probe_sees :: "meta_item list \<Rightarrow> bool" where
  "probe_sees [] = False"
| "probe_sees (m # ms) = (mt_path m = ''shard_key'' \<or> mt_value m = NoValue \<and> probe_sees ms)"

lemma walk_probe: "fst (walk probe_meta ms s) = s\<lparr>sc_shard_key := sc_shard_key s \<or> probe_sees ms\<rparr>"
  by (induction ms arbitrary: s) (auto simp: probe_meta_def)

lemma has_shard_key_sees:
  assumes "nested_laws nested"
  shows "has_shard_key nested f \<longleftrightarrow> (\<exists>a \<in> set (sf_attrs f). at_path a = ''schema'' \<and> probe_sees (at_metas a))"
proof -
  have "sc_shard_key (probe_attrs nested as s) \<longleftrightarrow>
      sc_shard_key s \<or> (\<exists>a \<in> set as. at_path a = ''schema'' \<and> probe_sees (at_metas a))" for as s
    by (induction as arbitrary: s) (auto simp: nested_walks [OF assms] walk_probe)
  then show ?thesis by (simp add: has_shard_key_def scan_start_def)
qed

text \<open>A key field whose one attribute puts the flag before or after a description.\<close>

definition flag_meta :: meta_item where
  "flag_meta = \<lparr>mt_path = ''shard_key'', mt_value = NoValue\<rparr>"

definition text_meta :: "string \<Rightarrow> meta_item" where
  "text_meta d = \<lparr>mt_path = ''description'', mt_value = LitStrValue d\<rparr>"

definition key_field :: "bool \<Rightarrow> string \<Rightarrow> rust_ty \<Rightarrow> string \<Rightarrow> struct_field" where
  "key_field late n t d =
     \<lparr>sf_ident = n, sf_ty = t,
      sf_attrs = [\<lparr>at_path = ''schema'',
                   at_metas = (if late then [text_meta d, flag_meta] else [flag_meta, text_meta d])\<rparr>]\<rparr>"

definition two_keys :: "bool \<Rightarrow> string \<Rightarrow> struct_field \<Rightarrow> string \<Rightarrow> rust_ty \<Rightarrow> string \<Rightarrow> derive_input" where
  "two_keys late struct_name f n t d =
     \<lparr>di_ident = struct_name, di_attrs = [], di_generics = [], di_body = NamedFields [f, key_field late n t d]\<rparr>"

lemma key_field_seen:
  assumes "nested_laws nested"
  shows "has_shard_key nested (key_field late n t d) \<longleftrightarrow> \<not> late"
  by (auto simp: has_shard_key_sees [OF assms] key_field_def text_meta_def flag_meta_def)

lemma key_field_ident [simp]: "sf_ident (key_field late n t d) = n"
  by (simp add: key_field_def)

lemma key_field_is_key: "is_key (key_field late n t d)"
  by (simp add: is_key_def key_field_def flag_meta_def text_meta_def)

lemma field_def_expr_key_field:
  assumes "nested_laws nested"
  shows "\<exists>x. field_def_expr nested (key_field late n t d) = Inr x"
  by (auto simp: field_def_expr_def nested_walks [OF assms] key_field_def flag_meta_def text_meta_def
      field_meta_def scan_start_def Let_def)

text \<open>
  At most one field may be the shard key, but the check is defeated by attribute order.  Two fields
  that put the flag before their description are rejected; two fields that put it after are accepted,
  because the probing walk stops at the unread description and its error is dropped: the descriptor
  then has two shard keys, both are readable, and routing by role takes the first.
\<close>

lemma second_shard_key_slips_through:
  assumes "nested_laws nested"
  shows "(\<exists>d. generate nested (two_keys True sn (key_field True a t x) b u y) kind = Inr d \<and>
       List.map fd_role (sch_fields (dv_schema d)) = [Some ShardKey, Some ShardKey] \<and>
       List.map fst (dv_arms d) = [strip_raw a, strip_raw b] \<and>
       field_with_role ShardKey (dv_schema d) = Some (strip_raw a)) \<and>
    generate nested (two_keys False sn (key_field False a t x) b u y) kind = Inl (ManyShardKeys 2 [a, b])"
proof -
  have keys: "shard_keys nested [key_field late a t x, key_field late b u y] = (if late then [] else [a, b])" for late
    by (simp add: shard_keys_def key_field_seen [OF assms])
  have rejected: "generate nested (two_keys False sn (key_field False a t x) b u y) kind = Inl (ManyShardKeys 2 [a, b])"
    by (simp add: generate_def two_keys_def field_list_def keys Let_def)
  obtain da db where parts: "field_def_expr nested (key_field True a t x) = Inr da"
    "field_def_expr nested (key_field True b u y) = Inr db"
    using field_def_expr_key_field [OF assms] by metis
  then obtain d where ok: "generate nested (two_keys True sn (key_field True a t x) b u y) kind = Inr d"
    by (cases da; cases db) (auto simp: generate_def two_keys_def field_list_def keys Let_def)
  from generate_described [OF assms this] have
    "sch_fields (dv_schema d) = [described (key_field True a t x), described (key_field True b u y)]"
    "dv_arms d = [key_arm (key_field True a t x), key_arm (key_field True b u y)]"
    by (simp_all add: two_keys_def named_fields_def key_field_is_key)
  with ok rejected show ?thesis
    by (simp add: field_with_role_def described_def key_field_is_key key_arm_def)
qed

subsection \<open>The same key through every door\<close>

text \<open>What serialisation writes for a field that has no rename.\<close>

fun scalar_json :: "field_value \<Rightarrow> json" where
  "scalar_json (FvStr s) = JStr s"
| "scalar_json (FvInt i) = JInt i"
| "scalar_json (FvBool b) = JBool b"
| "scalar_json (FvFloat b) = json_from_f64 b"
| "scalar_json (FvUuid u) = JStr u"
| "scalar_json (FvPath p) = JStr p"
| "scalar_json (FvOther j) = j"

lemma derive_fields_arms:
  "derive_fields nested fs = Inr (defs, arms) \<Longrightarrow> (n, m, r) \<in> set arms \<Longrightarrow> m = n"
  by (induction fs arbitrary: defs arms) (auto simp: Let_def split: if_splits)

lemma map_of_live_fields:
  "map_of (List.concat (List.map (\<lambda>(n, _). case g n of None \<Rightarrow> [] | Some s \<Rightarrow> [(n, s)]) arms)) k =
     (if map_of arms k = None then None else g k)"
  by (induction arms) (auto split: option.splits)

lemma live_answers:
  assumes "derived_field disp d vals key = Some s"
  shows "map_of (lv_fields (derived_live disp d vals tree)) key = Some s"
proof -
  have "map_of (dv_arms d) key \<noteq> None"
    using assms by (auto simp: derived_field_def split: option.splits)
  then show ?thesis by (simp add: derived_live_def map_of_live_fields assms)
qed

lemma read_matches_json:
  "read_value disp read v = Some s \<Longrightarrow> \<forall>b. v \<noteq> FvFloat b \<Longrightarrow> json_string_of sd (scalar_json v) = Some s"
  by (cases read; cases v) auto

text \<open>
  C36. A typed command and its JSON text route alike.  For a derived type whose live value answers its
  key, a key that is not a float, and a serialisation that keeps the field's name, the shard key
  extracted from the live value, from its JSON tree and from its JSON bytes are the same, and it is
  the value's display form whenever that is not empty: an entity reached by a typed tell is the one a
  replayed or erased copy reaches.
\<close>

theorem derived_key_routes_alike:
  assumes "generate nested input kind = Inr d"
    and "derived_field disp d vals key = Some s" and "map_of vals key = Some v" and "\<forall>b. v \<noteq> FvFloat b"
    and "json_get tree key = Some (scalar_json v)" and "sd_parse sd (sd_print sd tree) = Some tree"
    and "en_payload live = payload_value (derived_live disp d vals tree)"
    and "p \<in> {payload_json_view tree, payload_bytes (sd_print sd tree)}"
  shows "extract_key sd r (live\<lparr>en_payload := p\<rparr>) key = extract_key sd r live key \<and>
    (s \<noteq> [] \<longrightarrow> extract_key sd r live key = Some s)"
proof -
  have "json_string_of sd (scalar_json v) = Some s"
  proof -
    from assms(2) obtain m read where arm: "map_of (dv_arms d) key = Some (m, read)"
      and val: "Option.bind (map_of vals m) (read_value disp read) = Some s"
      by (auto simp: derived_field_def split: option.splits)
    have "m = key"
      using assms(1) by (rule generate_Inr) (use derive_fields_arms map_of_SomeD [OF arm] in blast)
    with val assms(3,4) show ?thesis by (simp add: read_matches_json)
  qed
  then have "payload_field sd key p = Some s" "payload_json sd p = tree"
    using assms(5,6,8)
    by (auto simp: payload_field_def payload_json_def payload_json_view_def payload_bytes_def)
  moreover have "payload_field sd key (en_payload live) = Some s" "payload_json sd (en_payload live) = tree"
    using live_answers [OF assms(2)] assms(6,7)
    by (simp_all add: payload_field_def payload_json_def payload_value_def) (simp add: derived_live_def)
  ultimately show ?thesis by (cases s) (simp_all add: extract_key_def)
qed

text \<open>
  For a float key the doors differ where the display form of the float differs from its JSON text: a
  whole number has no decimal point in the first.
\<close>

lemma float_key_splits:
  assumes "map_of (dv_arms d) key = Some (key, ReadToString)" and "map_of vals key = Some (FvFloat b)"
    and "json_get tree key = Some (JFloat b)" and "disp b = ''1''" and "sd_float_text sd b = ''1.0''"
    and "en_payload live = payload_value (derived_live disp d vals tree)"
  shows "extract_key sd r live key = Some ''1''"
    and "extract_key sd r (live\<lparr>en_payload := payload_json_view tree\<rparr>) key = Some ''1.0''"
proof -
  have "derived_field disp d vals key = Some ''1''" using assms by (simp add: derived_field_def)
  from live_answers [OF this] show "extract_key sd r live key = Some ''1''"
    using assms(6) by (simp add: extract_key_def payload_field_def payload_value_def)
  show "extract_key sd r (live\<lparr>en_payload := payload_json_view tree\<rparr>) key = Some ''1.0''"
    using assms(3,5) by (simp add: extract_key_def payload_field_def payload_json_view_def)
qed

definition demo_tree :: json where
  "demo_tree = JObj [(''id'', JInt 7), (''meta'', JArr [])]"

definition demo_codec :: serde where
  "demo_codec = \<lparr>sd_print = (\<lambda>j. ''{id:7}''), sd_parse = (\<lambda>s. Some demo_tree),
     sd_float_text = (\<lambda>b. ''0.0''), sd_float_display = (\<lambda>b. ''0''), sd_float_of_int = (\<lambda>i. 0)\<rparr>"

definition demo_values :: "(string \<times> field_value) list" where
  "demo_values = [(''id'', FvInt 7), (''meta'', FvOther (JArr []))]"

definition demo_move_value :: live_value where
  "demo_move_value = derived_live (\<lambda>b. ''0'') demo_derived demo_values demo_tree"

definition demo_move :: envelope where
  "demo_move = envelope_raw ''Move'' (ASchema ''Move'') (payload_value demo_move_value) \<lparr>tr_trace = 1, tr_causality = 1\<rparr>"

theorem derived_key_routes_alike_witness:
  "extract_key demo_codec registry_new (demo_move\<lparr>en_payload := payload_bytes (sd_print demo_codec demo_tree)\<rparr>) ''id'' =
   Some ''7''"
proof -
  have "derived_field (\<lambda>b. ''0'') demo_derived demo_values ''id'' = Some ''7''" by code_simp
  from derived_key_routes_alike [OF demo_order_derives this, of "FvInt 7" demo_tree demo_codec demo_move
      "payload_bytes (sd_print demo_codec demo_tree)" registry_new]
  show ?thesis
    by (simp add: demo_values_def demo_tree_def demo_codec_def demo_move_def envelope_raw_def demo_move_value_def)
qed

end
