(* ===== verification/Exports.thy ===== *)
theory Exports
  imports Asks StepFacts "HOL-Library.Product_Lexorder" "HOL-Library.Option_ord"
begin

text \<open>
  What a host reads off a running system: the JSON form of observations (\<open>src/src/observe.rs\<close>), the
  whole-system export and the inspection calls (\<open>src/src/system.rs\<close>).

  The text of a uuid is the uuid crate's: the parameter \<open>uuid\<close>.  The export awaits each state lock; what
  the other tasks do meanwhile is the parameter \<open>others\<close>, by the path awaited.
\<close>

subsection \<open>Observations as JSON\<close>

fun address_text :: "(nat \<Rightarrow> string) \<Rightarrow> address \<Rightarrow> string" where
  "address_text uuid (APath path) = path"
| "address_text uuid (ASlot lease) = ''slot('' @ uuid lease @ '')''"
| "address_text uuid (ASchema schema) = ''schema('' @ schema @ '')''"

fun ask_outcome_text :: "ask_outcome \<Rightarrow> string" where
  "ask_outcome_text AskReplied = ''Replied''"
| "ask_outcome_text AskTimeout = ''Timeout''"
| "ask_outcome_text AskFailed = ''Failed''"

fun stop_reason_text :: "stop_reason \<Rightarrow> string" where
  "stop_reason_text StopNormal = ''Normal''"
| "stop_reason_text StopCrashed = ''Crashed''"
| "stop_reason_text StopEscalated = ''Escalated''"
| "stop_reason_text StopPassivated = ''Passivated''"
| "stop_reason_text StopShutdown = ''Shutdown''"

fun reason_text :: "dead_letter_reason \<Rightarrow> string" where
  "reason_text DlUnresolvable = ''Unresolvable''"
| "reason_text DlUnknownSchema = ''UnknownSchema''"
| "reason_text DlDecode = ''Decode''"
| "reason_text DlInboxRefused = ''InboxRefused''"
| "reason_text DlStoppedWithMail = ''StoppedWithMail''"
| "reason_text DlShuttingDown = ''ShuttingDown''"
| "reason_text DlUndeclaredEvent = ''UndeclaredEvent''"
| "reason_text DlUndeclaredEmit = ''UndeclaredEmit''"
| "reason_text DlShardKeyMissing = ''ShardKeyMissing''"

definition trace_entries :: "(nat \<Rightarrow> string) \<Rightarrow> trace_ctx \<Rightarrow> (string \<times> json) list" where
  "trace_entries uuid tr =
     [(''trace_id'', JStr (uuid (tr_trace tr))), (''causality_id'', JStr (uuid (tr_causality tr)))]"

fun kind_entries :: "(nat \<Rightarrow> string) \<Rightarrow> observation_kind \<Rightarrow> (string \<times> json) list" where
  "kind_entries uuid (ObSent from dest schema tr) =
     [(''kind'', JStr ''sent''), (''from'', case from of None \<Rightarrow> JNull | Some p \<Rightarrow> JStr p),
      (''dest'', JStr (address_text uuid dest)), (''schema'', JStr schema)] @ trace_entries uuid tr"
| "kind_entries uuid (ObDelivered to schema tr) =
     [(''kind'', JStr ''delivered''), (''to'', JStr to), (''schema'', JStr schema)] @ trace_entries uuid tr"
| "kind_entries uuid (ObAcked to schema tr) =
     [(''kind'', JStr ''acked''), (''to'', JStr to), (''schema'', JStr schema)] @ trace_entries uuid tr"
| "kind_entries uuid (ObAskOpened from dest tr) =
     [(''kind'', JStr ''ask_opened''), (''from'', JStr from), (''dest'', JStr (address_text uuid dest))]
     @ trace_entries uuid tr"
| "kind_entries uuid (ObAskSettled result tr) =
     [(''kind'', JStr ''ask_settled''), (''outcome'', JStr (ask_outcome_text result))] @ trace_entries uuid tr"
| "kind_entries uuid (ObSpawned path k restart) =
     [(''kind'', JStr ''spawned''), (''path'', JStr path), (''actor_kind'', JStr (kind_text k)),
      (''restart'', JBool restart)]"
| "kind_entries uuid (ObStopped path reason) =
     [(''kind'', JStr ''stopped''), (''path'', JStr path), (''reason'', JStr (stop_reason_text reason))]"
| "kind_entries uuid (ObFailed path error) =
     [(''kind'', JStr ''failed''), (''path'', JStr path), (''error'', JStr error)]"
| "kind_entries uuid (ObSnapshotTaken path s) =
     [(''kind'', JStr ''snapshot_taken''), (''path'', JStr path), (''seq'', JInt (int s))]"
| "kind_entries uuid (ObEscalated path reason) =
     [(''kind'', JStr ''escalated''), (''path'', JStr path), (''reason'', JStr reason)]"
| "kind_entries uuid (ObLinkNotified parent child) =
     [(''kind'', JStr ''link_notified''), (''parent'', JStr parent), (''child'', JStr child)]"
| "kind_entries uuid (ObDeadLettered dest schema reason tr) =
     [(''kind'', JStr ''dead_lettered''), (''dest'', JStr (address_text uuid dest)), (''schema'', JStr schema),
      (''reason'', JStr (reason_text reason))] @ trace_entries uuid tr"
| "kind_entries uuid (ObBackpressured path depth) =
     [(''kind'', JStr ''backpressured''), (''path'', JStr path), (''depth'', JInt (int depth))]"
| "kind_entries uuid (ObCaughtUp path seeded) =
     [(''kind'', JStr ''caught_up''), (''path'', JStr path), (''seeded'', JInt (int seeded))]"

definition observation_to_json :: "(nat \<Rightarrow> string) \<Rightarrow> observation \<Rightarrow> json" where
  "observation_to_json uuid ob =
     JObj (AList.update ''ts'' (JInt (int (as_millis (ob_ts ob)))) (kind_entries uuid (ob_kind ob)))"

subsection \<open>The capturing log\<close>

definition tally :: "'k list \<Rightarrow> ('k \<times> nat) list" where
  "tally ks = fold (\<lambda>k m. AList.update k (get_or 0 m k + 1) m) ks []"

text \<open>The name the census counts by: the debug form up to its first brace.\<close>

fun kind_name :: "observation_kind \<Rightarrow> string" where
  "kind_name (ObSent _ _ _ _) = ''Sent''"
| "kind_name (ObDelivered _ _ _) = ''Delivered''"
| "kind_name (ObAcked _ _ _) = ''Acked''"
| "kind_name (ObAskOpened _ _ _) = ''AskOpened''"
| "kind_name (ObAskSettled _ _) = ''AskSettled''"
| "kind_name (ObSpawned _ _ _) = ''Spawned''"
| "kind_name (ObStopped _ _) = ''Stopped''"
| "kind_name (ObFailed _ _) = ''Failed''"
| "kind_name (ObSnapshotTaken _ _) = ''SnapshotTaken''"
| "kind_name (ObEscalated _ _) = ''Escalated''"
| "kind_name (ObLinkNotified _ _) = ''LinkNotified''"
| "kind_name (ObDeadLettered _ _ _ _) = ''DeadLettered''"
| "kind_name (ObBackpressured _ _) = ''Backpressured''"
| "kind_name (ObCaughtUp _ _) = ''CaughtUp''"

definition kind_counts :: "observation list \<Rightarrow> (string \<times> nat) list" where
  "kind_counts log = tally (map (\<lambda>ob. kind_name (ob_kind ob)) log)"

lemma get_or_tally: "get_or 0 (tally ks) k = count_list ks k"
proof -
  have "get_or 0 (fold (\<lambda>k m. AList.update k (get_or 0 m k + 1) m) ks m) k = get_or 0 m k + count_list ks k" for m
    by (induction ks arbitrary: m) (auto simp: get_or_update)
  from this [of "[]"] show ?thesis by (simp add: tally_def get_or_def)
qed

lemma tally_keys: "distinct (map fst (tally ks))" "fst ` set (tally ks) = set ks"
proof -
  have "distinct (map fst m) \<Longrightarrow> distinct (map fst (fold (\<lambda>k m. AList.update k (get_or (0 :: nat) m k + 1) m) ks m))" for m
    by (induction ks arbitrary: m) simp_all
  then show "distinct (map fst (tally ks))" unfolding tally_def by simp
  have "fst ` set (fold (\<lambda>k m. AList.update k (get_or (0 :: nat) m k + 1) m) ks m) = fst ` set m \<union> set ks" for m
    by (induction ks arbitrary: m) (auto simp: dom_update)
  from this [of "[]"] show "fst ` set (tally ks) = set ks" by (simp add: tally_def)
qed

lemma tally_count: "(k, n) \<in> set (tally ks) \<Longrightarrow> n = count_list ks k"
  using get_or_tally [of ks k] tally_keys(1) [of ks] by (simp add: get_or_def)

subsection \<open>Lossless up to the form of a destination\<close>

lemma ask_outcome_text_inject [simp]: "ask_outcome_text a = ask_outcome_text b \<longleftrightarrow> a = b"
  by (cases a; cases b) simp_all

lemma stop_reason_text_inject [simp]: "stop_reason_text a = stop_reason_text b \<longleftrightarrow> a = b"
  by (cases a; cases b) simp_all

lemma reason_text_inject [simp]: "reason_text a = reason_text b \<longleftrightarrow> a = b"
  by (cases a; cases b) simp_all

lemma kind_text_inject [simp]: "kind_text a = kind_text b \<longleftrightarrow> a = b"
  by (cases a; cases b) simp_all

text \<open>A path that could be read as the text of another kind of address is excluded.\<close>

fun plain_address :: "address \<Rightarrow> bool" where
  "plain_address (APath path) = (take 5 path \<noteq> ''slot('' \<and> take 7 path \<noteq> ''schema('')"
| "plain_address _ = True"

fun plain_dest :: "observation_kind \<Rightarrow> bool" where
  "plain_dest (ObSent from dest schema tr) = plain_address dest"
| "plain_dest (ObAskOpened from dest tr) = plain_address dest"
| "plain_dest (ObDeadLettered dest schema reason tr) = plain_address dest"
| "plain_dest _ = True"

lemma address_text_inject:
  assumes "inj uuid" "plain_address a" "plain_address b"
  shows "address_text uuid a = address_text uuid b \<longleftrightarrow> a = b"
  using assms by (cases a; cases b) (auto simp: inj_eq)

lemma trace_entries_inject:
  assumes "inj uuid"
  shows "trace_entries uuid s = trace_entries uuid t \<longleftrightarrow> s = t"
  using assms by (cases s; cases t) (auto simp: trace_entries_def inj_eq)

lemma ts_update:
  "AList.update ''ts'' j (kind_entries uuid k) = kind_entries uuid k @ [(''ts'', j)]"
  by (cases k) (simp_all add: trace_entries_def)

lemma kind_entries_inject:
  assumes "inj uuid" "plain_dest a" "plain_dest b" "kind_entries uuid a = kind_entries uuid b"
  shows "a = b"
  using assms(2-4)
  by (cases a; cases b)
    (auto simp: address_text_inject [OF assms(1)] trace_entries_inject [OF assms(1)] split: option.splits)

text \<open>
  C38. The JSON form of an observation loses nothing.  Where a destination path cannot be read as a
  slot or a schema, two observations with the same JSON are the same, whichever of the fourteen
  variants they are.
\<close>

theorem observation_json_lossless:
  assumes "inj uuid" and "plain_dest (ob_kind a)" and "plain_dest (ob_kind b)"
    and "observation_to_json uuid a = observation_to_json uuid b"
  shows "a = b"
proof -
  have "as_millis (ob_ts a) = as_millis (ob_ts b)" "kind_entries uuid (ob_kind a) = kind_entries uuid (ob_kind b)"
    using assms(4) by (simp_all add: observation_to_json_def ts_update)
  with kind_entries_inject [OF assms(1-3)] show ?thesis
    by (cases "ob_ts a"; cases "ob_ts b"; cases a; cases b) simp
qed

theorem observation_json_lossless_witness:
  "observation_to_json nat_text \<lparr>ob_ts = Timestamp 42, ob_kind = ObSent None (APath ''a'') ''Add'' \<lparr>tr_trace = 1, tr_causality = 2\<rparr>\<rparr> \<noteq>
   observation_to_json nat_text \<lparr>ob_ts = Timestamp 42, ob_kind = ObSent None (ASlot 7) ''Add'' \<lparr>tr_trace = 1, tr_causality = 2\<rparr>\<rparr>"
proof -
  have "inj nat_text" by (simp add: inj_def)
  from observation_json_lossless [OF this, of "\<lparr>ob_ts = Timestamp 42, ob_kind = ObSent None (APath ''a'') ''Add'' \<lparr>tr_trace = 1, tr_causality = 2\<rparr>\<rparr>"
      "\<lparr>ob_ts = Timestamp 42, ob_kind = ObSent None (ASlot 7) ''Add'' \<lparr>tr_trace = 1, tr_causality = 2\<rparr>\<rparr>"]
  show ?thesis by auto
qed

text \<open>Without the side condition two destinations can share their text.\<close>

lemma destination_text_ambiguous:
  "address_text uuid (APath ''schema(Order)'') = address_text uuid (ASchema ''Order'')"
  by simp

subsection \<open>The system export\<close>

datatype edge_direction = HandlesEdge | EmitsEdge

record actor_export =
  ax_path :: string
  ax_kind :: actor_kind
  ax_manifest :: actor_manifest
  ax_state :: "json option"
  ax_cursor :: "nat option"

record declared_edge =
  de_actor :: string
  de_schema :: string
  de_direction :: edge_direction

record observed_edge =
  oe_from :: "string option"
  oe_to :: string
  oe_schema :: string
  oe_count :: nat

record partition_export =
  px_path :: string
  px_key_field :: string
  px_entities :: "string list"

record rule_export =
  rx_source :: "string option"
  rx_schema :: "string option"
  rx_dest :: "string option"
  rx_action :: string
  rx_observer :: string

record system_export =
  sx_schemas :: "schema_def list"
  sx_actors :: "actor_export list"
  sx_declared :: "declared_edge list"
  sx_observed :: "observed_edge list"
  sx_partitions :: "partition_export list"
  sx_rules :: "rule_export list"

definition set_observation :: "('st, 'sv, 's) world \<Rightarrow> ('st, 'sv, 's) world" where
  "set_observation = set_observer True"

definition clear_observation :: "('st, 'sv, 's) world \<Rightarrow> ('st, 'sv, 's) world" where
  "clear_observation = set_observer False"

text \<open>What the export's own handler counts.\<close>

definition sent_key :: "(nat \<Rightarrow> string) \<Rightarrow> observation \<Rightarrow> (string option \<times> string \<times> string) option" where
  "sent_key uuid ob =
     (case ob_kind ob of
        ObSent from dest schema tr \<Rightarrow> Some (from, address_text uuid dest, schema)
      | _ \<Rightarrow> None)"

definition export_row ::
  "(string \<Rightarrow> ('st, 'sv, 's) world \<Rightarrow> ('st, 'sv, 's) world) \<Rightarrow> string \<times> actor_manifest
   \<Rightarrow> (('st, 'sv, 's) world, actor_export) act" where
  "export_row others = (\<lambda>(path, manifest) w.
     (let cursor = inbox_cursor path w;
          row = (\<lambda>state. \<lparr>ax_path = path,
                          ax_kind = (case mf_kind manifest of None \<Rightarrow> Service | Some k \<Rightarrow> k),
                          ax_manifest = manifest, ax_state = state, ax_cursor = cursor\<rparr>)
      in case map_of (w_es_state w) path of
           None \<Rightarrow> (Done (row None), w)
         | Some i \<Rightarrow>
             (let w1 = others path w; shell = w_shell_heap w1 i
              in case capture_erased (dy_code shell) (dy_shell shell) of
                   Panicked m \<Rightarrow> (Panicked m, w1)
                 | Done (Inl _) \<Rightarrow> (Done (row None), w1)
                 | Done (Inr j) \<Rightarrow> (Done (row (Some j)), w1))))"

fun export_rows ::
  "(string \<Rightarrow> ('st, 'sv, 's) world \<Rightarrow> ('st, 'sv, 's) world) \<Rightarrow> (string \<times> actor_manifest) list
   \<Rightarrow> (('st, 'sv, 's) world, actor_export list) act" where
  "export_rows others [] = act_ret []"
| "export_rows others (pm # pms) =
     act_bind (export_row others pm) (\<lambda>row. act_bind (export_rows others pms) (\<lambda>rows. act_ret (row # rows)))"

definition declared_edges :: "actor_export list \<Rightarrow> declared_edge list" where
  "declared_edges rows =
     concat (map (\<lambda>a.
       map (\<lambda>s. \<lparr>de_actor = ax_path a, de_schema = s, de_direction = HandlesEdge\<rparr>) (mf_handles (ax_manifest a)) @
       map (\<lambda>s. \<lparr>de_actor = ax_path a, de_schema = s, de_direction = EmitsEdge\<rparr>) (mf_emits (ax_manifest a))) rows)"

definition edge_key :: "observed_edge \<Rightarrow> string option \<times> string \<times> string" where
  "edge_key e = (oe_from e, oe_to e, oe_schema e)"

fun edge_of :: "(string option \<times> string \<times> string) \<times> nat \<Rightarrow> observed_edge" where
  "edge_of ((from, to, schema), n) = \<lparr>oe_from = from, oe_to = to, oe_schema = schema, oe_count = n\<rparr>"

definition observed_edges :: "(nat \<Rightarrow> string) \<Rightarrow> observation list \<Rightarrow> observed_edge list" where
  "observed_edges uuid log =
     sort_key edge_key
       (map edge_of (tally (List.map_filter (sent_key uuid) log)))"

definition topology_export :: "registry \<Rightarrow> partition_export list \<times> rule_export list" where
  "topology_export r =
     (map (\<lambda>(p, k, es). \<lparr>px_path = p, px_key_field = k, px_entities = es\<rparr>) (fst (topology r)),
      map (\<lambda>(ru, action, ob). \<lparr>rx_source = ru_source ru, rx_schema = ru_schema ru, rx_dest = ru_dest ru,
                               rx_action = action, rx_observer = ob\<rparr>) (snd (topology r)))"

text \<open>
  The observation handler a host had is replaced and not put back.  \<open>others\<close> is assumed to install none
  of its own, so what is observed after the opening is what the counting handler saw.  An export whose
  counting handler is still running in another task when it closes its window (\<open>Arc::try_unwrap\<close> then
  answers the default, no edge at all) is not modelled, nor an inbox whose lock is held when its cursor
  is read.
\<close>

definition export ::
  "(nat \<Rightarrow> string) \<Rightarrow> (string \<Rightarrow> ('st, 'sv, 's) world \<Rightarrow> ('st, 'sv, 's) world)
   \<Rightarrow> (('st, 'sv, 's) world, system_export) act" where
  "export uuid others w =
     (let w1 = set_observation w;
          schemas = table_all (rg_schemas (w_registry w1))
      in act_bind (export_rows others (slot_manifests (w_registry w1)))
           (\<lambda>rows w2.
              let w3 = clear_observation w2;
                  (partitions, rules) = topology_export (w_registry w3)
              in (Done \<lparr>sx_schemas = schemas, sx_actors = rows, sx_declared = declared_edges rows,
                        sx_observed = observed_edges uuid (drop (length (w_observed w)) (w_observed w2)),
                        sx_partitions = partitions, sx_rules = rules\<rparr>, w3)) w1)"

subsection \<open>Inspection\<close>

definition dead_letter_count :: "('st, 'sv, 's) world \<Rightarrow> nat" where
  "dead_letter_count w = length (w_dead_letters w)"

definition dead_letter_reasons :: "('st, 'sv, 's) world \<Rightarrow> string list" where
  "dead_letter_reasons w = map (\<lambda>d. reason_text (dl_reason d) @ '': '' @ dl_schema d) (w_dead_letters w)"

text \<open>A store that is not the in-memory one shows nothing here.\<close>

definition journal_schemas :: "('s \<Rightarrow> mem_store option) \<Rightarrow> string \<Rightarrow> ('st, 'sv, 's) world \<Rightarrow> string list" where
  "journal_schemas in_memory path w =
     (case in_memory (w_store w) of
        None \<Rightarrow> []
      | Some mem \<Rightarrow> List.map_filter (\<lambda>entry. map_option ev_schema (je_as_event entry)) (entries_of path mem))"

text \<open>The reads that never wait: a shell whose lock is held by its fold is not read.\<close>

definition try_with_es_state ::
  "(nat \<Rightarrow> bool) \<Rightarrow> string \<Rightarrow> ('st \<Rightarrow> 'r) \<Rightarrow> ('st, 'sv, 's) world \<Rightarrow> 'r option" where
  "try_with_es_state locked path f w =
     (case map_of (w_es_state w) path of
        None \<Rightarrow> None
      | Some i \<Rightarrow> if locked i then None else with_es_state f (dy_shell (w_shell_heap w i)))"

definition try_with_projector_state ::
  "(nat \<Rightarrow> bool) \<Rightarrow> string \<Rightarrow> ('st \<Rightarrow> 'r) \<Rightarrow> ('st, 'sv, 's) world \<Rightarrow> 'r option" where
  "try_with_projector_state locked path f w =
     (case map_of (w_es_state w) path of
        None \<Rightarrow> None
      | Some i \<Rightarrow> if locked i then None else with_projector_state f (dy_shell (w_shell_heap w i)))"

lemma try_read_agrees:
  "\<not> (\<exists>i. locked i) \<Longrightarrow> try_with_es_state locked path f w = read_es path f w"
  "\<not> (\<exists>i. locked i) \<Longrightarrow> try_with_projector_state locked path f w = read_projector path f w"
  by (simp_all add: try_with_es_state_def try_with_projector_state_def read_es_def read_projector_def
      split: option.splits)

subsection \<open>What an export holds\<close>

definition appends_only ::
  "(string \<Rightarrow> ('st, 'sv, 's) world \<Rightarrow> ('st, 'sv, 's) world) \<Rightarrow> bool" where
  "appends_only others \<longleftrightarrow> (\<forall>p w. \<exists>ks. w_observed (others p w) = w_observed w @ ks)"

lemma export_row_keeps:
  assumes "appends_only others" "export_row others pm w = (Done r, w')"
  shows "(ax_path r, ax_manifest r) = pm" "\<exists>ks. w_observed w' = w_observed w @ ks"
  using assms
  by (auto simp: export_row_def Let_def appends_only_def split: option.splits outcome.splits sum.splits prod.splits)

lemma export_rows_keep:
  assumes "appends_only others"
  shows "export_rows others pms w = (Done rows, w') \<Longrightarrow>
    map (\<lambda>r. (ax_path r, ax_manifest r)) rows = pms \<and> (\<exists>ks. w_observed w' = w_observed w @ ks)"
proof (induction pms arbitrary: w rows)
  case Nil
  then show ?case by (simp add: act_ret_def)
next
  case (Cons pm pms)
  from Cons.prems obtain r w1 rs where row: "export_row others pm w = (Done r, w1)"
    and rest: "export_rows others pms w1 = (Done rs, w')" and rows: "rows = r # rs"
    by (auto simp: act_bind_def act_ret_def split: prod.splits outcome.splits)
  from Cons.IH [OF rest] export_row_keeps [OF assms row] rows show ?case by auto
qed

lemma count_sent:
  "count_list (List.map_filter (sent_key uuid) log) k = length (filter (\<lambda>ob. sent_key uuid ob = Some k) log)"
  by (induction log) (auto simp: List.map_filter_simps split: option.splits)

lemma edge_of_reads [simp]: "edge_key (edge_of kn) = fst kn" "oe_count (edge_of kn) = snd kn"
  by (cases kn rule: edge_of.cases, simp add: edge_key_def)+

lemma observed_edges_counts:
  "(\<exists>e \<in> set (observed_edges uuid log). edge_key e = k \<and> oe_count e = n) \<longleftrightarrow>
     n > 0 \<and> n = length (filter (\<lambda>ob. sent_key uuid ob = Some k) log)"
proof -
  let ?t = "tally (List.map_filter (sent_key uuid) log)"
  have "(\<exists>e \<in> set (observed_edges uuid log). edge_key e = k \<and> oe_count e = n) \<longleftrightarrow> (k, n) \<in> set ?t"
    by (force simp: observed_edges_def)
  also have "\<dots> \<longleftrightarrow> map_of ?t k = Some n"
    by (simp add: tally_keys(1))
  also have "\<dots> \<longleftrightarrow> n > 0 \<and> n = get_or 0 ?t k"
  proof (cases "map_of ?t k")
    case (Some m)
    then have "k \<in> set (List.map_filter (sent_key uuid) log)"
      using tally_keys(2) by (metis map_of_SomeD fst_conv image_eqI)
    then have "0 < get_or 0 ?t k"
      by (simp add: get_or_tally count_list_0_iff zero_less_iff_neq_zero del: neq0_conv)
    with Some show ?thesis by (auto simp: get_or_def)
  qed (auto simp: get_or_def)
  finally show ?thesis by (simp add: get_or_tally count_sent)
qed

lemma observed_edges_sorted:
  "sorted (map edge_key (observed_edges uuid log))" "distinct (map edge_key (observed_edges uuid log))"
proof -
  show "sorted (map edge_key (observed_edges uuid log))" by (simp add: observed_edges_def)
  have "distinct (map edge_key (map edge_of (tally (List.map_filter (sent_key uuid) log))))"
    using tally_keys(1) [of "List.map_filter (sent_key uuid) log"] by (simp add: comp_def)
  then show "distinct (map edge_key (observed_edges uuid log))"
    unfolding distinct_map [of edge_key] observed_edges_def by simp
qed

lemma export_Done:
  assumes "export uuid others w = (Done x, w')"
  obtains rows w2 where "export_rows others (slot_manifests (w_registry w)) (set_observation w) = (Done rows, w2)"
    "sx_actors x = rows" "sx_declared x = declared_edges rows" "w' = clear_observation w2"
    "sx_observed x = observed_edges uuid (drop (length (w_observed w)) (w_observed w2))"
  using assms
  by (auto simp: export_def Let_def act_bind_def set_observation_def set_observer_def
      split: prod.splits outcome.splits)

lemma declared_edges_iff:
  "\<lparr>de_actor = a, de_schema = s, de_direction = dir\<rparr> \<in> set (declared_edges rows) \<longleftrightarrow>
     (\<exists>m. (a, m) \<in> set (map (\<lambda>r. (ax_path r, ax_manifest r)) rows) \<and>
          s \<in> set (case dir of HandlesEdge \<Rightarrow> mf_handles m | EmitsEdge \<Rightarrow> mf_emits m))"
  by (cases dir) (force simp: declared_edges_def)+


text \<open>A send observed while the export waits for the state at \<open>a\<close>.\<close>

definition demo_others :: "string \<Rightarrow> (int, nat, mem_store) world \<Rightarrow> (int, nat, mem_store) world" where
  "demo_others path = observe (from_millis 7) (ObSent None (APath path) ''Add'' \<lparr>tr_trace = 1, tr_causality = 2\<rparr>)"

definition demo_exported :: "(int, nat, mem_store) world" where
  "demo_exported = (demo_world [''Add''])
     \<lparr>w_observing := True,
      w_registry := registry_new\<lparr>rg_slots :=
        [(''a'', \<lparr>sl_manifest = \<lparr>mf_handles = [''Add''], mf_emits = [''Ticked''], mf_kind = Some EventSourced\<rparr>,
                 sl_endpoint = Some 0, sl_inbox_policy = Block\<rparr>)]\<rparr>\<rparr>"


end
