(* ===== verification/Services.thy ===== *)
theory Services
  imports Asks StepFacts
begin

text \<open>
  The service tier's adapters (\<open>src/src/actor.rs\<close>), the asks of a handler's context
  (\<open>src/src/context.rs\<close>), and the reporter actor the runtime ships (\<open>src/src/state_report.rs\<close>).

  An erased service instance is its Rust type with its state; an adapter holds the actor type and the
  message type it was made for, the message's deserialiser and the author's handler, which runs over the
  world and may panic.
\<close>

subsection \<open>Service shells and adapters\<close>

type_synonym 'a service_shell = "string \<times> 'a"

record ('a, 'w) msg_adapter =
  ma_schema :: string
  ma_actor :: string
  ma_message :: string
  ma_decode :: "json \<Rightarrow> live_value option"
  ma_handle :: "live_value \<Rightarrow> msg_view \<Rightarrow> 'a \<Rightarrow> 'w \<Rightarrow> unit outcome \<times> outbox \<times> 'a \<times> 'w"

definition service_new :: "string \<Rightarrow> 'a \<Rightarrow> 'a service_shell" where
  "service_new ty state = (ty, state)"

definition as_any_service :: "string \<Rightarrow> 'a service_shell \<Rightarrow> 'a option" where
  "as_any_service ty sv = (if fst sv = ty then Some (snd sv) else None)"

text \<open>
  The handler's poll is panic-isolated: a panic keeps what the handler did to its state and the world.
  The downcast of the instance is outside that isolation: it runs when the future is made, and its panic
  ends the loop task.
\<close>

definition run_handler ::
  "('a, 'w) msg_adapter \<Rightarrow> live_value \<Rightarrow> msg_view \<Rightarrow> string \<times> 'a \<Rightarrow> 'w
   \<Rightarrow> msg_result \<times> outbox \<times> 'a service_shell \<times> 'w" where
  "run_handler ad msg view sv w =
     (case ma_handle ad msg view (snd sv) w of
        (Done _, ob, state', w') \<Rightarrow> (MsgOk, ob, (fst sv, state'), w')
      | (Panicked _, ob, state', w') \<Rightarrow> (MsgPanic, ob, (fst sv, state'), w'))"

definition service_dispatch ::
  "serde \<Rightarrow> ('a, 'w) msg_adapter \<Rightarrow> payload \<Rightarrow> msg_view \<Rightarrow> 'a service_shell \<Rightarrow> 'w
   \<Rightarrow> (msg_result \<times> outbox \<times> 'a service_shell \<times> 'w) outcome" where
  "service_dispatch sd ad p view sv w =
     (let call = (\<lambda>msg. case as_any_service (ma_actor ad) sv of
                          None \<Rightarrow> Panicked ''service adapter/type mismatch -- kernel bug''
                        | Some _ \<Rightarrow> Done (run_handler ad msg view sv w))
      in case value_ref (ma_message ad) (payload_inner p) of
           Some msg \<Rightarrow> call msg
         | None \<Rightarrow>
             (case downcast sd (ma_message ad) (ma_decode ad) (payload_inner p) of
                None \<Rightarrow> Done (MsgDecode (''message '' @ ma_schema ad @ '' did not match its schema''), [], sv, w)
              | Some decoded \<Rightarrow> call decoded))"

text \<open>A lent live value and its decoded wire form run the same handler on the same message.\<close>

lemma service_doors_agree:
  assumes "lv_type v = ma_message ad" "sd_parse sd b = Some j" "ma_decode ad j = Some v"
  shows "service_dispatch sd ad (payload_bytes b) view sv w = service_dispatch sd ad (payload_value v) view sv w"
    and "service_dispatch sd ad (payload_json_view j) view sv w = service_dispatch sd ad (payload_value v) view sv w"
  using assms by (simp_all add: service_dispatch_def payload_bytes_def payload_value_def payload_json_view_def)

text \<open>A payload that is not the message's leaves the actor and the world as they were.\<close>

lemma service_decode_untouched:
  "service_dispatch sd ad p view sv w = Done (MsgDecode e, ob, sv', w') \<Longrightarrow> ob = [] \<and> sv' = sv \<and> w' = w"
  by (auto simp: service_dispatch_def run_handler_def Let_def split: option.splits prod.splits outcome.splits)

text \<open>An adapter made for the instance's type never ends the loop, and keeps the instance's type.\<close>

lemma service_dispatch_total:
  "fst sv = ma_actor ad \<Longrightarrow> \<exists>r ob s w'. service_dispatch sd ad p view sv w = Done (r, ob, (fst sv, s), w')"
  by (cases sv) (auto simp: service_dispatch_def as_any_service_def run_handler_def Let_def split: option.split prod.split outcome.split)

subsection \<open>Asks from a handler\<close>

text \<open>Without a port an ask panics; with one it is the ask of \<open>Asks\<close> under the message's trace.\<close>

definition ctx_ask_json ::
  "bool \<Rightarrow> msg_view \<Rightarrow> address \<Rightarrow> string \<Rightarrow> json \<Rightarrow> duration \<Rightarrow> (('st, 'sv, 's) world, ask_error + nat) act" where
  "ctx_ask_json port view dest schema j timeout =
     (if \<not> port then act_panic ''ask requires a port (service tier)''
      else ask_begin dest schema (payload_json_view j) timeout (mv_trace view))"

definition ctx_ask ::
  "bool \<Rightarrow> msg_view \<Rightarrow> address \<Rightarrow> string \<Rightarrow> live_value \<Rightarrow> duration \<Rightarrow> (('st, 'sv, 's) world, ask_error + nat) act" where
  "ctx_ask port view dest schema v timeout =
     (if \<not> port then act_panic ''ask requires a port (service tier)''
      else ask_begin dest schema (payload_value v) timeout (mv_trace view))"

text \<open>The last step of a typed ask: \<open>?\<close> on the wait, then the downcast.\<close>

definition ask_typed_answer ::
  "serde \<Rightarrow> string \<Rightarrow> string \<Rightarrow> (json \<Rightarrow> live_value option) \<Rightarrow> ask_error + payload \<Rightarrow> ask_error + live_value" where
  "ask_typed_answer sd schema ty decode answer =
     (case answer of Inl e \<Rightarrow> Inl e | Inr p \<Rightarrow> downcast_reply sd schema ty decode p)"

definition system_ask_typed ::
  "string \<Rightarrow> string \<Rightarrow> live_value \<Rightarrow> duration \<Rightarrow> (('st, 'sv, 's) world, ask_error + nat) act" where
  "system_ask_typed dest schema v timeout w =
     (let (tr, w1) = new_trace_root w in ask_begin (APath dest) schema (payload_value v) timeout tr w1)"

lemma typed_reply_in_kind:
  "lv_type v = ty \<Longrightarrow> ask_typed_answer sd schema ty decode (Inr (payload_value v)) = Inr v"
  by (simp add: ask_typed_answer_def downcast_reply_def payload_value_def)

lemma typed_reply_wrong_kind:
  "lv_type v \<noteq> ty \<Longrightarrow>
   ask_typed_answer sd schema ty decode (Inr (payload_value v)) = Inl (ReplyTypeError (''reply is not a '' @ schema))"
  by (simp add: ask_typed_answer_def downcast_reply_def payload_value_def)

subsection \<open>The state reporter\<close>

text \<open>Adding to the report counter is checked in a debug build.\<close>

record reporter =
  rt_seq :: nat
  rt_export :: "json option"

definition report_state_schema :: schema_def where
  "report_state_schema =
     \<lparr>sch_name = ''ReportState'', sch_kind = Command,
      sch_fields = [with_description ''the captured SystemExport document'' (field_required ''export'' TJson)],
      sch_description = Some ''record the attached system export as a fact''\<rparr>"

definition state_reported_schema :: schema_def where
  "state_reported_schema =
     \<lparr>sch_name = ''StateReported'', sch_kind = Event, sch_fields = [],
      sch_description = Some ''the payload is the SystemExport document itself, not a field of it''\<rparr>"

definition reporter_manifest :: actor_manifest where
  "reporter_manifest =
     manifest_kind EventSourced (emits_id ''StateReported'' (handles_id ''ReportState'' manifest_new))"

definition reporter_restore :: "json \<Rightarrow> reporter" where
  "reporter_restore args = \<lparr>rt_seq = 0, rt_export = None\<rparr>"

definition reporter_apply :: "serde \<Rightarrow> event \<Rightarrow> reporter \<Rightarrow> reporter outcome" where
  "reporter_apply sd e s =
     (if ev_schema e = ''StateReported''
      then (if rt_seq s = u64_max then Panicked ''attempt to add with overflow''
            else Done \<lparr>rt_seq = rt_seq s + 1, rt_export = Some (payload_json sd (ev_payload e))\<rparr>)
      else Done s)"

text \<open>The command is its one field, the captured document.\<close>

definition reporter_handle :: "json \<Rightarrow> reporter \<Rightarrow> event list" where
  "reporter_handle export s = [event_from_json_view ''StateReported'' export]"

text \<open>The derived codec of the state; capture and restore are the defaults over it.\<close>

definition reporter_to_json :: "reporter \<Rightarrow> json" where
  "reporter_to_json s =
     JObj [(''seq'', JInt (int (rt_seq s))), (''export'', case rt_export s of None \<Rightarrow> JNull | Some j \<Rightarrow> j)]"

definition reporter_of_json :: "json \<Rightarrow> reporter option" where
  "reporter_of_json j =
     (case (json_get j ''seq'', json_get j ''export'') of
        (Some (JInt n), ex) \<Rightarrow>
          if n < 0 \<or> int u64_max < n then None
          else Some \<lparr>rt_seq = nat n, rt_export = (case ex of None \<Rightarrow> None | Some v \<Rightarrow> if v = JNull then None else Some v)\<rparr>
      | _ \<Rightarrow> None)"

definition reporter_code :: "serde \<Rightarrow> reporter es_code" where
  "reporter_code sd =
     \<lparr>ec_restore = reporter_restore, ec_default = reporter_restore JNull, ec_apply = reporter_apply sd,
      ec_capture = (\<lambda>s. Inr (reporter_to_json s)),
      ec_restore_from = (\<lambda>j. case reporter_of_json j of None \<Rightarrow> Inl RestoreError | Some s \<Rightarrow> Inr s),
      ec_encode = (\<lambda>s. Done (reporter_to_json s)), ec_decode = reporter_of_json, ec_fold = (\<lambda>e j. Done j)\<rparr>"

text \<open>A state whose last export is the JSON null comes back without one: \<open>Some(null)\<close> is written as null.\<close>

lemma reporter_roundtrip:
  "rt_seq s \<le> u64_max \<Longrightarrow> rt_export s \<noteq> Some JNull \<Longrightarrow> reporter_of_json (reporter_to_json s) = Some s"
  by (cases s) (auto simp: reporter_of_json_def reporter_to_json_def split: option.splits)

lemma reporter_null_forgotten:
  "n \<le> u64_max \<Longrightarrow> reporter_of_json (reporter_to_json \<lparr>rt_seq = n, rt_export = Some JNull\<rparr>) = Some \<lparr>rt_seq = n, rt_export = None\<rparr>"
  by (simp add: reporter_of_json_def reporter_to_json_def)

lemma reported_event [simp]:
  "ev_schema (event_from_json_view n d) = n" "payload_json sd (ev_payload (event_from_json_view n d)) = d"
  by (simp_all add: event_from_json_view_def payload_json_def payload_json_view_def)

lemma reporter_folds:
  "rt_seq s + length docs \<le> u64_max \<Longrightarrow>
   apply_all (reporter_code sd) (concat (map (\<lambda>d. reporter_handle d s) docs)) (TypedEs s) =
     Done (TypedEs \<lparr>rt_seq = rt_seq s + length docs,
                    rt_export = (if docs = [] then rt_export s else Some (last docs))\<rparr>)"
  by (induction docs arbitrary: s) (auto simp: reporter_handle_def reporter_code_def reporter_apply_def)

text \<open>A reporter rebuilt from its journal has counted every report and holds the last one as it was given.\<close>

lemma reporter_rebuilt:
  "length docs \<le> u64_max \<Longrightarrow>
   rebuild (reporter_code sd) args None (concat (map (\<lambda>d. reporter_handle d s) docs)) (TypedEs s) =
     Done (Inr (TypedEs \<lparr>rt_seq = length docs, rt_export = (if docs = [] then None else Some (last docs))\<rparr>))"
proof -
  assume "length docs \<le> u64_max"
  moreover have "concat (map (\<lambda>d. reporter_handle d s) docs) =
      concat (map (\<lambda>d. reporter_handle d (reporter_restore args)) docs)"
    by (simp add: reporter_handle_def)
  moreover have "ec_restore (reporter_code sd) args = reporter_restore args"
    by (simp add: reporter_code_def)
  ultimately show ?thesis
    using reporter_folds [of "reporter_restore args" docs sd]
    by (simp add: rebuild_unfold) (simp add: reporter_restore_def)
qed

end
