(* ===== verification/Configs.thy ===== *)
theory Configs
  imports Systems
begin

text \<open>
  Configurations (\<open>src/src/system.rs\<close>, \<open>JournalArgs\<close> of \<open>src/src/journal.rs\<close>) and the fabric each makes, and
  stores of a host's own that implement only the required operations of \<open>JournalStore\<close>.

  The control handler and the observation handler are known by whether one is installed.
\<close>

subsection \<open>Configurations\<close>

record 's journal_args =
  ja_store :: 's
  ja_control :: bool

record 's system_config =
  cf_clock :: clock_service
  cf_observation :: bool
  cf_mailbox :: mailbox_defaults
  cf_journal :: "'s journal_args option"

definition journal_args_new :: "'s \<Rightarrow> 's journal_args" where
  "journal_args_new store = \<lparr>ja_store = store, ja_control = False\<rparr>"

definition journal_args_control :: "'s journal_args \<Rightarrow> 's journal_args" where
  "journal_args_control a = a\<lparr>ja_control := True\<rparr>"

definition mailbox_default :: mailbox_defaults where
  "mailbox_default = \<lparr>md_capacity = 64, md_policy = Block\<rparr>"

definition config_with_clock :: "clock_service \<Rightarrow> 's system_config" where
  "config_with_clock clock =
     \<lparr>cf_clock = clock, cf_observation = False, cf_mailbox = mailbox_default, cf_journal = None\<rparr>"

definition config_production :: "'s system_config" where
  "config_production =
     \<lparr>cf_clock = clock_system, cf_observation = False, cf_mailbox = mailbox_default, cf_journal = None\<rparr>"

definition config_with_journal :: "'s journal_args \<Rightarrow> 's system_config \<Rightarrow> 's system_config" where
  "config_with_journal a c = c\<lparr>cf_journal := Some a\<rparr>"

text \<open>The test fabric: a fake clock at 1000 ms and a capturing observer.\<close>

definition config_test :: "'s system_config" where
  "config_test =
     \<lparr>cf_clock = clock_fake 1000, cf_observation = True, cf_mailbox = mailbox_default, cf_journal = None\<rparr>"

text \<open>
  The fabric of a config: its store, or the in-memory one, the clock's reading, and whether a control
  handler is wired.  \<open>epoch\<close> is the wall clock's reading, \<open>None\<close> before the epoch.
\<close>

definition system_from ::
  "'s \<Rightarrow> 's system_config \<Rightarrow> nat option \<Rightarrow> 64 word \<Rightarrow> 'st dyn_es \<Rightarrow> 'sv \<Rightarrow> ('st, 'sv, 's) world \<times> bool" where
  "system_from in_memory c epoch wall any_shell any_service =
     (let (store, control) = (case cf_journal c of Some a \<Rightarrow> (ja_store a, ja_control a) | None \<Rightarrow> (in_memory, False))
      in (system_new store (cf_mailbox c) (cf_observation c) wall (clock_now epoch (cf_clock c)) any_shell any_service,
          control))"

lemma system_from_ok: "world_ok (fst (system_from in_memory c epoch wall any_shell any_service))"
  by (simp add: system_from_def system_new_ok split: option.split)

lemma system_from_store:
  "w_store (fst (system_from m (config_with_journal a c) epoch wall any_shell any_service)) = ja_store a"
  "w_store (fst (system_from m config_production epoch wall any_shell any_service)) = m"
  by (simp_all add: system_from_def system_new_def config_with_journal_def config_production_def)

subsection \<open>A store with the trait's default methods\<close>

definition default_append_catchup ::
  "string \<Rightarrow> scanned_event list \<Rightarrow> 's \<Rightarrow> (journal_error + seq_no option list) \<times> 's" where
  "default_append_catchup path events s = (Inl AppendError, s)"

definition default_scan :: "string list \<Rightarrow> 's \<Rightarrow> journal_error + scanned_event list" where
  "default_scan schemas s = Inl ScanError"

definition default_passivated :: "string \<Rightarrow> 's \<Rightarrow> (journal_error + unit) \<times> 's" where
  "default_passivated path s = (Inr (), s)"

definition default_purge :: "string \<Rightarrow> 's \<Rightarrow> (journal_error + unit) \<times> 's" where
  "default_purge path s = (Inl PurgeError, s)"

definition required_only :: "'s store_ops \<Rightarrow> 's store_ops" where
  "required_only jo =
     jo\<lparr>jo_append_catchup := default_append_catchup, jo_scan := default_scan,
        jo_passivated := default_passivated, jo_purge := default_purge\<rparr>"

lemma start_loop_keeps [simp]:
  "w_es_state (start_loop a w) = w_es_state w" "w_shell_heap (start_loop a w) = w_shell_heap w"
  "w_caught_up (start_loop a w) = w_caught_up w" "w_now (start_loop a w) = w_now w"
  "w_observed (start_loop a w) = w_observed w" "w_observing (start_loop a w) = w_observing w"
  "w_store (start_loop a w) = w_store w"
  by (simp_all add: start_loop_def new_watch_def start_tracked_def store_handle_def spawn_task_def on_watch_def
      Let_def split: option.split prod.split)

text \<open>
  C39. A failed scan is announced as a completed catch-up.  Over a store that implements only the
  required operations the scan fails; a projector with no journal of its own then starts live in its
  genesis state, whatever facts the store holds for it: its catch-up counter advances, the observation
  reports zero facts seeded, and the complete read answers the empty fold.
\<close>

theorem store_without_scan_claims_caught_up:
  assumes "ho_store host = required_only jo" and "jo_load jo (lo_path (ar_loop a)) (w_store w) = (Inr None, s)"
    and "map_of (w_es_state w) (lo_path (ar_loop a)) = Some i"
  shows "\<exists>w'. catch_up_projector host a consumed w = (Done (), w') \<and>
    caught_up_past (lo_path (ar_loop a)) (get_or 0 (w_caught_up w) (lo_path (ar_loop a))) w' \<and>
    w_observed w' = w_observed w @
      (if w_observing w then [observation_new (w_now w) (ObCaughtUp (lo_path (ar_loop a)) 0)] else []) \<and>
    read_es_state (lo_path (ar_loop a)) w' = read_es_state (lo_path (ar_loop a)) w"
proof -
  let ?p = "lo_path (ar_loop a)"
  let ?w1 = "w\<lparr>w_store := s\<rparr>"
  have "catch_up_projector host a consumed w = (Done (), go_live a 0 ?w1)"
    using assms(1,2)
    by (simp add: catch_up_projector_def act_bind_def replay_own_def load_journal_def replay_with_def
        seed_gap_def required_only_def default_scan_def act_do_def split_def)
  moreover have "caught_up_past ?p (get_or 0 (w_caught_up w) ?p) (go_live a 0 ?w1)"
    "w_observed (go_live a 0 ?w1) = w_observed w @
      (if w_observing w then [observation_new (w_now w) (ObCaughtUp ?p 0)] else [])"
    "read_es_state ?p (go_live a 0 ?w1) = read_es_state ?p w"
    using assms(3)
    by (simp_all add: go_live_def Let_def caught_up_past_def bump_caught_up_def get_or_update read_es_state_def observe_def)
  ultimately show ?thesis by blast
qed

text \<open>The actor at \<open>a\<close> over a store in which another journal holds a fact.\<close>

definition demo_bare_host :: "(int, nat, mem_store) host" where
  "demo_bare_host = demo_host\<lparr>ho_store := required_only mem_ops\<rparr>"

definition demo_history :: "(int, nat, mem_store) world" where
  "demo_history = (demo_world [])
     \<lparr>w_store := snd (mem_append ''b'' [demo_event] mem_new), w_observing := True\<rparr>"

theorem store_without_scan_claims_caught_up_witness:
  "\<exists>w'. catch_up_projector demo_bare_host \<lparr>ar_loop = demo_loop, ar_endpoint = 0\<rparr> [ev_schema demo_event] demo_history
      = (Done (), w') \<and> caught_up_past ''a'' 0 w' \<and>
     w_observed w' = [observation_new (from_millis 1000) (ObCaughtUp ''a'' 0)] \<and>
     jo_scan mem_ops [ev_schema demo_event] (w_store demo_history) \<noteq> Inr []"
proof -
  have store: "ho_store demo_bare_host = required_only mem_ops"
    and load: "jo_load mem_ops (lo_path (ar_loop \<lparr>ar_loop = demo_loop, ar_endpoint = 0\<rparr>)) (w_store demo_history)
      = (Inr None, w_store demo_history)"
    and st: "map_of (w_es_state demo_history) (lo_path (ar_loop \<lparr>ar_loop = demo_loop, ar_endpoint = 0\<rparr>)) = Some 0"
    by (simp_all add: demo_bare_host_def demo_history_def mem_ops_def mem_load_def mem_append_def mem_new_def
        mem_put_def demo_world_def Let_def split_def)
  have fields: "w_caught_up demo_history = []" "w_observing demo_history" "w_now demo_history = from_millis 1000"
    "w_observed demo_history = []"
    by (simp_all add: demo_history_def demo_world_def)
  have "jo_scan mem_ops [ev_schema demo_event] (w_store demo_history) \<noteq> Inr []"
    by (simp add: mem_ops_def demo_history_def mem_scan_def mem_append_def append_event_def append_event_with_origin_def
        Let_def mem_put_def mem_new_def mem_journal_def get_or_def journal_new_def List.map_filter_simps
        demo_event_def event_new_def jn_next_seq_def)
  with store_without_scan_claims_caught_up [OF store load st, of "[ev_schema demo_event]"]
  show ?thesis by (auto simp: fields get_or_def)
qed

end
