(* ===== verification/Snapshots.thy ===== *)
theory Snapshots
  imports StepFacts
begin

text \<open>
  What the message-count cadence of snapshots (\<open>maybe_snapshot\<close> and \<open>snapshot_now\<close> of \<open>src/src/kernel.rs\<close>) means
  for recovery: which anchors a batch leaves, and what a rebuild from the last of them folds.
\<close>

subsection \<open>The anchors of a batch\<close>

lemma boundaries_not_Nil [simp]: "boundaries n l b \<noteq> []"
  by (subst boundaries.simps) simp

declare boundaries.simps [simp del]

text \<open>From the \<open>k\<close>-th boundary on, the last one visited is the last multiple of \<open>n\<close> within \<open>m\<close> events.\<close>

lemma boundaries_last:
  assumes "0 < n"
  shows "0 < k \<Longrightarrow> k * n \<le> m \<Longrightarrow> last (boundaries n (m - 1) (k * n - 1)) = m div n * n - 1"
proof (induction "m div n - k" arbitrary: k rule: less_induct)
  case less
  have pos: "0 < k * n" using assms less.prems(1) by simp
  show ?case
  proof (cases "Suc k * n \<le> m")
    case True
    then have "Suc k \<le> m div n" using assms by (simp add: less_eq_div_iff_mult_less_eq)
    then have "last (boundaries n (m - 1) (Suc k * n - 1)) = m div n * n - 1"
      using less.hyps [of "Suc k"] True by simp
    moreover have "k * n - 1 + n = Suc k * n - 1" "\<not> m - 1 < k * n - 1 + n" using True pos by auto
    ultimately show ?thesis using assms by (subst boundaries.simps) simp
  next
    case False
    then have "m div n = k" using less.prems(2) assms by (intro div_nat_eqI) (simp_all add: mult.commute)
    moreover have "m - 1 < k * n - 1 + n" using False pos less.prems(2) unfolding mult_Suc by linarith
    ultimately show ?thesis by (subst boundaries.simps) simp
  qed
qed

lemma snapshot_points_trickle:
  assumes "m - first < n"
  shows "snapshot_points n [first..<m] = []"
  using assms by (cases "first < m") (auto simp: snapshot_points_def last_upt)

lemma snapshot_points_last:
  assumes "0 < n" "first + n \<le> m"
  shows "snapshot_points n [first..<m] \<noteq> []" "last (snapshot_points n [first..<m]) = m div n * n - 1"
proof -
  let ?k = "div_ceil (first + 1) n"
  have ne: "first < m" using assms by simp
  have k: "0 < ?k" "?k * n \<le> m"
    using assms by (auto simp: div_ceil_def div_greater_zero_iff intro: order_trans [OF div_times_less_eq_dividend])
  have points: "snapshot_points n [first..<m] = boundaries n (m - 1) (?k * n - 1)"
  proof -
    have "last [first..<m] = m - 1" "hd [first..<m] = first" "[first..<m] \<noteq> []" "\<not> m - 1 + 1 - first < n" "n \<noteq> 0"
      using assms ne by (simp_all add: last_upt)
    then show ?thesis unfolding snapshot_points_def by presburger
  qed
  then show "snapshot_points n [first..<m] \<noteq> []" by simp
  show "last (snapshot_points n [first..<m]) = m div n * n - 1"
    unfolding points by (rule boundaries_last [OF assms(1) k])
qed

subsection \<open>What the snapshots of a batch hold\<close>

text \<open>One snapshot over the in-memory store.\<close>

lemma snapshot_now_written:
  assumes "jo_append_snapshot (ho_store host) = mem_append_snapshot" "mem_ok (w_store w)"
    and "lo_state lp = Some i"
    and "capture_erased (dy_code (w_shell_heap w i)) (dy_shell (w_shell_heap w i)) = Done (Inr blob)"
  shows "\<exists>w'. snapshot_now host lp q w = (Done (), w') \<and> mem_ok (w_store w') \<and> w_shell_heap w' = w_shell_heap w \<and>
    mem_hist (w_store w') = mem_hist (w_store w) \<and> mem_snap (w_store w') (lo_path lp) = Some (q, blob)"
proof -
  obtain r s where rs: "mem_append_snapshot (lo_path lp) q blob (as_millis (w_now w)) (w_store w) = (r, s)" by fastforce
  then have r: "r = Inr ()" by (simp add: mem_append_snapshot_def)
  have "mem_ok s" "mem_hist s = mem_hist (w_store w)" "mem_snap s (lo_path lp) = Some (q, blob)"
    using mem_store.snapshot_law [OF assms(2) rs [unfolded r]] by simp_all
  then show ?thesis
    using assms rs r by (simp add: snapshot_now_def act_bind_def act_of_def act_do_def loop_state_def)
qed

lemma snapshots_written:
  assumes "jo_append_snapshot (ho_store host) = mem_append_snapshot" "lo_state lp = Some i"
  shows "qs \<noteq> [] \<Longrightarrow> mem_ok (w_store w) \<Longrightarrow>
    capture_erased (dy_code (w_shell_heap w i)) (dy_shell (w_shell_heap w i)) = Done (Inr blob) \<Longrightarrow>
    \<exists>w'. act_each (snapshot_now host lp) qs w = (Done (), w') \<and> mem_ok (w_store w') \<and> w_shell_heap w' = w_shell_heap w \<and>
      mem_hist (w_store w') = mem_hist (w_store w) \<and> mem_snap (w_store w') (lo_path lp) = Some (last qs, blob)"
proof (induction qs arbitrary: w)
  case (Cons q qs)
  obtain w1 where w1: "snapshot_now host lp q w = (Done (), w1)" "mem_ok (w_store w1)" "w_shell_heap w1 = w_shell_heap w"
    "mem_hist (w_store w1) = mem_hist (w_store w)" "mem_snap (w_store w1) (lo_path lp) = Some (q, blob)"
    using snapshot_now_written [OF assms(1) Cons.prems(2) assms(2) Cons.prems(3), of q] by blast
  show ?case
  proof (cases "qs = []")
    case True
    with w1 show ?thesis by (simp add: act_bind_def act_ret_def)
  next
    case False
    with Cons.IH [OF False w1(2)] Cons.prems(3) w1 show ?thesis by (simp add: act_bind_def)
  qed
qed simp

text \<open>A path with a snapshot has a journal to load.\<close>

lemma mem_load_some:
  assumes "mem_ok st" "mem_snap st p \<noteq> None"
  obtains rp where "mem_load p st = Inr (Some rp)"
proof (cases "mem_load p st")
  case (Inr found)
  with mem_store.load_none [OF assms(1), of p] assms(2) that show ?thesis by (cases found) auto
qed (simp add: mem_load_def Let_def split: option.splits)

text \<open>
  C40. A batch that crosses a snapshot boundary corrupts recovery.  The cadence of \<open>n\<close> messages writes, after
  the whole batch is folded, the live state under the anchor of the last boundary the batch crossed.
  With \<open>m\<close> events in the journal, the events past that boundary are \<open>m mod n\<close> many and already in the
  state; a rebuild, on restart, wake or boot, folds them a second time.  Recovery gives the live state
  back only where folding them again happens not to matter, or \<open>n\<close> divides \<open>m\<close>.
\<close>

theorem batched_snapshot_folds_twice:
  assumes "ho_store host = mem_ops" and "mem_ok (w_store w)" and "lo_state lp = Some i"
    and "ce_snapshot_policy (w_cell_heap w (lo_cell lp)) = CadenceMessages n"
    and "0 < n" and "first + n \<le> length (mem_hist (w_store w) (lo_path lp))"
    and "length (mem_hist (w_store w) (lo_path lp)) \<le> u64_max"
    and "capture_erased (dy_code (w_shell_heap w i)) (dy_shell (w_shell_heap w i)) = Done (Inr blob)"
    and "rebuild_start (dy_code (w_shell_heap w i)) args (Some blob) shell = Inr (dy_shell (w_shell_heap w i))"
  shows "\<exists>w' rp twice. maybe_snapshot host lp [first..<length (mem_hist (w_store w) (lo_path lp))] w = (Done (), w') \<and>
    mem_load (lo_path lp) (w_store w') = Inr (Some rp) \<and>
    twice = drop (length (mem_hist (w_store w) (lo_path lp)) - length (mem_hist (w_store w) (lo_path lp)) mod n)
      (map jd_event (mem_hist (w_store w) (lo_path lp))) \<and>
    length twice = length (mem_hist (w_store w) (lo_path lp)) mod n \<and>
    rebuild (dy_code (w_shell_heap w i)) args (snapshot_state rp) (rp_tail rp) shell =
      map_outcome Inr (apply_all (dy_code (w_shell_heap w i)) twice (dy_shell (w_shell_heap w i)))"
proof -
  let ?h = "mem_hist (w_store w) (lo_path lp)" and ?p = "lo_path lp"
  let ?m = "length ?h"
  let ?q = "?m div n * n - 1"
  have jo: "jo_append_snapshot (ho_store host) = mem_append_snapshot" by (simp add: assms(1) mem_ops_def)
  note points = snapshot_points_last [OF assms(5,6)]
  obtain w' where w': "act_each (snapshot_now host lp) (snapshot_points n [first..<?m]) w = (Done (), w')"
    "mem_ok (w_store w')" "mem_hist (w_store w') = mem_hist (w_store w)" "mem_snap (w_store w') ?p = Some (?q, blob)"
    using snapshots_written [OF jo assms(3) points(1) assms(2,8)] points(2) by auto
  obtain rp where rp: "mem_load ?p (w_store w') = Inr (Some rp)"
    using mem_load_some [OF w'(2), of ?p] w'(4) by auto
  have "0 < ?m div n" using assms(5,6) by (simp add: div_greater_zero_iff)
  then have pos: "0 < ?m div n * n" using assms(5) by simp
  then have q: "Suc ?q = ?m div n * n" by simp
  have "?q < ?m" using pos div_times_less_eq_dividend [of ?m n] by linarith
  have "rp_tail rp = drop (Suc ?q) (map jd_event ?h)"
    using mem_store.load_tail_drop [OF w'(2) rp w'(4)] \<open>?q < ?m\<close> assms(7) by (simp add: w'(3))
  moreover have "Suc ?q = ?m - ?m mod n" unfolding q by (simp add: minus_mod_eq_div_mult)
  moreover have "snapshot_state rp = Some blob"
    using mem_store.load_law [OF w'(2) rp] w'(4) by (simp add: snapshot_state_def)
  moreover have "maybe_snapshot host lp [first..<?m] w = (Done (), w')"
    using w'(1) by (simp add: maybe_snapshot_def assms(4))
  ultimately show ?thesis
    using rp assms(9) by (simp add: rebuild_unfold)
qed

text \<open>A counter with three events in its journal, snapshotting every two.\<close>

definition demo_batched :: "(int, nat, mem_store) world" where
  "demo_batched =
     (let w = demo_world []
      in w\<lparr>w_store := snd (mem_append ''a'' [demo_event, demo_event, demo_event] mem_new),
          w_shell_heap := (\<lambda>_. \<lparr>dy_shell = TypedEs 3, dy_code = demo_code\<rparr>),
          w_cell_heap := (\<lambda>_. (demo_cell [])\<lparr>ce_snapshot_policy := CadenceMessages 2\<rparr>)\<rparr>)"

theorem batched_snapshot_folds_twice_witness:
  "\<exists>w' rp. maybe_snapshot demo_host demo_loop [0..<3] demo_batched = (Done (), w') \<and>
     mem_load ''a'' (w_store w') = Inr (Some rp) \<and>
     rebuild demo_code JNull (snapshot_state rp) (rp_tail rp) (TypedEs 0) = Done (Inr (TypedEs 4))"
proof -
  obtain r s where st: "mem_append ''a'' [demo_event, demo_event, demo_event] mem_new = (r, s)" by fastforce
  note facts = mem_append_facts [OF mem_ok_new st]
  have hist: "map jd_event (mem_hist s ''a'') = [demo_event, demo_event, demo_event]"
    using facts(4) by (simp add: mem_hist_def mem_journal_def mem_new_def get_or_def journal_new_def)
  then have len: "length (mem_hist s ''a'') = 3" by (metis length_map list.size(3,4) numeral_3_eq_3 One_nat_def add_0 add_Suc plus_1_eq_Suc)
  have w: "ho_store demo_host = mem_ops" "mem_ok (w_store demo_batched)" "w_store demo_batched = s"
    "ce_snapshot_policy (w_cell_heap demo_batched (lo_cell demo_loop)) = CadenceMessages 2"
    "w_shell_heap demo_batched 0 = \<lparr>dy_shell = TypedEs 3, dy_code = demo_code\<rparr>"
    using facts(1) st by (simp_all add: demo_batched_def demo_host_def Let_def)
  have "3 mod 2 = (1 :: nat)" "(3 :: nat) \<le> u64_max" by (simp_all add: u64_max_def)
  with batched_snapshot_folds_twice [where first = 0 and i = 0, OF w(1,2) demo_loop_fields(2) w(4)]
  show ?thesis
    by (auto simp: w(3,5) len hist demo_code_def numeral_3_eq_3)
qed

end
