(* ===== verification/LoopFrames.thy ===== *)
theory LoopFrames
  imports Systems
begin

text \<open>
  Framing of the whole system: a preorder on worlds that respects the routing of envelopes, the start of a
  loop over a fresh cell and the few writes a turn makes to a mailbox is respected by every call, every turn
  of every task (\<open>task_turn\<close>) and every step (\<open>sys_step\<close>).
\<close>

fun parked :: "task \<Rightarrow> bool" where
  "parked (EsTask lp watch LoopParked) = True"
| "parked (ServiceTask lp watch LoopParked) = True"
| "parked _ = False"

fun loop_cell :: "task \<Rightarrow> nat option" where
  "loop_cell (EsTask lp watch ph) = Some (lo_cell lp)"
| "loop_cell (ServiceTask lp watch ph) = Some (lo_cell lp)"
| "loop_cell _ = None"

text \<open>The journal a task may write to.\<close>

fun task_path :: "task \<Rightarrow> string option" where
  "task_path (EsTask lp watch ph) = Some (lo_path lp)"
| "task_path (ServiceTask lp watch ph) = Some (lo_path lp)"
| "task_path (CatchUpTask lp ep consumed) = Some (lo_path lp)"
| "task_path _ = None"

definition new_cell :: "'st actor_cell \<Rightarrow> bool" where
  "new_cell ce \<longleftrightarrow> 0 < ce_step_batch ce \<and> (\<exists>n p. ce_inbox ce = inbox_new n p)"

lemma spawn_cell_new: "new_cell (spawn_cell path o')"
  by (auto simp: spawn_cell_def cell_new_def new_cell_def)

lemma stamped_cells:
  "ce_inbox (stamp_common now o' m ce) = ce_inbox ce" "ce_step_batch (stamp_common now o' m ce) = ce_step_batch ce"
  "ce_inbox (stamp_es now o' m entries ce) = ce_inbox ce" "ce_step_batch (stamp_es now o' m entries ce) = ce_step_batch ce"
  by (simp_all add: stamp_common_def stamp_es_def Let_def split: option.split)

lemma purge_fields [simp]:
  "w_cell_heap (snd (purge_journal host p w)) = w_cell_heap w" "w_tasks (snd (purge_journal host p w)) = w_tasks w"
  "w_next (snd (purge_journal host p w)) = w_next w"
  "w_store (snd (purge_journal host p w)) = snd (jo_purge (ho_store host) p (w_store w))"
  by (simp_all add: purge_journal_def split: prod.split)

subsection \<open>Spawns and restarts\<close>

locale spawn_frame = routing_frame R for R :: "('st, 'sv, 's) world \<Rightarrow> ('st, 'sv, 's) world \<Rightarrow> bool" +
  fixes host :: "('st, 'sv, 's) host"
  assumes S_still: "w_cell_heap w' = w_cell_heap w \<Longrightarrow> w_tasks w' = w_tasks w \<Longrightarrow> w_store w' = w_store w \<Longrightarrow>
      w_next w \<le> w_next w' \<Longrightarrow> R w w'"
    and S_upkeep: "store_upkeep (ho_store host) (w_store w) s \<Longrightarrow> R w (w\<lparr>w_store := s\<rparr>)"
    and S_cell: "(\<And>ce. ce_path (g ce) = ce_path ce \<and> ce_inbox (g ce) = ce_inbox ce \<and> ce_work (g ce) = ce_work ce \<and>
      ce_step_batch (g ce) = ce_step_batch ce \<and> ce_stopping (g ce) = ce_stopping ce) \<Longrightarrow> R w (on_cell c g w)"
    and S_gate: "R w (on_cell c (\<lambda>ce. ce\<lparr>ce_inbox := (ce_inbox ce)\<lparr>ib_open := b\<rparr>\<rparr>) w)"
    and S_spawn: "\<not> parked t \<Longrightarrow> R w (snd (spawn_task t w))"
    and S_register: "new_cell ce \<Longrightarrow> act_rel R (register_actor path m o' ce)"
begin

lemma S_new_watch: "R w (snd (new_watch w))"
  by (rule S_still) (simp_all add: new_watch_def)

lemma S_on_watch: "R w (on_watch i f w)"
  by (rule S_still) (simp_all add: on_watch_def)

lemma S_store_handle: "R w (store_handle path h w)"
proof -
  have "R w (on_cell c (\<lambda>ce. ce\<lparr>ce_handle := h'\<rparr>) w)" for c h' and w :: "('st, 'sv, 's) world"
    by (rule S_cell) simp
  with R_trans [OF S_on_watch this] S_on_watch [of w] show ?thesis
    by (simp add: store_handle_def Let_def split: option.split)
qed

lemma S_start_tracked: "R w (snd (start_tracked lp ep watch w))"
  by (simp add: start_tracked_def case_prod_beta R_trans [OF S_spawn S_spawn])

lemma S_start_loop: "R w (start_loop a w)"
  unfolding start_loop_def Let_def case_prod_beta
  by (rule R_trans [OF R_trans [OF S_new_watch S_start_tracked] S_store_handle])

lemma S_arm_es: "act_rel R (arm_es_erased path manifest shell entries opts args)"
proof (rule act_relI)
  fix w :: "('st, 'sv, 's) world"
  define o' where "o' = resolve_opts (w_defaults w) opts"
  define ce :: "'st actor_cell" where "ce = stamp_es (w_now w) o' (with_entries entries manifest) entries (spawn_cell path o')"
  have "new_cell ce" using spawn_cell_new [of path o'] by (simp add: ce_def new_cell_def stamped_cells)
  then have "act_rel R (act_bind (register_actor path (with_entries entries manifest) o' ce)
       (\<lambda>(c, ep) w1.
          (let (i, w2) = arm_tables path shell args c w1
           in (Done \<lparr>ar_loop = \<lparr>lo_path = path, lo_cell = c, lo_is_projector = path \<in> set (w_projectors w2),
                                lo_state = Some i\<rparr>,
                    ar_endpoint = ep\<rparr>,
               observe (w_now w2) (ObSpawned path EventSourced False) w2))))"
    by (intro rel_bind S_register)
      (auto intro!: act_relI S_still simp: arm_tables_def Let_def split: prod.split)
  from act_relD [OF this, of w] show "R w (snd (arm_es_erased path manifest shell entries opts args w))"
    by (simp add: arm_es_erased_def Let_def o'_def ce_def)
qed

lemma S_spawn_es: "act_rel R (spawn_es_erased path manifest shell entries opts args)"
  unfolding spawn_es_erased_def by (intro rel_bind S_arm_es rel_do S_start_loop)

lemma S_spawn_service:
  "act_rel R (spawn_service_erased path m args entries opts init :: (('st, 'sv, 's) world, unit) act)"
proof (rule act_relI)
  fix w :: "('st, 'sv, 's) world"
  define o' where "o' = resolve_opts (w_defaults w) opts"
  define ce :: "'st actor_cell" where "ce = (stamp_common (w_now w) o' m (spawn_cell path o'))\<lparr>ce_msg_entries := entries\<rparr>"
  have ce: "new_cell ce" using spawn_cell_new [of path o'] by (simp add: ce_def new_cell_def stamped_cells)
  have sp: "R w1 (snd (spawn_task (ServiceStart lp ep init args) (observe t k (w1\<lparr>w_cells := cs, w_genesis_args := gs\<rparr>))))"
    for lp ep t k cs gs and w1 :: "('st, 'sv, 's) world"
    by (rule R_trans [OF S_still S_spawn]) simp_all
  have "act_rel R (act_bind (register_actor path m o' ce)
           (\<lambda>(c, ep) (w1 :: ('st, 'sv, 's) world).
              (let w2 = w1\<lparr>w_cells := AList.update path c (w_cells w1),
                           w_genesis_args := AList.update path args (w_genesis_args w1)\<rparr>;
                   w3 = observe (w_now w2) (ObSpawned path Service False) w2
               in (Done (), snd (spawn_task (ServiceStart
                     \<lparr>lo_path = path, lo_cell = c, lo_is_projector = False, lo_state = None\<rparr> ep init args) w3)))))"
    by (intro rel_bind S_register ce) (auto intro!: act_relI simp: Let_def sp)
  from act_relD [OF this, of w] show "R w (snd (spawn_service_erased path m args entries opts init w))"
    by (simp add: spawn_service_erased_def Let_def o'_def ce_def)
qed

lemma S_arm_projector: "act_rel R (arm_projector path consumed args code opts)"
  unfolding arm_projector_def by (intro rel_bind rel_do S_arm_es) (simp add: S_still)

lemma S_pure: "act_rel R (act_panic m)" "act_rel R (act_of f)"
  by (simp_all add: act_rel_def act_panic_def act_of_def R_refl)

lemma S_validated_parts: "act_rel R (validated_parts b)"
  unfolding validated_parts_def
  by (cases "pb_path b") (auto intro!: rel_bind rel_ret S_pure)

lemma S_pb_start: "act_rel R (pb_start code b)"
  unfolding pb_start_def
  by (intro rel_bind S_validated_parts S_arm_projector rel_do rel_ret S_spawn) simp

lemma S_restart_door: "R w (snd (restart_door lp w))"
proof -
  have "R w (on_watch i f (snd (start_tracked lp ep i (snd (new_watch (on_cell c
      (\<lambda>ce. ce\<lparr>ce_inbox := inbox_reopen (ce_inbox ce)\<rparr>) (w\<lparr>w_next := Suc (w_next w), w_registry := r, w_endpoint_heap := h\<rparr>)))))))"
    for i f ep c r h
    unfolding inbox_reopen_def
    by (rule R_trans [OF R_trans [OF R_trans [OF R_trans [OF S_still S_gate] S_new_watch] S_start_tracked] S_on_watch]) simp_all
  then show ?thesis
    by (simp add: restart_door_def Let_def case_prod_beta R_refl split: sum.split)
qed

lemma S_restart_with: "R w (snd (restart_with loaded lp genesis w))"
proof -
  have "act_rel R (act_bind (restart_door lp') (\<lambda>_. act_ret (Inr ())) :: (('st, 'sv, 's) world, journal_error + unit) act)" for lp'
    by (intro rel_bind rel_ret act_relI S_restart_door)
  then have door: "R w (snd (act_bind (restart_door lp') (\<lambda>_. act_ret (Inr () :: journal_error + unit))
      (observe t k (on_cell c (reset_cell n h) (w\<lparr>w_next := Suc (w_next w), w_shell_heap := sh, w_es_state := es\<rparr>)))))"
    for lp' t k c n h sh es
    by (intro rel_after R_trans [OF R_trans [OF S_still S_cell] R_observe])
      (simp_all add: reset_cell_def clear_crashed_def)
  show ?thesis
    by (cases loaded) (simp_all add: restart_with_def install_shell_def Let_def R_refl door split: option.split outcome.split sum.split)
qed

lemma S_restart_es: "R w (snd (restart_es host lp args w))"
  unfolding restart_es_def load_journal_def Let_def case_prod_beta fst_conv snd_conv
  by (rule R_trans [OF S_upkeep [OF store_upkeepI(1)] S_restart_with])

lemma S_declare_emits: "R w (snd (declare_emits path schema w))"
proof -
  have "R w (on_cell c (\<lambda>ce. ce\<lparr>ce_declared_emits := e ce\<rparr>) (w\<lparr>w_registry := r\<rparr>))" for c e r
    by (rule R_trans [OF S_still S_cell]) simp_all
  then show ?thesis
    by (simp add: declare_emits_def Let_def R_refl S_still split: prod.split sum.split option.split)
qed

end

sublocale spawn_frame \<subseteq> calls: call_frame R host
proof (unfold_locales, goal_cases)
  case 2 then show ?case by (intro S_cell) blast
next
  case (4 t w) then show ?case by (intro S_spawn) (cases t; simp)
qed (auto intro: S_still S_restart_es S_spawn_es S_spawn_service S_pb_start S_declare_emits simp: vital_def)

subsection \<open>Turns\<close>

locale loop_frame = spawn_frame R host
  for R :: "('st, 'sv, 's) world \<Rightarrow> ('st, 'sv, 's) world \<Rightarrow> bool" and host :: "('st, 'sv, 's) host" +
  fixes mine :: "nat \<Rightarrow> bool" and own :: "string \<Rightarrow> bool"
  assumes L_host: "host_ok host"
    and L_journal: "own p \<Longrightarrow> journal_write (ho_store host) p (w_store w) s \<Longrightarrow> R w (w\<lparr>w_store := s\<rparr>)"
    and L_cell: "mine c \<Longrightarrow> (\<And>ce. ce_path (g ce) = ce_path ce \<and> ce_inbox (g ce) = ce_inbox ce \<and>
      ce_step_batch (g ce) = ce_step_batch ce \<and> ce_stopping (g ce) = ce_stopping ce) \<Longrightarrow> R w (on_cell c g w)"
    and L_claim: "mine c \<Longrightarrow> act_rel R (with_inbox c (inbox_claim_up_to k))"
    and L_restore: "mine c \<Longrightarrow> act_rel R (with_inbox c (inbox_restore_claims cs))"
    and L_commit: "mine c \<Longrightarrow> act_rel R (with_inbox c (commit_run offs))"
    and L_flush_mailbox: "R w (flush_mailbox path w)"
    and L_clear_task: "R w (set_task i None w)"
    and L_door_try: "act_rel R (door_try c e parks)"
begin

lemma L_factory: "act_rel R (ho_factory host f p a)"
  using L_host calls.wiring_frame by (simp add: host_ok_def act_rel_def)

lemma L_api: "api host w w' \<Longrightarrow> R w w'"
  by (rule calls.api_frame [OF L_factory])

lemma L_dispatch: "R w (snd (snd (snd (ho_dispatch host n pl v sv w))))"
  using L_host by (auto simp: host_ok_def intro: L_api)

end

sublocale loop_frame \<subseteq> turn_frame R host mine own
proof (unfold_locales, goal_cases)
  case 2 show ?case by (rule L_dispatch)
next
  case (3 c g w) then show ?case by (intro L_cell)
next
  case 11 show ?case using L_host by (auto simp: host_ok_def intro: L_api)
next
  case 12 show ?case using L_host by (simp add: host_ok_def act_rel_def L_api)
next
  case 14 then show ?case by (intro L_cell) simp_all
qed (auto intro: L_factory L_journal S_upkeep L_claim L_restore L_commit S_gate S_still L_flush_mailbox L_clear_task L_door_try simp: drop_tables_def)

context loop_frame
begin

lemma L_turns: "turn_frame R host mine own" "step_frame R host mine own"
  by unfold_locales

lemma rel_recover: "act_rel R (recover_at_boot host lp)"
proof (rule act_relI)
  fix w :: "('st, 'sv, 's) world"
  have "R w1 (snd (recover_with found lp w1))" for found and w1 :: "('st, 'sv, 's) world"
    by (rule S_still)
      (simp_all add: recover_with_def install_shell_def Let_def split: sum.split option.split outcome.split)
  then show "R w (snd (recover_at_boot host lp w))"
    unfolding recover_at_boot_def case_prod_beta Let_def by (rule R_trans [OF R_load_journal])
qed

lemma rel_es_turn: "mine (lo_cell lp) \<Longrightarrow> own (lo_path lp) \<Longrightarrow> act_rel R (es_turn host lp watch ph)"
  by (cases ph) (auto intro!: rel_bind rel_recover rel_announce rel_ret rel_running rel_step_es rel_snapshot_on_idle
      rel_idle_tail rel_parked rel_draining)

lemma rel_service_turn: "mine (lo_cell lp) \<Longrightarrow> own (lo_path lp) \<Longrightarrow> act_rel R (service_turn host lp watch ph)"
  by (cases ph) (auto intro!: rel_bind rel_announce rel_ret rel_running rel_step_service rel_idle_tail rel_parked rel_draining)

lemma rel_service_start: "act_rel R (service_start host lp ep init args)"
proof -
  have "R w (start_service_loop lp ep (put_instance lp a w))" for a and w :: "('st, 'sv, 's) world"
    unfolding start_service_loop_def case_prod_beta Let_def
    by (rule R_trans [OF R_trans [OF R_trans [OF R_trans [OF R_put_instance S_new_watch] S_spawn]
          S_spawn] S_store_handle]) simp_all
  then show ?thesis unfolding service_start_def by (intro rel_bind R_init rel_do)
qed

lemma S_bump: "R w (bump_caught_up path w)"
  by (rule S_still) (simp_all add: bump_caught_up_def)

lemma rel_catch_up:
  assumes own: "own (lo_path (ar_loop a))"
  shows "act_rel R (catch_up_projector host a consumed)"
proof -
  have "R w (go_live a n w)" for n and w :: "('st, 'sv, 's) world"
    unfolding go_live_def Let_def
    by (rule R_trans [OF R_trans [OF S_start_loop S_bump] R_observe])
  then have "act_rel R (act_bind (seed_gap host (lo_path (ar_loop a)) consumed) (\<lambda>seeded. act_do (go_live a seeded)))"
    by (intro rel_bind rel_do) (rule act_relI, rule R_seed_gap [OF own])
  then show ?thesis
    unfolding catch_up_projector_def by (intro rel_bind) (rule act_relI, rule R_replay_own, simp add: rel_ret)
qed

text \<open>A turn of any task, with its own cell and journal exempt.\<close>

lemma rel_task_turn:
  assumes "\<And>c. loop_cell t = Some c \<Longrightarrow> mine c" "\<And>p. task_path t = Some p \<Longrightarrow> own p"
  shows "act_rel R (task_turn host t)"
proof (cases t)
  case (KickoffSend dest schema p)
  have "act_rel R (act_bind (route host e) (\<lambda>_. act_ret ()))" for e
    by (intro rel_bind rel_route R_factory rel_ret)
  from rel_after [OF R_new_trace_root this] have "act_rel R (fire_kickoff host dest schema p)"
    by (intro act_relI) (simp add: fire_kickoff_def case_prod_beta Let_def)
  then show ?thesis by (auto intro!: rel_bind rel_ret simp: KickoffSend)
next
  case (AskWait lease dest tr)
  then show ?thesis by (auto intro!: act_relI split: prod.split option.split) (metis calls.R_ask_wait snd_conv)+
next
  case (ScheduledSend e)
  then show ?thesis by (auto intro!: rel_bind rel_ret rel_route_or_letter R_factory simp: fire_scheduled_def)
qed (use assms in \<open>auto intro!: rel_bind rel_ret rel_door_step rel_es_turn rel_service_turn rel_service_start rel_engine rel_catch_up\<close>)

text \<open>An inline catch-up writes the journal of the projector it starts.\<close>

lemma rel_start_and_catchup:
  assumes "\<And>p. pb_path b = Some p \<Longrightarrow> own p"
  shows "act_rel R (pb_start_and_catchup host code b)"
  unfolding pb_start_and_catchup_def
proof (rule rel_bind_value [OF S_validated_parts])
  fix w path w'
  assume "validated_parts b w = (Done path, w')"
  then have path: "pb_path b = Some path"
    by (auto simp: validated_parts_def act_bind_def act_panic_def act_ret_def split: option.splits prod.splits outcome.splits)
  show "act_rel R (act_bind (arm_projector path (pb_consumed b) (pb_args b) code (pb_opts b))
      (\<lambda>a. act_bind (catch_up_projector host a (pb_consumed b)) (\<lambda>_. act_ret path)))"
  proof (rule rel_bind_value [OF S_arm_projector])
    fix w1 a w1'
    assume "arm_projector path (pb_consumed b) (pb_args b) code (pb_opts b) w1 = (Done a, w1')"
    then have "lo_path (ar_loop a) = path"
      by (auto simp: arm_projector_def arm_es_erased_def Let_def act_bind_def act_do_def split: prod.splits outcome.splits)
    with assms path show "act_rel R (act_bind (catch_up_projector host a (pb_consumed b)) (\<lambda>_. act_ret path))"
      by (intro rel_bind rel_catch_up rel_ret) simp
  qed
qed

text \<open>Every step respects the relation or is a turn, a purge or a catch-up into a journal that is not exempt.\<close>

lemma rel_sys_step:
  "sys_step host w w' \<Longrightarrow> R w w' \<or> (\<exists>i. w' = run_task host i w) \<or> (\<exists>p. w' = snd (purge_journal host p w)) \<or>
     (\<exists>code b p. pb_path b = Some p \<and> \<not> own p \<and> w' = snd (pb_start_and_catchup host code b w))"
proof (induction rule: sys_step.induct)
  case (st_timeout w i)
  have "R w (set_task i None (snd (ask_wait l d tr b w)))" for l d tr b
    by (rule R_trans [OF calls.R_ask_wait R_clear_task])
  then show ?case by (simp add: time_out_ask_def R_refl split: option.split task.split)
next
  case (st_call w w')
  then show ?case using L_api by blast
next
  case (st_stop w path joined)
  show ?case using act_relD [OF rel_stop_finish] by blast
next
  case (st_shutdown w)
  show ?case using R_shutdown_begin by blast
next
  case (st_sweep w paths)
  show ?case using act_relD [OF rel_shutdown_finish] by blast
next
  case (st_catch_up w code b)
  show ?case using act_relD [OF rel_start_and_catchup, of b w code] by blast
next
  case (st_wake w path)
  have "act_rel R (act_bind (ho_factory host f p a) (\<lambda>_. act_ret x))" for f p a and x :: "bool + nat"
    by (intro rel_bind R_factory rel_ret)
  from act_relD [OF this] have "R w (snd (wake_projector host path w))"
    by (simp add: wake_projector_def wake_owned_def Let_def R_refl split: option.split)
  then show ?case ..
next
  case (st_turn w i)
  show ?case by blast
next
  case (st_purge w path)
  show ?case by blast
next
  case st_clock
  show ?case by (rule disjI1, rule S_still) simp_all
qed

end

end
