(* ===== verification/Wakeups.thy ===== *)
theory Wakeups
  imports Delivery LoopFrames
begin

text \<open>
  No lost wakeups (\<open>src/src/kernel.rs\<close>): a loop that parks in its idle tail (\<open>Idler\<close>) is woken by the work permit
  of its cell.  The permit coalesces, it is set by whoever queues an envelope, and it is taken by the
  waking loop; the theory shows that no interleaving leaves mail in front of a parked loop without one.
\<close>

subsection \<open>The order of a mailbox\<close>

text \<open>
  Offsets ascend from the cursor and stay below the write head.  Every operation keeps this, whatever its
  arguments; the exact contiguity of \<open>ib_rep\<close> needs the discipline of the claim guard.
\<close>

definition ordered_box :: "'e inbox \<Rightarrow> bool" where
  "ordered_box ib \<longleftrightarrow> sorted_wrt (<) (map fst (ib_queue ib)) \<and>
     (\<forall>off \<in> set (map fst (ib_queue ib)). ib_cursor ib \<le> off \<and> off < ib_next_offset ib) \<and>
     ib_cursor ib \<le> ib_next_offset ib"

definition mail_waits :: "'e inbox \<Rightarrow> bool" where
  "mail_waits ib \<longleftrightarrow> (\<exists>e. inbox_peek ib = Done (Some e))"

lemma mail_waits_iff: "mail_waits ib \<longleftrightarrow> (\<exists>e q. ib_queue ib = (ib_cursor ib, Some e) # q)"
  by (auto simp: mail_waits_def inbox_peek_def split: list.splits prod.splits option.splits)

lemma box_open [simp]:
  "ordered_box (ib\<lparr>ib_open := b\<rparr>) = ordered_box ib" "mail_waits (ib\<lparr>ib_open := b\<rparr>) = mail_waits ib"
  by (simp_all add: ordered_box_def mail_waits_iff)

lemma box_reopen [simp]:
  "ordered_box (inbox_reopen ib) = ordered_box ib" "mail_waits (inbox_reopen ib) = mail_waits ib"
  by (simp_all add: inbox_reopen_def)

lemma box_new [simp]: "ordered_box (inbox_new n p)" "\<not> mail_waits (inbox_new n p)"
  by (simp_all add: ordered_box_def inbox_new_def mail_waits_iff)

lemma queue_next_ordered: "ordered_box ib \<Longrightarrow> ordered_box (queue_next e ib)"
  by (auto simp: ordered_box_def queue_next_def sorted_wrt_append)

text \<open>A push that refuses or evicts puts no mail in front that was not there.\<close>

lemma push_box:
  assumes "inbox_push e ib = Done (r, ib')" "ordered_box ib"
  shows "ordered_box ib'" "\<And>refusal. r = Inl refusal \<Longrightarrow> mail_waits ib' \<Longrightarrow> mail_waits ib"
proof -
  consider (ok) "ib' = queue_next e ib" "\<forall>x. r \<noteq> Inl x" | (same) "ib' = ib"
    | (evict) off old q where "ib_queue ib = (off, Some old) # q"
        "ib' = queue_next e (ib\<lparr>ib_queue := q, ib_cursor := ib_cursor ib + 1\<rparr>)"
  proof (cases "ib_open ib \<and> ib_policy ib = DropOld \<and> ib_capacity ib \<le> length (ib_queue ib) \<and> ib_queue ib \<noteq> []")
    case True
    then obtain off slot q where q: "ib_queue ib = (off, slot) # q" by (cases "ib_queue ib") auto
    with True assms(1) show ?thesis by (cases slot) (auto simp: inbox_push_def intro: evict)
  next
    case False
    then show ?thesis
      using assms(1) ok same by (cases "ib_policy ib"; cases "ib_queue ib") (auto simp: inbox_push_def queue_ok_def split: if_splits)
  qed
  note cases = this
  show "ordered_box ib'"
  proof (cases rule: cases)
    case evict
    have "ordered_box (ib\<lparr>ib_queue := q, ib_cursor := ib_cursor ib + 1\<rparr>)"
      using assms(2) evict(1) by (force simp: ordered_box_def)
    then show ?thesis using evict(2) by (simp add: queue_next_ordered)
  qed (use assms(2) queue_next_ordered in auto)
  fix refusal
  assume r: "r = Inl refusal" and waits: "mail_waits ib'"
  show "mail_waits ib"
  proof (cases rule: cases)
    case (evict off old q)
    have "off = ib_cursor ib"
    proof (cases q)
      case Nil
      then show ?thesis using waits evict assms(2) by (auto simp: mail_waits_iff queue_next_def ordered_box_def)
    next
      case (Cons x q')
      then show ?thesis using waits evict assms(2) by (auto simp: mail_waits_iff queue_next_def ordered_box_def)
    qed
    then show ?thesis using evict(1) by (auto simp: mail_waits_iff)
  qed (use r waits in auto)
qed

lemma claim_offsets: "claim_loop cur n k q = Done (b, q') \<Longrightarrow> map fst q' = map fst q"
  by (induction cur n k q arbitrary: b q' rule: claim_loop.induct)
    (auto simp: outcome_simps split: if_splits option.splits)

lemma claim_nothing: "claim_loop cur n k q = Done ([], q') \<Longrightarrow> q' = q"
  by (induction cur n k q arbitrary: q' rule: claim_loop.induct)
    (auto simp: outcome_simps split: if_splits option.splits)

lemma claim_box:
  assumes "inbox_claim_up_to n ib = Done (b, ib')"
  shows "ordered_box ib \<Longrightarrow> ordered_box ib'" "0 < n \<Longrightarrow> b = [] \<Longrightarrow> \<not> mail_waits ib'"
    "0 < n \<Longrightarrow> inbox_peek ib = Done (Some e) \<Longrightarrow> \<exists>rest. b = (ib_cursor ib, e) # rest"
proof -
  obtain q where q: "claim_loop (ib_cursor ib) n 0 (ib_queue ib) = Done (b, q)" "ib' = ib\<lparr>ib_queue := q\<rparr>"
    using assms by (auto simp: inbox_claim_up_to_def outcome_simps)
  show "ordered_box ib \<Longrightarrow> ordered_box ib'" using claim_offsets [OF q(1)] q(2) by (simp add: ordered_box_def)
  have head: "\<exists>rest. b = (ib_cursor ib, e) # rest" if "0 < n" "ib_queue ib = (ib_cursor ib, Some e) # q0" for e q0
    using q(1) that by (auto simp: outcome_simps split: if_splits)
  show "0 < n \<Longrightarrow> b = [] \<Longrightarrow> \<not> mail_waits ib'"
  proof
    assume n: "0 < n" "b = []" and w: "mail_waits ib'"
    then obtain e q0 where "q = (ib_cursor ib, Some e) # q0" by (auto simp: mail_waits_iff q(2))
    moreover have "q = ib_queue ib"
      using q(1) n claim_nothing by blast
    ultimately show False using head n by auto
  qed
  show "0 < n \<Longrightarrow> inbox_peek ib = Done (Some e) \<Longrightarrow> \<exists>rest. b = (ib_cursor ib, e) # rest"
    using head by (auto simp: inbox_peek_def split: list.splits prod.splits option.splits if_splits)
qed

lemma restore_slot_offsets: "restore_slot cur off e q = Done q' \<Longrightarrow> map fst q' = map fst q"
  by (induction cur off e q arbitrary: q' rule: restore_slot.induct)
    (auto simp: outcome_simps split: if_splits option.splits)

lemma restore_loop_offsets: "restore_loop cur b q = Done q' \<Longrightarrow> map fst q' = map fst q"
  by (induction cur b q arbitrary: q' rule: restore_loop.induct)
    (auto simp: outcome_simps dest: restore_slot_offsets)

lemma restore_box: "inbox_restore_claims b ib = Done (r, ib') \<Longrightarrow> ordered_box ib \<Longrightarrow> ordered_box ib'"
  by (auto simp: inbox_restore_claims_def outcome_simps ordered_box_def simp del: set_map dest!: restore_loop_offsets)

lemma drop_through:
  assumes "sorted_wrt (<) (map fst q)"
  shows "sorted_wrt (<) (map fst (dropWhile (\<lambda>(o', _). o' \<le> off) q))"
    "o' \<in> set (map fst (dropWhile (\<lambda>(o', _). o' \<le> off) q)) \<Longrightarrow> (off :: nat) < o' \<and> o' \<in> set (map fst q)"
proof -
  show "sorted_wrt (<) (map fst (dropWhile (\<lambda>(o', _). o' \<le> off) q))"
    using assms by (induction q) auto
  show "o' \<in> set (map fst (dropWhile (\<lambda>(o', _). o' \<le> off) q)) \<Longrightarrow> off < o' \<and> o' \<in> set (map fst q)"
    using assms
  proof (induction q)
    case (Cons x q)
    then show ?case by (cases "fst x \<le> off") (fastforce split: prod.splits)+
  qed simp
qed

lemma commit_box: "inbox_commit_through off ib = Done (r, ib') \<Longrightarrow> ordered_box ib \<Longrightarrow> ordered_box ib'"
  using drop_through [where q = "ib_queue ib" and off = off]
  by (auto simp: inbox_commit_through_def ordered_box_def Let_def Suc_le_eq simp del: set_map split: if_splits)

lemma commit_run_box: "commit_run offs ib = Done (r, ib') \<Longrightarrow> ordered_box ib \<Longrightarrow> ordered_box ib'"
  by (induction offs arbitrary: ib r ib') (auto simp: outcome_simps split: prod.splits dest: commit_box)

lemma drained_offsets:
  assumes "drain_live_loop q = (d, keep)" "sorted_wrt (<) (map fst q)"
  shows "sorted_wrt (<) (map fst keep)" "set (map fst keep) \<subseteq> set (map fst q)" "\<forall>x \<in> set keep. snd x = None"
proof -
  have keep: "keep = filter (\<lambda>x. snd x = None) q"
    using assms(1) by (induction q arbitrary: d keep rule: drain_live_loop.induct) (auto split: prod.splits)
  show "sorted_wrt (<) (map fst keep)" using assms(2) unfolding keep by (induction q) auto
  show "set (map fst keep) \<subseteq> set (map fst q)" "\<forall>x \<in> set keep. snd x = None" unfolding keep by auto
qed

lemma drain_box:
  assumes "inbox_drain_live ib = (d, ib')" "ordered_box ib"
  shows "ordered_box ib'" "\<not> mail_waits ib'"
proof -
  obtain keep where k: "drain_live_loop (ib_queue ib) = (d, keep)" "ib' = ib\<lparr>ib_queue := keep\<rparr>"
    using assms(1) by (auto simp: inbox_drain_live_def split: prod.splits)
  note d = drained_offsets [OF k(1)]
  show "ordered_box ib'" using d(1,2) assms(2) by (auto simp: ordered_box_def k(2) simp del: set_map)
  show "\<not> mail_waits ib'" using d(3) assms(2) by (auto simp: ordered_box_def mail_waits_iff k(2))
qed

subsection \<open>The relation\<close>

definition cell_tidy :: "'st actor_cell \<Rightarrow> bool" where
  "cell_tidy ce \<longleftrightarrow> ordered_box (ce_inbox ce) \<and> 0 < ce_step_batch ce"

text \<open>Mail at the head and no permit.\<close>

definition cell_stranded :: "'st actor_cell \<Rightarrow> bool" where
  "cell_stranded ce \<longleftrightarrow> mail_waits (ce_inbox ce) \<and> \<not> ce_work ce"

definition calmer :: "bool \<Rightarrow> 'st actor_cell \<Rightarrow> 'st actor_cell \<Rightarrow> bool" where
  "calmer mine ce ce' \<longleftrightarrow> (cell_tidy ce \<longrightarrow> cell_tidy ce' \<and> (mine \<or> (cell_stranded ce' \<longrightarrow> cell_stranded ce)))"

text \<open>
  What a turn leaves of the system: no cell outside \<open>mine\<close> is newly stranded, and no other task is newly
  parked.
\<close>

definition keeps :: "(nat \<Rightarrow> bool) \<Rightarrow> ('st, 'sv, 's) world \<Rightarrow> ('st, 'sv, 's) world \<Rightarrow> bool" where
  "keeps mine w w' \<longleftrightarrow>
     (\<forall>c. calmer (mine c) (w_cell_heap w c) (w_cell_heap w' c)) \<and>
     (\<forall>i t. map_of (w_tasks w') i = Some t \<longrightarrow> parked t \<longrightarrow> map_of (w_tasks w) i = Some t)"

lemma calmer_refl: "calmer b ce ce"
  by (simp add: calmer_def)

lemma calmer_trans: "calmer b ce ce1 \<Longrightarrow> calmer b ce1 ce2 \<Longrightarrow> calmer b ce ce2"
  by (auto simp: calmer_def)

lemma calmer_same:
  "ce_inbox ce' = ce_inbox ce \<Longrightarrow> ce_work ce' = ce_work ce \<Longrightarrow> ce_step_batch ce' = ce_step_batch ce \<Longrightarrow> calmer b ce ce'"
  by (simp add: calmer_def cell_tidy_def cell_stranded_def)

text \<open>With the permit set, and with a box in which no mail waits, nothing is stranded.\<close>

lemma calmer_permit:
  "ordered_box (ce_inbox ce) \<longrightarrow> ordered_box (ce_inbox ce') \<Longrightarrow> ce_step_batch ce' = ce_step_batch ce \<Longrightarrow> ce_work ce' \<Longrightarrow>
     calmer b ce ce'"
  "ordered_box (ce_inbox ce) \<longrightarrow> ordered_box (ce_inbox ce') \<and> (mail_waits (ce_inbox ce') \<longrightarrow> mail_waits (ce_inbox ce)) \<Longrightarrow>
     ce_step_batch ce' = ce_step_batch ce \<Longrightarrow> ce_work ce' = ce_work ce \<Longrightarrow> calmer b ce ce'"
  by (auto simp: calmer_def cell_tidy_def cell_stranded_def)

lemma calmer_mine:
  "ordered_box (ce_inbox ce) \<longrightarrow> ordered_box (ce_inbox ce') \<Longrightarrow> ce_step_batch ce' = ce_step_batch ce \<Longrightarrow> calmer True ce ce'"
  by (simp add: calmer_def cell_tidy_def)

lemma keeps_refl: "keeps mine w w"
  by (simp add: keeps_def calmer_refl)

lemma keeps_trans: "keeps mine w w1 \<Longrightarrow> keeps mine w1 w2 \<Longrightarrow> keeps mine w w2"
  unfolding keeps_def using calmer_trans by meson

lemma keeps_weaken: "keeps (\<lambda>_. False) w w' \<Longrightarrow> keeps mine w w'"
  unfolding keeps_def calmer_def by blast

lemma keeps_heap:
  "(\<And>c. calmer (mine c) (w_cell_heap w c) (w_cell_heap w' c)) \<Longrightarrow> w_tasks w' = w_tasks w \<Longrightarrow> keeps mine w w'"
  by (simp add: keeps_def)

lemma keeps_same: "w_cell_heap w' = w_cell_heap w \<Longrightarrow> w_tasks w' = w_tasks w \<Longrightarrow> keeps mine w w'"
  by (simp add: keeps_def calmer_refl)

lemma keeps_on_cell: "calmer (mine c) (w_cell_heap w c) (f (w_cell_heap w c)) \<Longrightarrow> keeps mine w (on_cell c f w)"
  by (rule keeps_heap) (auto simp: on_cell_def calmer_refl)

lemma keeps_tasks:
  "w_cell_heap w' = w_cell_heap w \<Longrightarrow>
     (\<And>i t. map_of (w_tasks w') i = Some t \<Longrightarrow> parked t \<Longrightarrow> map_of (w_tasks w) i = Some t) \<Longrightarrow> keeps mine w w'"
  by (simp add: keeps_def calmer_refl)

lemma keeps_spawn: "\<not> parked t \<Longrightarrow> keeps mine w (snd (spawn_task t w))"
  by (rule keeps_tasks) (auto simp: spawn_task_def map_add_def split: option.splits if_splits)

lemma keeps_set_task: "(\<And>t'. t = Some t' \<Longrightarrow> \<not> parked t') \<Longrightarrow> keeps mine w (set_task i t w)"
  by (rule keeps_tasks) (auto simp: set_task_def update_conv' delete_conv' split: option.splits if_splits)

subsection \<open>Pushes\<close>

lemma keeps_push: "keeps mine w (snd (direct_push ep e tr w))"
proof -
  define c where "c = ep_cell (w_endpoint_heap w ep)"
  let ?ce = "w_cell_heap w c"
  have permit: "keeps mine w (pushed_directly c tr ev (on_cell c (\<lambda>ce. ce\<lparr>ce_inbox := ib\<rparr>) w))"
    if "inbox_push e (ce_inbox ?ce) = Done (r, ib)" for r ib ev
  proof -
    obtain b where b: "w_cell_heap (pushed_directly c tr ev (on_cell c (\<lambda>ce. ce\<lparr>ce_inbox := ib\<rparr>) w)) =
        (w_cell_heap w)(c := ?ce\<lparr>ce_inbox := ib, ce_watermark_fired := b, ce_work := True\<rparr>)"
      using pushed_directly_heap [of c tr ev "on_cell c (\<lambda>ce. ce\<lparr>ce_inbox := ib\<rparr>) w"] by (auto simp: on_cell_def)
    have "calmer (mine c) ?ce (?ce\<lparr>ce_inbox := ib, ce_watermark_fired := b, ce_work := True\<rparr>)"
      by (rule calmer_permit(1)) (use push_box(1) [OF that] in auto)
    then show ?thesis by (intro keeps_heap) (auto simp: b calmer_refl)
  qed
  show ?thesis
  proof (cases rule: direct_push_cases [OF c_def, of e tr])
    case (4 r ib)
    have "calmer (mine c) ?ce (?ce\<lparr>ce_inbox := ib\<rparr>)"
      by (rule calmer_permit(2)) (use push_box [OF 4(1)] in auto)
    then show ?thesis using 4(3) by (simp add: keeps_on_cell)
  qed (auto simp: keeps_refl permit)
qed

text \<open>The cell after the door has its answer: the latch, and the permit when the push was accepted.\<close>

lemma door_after_heap:
  "\<exists>b. w_cell_heap (snd (door_after c tr answer w)) = (w_cell_heap w)(c := (w_cell_heap w c)
     \<lparr>ce_watermark_fired := b, ce_work := (answer = PushAccepted \<or> ce_work (w_cell_heap w c))\<rparr>)"
proof -
  obtain b where b: "snd (watermark_latch (w_cell_heap w c)) = (w_cell_heap w c)\<lparr>ce_watermark_fired := b\<rparr>"
    using watermark_latch_cell by blast
  show ?thesis
  proof (cases answer)
    case (PushHeld e parks)
    then show ?thesis by (intro exI [of _ "ce_watermark_fired (w_cell_heap w c)"]) (simp add: door_after_def)
  qed (use b in \<open>auto simp: door_after_def Let_def case_prod_beta latch_cell_heap on_cell_def notify_work_def\<close>)
qed

lemma door_after_tasks [simp]: "w_tasks (snd (door_after c tr answer w)) = w_tasks w"
  by (cases answer) (simp_all add: door_after_def Let_def case_prod_beta)

lemma keeps_door_try: "keeps mine w (snd (door_try c e parks w))"
proof (cases "inbox_push e (ce_inbox (w_cell_heap w c))")
  case (Panicked m)
  then show ?thesis by (simp add: door_try_def attempt_push_def act_bind_def with_inbox_def keeps_refl)
next
  case (Done x)
  obtain r ib where x: "x = (r, ib)" by (cases x)
  note push = push_box [OF Done [unfolded x]]
  define w0 where "w0 = on_cell c (\<lambda>ce. ce\<lparr>ce_inbox := ib\<rparr>) w"
  have wi: "with_inbox c (inbox_push e) w = (Done r, w0)" using Done x by (simp add: with_inbox_def w0_def)
  obtain answer w1 where at: "attempt_push c e parks w = (Done answer, w1)"
    and w10: "w_cell_heap w1 = w_cell_heap w0" "w_tasks w1 = w_tasks w0"
    and acc: "answer = PushAccepted \<longleftrightarrow> (\<exists>off. r = Inr off)"
  proof (cases r)
    case (Inr off)
    then show ?thesis using that [of PushAccepted w0] by (simp add: attempt_push_def act_bind_def wi)
  next
    case (Inl refusal)
    let ?m = "attempt_push c e parks w"
    have "fst ?m \<in> {Done PushLettered, Done (PushHeld (refused_into_envelope refusal) (parks + 1))} \<and>
        w_cell_heap (snd ?m) = w_cell_heap w0 \<and> w_tasks (snd ?m) = w_tasks w0"
      by (simp add: attempt_push_def act_bind_def wi Inl Let_def)
    with that [of _ "snd ?m"] Inl show ?thesis by (metis Inl_Inr_False insertE prod.collapse push_attempt.distinct(1,3) singletonD)
  qed
  have w1: "w_cell_heap w1 = (w_cell_heap w)(c := (w_cell_heap w c)\<lparr>ce_inbox := ib\<rparr>)" "w_tasks w1 = w_tasks w"
    using w10 by (simp_all add: w0_def on_cell_def)
  obtain b where b: "w_cell_heap (snd (door_after c (en_trace e) answer w1)) = (w_cell_heap w)(c := (w_cell_heap w c)
     \<lparr>ce_inbox := ib, ce_watermark_fired := b, ce_work := (answer = PushAccepted \<or> ce_work (w_cell_heap w c))\<rparr>)"
    using door_after_heap [of c "en_trace e" answer w1] by (auto simp: w1)
  have "calmer (mine c) (w_cell_heap w c) ((w_cell_heap w c)
     \<lparr>ce_inbox := ib, ce_watermark_fired := b, ce_work := (answer = PushAccepted \<or> ce_work (w_cell_heap w c))\<rparr>)"
  proof (cases r)
    case (Inl refusal)
    then show ?thesis by (intro calmer_permit(2)) (use push acc in auto)
  next
    case (Inr off)
    then show ?thesis by (intro calmer_permit(1)) (use push acc in auto)
  qed
  then have "keeps mine w (snd (door_after c (en_trace e) answer w1))"
    by (intro keeps_heap) (auto simp: b w1 calmer_refl)
  then show ?thesis by (simp add: door_try_def act_bind_def at case_prod_beta)
qed

interpretation waking: routing_frame "keeps mine" for mine
proof (unfold_locales, goal_cases)
  case (2 w w1 w2) then show ?case by (rule keeps_trans)
next
  case (9 w c p s) show ?case by (rule keeps_on_cell) (simp add: calmer_same)
next
  case 10 show ?case by (rule keeps_push)
qed (auto intro: keeps_refl keeps_same simp: on_endpoint_def)

text \<open>A fresh cell is empty.\<close>

interpretation waking: spawn_frame "keeps mine" host for mine host
proof (unfold_locales, goal_cases)
  case (3 c g w) then show ?case by (intro keeps_on_cell calmer_same) blast+
next
  case 4 show ?case by (rule keeps_on_cell) (simp add: calmer_permit(2))
next
  case (6 ce path m o')
  then have "cell_tidy ce" "\<not> mail_waits (ce_inbox ce)" by (auto simp: new_cell_def cell_tidy_def)
  then show ?case
    by (intro act_relI)
      (auto simp: register_actor_def Let_def keeps_refl calmer_refl, auto simp: calmer_def cell_stranded_def intro!: keeps_heap split: prod.split sum.split)
qed (auto intro: keeps_same keeps_spawn)

subsection \<open>Turns\<close>

lemma keeps_flush_mailbox: "keeps mine w (flush_mailbox path w)"
proof (cases "map_of (w_cells w) path")
  case (Some c)
  obtain d ib where d: "inbox_drain_live (inbox_close (ce_inbox (w_cell_heap w c))) = (d, ib)" by fastforce
  note box = drain_box [OF d]
  have "calmer (mine c) (w_cell_heap w c) ((mark_stopping (w_cell_heap w c))\<lparr>ce_inbox := ib\<rparr>)"
    by (rule calmer_permit(2)) (use box in \<open>auto simp: mark_stopping_def inbox_close_def\<close>)
  then have "keeps mine w (on_cell c (\<lambda>ce. (mark_stopping ce)\<lparr>ce_inbox := ib\<rparr>) w)" by (rule keeps_on_cell)
  from keeps_trans [OF this keeps_same] Some d show ?thesis by (simp add: flush_mailbox_def Let_def)
qed (simp add: flush_mailbox_def keeps_refl)

lemma with_mine:
  assumes "mine c" "\<And>ib a ib'. f ib = Done (a, ib') \<Longrightarrow> ordered_box ib \<Longrightarrow> ordered_box ib'"
  shows "act_rel (keeps mine) (with_inbox c f :: (('st, 'sv, 's) world, 'x) act)"
proof (rule act_relI)
  fix w :: "('st, 'sv, 's) world"
  have "calmer True (w_cell_heap w c) ((w_cell_heap w c)\<lparr>ce_inbox := ib\<rparr>)"
    if "f (ce_inbox (w_cell_heap w c)) = Done (a, ib)" for a ib
    by (rule calmer_mine) (use assms(2) [OF that] in auto)
  then show "keeps mine w (snd (with_inbox c f w))"
    by (auto simp: with_inbox_def keeps_refl assms(1) intro!: keeps_on_cell split: outcome.split prod.split)
qed

lemma host_ok_wakeful:
  assumes "host_ok host"
  shows "loop_frame (keeps mine) host mine (\<lambda>_. True)"
proof (unfold_locales, goal_cases)
  case 1 show ?case by (rule assms)
next
  case 2 show ?case by (rule keeps_same) simp_all
next
  case (3 c g w) then show ?case by (intro keeps_on_cell) (simp add: calmer_mine)
next
  case 4 then show ?case by (rule with_mine) (rule claim_box(1))
next
  case 5 then show ?case by (rule with_mine) (rule restore_box)
next
  case 6 then show ?case by (rule with_mine) (rule commit_run_box)
next
  case 8 show ?case by (rule keeps_set_task) simp
next
  case 9 show ?case by (rule act_relI) (rule keeps_door_try)
qed (rule keeps_flush_mailbox)

interpretation wakeful: loop_frame "keeps (\<lambda>_. True)" demo_host "\<lambda>_. True" "\<lambda>_. True"
  by (rule host_ok_wakeful [OF demo_host_ok])

subsection \<open>A loop parks only with nothing to do\<close>

definition never_idle :: "('w, step) act \<Rightarrow> bool" where
  "never_idle m \<longleftrightarrow> (\<forall>w. fst (m w) \<noteq> Done StIdle)"

lemma never_idle_bind: "(\<And>a. never_idle (f a)) \<Longrightarrow> never_idle (act_bind m f)"
  by (simp add: never_idle_def act_bind_def split: prod.split outcome.split)

lemma never_idle_ret: "st \<noteq> StIdle \<Longrightarrow> never_idle (act_ret st)"
  by (simp add: never_idle_def act_ret_def)

lemma step_claimed_busy: "never_idle (step_claimed host lp cs)"
  unfolding step_claimed_def finish_step_def after_commit_def
  by (intro never_idle_bind) (auto intro!: never_idle_bind never_idle_ret split: before_commit.split if_splits)

lemma serve_one_busy: "fst (serve_one host lp i entries e w) \<noteq> Done (Some StIdle)"
  by (auto simp: serve_one_def Let_def act_bind_def act_ret_def split: option.split prod.split msg_result.split outcome.split)

lemma serve_loop_busy: "never_idle (serve_loop host lp i entries cs)"
proof (induction cs)
  case (Cons c cs)
  obtain off e where c: "c = (off, e)" by (cases c)
  have one: "never_idle (act_bind (guarded (lo_cell lp) cs (serve_one host lp i entries e))
      (\<lambda>r. case r of None \<Rightarrow> serve_loop host lp i entries cs
            | Some st \<Rightarrow> act_bind (guard_drop (lo_cell lp) cs) (\<lambda>_. act_ret st)))"
    unfolding never_idle_def
  proof
    fix w
    obtain x w1 where x: "guarded (lo_cell lp) cs (serve_one host lp i entries e) w = (x, w1)" by fastforce
    have "x \<noteq> Done (Some StIdle)"
      using x serve_one_busy [of host lp i entries e w] by (auto simp: guarded_def split: prod.splits outcome.splits)
    then show "fst (act_bind (guarded (lo_cell lp) cs (serve_one host lp i entries e))
      (\<lambda>r. case r of None \<Rightarrow> serve_loop host lp i entries cs
            | Some st \<Rightarrow> act_bind (guard_drop (lo_cell lp) cs) (\<lambda>_. act_ret st)) w) \<noteq> Done StIdle"
      using Cons.IH unfolding never_idle_def
      by (cases x) (auto simp: act_bind_def x act_ret_def split: option.split prod.split outcome.split)
  qed
  show ?case unfolding c serve_loop.simps by (intro never_idle_bind one)
qed (simp add: never_idle_ret)

text \<open>An idle step has claimed nothing and changed nothing but the claimed box.\<close>

lemma idle_step_parks:
  assumes "act_bind (with_inbox c (inbox_claim_up_to n)) (\<lambda>cs. if cs = [] then act_ret StIdle else busy cs) w = (Done StIdle, w1)"
    and "\<And>cs. never_idle (busy cs)" and "0 < n"
  shows "\<not> cell_stranded (w_cell_heap w1 c)"
proof -
  obtain x w0 where x: "with_inbox c (inbox_claim_up_to n) w = (x, w0)" by fastforce
  show ?thesis
  proof (cases x)
    case (Done cs)
    then obtain ib where ib: "inbox_claim_up_to n (ce_inbox (w_cell_heap w c)) = Done (cs, ib)"
      and w0: "w0 = on_cell c (\<lambda>ce. ce\<lparr>ce_inbox := ib\<rparr>) w"
      using x by (auto simp: with_inbox_def split: outcome.splits prod.splits)
    have "cs = []"
    proof (rule ccontr)
      assume "cs \<noteq> []"
      then have "busy cs w0 = (Done StIdle, w1)" using assms(1) x Done by (simp add: act_bind_def)
      then show False using assms(2) [of cs] unfolding never_idle_def by (metis fst_conv)
    qed
    then have "w1 = w0" "\<not> mail_waits ib"
      using assms(1) x Done claim_box(2) [OF ib assms(3)] by (simp_all add: act_bind_def act_ret_def)
    then show ?thesis by (simp add: cell_stranded_def w0 on_cell_def)
  qed (use assms(1) x in \<open>simp add: act_bind_def\<close>)
qed

text \<open>The idle duties leave the box and the permit of every cell alone.\<close>

lemma snapshot_boxes:
  "ce_inbox (w_cell_heap (snd (maybe_snapshot_on_idle host lp w)) c) = ce_inbox (w_cell_heap w c)"
  "ce_work (w_cell_heap (snd (maybe_snapshot_on_idle host lp w)) c) = ce_work (w_cell_heap w c)"
proof -
  have "ce_inbox (w_cell_heap (snd (snapshot_now host lp q w)) c) = ce_inbox (w_cell_heap w c) \<and>
      ce_work (w_cell_heap (snd (snapshot_now host lp q w)) c) = ce_work (w_cell_heap w c)" for q
    by (auto simp: snapshot_now_def act_bind_def act_do_def act_of_def on_cell_def
        split: prod.split outcome.split sum.split)
  then show "ce_inbox (w_cell_heap (snd (maybe_snapshot_on_idle host lp w)) c) = ce_inbox (w_cell_heap w c)"
    "ce_work (w_cell_heap (snd (maybe_snapshot_on_idle host lp w)) c) = ce_work (w_cell_heap w c)"
    by (auto simp: maybe_snapshot_on_idle_def Let_def split: snapshot_cadence.split)
qed

lemma idle_tail_parks:
  "idle_tail lp w = (Done (Some (lp', LoopParked)), w') \<Longrightarrow> w' = w"
  by (auto simp: idle_tail_def split: if_splits)

text \<open>The running phase of either tier, ending parked.\<close>

lemma running_parks:
  assumes turn: "running_turn host lp watch step_act idle w = (Done (Some (lp', LoopParked)), w')"
    and step: "\<And>w1. step_act w = (Done StIdle, w1) \<Longrightarrow> \<not> cell_stranded (w_cell_heap w1 c)"
    and idle: "\<And>w1. idle w1 = (Done (Some (lp', LoopParked)), w') \<Longrightarrow> \<not> cell_stranded (w_cell_heap w1 c) \<Longrightarrow>
      \<not> cell_stranded (w_cell_heap w' c)"
  shows "\<not> cell_stranded (w_cell_heap w' c)"
proof -
  have "\<not> watch_value (w_watch_heap w watch)" using turn by (auto simp: running_turn_def end_loop_def)
  moreover obtain x w1 where x: "step_act w = (x, w1)" by fastforce
  ultimately have rest: "(case x of Panicked m \<Rightarrow> (Panicked m, w1) | Done st \<Rightarrow>
      (case st of StWork \<Rightarrow> act_bind (act_do (stamp_work lp)) (\<lambda>_. act_ret (Some (lp, LoopRunning)))
         | StIdle \<Rightarrow> idle
         | StCrashed \<Rightarrow> end_loop lp
         | StStop \<Rightarrow> act_bind (graceful_exit host lp StopNormal) (\<lambda>_. end_loop lp)) w1) = (Done (Some (lp', LoopParked)), w')"
    using turn by (simp add: running_turn_def act_bind_def split: outcome.splits)
  show ?thesis
  proof (cases "x = Done StIdle")
    case True
    then show ?thesis using rest step [of w1] idle [of w1] x by simp
  next
    case False
    then show ?thesis
      using rest by (cases x)
        (auto simp: act_bind_def act_do_def act_ret_def end_loop_def split: step.splits prod.splits outcome.splits)
  qed
qed

text \<open>The last phase of a turn that parks: a tidy cell is not stranded, one that was not stays so.\<close>

lemma es_turn_parks:
  assumes "es_turn host lp watch ph w = (Done (Some (lp', LoopParked)), w')"
    and "cell_tidy (w_cell_heap w (lo_cell lp))"
    and "ph = LoopParked \<Longrightarrow> \<not> cell_stranded (w_cell_heap w (lo_cell lp))"
  shows "\<not> cell_stranded (w_cell_heap w' (lo_cell lp))"
proof (cases ph)
  case LoopRunning
  have idle: "\<not> cell_stranded (w_cell_heap w' (lo_cell lp))"
    if i: "act_bind (maybe_snapshot_on_idle host lp) (\<lambda>_. idle_tail lp) w1 = (Done (Some (lp', LoopParked)), w')"
      and n: "\<not> cell_stranded (w_cell_heap w1 (lo_cell lp))" for w1
  proof -
    obtain x w2 where x: "maybe_snapshot_on_idle host lp w1 = (x, w2)" by fastforce
    then have "w' = w2" using i idle_tail_parks by (auto simp: act_bind_def split: outcome.splits)
    then show ?thesis using n snapshot_boxes [of host lp w1 "lo_cell lp"] x by (simp add: cell_stranded_def)
  qed
  show ?thesis
  proof (rule running_parks [OF assms(1) [unfolded LoopRunning es_turn.simps]])
    fix w1
    assume "step_es host lp w = (Done StIdle, w1)"
    then show "\<not> cell_stranded (w_cell_heap w1 (lo_cell lp))"
      unfolding step_es_def
      by (rule idle_step_parks) (use assms(2) in \<open>auto simp: step_claimed_busy cell_tidy_def\<close>)
  qed (rule idle)
next
  case LoopParked
  then show ?thesis using assms by (auto simp: parked_turn_def split: if_splits)
next
  case LoopBoot
  then show ?thesis using assms(1) by (auto simp: act_bind_def act_ret_def split: prod.splits outcome.splits)
next
  case LoopDraining
  then show ?thesis
    using assms(1) by (auto simp: draining_turn_def act_bind_def act_ret_def end_loop_def split: prod.splits outcome.splits if_splits)
qed

lemma service_turn_parks:
  assumes "service_turn host lp watch ph w = (Done (Some (lp', LoopParked)), w')"
    and "cell_tidy (w_cell_heap w (lo_cell lp))"
    and "ph = LoopParked \<Longrightarrow> \<not> cell_stranded (w_cell_heap w (lo_cell lp))"
  shows "\<not> cell_stranded (w_cell_heap w' (lo_cell lp))"
proof (cases ph)
  case LoopRunning
  show ?thesis
  proof (rule running_parks [OF assms(1) [unfolded LoopRunning service_turn.simps]])
    fix w1
    assume "step_service host lp w = (Done StIdle, w1)"
    moreover have "never_idle (\<lambda>w'. case map_of (w_services w') (lo_path lp) of
        None \<Rightarrow> (Panicked ''service present for a running loop'', snd (guard_drop (lo_cell lp) cs w'))
      | Some i \<Rightarrow> serve_loop host lp i (ce_msg_entries (w_cell_heap w' (lo_cell lp))) cs w')" for cs
      using serve_loop_busy [of host lp] unfolding never_idle_def by (simp split: option.split)
    ultimately show "\<not> cell_stranded (w_cell_heap w1 (lo_cell lp))"
      unfolding step_service_def
      by (rule idle_step_parks) (use assms(2) in \<open>auto simp: cell_tidy_def\<close>)
  qed (metis idle_tail_parks)
next
  case LoopParked
  then show ?thesis using assms by (auto simp: parked_turn_def split: if_splits)
next
  case LoopBoot
  then show ?thesis using assms(1) by (auto simp: act_bind_def act_ret_def split: prod.splits outcome.splits)
next
  case LoopDraining
  then show ?thesis
    using assms(1) by (auto simp: draining_turn_def act_bind_def act_ret_def end_loop_def split: prod.splits outcome.splits if_splits)
qed

subsection \<open>The invariant\<close>

definition calm :: "('st, 'sv, 's) world \<Rightarrow> bool" where
  "calm w \<longleftrightarrow> (\<forall>c. cell_tidy (w_cell_heap w c)) \<and>
     (\<forall>i t c. map_of (w_tasks w) i = Some t \<longrightarrow> parked t \<longrightarrow> loop_cell t = Some c \<longrightarrow> \<not> cell_stranded (w_cell_heap w c))"

text \<open>
  Two loops over one cell share its permit, and one may take what would have woken the other.  A spawn
  makes a cell for its loop; only the restart of an actor whose loop has not ended gives it a second one.
\<close>

definition one_loop_per_cell :: "('st, 'sv, 's) world \<Rightarrow> bool" where
  "one_loop_per_cell w \<longleftrightarrow>
     (\<forall>i j t u c. map_of (w_tasks w) i = Some t \<longrightarrow> map_of (w_tasks w) j = Some u \<longrightarrow>
        loop_cell t = Some c \<longrightarrow> loop_cell u = Some c \<longrightarrow> i = j)"

lemma keeps_tidy: "keeps mine w w' \<Longrightarrow> (\<forall>c. cell_tidy (w_cell_heap w c)) \<Longrightarrow> (\<forall>c. cell_tidy (w_cell_heap w' c))"
  by (auto simp: keeps_def calmer_def)

lemma calm_kept: "keeps (\<lambda>_. False) w w' \<Longrightarrow> calm w \<Longrightarrow> calm w'"
  unfolding calm_def keeps_def calmer_def by blast

lemma task_turn_parks:
  assumes turn: "task_turn host t w = (Done (Some t'), w')" and "calm w" "map_of (w_tasks w) i = Some t"
    and "parked t'" "loop_cell t' = Some c"
  shows "\<not> cell_stranded (w_cell_heap w' c)"
proof -
  have tidy: "cell_tidy (w_cell_heap w d)" for d using \<open>calm w\<close> by (simp add: calm_def)
  have park: "parked t \<Longrightarrow> loop_cell t = Some d \<Longrightarrow> \<not> cell_stranded (w_cell_heap w d)" for d
    using assms(2,3) unfolding calm_def by blast
  show ?thesis
  proof (cases t)
    case (EsTask lp watch ph)
    obtain x w1 where x: "es_turn host lp watch ph w = (x, w1)" by fastforce
    then obtain lp' where r: "x = Done (Some (lp', LoopParked))" "t' = EsTask lp' watch LoopParked" "w1 = w'"
      using turn assms(4) EsTask by (cases t' rule: parked.cases) (auto simp: act_bind_def act_ret_def split: outcome.splits)
    have "ph \<noteq> LoopBoot" using x r by (auto simp: act_bind_def act_ret_def split: prod.splits outcome.splits)
    then have "same_loop lp (es_turn host lp watch ph)"
      by (cases ph) (auto intro!: same_running same_bind same_basic same_draining)
    then have "lp' = lp" using x r unfolding same_loop_def by (metis fst_conv)
    moreover have "\<not> cell_stranded (w_cell_heap w' (lo_cell lp))"
      by (rule es_turn_parks [OF x [unfolded r] tidy park]) (simp_all add: EsTask)
    ultimately show ?thesis using assms(5) r by simp
  next
    case (ServiceTask lp watch ph)
    obtain x w1 where x: "service_turn host lp watch ph w = (x, w1)" by fastforce
    then obtain lp' where r: "x = Done (Some (lp', LoopParked))" "t' = ServiceTask lp' watch LoopParked" "w1 = w'"
      using turn assms(4) ServiceTask by (cases t' rule: parked.cases) (auto simp: act_bind_def act_ret_def split: outcome.splits)
    have "same_loop lp (service_turn host lp watch ph)"
      by (cases ph) (auto intro!: same_running same_bind same_basic same_draining)
    then have "lp' = lp" using x r unfolding same_loop_def by (metis fst_conv)
    moreover have "\<not> cell_stranded (w_cell_heap w' (lo_cell lp))"
      by (rule service_turn_parks [OF x [unfolded r] tidy park]) (simp_all add: ServiceTask)
    ultimately show ?thesis using assms(5) r by simp
  qed (use turn assms(4) in \<open>auto simp: act_bind_def act_ret_def split: prod.splits outcome.splits option.splits\<close>)
qed

lemma run_task_calm:
  assumes ok: "host_ok host" and one: "one_loop_per_cell w" and calm: "calm w"
  shows "calm (run_task host i w)"
proof (cases "map_of (w_tasks w) i")
  case None
  then show ?thesis using calm by (simp add: run_task_def)
next
  case (Some t)
  obtain x w1 where x: "task_turn host t w = (x, w1)" by fastforce
  let ?mine = "\<lambda>c. loop_cell t = Some c"
  have keep: "keeps ?mine w w1"
    using act_relD [OF loop_frame.rel_task_turn [OF host_ok_wakeful [OF ok]], of t ?mine w] x by simp
  have tidy: "\<forall>c. cell_tidy (w_cell_heap w1 c)" using keeps_tidy [OF keep] calm by (simp add: calm_def)
  define r where "r = (case x of Done t' \<Rightarrow> t' | Panicked m \<Rightarrow> None)"
  have heap: "w_cell_heap (run_task host i w) = w_cell_heap w1"
    and tasks: "map_of (w_tasks (run_task host i w)) = (map_of (w_tasks w1))(i := r)"
    by (cases x; auto simp: run_task_def Some x r_def set_task_def task_died_def door_died_def on_endpoint_def
        update_conv' delete_conv' fun_eq_iff split: option.split task.split)+
  have "\<not> cell_stranded (w_cell_heap w1 c)"
    if u: "map_of (w_tasks (run_task host i w)) j = Some u" "parked u" "loop_cell u = Some c" for j u c
  proof (cases "j = i")
    case True
    then have "x = Done (Some u)" using u tasks by (cases x) (auto simp: r_def)
    then show ?thesis using task_turn_parks [OF _ calm Some] x u by simp
  next
    case False
    then have old: "map_of (w_tasks w) j = Some u" using u tasks keep by (auto simp: keeps_def)
    then have "loop_cell t \<noteq> Some c" using one Some False u(3) unfolding one_loop_per_cell_def by blast
    then show ?thesis
      using keep calm old u(2,3) unfolding keeps_def calmer_def calm_def by blast
  qed
  then show ?thesis using tidy heap by (simp add: calm_def)
qed

text \<open>Every other step of the system strands no cell at all.\<close>

lemma sys_step_calm:
  assumes "host_ok host" "one_loop_per_cell w" "calm w" "sys_step host w w'"
  shows "calm w'"
proof -
  have "calm (snd (purge_journal host p w))" for p using calm_kept [OF keeps_same assms(3)] by simp
  then show ?thesis
    using loop_frame.rel_sys_step [OF host_ok_wakeful [OF assms(1)] assms(4), of "\<lambda>_. False"]
      calm_kept [OF _ assms(3)] run_task_calm [OF assms(1-3)] by auto
qed

subsection \<open>Orderly runs\<close>

text \<open>Runs in which no cell ever has two loops.\<close>

inductive orderly :: "('st, 'sv, 's) host \<Rightarrow> ('st, 'sv, 's) world \<Rightarrow> ('st, 'sv, 's) world \<Rightarrow> bool"
  for host :: "('st, 'sv, 's) host" and w0 :: "('st, 'sv, 's) world" where
  or_start: "orderly host w0 w0"
| or_step: "orderly host w0 w \<Longrightarrow> one_loop_per_cell w \<Longrightarrow> sys_step host w w' \<Longrightarrow> orderly host w0 w'"

lemma orderly_reachable: "orderly host w0 w \<Longrightarrow> reachable host w0 w"
  by (induction rule: orderly.induct) (auto intro: rc_start rc_step)

lemma system_new_calm: "calm (system_new store defaults observing wall now any_shell any_service)"
  by (simp add: calm_def system_new_def cell_tidy_def cell_new_def)

lemma orderly_calm:
  assumes "host_ok host"
  shows "orderly host w0 w \<Longrightarrow> calm w0 \<Longrightarrow> calm w"
  by (induction rule: orderly.induct) (auto intro: sys_step_calm [OF assms])

fun park_place :: "task \<Rightarrow> (es_loop \<times> nat) option" where
  "park_place (EsTask lp watch LoopParked) = Some (lp, watch)"
| "park_place (ServiceTask lp watch LoopParked) = Some (lp, watch)"
| "park_place _ = None"

fun resumed :: "task \<Rightarrow> task" where
  "resumed (EsTask lp watch ph) = EsTask lp watch LoopRunning"
| "resumed (ServiceTask lp watch ph) = ServiceTask lp watch LoopRunning"
| "resumed t = t"

lemma park_place_parked: "park_place t = Some (lp, watch) \<Longrightarrow> parked t \<and> loop_cell t = Some (lo_cell lp)"
  by (cases t rule: park_place.cases) auto

lemma waking_turn:
  assumes "map_of (w_tasks w) i = Some t" "park_place t = Some (lp, watch)" "loop_wakes lp watch w"
  shows "run_task host i w = set_task i (Some (resumed t)) (take_permit lp w)"
  using assms by (cases t rule: park_place.cases)
    (auto simp: run_task_def parked_turn_def act_bind_def act_ret_def)

text \<open>
  C6. No wakeup is lost.  In every run of the system, over any interleaving of turns, sends, stops,
  restarts and timeouts in which a cell never has two loops, a loop parked in front of waiting mail
  wakes: its next turn puts it back to work, and the batch it then claims starts with that envelope.
\<close>

theorem no_wakeup_is_lost:
  assumes "host_ok host"
    and "orderly host (system_new store defaults observing wall now any_shell any_service) w"
    and "map_of (w_tasks w) i = Some t" and "park_place t = Some (lp, watch)"
    and "inbox_peek (ce_inbox (w_cell_heap w (lo_cell lp))) = Done (Some e)"
  shows "loop_wakes lp watch w \<and>
    map_of (w_tasks (run_task host i w)) i = Some (resumed t) \<and>
    (\<forall>b ib. inbox_claim_up_to (ce_step_batch (w_cell_heap (run_task host i w) (lo_cell lp)))
         (ce_inbox (w_cell_heap (run_task host i w) (lo_cell lp))) = Done (b, ib) \<longrightarrow>
       (\<exists>rest. b = (ib_cursor (ce_inbox (w_cell_heap w (lo_cell lp))), e) # rest))"
proof -
  let ?ce = "w_cell_heap w (lo_cell lp)"
  have calm: "calm w" by (rule orderly_calm [OF assms(1,2) system_new_calm])
  then have "\<not> cell_stranded ?ce" "cell_tidy ?ce"
    using assms(3) park_place_parked [OF assms(4)] unfolding calm_def by blast+
  then have work: "ce_work ?ce" "0 < ce_step_batch ?ce"
    using assms(5) by (auto simp: cell_stranded_def cell_tidy_def mail_waits_def)
  then have wakes: "loop_wakes lp watch w" by (simp add: loop_wakes_def Let_def)
  have run: "run_task host i w = set_task i (Some (resumed t)) (take_permit lp w)"
    by (rule waking_turn [OF assms(3,4) wakes])
  then have heap: "ce_inbox (w_cell_heap (run_task host i w) (lo_cell lp)) = ce_inbox ?ce"
    "ce_step_batch (w_cell_heap (run_task host i w) (lo_cell lp)) = ce_step_batch ?ce"
    by (simp_all add: set_task_def take_permit_def on_cell_def)
  show ?thesis
    using wakes claim_box(3) [OF _ work(2) assms(5)] by (simp add: heap run set_task_def take_permit_def update_conv')
qed

text \<open>
  The demonstration: one event-sourced actor boots, finds nothing and parks; then an envelope is sent.
\<close>

lemma demo_running_facts:
  "w_tasks demo_running = [(4, DoorTask 1 DoorReady),
     (5, EsTask \<lparr>lo_path = ''a'', lo_cell = 0, lo_is_projector = False, lo_state = Some 2\<rparr> 3 LoopBoot)]"
  "w_registry demo_running = registry_new\<lparr>rg_slots := [(''a'', \<lparr>sl_manifest = merged_manifest manifest_new [] [] EventSourced,
     sl_endpoint = Some 1, sl_inbox_policy = Block\<rparr>)]\<rparr>"
  "w_watch_heap demo_running 3 = WatchOpen False" "w_store demo_running = mem_new" "w_cells demo_running = [(''a'', 0)]"
  "ce_inbox (w_cell_heap demo_running 0) = inbox_new 64 Block"
  "ce_snapshot_policy (w_cell_heap demo_running 0) = CadenceOff" "ce_passivation (w_cell_heap demo_running 0) = None"
  "ep_cell (w_endpoint_heap demo_running 1) = 0"
  by (simp_all add: demo_running_def demo_start_def system_new_def eb_start_def eb_at_def spawn_es_builder_def spawn_es_erased_def
     arm_es_erased_def act_bind_def register_actor_def Let_def insert_slot_def registry_new_def arm_tables_def has_key_def
     act_do_def act_ret_def start_loop_def new_watch_def start_tracked_def spawn_task_def store_handle_def on_cell_def on_watch_def
     stamp_es_def stamp_common_def spawn_cell_def cell_new_def resolve_opts_def default_opts_def endpoint_new_def
     add_routes_def with_entries_def merged_manifest_def manifest_kind_def manifest_new_def split: prod.split sum.split option.split)

lemma demo_running_more:
  "0 < ce_step_batch (w_cell_heap demo_running 0)" "\<not> w_shutting_down demo_running" "w_next demo_running = 6"
  "\<not> ce_stopping (w_cell_heap demo_running 0)"
  by (simp_all add: demo_running_def demo_start_def system_new_def eb_start_def eb_at_def spawn_es_builder_def spawn_es_erased_def
     arm_es_erased_def act_bind_def register_actor_def Let_def insert_slot_def registry_new_def arm_tables_def has_key_def
     act_do_def act_ret_def start_loop_def new_watch_def start_tracked_def spawn_task_def store_handle_def on_cell_def on_watch_def
     stamp_es_def stamp_common_def spawn_cell_def cell_new_def resolve_opts_def default_opts_def endpoint_new_def
     add_routes_def with_entries_def merged_manifest_def manifest_kind_def manifest_new_def split: prod.split sum.split option.split)

text \<open>Nobody listens to lifecycle facts in a system without routes and projector sets.\<close>

lemma unheard_broadcast:
  assumes "rg_routes (w_registry w) = []" "rg_projector_sets (w_registry w) = []"
  shows "broadcast host schema e w = (Done (), observe_traced (en_trace e) (ObSent (en_from e) (ASchema schema) schema (en_trace e)) w)"
  using assms by (simp add: broadcast_def Let_def broadcast_targets_def handlers_of_def projector_sets_consuming_def act_bind_def
      act_ret_def)

text \<open>What the two turns of the demonstration leave alone.\<close>

definition demo_like :: "(int, nat, mem_store) world \<Rightarrow> bool" where
  "demo_like w \<longleftrightarrow> w_registry w = w_registry demo_running \<and> w_cell_heap w = w_cell_heap demo_running \<and>
     w_endpoint_heap w = w_endpoint_heap demo_running \<and> w_watch_heap w = w_watch_heap demo_running \<and>
     w_next w = w_next demo_running \<and> w_shutting_down w = w_shutting_down demo_running"

definition demo_ticker :: es_loop where
  "demo_ticker = \<lparr>lo_path = ''a'', lo_cell = 0, lo_is_projector = False, lo_state = Some 2\<rparr>"

lemma demo_boots:
  obtains w1 where "run_task demo_host 5 demo_running = w1" "demo_like w1"
    "w_tasks w1 = [(4, DoorTask 1 DoorReady), (5, EsTask demo_ticker 3 LoopRunning)]"
proof -
  have load: "load_journal demo_host ''a'' demo_running = (Inr None, demo_running)"
    by (simp add: load_journal_def demo_host_def mem_ops_def mem_load_def demo_running_facts(4)) (simp add: mem_new_def)
  obtain tr w0 where t: "new_trace_root demo_running = (tr, w0)" by fastforce
  then have w0: "\<exists>g. w0 = demo_running\<lparr>w_ids := g\<rparr>" by (auto simp: new_trace_root_def split: prod.splits)
  have hear: "rg_routes (w_registry w0) = []" "rg_projector_sets (w_registry w0) = []"
    using w0 by (auto simp: demo_running_facts(2) registry_new_def)
  obtain k where pub: "announce_lifecycle demo_host ''a'' LcRunning EventSourced demo_running = (Done (), observe_traced tr k w0)"
    using unheard_broadcast [OF hear]
    by (auto simp: announce_lifecycle_def publish_def t envelope_raw_def)
  have "run_task demo_host 5 demo_running = set_task 5 (Some (EsTask demo_ticker 3 LoopRunning)) (observe_traced tr k w0)"
    by (simp add: run_task_def demo_running_facts(1) recover_at_boot_def load recover_with_def act_bind_def pub act_ret_def demo_ticker_def)
  moreover have "demo_like (set_task 5 (Some (EsTask demo_ticker 3 LoopRunning)) (observe_traced tr k w0))"
    using w0 by (auto simp: demo_like_def set_task_def observe_traced_def)
  moreover have "w_tasks (set_task 5 (Some (EsTask demo_ticker 3 LoopRunning)) (observe_traced tr k w0)) =
      [(4, DoorTask 1 DoorReady), (5, EsTask demo_ticker 3 LoopRunning)]"
    using w0 by (auto simp: set_task_def observe_traced_def demo_running_facts(1))
  ultimately show ?thesis using that by blast
qed

lemma demo_parks:
  assumes "demo_like w1" "w_tasks w1 = [(4, DoorTask 1 DoorReady), (5, EsTask demo_ticker 3 LoopRunning)]"
  obtains w2 where "run_task demo_host 5 w1 = w2" "demo_like w2"
    "w_tasks w2 = [(4, DoorTask 1 DoorReady), (5, EsTask demo_ticker 3 LoopParked)]"
proof -
  have heap: "w_cell_heap w1 = w_cell_heap demo_running" "w_watch_heap w1 3 = WatchOpen False"
    using assms(1) by (simp_all add: demo_like_def demo_running_facts)
  have box: "ce_inbox (w_cell_heap demo_running 0) = inbox_new 64 Block" by (rule demo_running_facts)
  have same: "on_cell 0 (\<lambda>ce. ce\<lparr>ce_inbox := inbox_new 64 Block\<rparr>) w1 = w1"
    using heap(1) box by (simp add: on_cell_def fun_upd_idem)
  have step: "step_es demo_host demo_ticker w1 = (Done StIdle, w1)"
    using same by (simp add: step_es_def act_bind_def with_inbox_def heap box demo_ticker_def inbox_claim_up_to_def inbox_new_def act_ret_def)
  have idle: "act_bind (maybe_snapshot_on_idle demo_host demo_ticker) (\<lambda>_. idle_tail demo_ticker) w1 =
      (Done (Some (demo_ticker, LoopParked)), w1)"
    by (simp add: act_bind_def maybe_snapshot_on_idle_def heap demo_ticker_def demo_running_facts idle_tail_def passivation_due_def Let_def)
  have "run_task demo_host 5 w1 = set_task 5 (Some (EsTask demo_ticker 3 LoopParked)) w1"
    using heap(2) by (simp add: run_task_def assms(2) running_turn_def act_bind_def step idle [unfolded act_bind_def] act_ret_def)
  moreover have "demo_like (set_task 5 (Some (EsTask demo_ticker 3 LoopParked)) w1)"
    using assms(1) by (simp add: demo_like_def set_task_def)
  ultimately show ?thesis using that by (simp add: set_task_def assms(2))
qed

lemma demo_mailed:
  assumes "demo_like w2" "w_tasks w2 = [(4, DoorTask 1 DoorReady), (5, EsTask demo_ticker 3 LoopParked)]"
  obtains w3 where "snd (route demo_host (demo_envelope ''Add'') w2) = w3" "w_tasks w3 = w_tasks w2"
    "inbox_peek (ce_inbox (w_cell_heap w3 (lo_cell demo_ticker))) = Done (Some (demo_envelope ''Add''))"
    "ib_policy (ce_inbox (w_cell_heap w3 0)) = Block" "\<not> ce_stopping (w_cell_heap w3 0)"
proof -
  let ?e = "demo_envelope ''Add''"
  have reg: "w_registry w2 = w_registry demo_running" "w_cell_heap w2 = w_cell_heap demo_running"
      "ep_cell (w_endpoint_heap w2 (Suc 0)) = 0" "w_next w2 = 6" "\<not> w_shutting_down w2"
    using assms(1) demo_running_facts(9) by (simp_all add: demo_like_def demo_running_more)
  have box: "ce_inbox (w_cell_heap w2 0) = inbox_new 64 Block" using reg by (simp add: demo_running_facts)
  have p: "plain w2"
    using assms(2) reg by (auto simp: plain_def demo_running_facts registry_new_def resolve_def split: if_splits)
  have push: "inbox_push ?e (ce_inbox (w_cell_heap w2 0)) = Done (Inr 0, queue_next ?e (inbox_new 64 Block))"
    by (simp add: box inbox_push_def queue_ok_def) (simp add: inbox_new_def queue_next_def)
  have dp: "direct_push (Suc 0) ?e tr w2 = (Done (Inr ()), pushed_directly 0 tr None
      (on_cell 0 (\<lambda>ce. ce\<lparr>ce_inbox := queue_next ?e (inbox_new 64 Block)\<rparr>) w2))" for tr
    by (simp add: direct_push_def reg(3) act_bind_def with_inbox_def push)
  let ?w3 = "snd (route demo_host ?e w2)"
  have res: "resolve ''a'' (w_registry w2) = Some (Suc 0)" by (simp add: reg demo_running_facts resolve_def)
  have w3: "\<exists>tr. w_tasks ?w3 = w_tasks w2 \<and> w_cell_heap ?w3 = w_cell_heap (pushed_directly 0 tr None
      (on_cell 0 (\<lambda>ce. ce\<lparr>ce_inbox := queue_next ?e (inbox_new 64 Block)\<rparr>) w2))"
    using route_plain [OF p, of ?e "''a''" demo_host] res dp
    by (intro exI [of _ "en_trace ?e"]) (simp add: deliver_primary_def act_bind_def observe_sent_def, simp add: demo_envelope_def envelope_raw_def)
  then obtain tr b where heap: "w_cell_heap ?w3 = (w_cell_heap (on_cell 0 (\<lambda>ce. ce\<lparr>ce_inbox := queue_next ?e (inbox_new 64 Block)\<rparr>) w2))
      (0 := (w_cell_heap (on_cell 0 (\<lambda>ce. ce\<lparr>ce_inbox := queue_next ?e (inbox_new 64 Block)\<rparr>) w2) 0)
        \<lparr>ce_watermark_fired := b, ce_work := True\<rparr>)" "w_tasks ?w3 = w_tasks w2"
    using pushed_directly_heap by metis
  then have "inbox_peek (ce_inbox (w_cell_heap ?w3 (lo_cell demo_ticker))) = Done (Some ?e)"
    by (simp add: demo_ticker_def inbox_peek_def queue_next_def inbox_new_def)
  moreover have "ib_policy (ce_inbox (w_cell_heap ?w3 0)) = Block" by (simp add: heap(1) queue_next_def inbox_new_def)
  moreover have "\<not> ce_stopping (w_cell_heap ?w3 0)" using demo_running_more(4) by (simp add: heap(1) reg(2))
  ultimately show ?thesis using heap(2) that by blast
qed

theorem no_wakeup_is_lost_witness:
  "\<exists>w. orderly demo_host demo_start w \<and> loop_wakes demo_ticker 3 w \<and>
     map_of (w_tasks (run_task demo_host 5 w)) 5 = Some (EsTask demo_ticker 3 LoopRunning)"
proof -
  obtain w1 where w1: "run_task demo_host 5 demo_running = w1" "demo_like w1"
    "w_tasks w1 = [(4, DoorTask 1 DoorReady), (5, EsTask demo_ticker 3 LoopRunning)]" by (rule demo_boots)
  obtain w2 where w2: "run_task demo_host 5 w1 = w2" "demo_like w2"
    "w_tasks w2 = [(4, DoorTask 1 DoorReady), (5, EsTask demo_ticker 3 LoopParked)]" by (rule demo_parks [OF w1(2,3)])
  obtain w3 where w3: "snd (route demo_host (demo_envelope ''Add'') w2) = w3" "w_tasks w3 = w_tasks w2"
    "inbox_peek (ce_inbox (w_cell_heap w3 (lo_cell demo_ticker))) = Done (Some (demo_envelope ''Add''))"
    by (rule demo_mailed [OF w2(2,3)])
  have one: "one_loop_per_cell demo_start" "one_loop_per_cell demo_running" "one_loop_per_cell w1" "one_loop_per_cell w2"
    by (auto simp: one_loop_per_cell_def demo_start_def system_new_def demo_running_facts w1(3) w2(3) split: if_splits)
  have "orderly demo_host demo_start demo_running"
    unfolding demo_running_def by (intro or_step [OF or_start one(1) st_call] ap_setup su_es)
  from or_step [OF this one(2) st_turn, of 5] have "orderly demo_host demo_start w1" by (simp add: w1(1))
  from or_step [OF this one(3) st_turn, of 5] have "orderly demo_host demo_start w2" by (simp add: w2(1))
  from or_step [OF this one(4) st_call [OF ap_send], of "demo_envelope ''Add''"]
  have run: "orderly demo_host demo_start w3" by (simp add: w3(1))
  have "map_of (w_tasks w3) 5 = Some (EsTask demo_ticker 3 LoopParked)" by (simp add: w3(2) w2(3))
  from no_wakeup_is_lost [OF demo_host_ok run [unfolded demo_start_def] this _ w3(3)] run show ?thesis
    by auto
qed

end
