(* ===== verification/Mailboxes.thy ===== *)
theory Mailboxes
  imports Wakeups Restarts
begin

text \<open>
  The order of a mailbox over whole runs (\<open>src/src/inbox.rs\<close> under \<open>src/src/kernel.rs\<close>): whatever the tasks,
  the callbacks and the callers outside do, in any interleaving, the mail queued for a cell leaves it only
  from the front, and new mail joins only at the end, until a teardown marks the cell as stopping.
\<close>

subsection \<open>The relation\<close>

text \<open>
  What may happen to a mailbox of which \<open>k\<close> envelopes are claimed while \<open>n\<close> of them leave: a region that
  holds claims consumes nothing; a whole turn starts and ends without claims and consumes what it commits.
\<close>

datatype mail_mode = MailAny | MailHeld | MailServed | MailSettled

fun may_pass :: "mail_mode \<Rightarrow> nat \<Rightarrow> nat \<Rightarrow> bool" where
  "may_pass MailAny k n = False"
| "may_pass MailHeld k n = (n = 0)"
| "may_pass MailServed k n = (k = 0)"
| "may_pass MailSettled k n = (k = 0)"

definition box_passes :: "mail_mode \<Rightarrow> 'e inbox \<Rightarrow> 'e inbox \<Rightarrow> bool" where
  "box_passes m ib ib' \<longleftrightarrow> (\<forall>cu k es. queued ib cu k es \<longrightarrow> may_pass m k 0 \<longrightarrow>
     (\<exists>n more. may_pass m k n \<and> n \<le> length (es @ more) \<and> queued ib' (cu + n) k (drop n (es @ more))))"

definition cell_passes :: "mail_mode \<Rightarrow> 'st actor_cell \<Rightarrow> 'st actor_cell \<Rightarrow> bool" where
  "cell_passes m ce ce' \<longleftrightarrow>
     ib_policy (ce_inbox ce') = ib_policy (ce_inbox ce) \<and> (ce_stopping ce \<longrightarrow> ce_stopping ce') \<and>
     (\<not> ce_stopping ce' \<longrightarrow> ib_policy (ce_inbox ce) \<noteq> DropOld \<longrightarrow> box_passes m (ce_inbox ce) (ce_inbox ce'))"

text \<open>A box in which nothing is claimed, and the mode that follows it through the start of a cell.\<close>

definition settled :: "'st actor_cell \<Rightarrow> bool" where
  "settled ce \<longleftrightarrow> (\<not> ce_stopping ce \<longrightarrow> ib_policy (ce_inbox ce) \<noteq> DropOld \<longrightarrow> (\<exists>cu es. queued (ce_inbox ce) cu 0 es))"

definition passes :: "mail_mode \<Rightarrow> nat \<Rightarrow> ('st, 'sv, 's) world \<Rightarrow> ('st, 'sv, 's) world \<Rightarrow> bool" where
  "passes m c w w' \<longleftrightarrow>
     w_next w \<le> w_next w' \<and> (c < w_next w \<longrightarrow> cell_passes m (w_cell_heap w c) (w_cell_heap w' c)) \<and>
     (m = MailSettled \<longrightarrow> settled (w_cell_heap w c) \<longrightarrow> settled (w_cell_heap w' c))"

lemma may_pass_add: "may_pass m k n \<Longrightarrow> may_pass m k n' \<Longrightarrow> may_pass m k (n + n')"
  by (cases m) simp_all

lemma box_passes_refl: "box_passes m ib ib"
  unfolding box_passes_def by (intro allI impI exI [of _ 0] exI [of _ "[]"]) simp

lemma box_passes_trans:
  assumes "box_passes m ib ib1" "box_passes m ib1 ib2"
  shows "box_passes m ib ib2"
  unfolding box_passes_def
proof (intro allI impI)
  fix cu k es
  assume q: "queued ib cu k es" and p: "may_pass m k 0"
  obtain n more where n: "may_pass m k n" "n \<le> length (es @ more)" "queued ib1 (cu + n) k (drop n (es @ more))"
    using assms(1) q p unfolding box_passes_def by blast
  obtain n' more' where n': "may_pass m k n'" "n' \<le> length (drop n (es @ more) @ more')"
      "queued ib2 (cu + n + n') k (drop n' (drop n (es @ more) @ more'))"
    using assms(2) n(3) p unfolding box_passes_def by blast
  have d: "drop n (es @ more) @ more' = drop n (es @ (more @ more'))" using n(2) by simp
  have "n + n' \<le> length (es @ (more @ more'))" using n(2) n'(2) by simp
  moreover have "queued ib2 (cu + (n + n')) k (drop (n + n') (es @ (more @ more')))"
    using n'(3) unfolding d drop_drop by (simp add: ac_simps)
  ultimately show "\<exists>n more. may_pass m k n \<and> n \<le> length (es @ more) \<and> queued ib2 (cu + n) k (drop n (es @ more))"
    using may_pass_add [OF n(1) n'(1)] by blast
qed

lemma cell_passes_refl: "cell_passes m ce ce"
  by (simp add: cell_passes_def box_passes_refl)

lemma cell_passes_trans: "cell_passes m ce ce1 \<Longrightarrow> cell_passes m ce1 ce2 \<Longrightarrow> cell_passes m ce ce2"
  unfolding cell_passes_def using box_passes_trans by fastforce

lemma cell_passes_settled: "cell_passes MailSettled ce ce' \<Longrightarrow> settled ce \<Longrightarrow> settled ce'"
  by (fastforce simp: cell_passes_def box_passes_def settled_def)

lemma new_cell_settled: "new_cell ce \<Longrightarrow> settled ce"
  by (auto simp: new_cell_def settled_def queued_def ib_tight_def intro!: exI [of _ 0] exI [of _ "[]"])
    (auto simp: ib_rep_new, simp add: inbox_new_def)

lemma passes_refl: "passes m c w w"
  by (simp add: passes_def cell_passes_refl)

lemma passes_trans: "passes m c w w1 \<Longrightarrow> passes m c w1 w2 \<Longrightarrow> passes m c w w2"
  unfolding passes_def using cell_passes_trans by (metis less_le_trans order_trans)

lemma passes_heap:
  "cell_passes m (w_cell_heap w c) (w_cell_heap w' c) \<Longrightarrow> w_next w \<le> w_next w' \<Longrightarrow> passes m c w w'"
  using cell_passes_settled by (auto simp: passes_def)

lemma cell_passes_same:
  "ce_inbox ce' = ce_inbox ce \<Longrightarrow> ce_stopping ce' = ce_stopping ce \<Longrightarrow> cell_passes m ce ce'"
  by (simp add: cell_passes_def box_passes_refl)

lemma passes_same: "w_cell_heap w' = w_cell_heap w \<Longrightarrow> w_next w \<le> w_next w' \<Longrightarrow> passes m c w w'"
  by (simp add: passes_heap cell_passes_refl)

lemma passes_on_cell:
  "(d = c \<Longrightarrow> cell_passes m (w_cell_heap w c) (g (w_cell_heap w c))) \<Longrightarrow> passes m c w (on_cell d g w)"
  by (rule passes_heap) (auto simp: on_cell_def cell_passes_refl)

text \<open>Regions that hold claims, and turns, keep what any change keeps.\<close>

lemma passes_any: "passes m c w w' \<Longrightarrow> passes MailAny c w w'"
  by (simp add: passes_def cell_passes_def box_passes_def)

lemma box_heldD: "box_passes MailHeld ib ib' \<Longrightarrow> queued ib cu k es \<Longrightarrow> \<exists>more. queued ib' cu k (es @ more)"
  by (fastforce simp: box_passes_def)

lemma passes_served:
  assumes "passes MailAny c w w'"
    and "\<And>cu es. \<not> ce_stopping (w_cell_heap w' c) \<Longrightarrow> ib_policy (ce_inbox (w_cell_heap w c)) \<noteq> DropOld \<Longrightarrow>
      queued (ce_inbox (w_cell_heap w c)) cu 0 es \<Longrightarrow> c < w_next w \<Longrightarrow>
      \<exists>n more. n \<le> length (es @ more) \<and> queued (ce_inbox (w_cell_heap w' c)) (cu + n) 0 (drop n (es @ more))"
  shows "passes MailServed c w w'"
  using assms by (fastforce simp: passes_def cell_passes_def box_passes_def)

subsection \<open>Pushes, gates, spawns and stops\<close>

lemma push_passes:
  assumes push: "inbox_push e (ce_inbox ce) = Done (r, ib)" and "ce_inbox ce' = ib" "ce_stopping ce' = ce_stopping ce"
  shows "cell_passes m ce ce'"
proof -
  have "box_passes m (ce_inbox ce) ib" if pol: "ib_policy (ce_inbox ce) \<noteq> DropOld"
    unfolding box_passes_def
  proof (intro allI impI)
    fix cu k es
    assume "queued (ce_inbox ce) cu k es" "may_pass m k 0"
    then show "\<exists>n more. may_pass m k n \<and> n \<le> length (es @ more) \<and> queued ib (cu + n) k (drop n (es @ more))"
      using push_gains [OF push _ pol, of cu k es]
      by (intro exI [of _ 0], cases "queued ib cu k es") (auto intro: exI [of _ "[]"] exI [of _ "[e]"])
  qed
  then show ?thesis using push_policy [OF push] assms(2,3) by (simp add: cell_passes_def)
qed

lemma passes_push: "passes m c w (snd (direct_push ep e tr w))"
proof -
  define d where "d = ep_cell (w_endpoint_heap w ep)"
  have pd: "passes m c w (pushed_directly d tr ev (on_cell d (\<lambda>ce. ce\<lparr>ce_inbox := ib\<rparr>) w))"
    if "inbox_push e (ce_inbox (w_cell_heap w d)) = Done (r, ib)" for r ib ev
  proof -
    obtain b where b: "w_cell_heap (pushed_directly d tr ev (on_cell d (\<lambda>ce. ce\<lparr>ce_inbox := ib\<rparr>) w)) =
        (w_cell_heap w)(d := (w_cell_heap w d)\<lparr>ce_inbox := ib, ce_watermark_fired := b, ce_work := True\<rparr>)"
      using pushed_directly_heap [of d tr ev "on_cell d (\<lambda>ce. ce\<lparr>ce_inbox := ib\<rparr>) w"] by (auto simp: on_cell_def)
    show ?thesis
      by (rule passes_heap) (auto simp: b cell_passes_refl intro!: push_passes [OF that])
  qed
  show ?thesis
  proof (cases rule: direct_push_cases [OF d_def, of e tr])
    case (4 r ib)
    have "cell_passes m (w_cell_heap w d) ((w_cell_heap w d)\<lparr>ce_inbox := ib\<rparr>)" by (rule push_passes [OF 4(1)]) simp_all
    then show ?thesis using 4(3) by (auto intro: passes_on_cell)
  qed (auto simp: passes_refl pd)
qed

interpretation mail: routing_frame "passes m c" for m c
proof (unfold_locales, goal_cases)
  case (2 w w1 w2) then show ?case by (rule passes_trans)
next
  case 9 show ?case by (rule passes_on_cell) (simp add: cell_passes_same)
next
  case 10 show ?case by (rule passes_push)
qed (auto intro: passes_refl passes_same simp: on_endpoint_def)

lemma queued_open [simp]: "queued (ib\<lparr>ib_open := b\<rparr>) cu k es = queued ib cu k es"
  by (simp add: queued_def ib_rep_def ib_tight_def)

lemma cell_passes_gate: "cell_passes m ce (ce\<lparr>ce_inbox := (ce_inbox ce)\<lparr>ib_open := b\<rparr>\<rparr>)"
  using box_passes_refl [of m "ce_inbox ce"] by (simp add: cell_passes_def box_passes_def)

interpretation mail: spawn_frame "passes m c" host for m c host
proof (unfold_locales, goal_cases)
  case (3 g d w)
  then show ?case by (intro passes_on_cell cell_passes_same) blast+
next
  case 4 show ?case by (rule passes_on_cell) (rule cell_passes_gate)
next
  case (5 t w) show ?case by (rule passes_same) (simp_all add: spawn_task_def)
next
  case (6 ce path man o')
  show ?case
    by (rule act_relI) (auto simp: register_actor_def Let_def passes_refl passes_def cell_passes_refl new_cell_settled 6 split: prod.split sum.split)
qed (auto intro: passes_same)

text \<open>A teardown that empties the box marks the cell as stopping.\<close>

lemma passes_flush: "passes m c w (flush_mailbox path w)"
proof (cases "map_of (w_cells w) path")
  case (Some d)
  obtain mail ib where d: "inbox_drain_live (inbox_close (ce_inbox (w_cell_heap w d))) = (mail, ib)" by fastforce
  have "ib_policy ib = ib_policy (ce_inbox (w_cell_heap w d))"
    using d by (auto simp: inbox_drain_live_def inbox_close_def split: prod.splits)
  then have "cell_passes m (w_cell_heap w d) ((mark_stopping (w_cell_heap w d))\<lparr>ce_inbox := ib\<rparr>)"
    by (simp add: cell_passes_def mark_stopping_def)
  then have "passes m c w (on_cell d (\<lambda>ce. (mark_stopping ce)\<lparr>ce_inbox := ib\<rparr>) w)" by (intro passes_on_cell) simp
  from passes_trans [OF this passes_same] Some d show ?thesis by (simp add: flush_mailbox_def Let_def)
qed (simp add: flush_mailbox_def passes_refl)

text \<open>A door that tries its front envelope pushes at most that.\<close>

lemma passes_door_try: "act_rel (passes m c) (door_try d e parks :: (('st, 'sv, 's) world, door) act)"
proof -
  have push: "act_rel (passes m c) (with_inbox d (inbox_push e) :: (('st, 'sv, 's) world, envelope refused + nat) act)"
    by (rule act_relI)
      (auto simp: with_inbox_def passes_refl intro!: passes_on_cell push_passes split: outcome.split prod.split)
  have k: "act_rel (passes m c) (\<lambda>w :: ('st, 'sv, 's) world. case r of
          Inr _ \<Rightarrow> (Done PushAccepted, w)
        | Inl refusal \<Rightarrow>
            (let holds = (case refusal of RefFull _ \<Rightarrow> True | _ \<Rightarrow> False) \<and>
                         ce_mailbox_policy (w_cell_heap w d) = Block
             in if \<not> holds \<or> parks \<ge> block_hold_max_parks then
                  (let detail = (if parks \<ge> block_hold_max_parks
                                 then ''inbox still full after the space-notify hold cap''
                                 else if refused_queued_anyway refusal then ''inbox evicted oldest (DropOld)''
                                 else ''inbox refused (overload/closed)'')
                   in (Done PushLettered, dead_letter (refused_into_envelope refusal) DlInboxRefused detail w))
                else (Done (PushHeld (refused_into_envelope refusal) (parks + 1)), w)))"
    for r :: "envelope refused + nat"
    by (rule act_relI) (simp add: passes_refl Let_def mail.R_dead_letter split: sum.split)
  have after: "passes m c w (snd (door_after d tr answer w))" for answer tr and w :: "('st, 'sv, 's) world"
  proof -
    obtain b where "w_cell_heap (snd (door_after d tr answer w)) = (w_cell_heap w)(d := (w_cell_heap w d)
        \<lparr>ce_watermark_fired := b, ce_work := (answer = PushAccepted \<or> ce_work (w_cell_heap w d))\<rparr>)"
      using door_after_heap by blast
    moreover have "w_next (snd (door_after d tr answer w)) = w_next w"
      by (cases answer) (simp_all add: door_after_def Let_def case_prod_beta)
    ultimately show ?thesis by (intro passes_heap) (auto simp: cell_passes_refl cell_passes_same)
  qed
  have "act_rel (passes m c) (\<lambda>w :: ('st, 'sv, 's) world. let (x, w') = door_after d (en_trace e) answer w in (Done x, w'))" for answer
    by (rule act_relI) (simp add: case_prod_beta Let_def after)
  then show ?thesis
    unfolding door_try_def attempt_push_def by (intro mail.rel_bind push k)
qed

text \<open>Another cell's box is none of \<open>c\<close>'s; and no operation of the inbox changes its policy.\<close>

lemma passes_other_box: "d \<noteq> c \<Longrightarrow> act_rel (passes m c) (with_inbox d f)"
  by (rule act_relI) (auto simp: with_inbox_def passes_refl intro!: passes_on_cell split: outcome.split prod.split)

lemma passes_any_box:
  assumes "\<And>ib a ib'. f ib = Done (a, ib') \<Longrightarrow> ib_policy ib' = ib_policy ib"
  shows "act_rel (passes MailAny c) (with_inbox d f :: (('st, 'sv, 's) world, 'x) act)"
proof (rule act_relI)
  fix w :: "('st, 'sv, 's) world"
  have "cell_passes MailAny ce (ce\<lparr>ce_inbox := ib\<rparr>)" if "f (ce_inbox ce) = Done (a, ib)" for ce :: "'st actor_cell" and a ib
    using assms [OF that] by (simp add: cell_passes_def box_passes_def)
  then show "passes MailAny c w (snd (with_inbox d f w))"
    by (auto simp: with_inbox_def passes_refl intro!: passes_on_cell split: outcome.split prod.split)
qed

lemma box_policies:
  "inbox_claim_up_to n ib = Done (b, ib') \<Longrightarrow> ib_policy ib' = ib_policy ib"
  "inbox_restore_claims cs ib = Done (r, ib') \<Longrightarrow> ib_policy ib' = ib_policy ib"
  "commit_run offs ib = Done (x, ib') \<Longrightarrow> ib_policy ib' = ib_policy ib"
proof -
  show "inbox_claim_up_to n ib = Done (b, ib') \<Longrightarrow> ib_policy ib' = ib_policy ib"
    by (auto simp: inbox_claim_up_to_def outcome_simps)
  show "inbox_restore_claims cs ib = Done (r, ib') \<Longrightarrow> ib_policy ib' = ib_policy ib"
    by (auto simp: inbox_restore_claims_def outcome_simps)
  have "inbox_commit_through off ib = Done (r, ib') \<Longrightarrow> ib_policy ib' = ib_policy ib" for off ib r ib'
    by (auto simp: inbox_commit_through_def Let_def split: if_splits)
  then show "commit_run offs ib = Done (x, ib') \<Longrightarrow> ib_policy ib' = ib_policy ib"
    by (induction offs arbitrary: ib x ib') (fastforce simp: outcome_simps split: prod.splits)+
qed

lemma host_ok_mail:
  assumes "host_ok host"
  shows "loop_frame (passes m c) host (\<lambda>d. m = MailAny \<or> d \<noteq> c) (\<lambda>_. True)"
proof (unfold_locales, goal_cases)
  case 1 show ?case by (rule assms)
next
  case 2 show ?case by (rule passes_same) simp_all
next
  case (3 d g w) then show ?case by (intro passes_on_cell cell_passes_same) blast+
next
  case 4 then show ?case using passes_other_box passes_any_box box_policies(1) by metis
next
  case 5 then show ?case using passes_other_box passes_any_box box_policies(2) by metis
next
  case 6 then show ?case using passes_other_box passes_any_box box_policies(3) by metis
next
  case 7 show ?case by (rule passes_flush)
next
  case 8 show ?case by (rule passes_same) (simp_all add: set_task_def split: option.split)
next
  case 9 show ?case by (rule passes_door_try)
qed

lemma host_ok_held:
  assumes "host_ok host"
  shows "region_frame (passes m c) host (\<lambda>_. True) (\<lambda>_. True)"
  by unfold_locales
    (auto intro: loop_frame.L_factory [OF host_ok_mail [OF assms]] loop_frame.L_dispatch [OF host_ok_mail [OF assms]]
      passes_same passes_on_cell cell_passes_same)

subsection \<open>Own turns\<close>

text \<open>A mailbox of a running system that refuses rather than evicts, and what is left of its mail.\<close>

definition open_box :: "nat \<Rightarrow> ('st, 'sv, 's) world \<Rightarrow> bool" where
  "open_box c w \<longleftrightarrow> c < w_next w \<and> ib_policy (ce_inbox (w_cell_heap w c)) \<noteq> DropOld"

definition holds_mail :: "nat \<Rightarrow> nat \<Rightarrow> nat \<Rightarrow> envelope list \<Rightarrow> ('st, 'sv, 's) world \<Rightarrow> bool" where
  "holds_mail c cu k es w \<longleftrightarrow> queued (ce_inbox (w_cell_heap w c)) cu k es"

definition mail_left :: "nat \<Rightarrow> nat \<Rightarrow> envelope list \<Rightarrow> ('st, 'sv, 's) world \<Rightarrow> bool" where
  "mail_left c cu es w \<longleftrightarrow> (\<exists>n more. n \<le> length (es @ more) \<and> holds_mail c (cu + n) 0 (drop n (es @ more)) w)"

lemma passes_open:
  assumes "passes m c w w'" "open_box c w"
  shows "open_box c w'" "\<not> ce_stopping (w_cell_heap w' c) \<Longrightarrow> \<not> ce_stopping (w_cell_heap w c)"
  using assms by (auto simp: passes_def cell_passes_def open_box_def)

lemma held_mail:
  assumes "passes MailHeld c w w'" "open_box c w" "\<not> ce_stopping (w_cell_heap w' c)" "holds_mail c cu k es w"
  shows "\<exists>more. holds_mail c cu k (es @ more) w'"
  using assms box_heldD by (auto simp: passes_def cell_passes_def open_box_def holds_mail_def)

lemma served_mail:
  assumes "passes MailServed c w w'" "open_box c w" "\<not> ce_stopping (w_cell_heap w' c)" "holds_mail c cu 0 es w"
  shows "mail_left c cu es w'"
  using assms by (fastforce simp: passes_def cell_passes_def open_box_def holds_mail_def mail_left_def box_passes_def)

lemma servedI:
  assumes "passes MailAny c w w'"
    and "\<And>cu es. \<not> ce_stopping (w_cell_heap w' c) \<Longrightarrow> open_box c w \<Longrightarrow> holds_mail c cu 0 es w \<Longrightarrow> mail_left c cu es w'"
  shows "passes MailServed c w w'"
  using assms by (intro passes_served) (auto simp: open_box_def holds_mail_def mail_left_def)

lemma mail_left_refl: "holds_mail c cu 0 es w \<Longrightarrow> mail_left c cu es w"
  unfolding mail_left_def by (intro exI [of _ 0] exI [of _ "[]"]) simp

lemma mail_left_more: "mail_left c cu (es @ xs) w \<Longrightarrow> mail_left c cu es w"
  unfolding mail_left_def by (metis append_assoc)

lemma mail_left_after:
  assumes "mail_left c (cu + length xs) es w"
  shows "mail_left c cu (xs @ es) w"
proof -
  obtain n more where n: "n \<le> length (es @ more)" "holds_mail c (cu + length xs + n) 0 (drop n (es @ more)) w"
    using assms by (auto simp: mail_left_def)
  then show ?thesis
    unfolding mail_left_def
    by (intro exI [of _ "length xs + n"] exI [of _ more]) (simp add: add.assoc)
qed

lemma snd_bind_ret: "snd (act_bind m (\<lambda>_. act_ret x) w) = snd (m w)"
  by (simp add: act_bind_def act_ret_def split: prod.split outcome.split)

text \<open>Dropping the guard puts the claims back in front; a commit takes them off.\<close>

lemma guard_mail:
  assumes "holds_mail c cu (length xs) es w" "\<not> ce_stopping (w_cell_heap (snd (guard_drop c (enumerate cu xs) w)) c)"
  shows "holds_mail c cu 0 (xs @ es) (snd (guard_drop c (enumerate cu xs) w))"
proof (cases "xs = []")
  case True
  then show ?thesis using assms(1) by (simp add: guard_drop_def)
next
  case False
  have ns: "\<not> ce_stopping (w_cell_heap w c)"
  proof
    assume "ce_stopping (w_cell_heap w c)"
    then show False using assms(2) False by (simp add: guard_drop_def)
  qed
  show ?thesis
    using guard_drop_queued [OF assms(1) [unfolded holds_mail_def] ns False]
    by (auto simp: holds_mail_def notify_space_def)
qed

lemma commit_mail:
  assumes "holds_mail c cu (length xs + k) es w"
  shows "\<exists>w1. commit_offsets c (map fst (enumerate cu xs)) w = (Done (), w1) \<and> holds_mail c (cu + length xs) k es w1"
  using commit_offsets_queued [OF assms [unfolded holds_mail_def]]
  by (auto simp: holds_mail_def notify_space_def split: if_splits)

lemma any_step:
  fixes host :: "('st, 'sv, 's) host"
  assumes "host_ok host"
  shows "act_rel (passes MailAny c) (guard_drop d tail :: (('st, 'sv, 's) world, unit) act)" "act_rel (passes MailAny c) (finish_step host lp cs r)"
    "act_rel (passes MailAny c) (step_es host lp)" "act_rel (passes MailAny c) (commit_offsets d offs :: (('st, 'sv, 's) world, unit) act)"
    "act_rel (passes MailAny c) (serve_loop host lp i entries cs)" "act_rel (passes MailAny c) (step_service host lp)"
proof -
  note sf = loop_frame.L_turns(2) [OF host_ok_mail [OF assms, of MailAny c]]
  show "act_rel (passes MailAny c) (guard_drop d tail :: (('st, 'sv, 's) world, unit) act)" by (rule step_frame.rel_guard_drop [OF sf]) simp
  show "act_rel (passes MailAny c) (finish_step host lp cs r)" by (rule step_frame.rel_finish_step [OF sf]) simp_all
  show "act_rel (passes MailAny c) (step_es host lp)" by (rule step_frame.rel_step_es [OF sf]) simp_all
  show "act_rel (passes MailAny c) (commit_offsets d offs :: (('st, 'sv, 's) world, unit) act)" by (rule step_frame.rel_commit [OF sf]) simp
  show "act_rel (passes MailAny c) (serve_loop host lp i entries cs)" by (rule step_frame.rel_serve_loop [OF sf]) simp
  show "act_rel (passes MailAny c) (step_service host lp)" by (rule step_frame.rel_step_service [OF sf]) simp
qed

lemma finish_step_mail:
  assumes ok: "host_ok host" and c: "c = lo_cell lp"
    and open': "open_box c w" and h: "holds_mail c cu (length xs) es w"
    and ns: "\<not> ce_stopping (w_cell_heap (snd (finish_step host lp (enumerate cu xs) r w)) c)"
  shows "mail_left c cu (xs @ es) (snd (finish_step host lp (enumerate cu xs) r w))"
proof -
  let ?cs = "enumerate cu xs"
  have dropped: ?thesis if "finish_step host lp ?cs r = act_bind (guard_drop c ?cs) (\<lambda>_. act_ret st)" for st
    using guard_mail [OF h] ns unfolding that snd_bind_ret by (blast intro: mail_left_refl)
  obtain w1 where w1: "commit_offsets c (map fst ?cs) w = (Done (), w1)" "holds_mail c (cu + length xs) 0 es w1"
    using commit_mail [of c cu xs 0 es w] h by auto
  have o1: "open_box c w1"
    using passes_open(1) [OF act_relD [OF any_step(4) [OF ok]] open', of c "map fst ?cs"] w1 by simp
  have g: "guarded c ?cs (commit_offsets c (map fst ?cs)) w = (Done (), w1)" by (simp only: guarded_def w1(1) prod.case outcome.case)
  show ?thesis
  proof (cases r)
    case BcHeld
    then have "snd (finish_step host lp ?cs r w) = w1" using g c by (simp add: finish_step_def act_bind_def act_ret_def)
    then show ?thesis using w1(2) mail_left_after mail_left_refl by metis
  next
    case (BcAppended evs seqs obs)
    then have f: "finish_step host lp ?cs r w = after_commit host lp ?cs evs seqs obs w1"
      using g c by (simp add: finish_step_def act_bind_def)
    have "passes MailServed c w1 (snd (after_commit host lp ?cs evs seqs obs w1))"
      by (rule act_relD [OF region_frame.rel_after_commit [OF host_ok_held [OF ok] TrueI TrueI]])
    then have "mail_left c (cu + length xs) es (snd (finish_step host lp ?cs r w))"
      unfolding f by (rule served_mail [OF _ o1 _ w1(2)]) (use ns f in simp)
    then show ?thesis by (rule mail_left_after)
  qed (use dropped in \<open>auto simp: finish_step_def c\<close>)
qed

text \<open>A turn of the event-sourced step: what it claims it commits in order, or puts back.\<close>

lemma step_es_serves:
  assumes ok: "host_ok host" and c: "c = lo_cell lp"
  shows "act_rel (passes MailServed c) (step_es host lp)"
proof (rule act_relI, rule servedI)
  fix w :: "('a, 'b, 'c) world" and cu es
  assume ns: "\<not> ce_stopping (w_cell_heap (snd (step_es host lp w)) c)" and o: "open_box c w" and h: "holds_mail c cu 0 es w"
  define xs where "xs = take (ce_step_batch (w_cell_heap w c)) es"
  let ?cs = "enumerate cu xs"
  show "mail_left c cu es (snd (step_es host lp w))"
  proof (cases "xs = []")
    case True
    obtain ib where ib: "inbox_claim_up_to (ce_step_batch (w_cell_heap w c)) (ce_inbox (w_cell_heap w c)) = Done ([], ib)"
        "queued ib cu 0 es"
      using claim_queued [OF h [unfolded holds_mail_def], of "ce_step_batch (w_cell_heap w c)"] True by (auto simp: xs_def)
    then have "snd (step_es host lp w) = on_cell c (\<lambda>ce. ce\<lparr>ce_inbox := ib\<rparr>) w"
      by (simp add: step_es_def act_bind_def with_inbox_def c [symmetric] act_ret_def)
    with ib(2) show ?thesis by (intro mail_left_refl) (simp add: holds_mail_def)
  next
    case False
    obtain ib w1 where ib: "queued ib cu (length xs) (drop (length xs) es)"
        and w1: "records_only (on_cell c (\<lambda>ce. ce\<lparr>ce_inbox := ib\<rparr>) w) w1"
        and pol: "ib_policy ib = ib_policy (ce_inbox (w_cell_heap w c))"
        and eq: "step_es host lp w = act_bind (guarded c ?cs (decide_and_append host lp ?cs)) (finish_step host lp ?cs) w1"
      using step_es_unfold [of w lp cu es xs host] h False by (auto simp: holds_mail_def xs_def c)
    have heap: "w_cell_heap w1 = w_cell_heap (on_cell c (\<lambda>ce. ce\<lparr>ce_inbox := ib\<rparr>) w)" "w_next w1 = w_next w"
      using w1 by (auto simp: records_only_def)
    have o1: "open_box c w1" and h1: "holds_mail c cu (length xs) (drop (length xs) es) w1"
      using o pol ib by (simp_all add: open_box_def holds_mail_def heap)
    obtain r w2 where d: "decide_and_append host lp ?cs w1 = (r, w2)" by fastforce
    have p2: "passes MailHeld c w1 w2"
      using act_relD [OF region_frame.rel_decide_and_append [OF host_ok_held [OF ok] TrueI TrueI], of MailHeld c w1 lp ?cs] d by simp
    have o2: "open_box c w2" by (rule passes_open(1) [OF p2 o1])
    define w' where "w' = snd (step_es host lp w)"
    have end': "w' = (case r of Panicked m \<Rightarrow> snd (guard_drop c ?cs w2) | Done r' \<Rightarrow> snd (finish_step host lp ?cs r' w2))"
      by (cases r) (simp_all add: w'_def eq act_bind_def guarded_def d)
    have "passes MailAny c w2 w'"
      by (cases r) (simp_all add: end' act_relD [OF any_step(1) [OF ok]] act_relD [OF any_step(2) [OF ok]])
    then have "\<not> ce_stopping (w_cell_heap w2 c)" using passes_open(2) [OF _ o2] ns by (simp add: w'_def)
    then obtain more where h2: "holds_mail c cu (length xs) (drop (length xs) es @ more) w2"
      using held_mail [OF p2 o1 _ h1] by blast
    have es: "xs @ drop (length xs) es @ more = es @ more" by (simp add: xs_def min_def)
    have "mail_left c cu (xs @ drop (length xs) es @ more) w'"
    proof (cases r)
      case (Panicked m)
      then show ?thesis using guard_mail [OF h2] ns end' by (auto simp: w'_def [symmetric] intro: mail_left_refl)
    next
      case (Done r')
      then show ?thesis using finish_step_mail [OF ok c o2 h2, of r'] ns end' by (simp add: w'_def [symmetric])
    qed
    then show ?thesis unfolding es w'_def by (rule mail_left_more)
  qed
qed (rule act_relD [OF any_step(3) [OF ok]])

text \<open>A service commits one envelope before it handles it; a crash or a stop puts the rest back.\<close>

lemma serve_loop_mail:
  fixes host :: "('st, 'sv, 's) host"
  assumes ok: "host_ok host" and c: "c = lo_cell lp"
  shows "open_box c w \<Longrightarrow> holds_mail c cu (length xs) es w \<Longrightarrow>
    \<not> ce_stopping (w_cell_heap (snd (serve_loop host lp i entries (enumerate cu xs) w)) c) \<Longrightarrow>
    mail_left c cu (xs @ es) (snd (serve_loop host lp i entries (enumerate cu xs) w))"
proof (induction xs arbitrary: cu es w)
  case Nil
  then show ?case by (simp add: act_ret_def mail_left_refl)
next
  case (Cons e xs)
  let ?cs = "enumerate (Suc cu) xs" and ?all = "enumerate cu (e # xs)"
  define w' where "w' = snd (serve_loop host lp i entries ?all w)"
  obtain w1 where w1: "commit_offsets c [cu] w = (Done (), w1)" "holds_mail c (Suc cu) (length xs) es w1"
    using commit_mail [of c cu "[e]" "length xs" es w] Cons.prems(2) by auto
  define w2 where "w2 = observe_traced (en_trace e) (ObDelivered (lo_path lp) (en_schema e) (en_trace e)) w1"
  have heap: "w_cell_heap w2 = w_cell_heap w1" "w_next w2 = w_next w1" by (simp_all add: w2_def observe_traced_def)
  have o2: "open_box c w2"
    using passes_open(1) [OF act_relD [OF any_step(4) [OF ok]] Cons.prems(1), of c "[cu]"] w1(1)
    by (simp add: open_box_def heap)
  have h2: "holds_mail c (Suc cu) (length xs) es w2" using w1(2) by (simp add: holds_mail_def heap)
  obtain r w3 where r: "serve_one host lp i entries e w2 = (r, w3)" by fastforce
  have p3: "passes MailHeld c w2 w3"
    using act_relD [OF region_frame.rel_serve_one [OF host_ok_held [OF ok] TrueI], of MailHeld c w2 lp i entries e] r by simp
  have o3: "open_box c w3" by (rule passes_open(1) [OF p3 o2])
  have end': "w' = (case r of Panicked m \<Rightarrow> snd (guard_drop c ?cs w3)
      | Done None \<Rightarrow> snd (serve_loop host lp i entries ?cs w3) | Done (Some st) \<Rightarrow> snd (guard_drop c ?cs w3))"
  proof -
    have g: "guarded c ?all (commit_offsets c [cu]) w = (Done (), w1)" by (simp only: guarded_def w1(1) prod.case outcome.case)
    have "w' = snd (act_bind (guarded c ?cs (serve_one host lp i entries e))
           (\<lambda>r. case r of None \<Rightarrow> serve_loop host lp i entries ?cs
             | Some st \<Rightarrow> act_bind (guard_drop c ?cs) (\<lambda>_. act_ret st)) w2)"
      using g by (simp add: w'_def c [symmetric] act_bind_def [of "guarded c _ (commit_offsets c _)"] act_bind_def [of "act_do _"] act_do_def w2_def)
    then have "w' = snd (case guarded c ?cs (serve_one host lp i entries e) w2 of
        (Panicked m, w3) \<Rightarrow> (Panicked m, w3)
      | (Done r, w3) \<Rightarrow> (case r of None \<Rightarrow> serve_loop host lp i entries ?cs
             | Some st \<Rightarrow> act_bind (guard_drop c ?cs) (\<lambda>_. act_ret st)) w3)"
      by (simp add: act_bind_def [of "guarded c ?cs (serve_one host lp i entries e)"] split: prod.split outcome.split)
    then show ?thesis
      by (cases r) (simp_all add: guarded_def r snd_bind_ret split: option.split)
  qed
  have "passes MailAny c w3 w'"
    by (simp add: end' act_relD [OF any_step(1) [OF ok]] act_relD [OF any_step(5) [OF ok]] split: outcome.split option.split)
  moreover have ns: "\<not> ce_stopping (w_cell_heap w' c)" using Cons.prems(3) by (simp add: w'_def)
  ultimately have "\<not> ce_stopping (w_cell_heap w3 c)" using passes_open(2) [OF _ o3] by blast
  then obtain more where h3: "holds_mail c (Suc cu) (length xs) (es @ more) w3"
    using held_mail [OF p3 o2 _ h2] by blast
  have dropped: "w' = snd (guard_drop c ?cs w3) \<Longrightarrow> mail_left c (Suc cu) (xs @ es @ more) w'"
    using guard_mail [OF h3] ns by (auto intro: mail_left_refl)
  have "mail_left c (cu + length [e]) (xs @ es @ more) w'"
  proof (cases "r = Done None")
    case True
    then show ?thesis using Cons.IH [OF o3 h3] ns end' by simp
  next
    case False
    then show ?thesis using dropped end' by (cases r) (auto split: option.splits)
  qed
  from mail_left_after [OF this] have "mail_left c cu (((e # xs) @ es) @ more) w'" by simp
  then show ?case unfolding w'_def by (rule mail_left_more)
qed

lemma claimed_part: "min n (length es) = length (take n es)" "drop n es = drop (length (take n es)) es"
  by (simp_all add: min_def)

lemma step_service_serves:
  assumes ok: "host_ok host" and c: "c = lo_cell lp"
  shows "act_rel (passes MailServed c) (step_service host lp)"
proof (rule act_relI, rule servedI)
  fix w :: "('a, 'b, 'c) world" and cu es
  define w' where "w' = snd (step_service host lp w)"
  assume "\<not> ce_stopping (w_cell_heap (snd (step_service host lp w)) c)"
    and o: "open_box c w" and h: "holds_mail c cu 0 es w"
  then have ns: "\<not> ce_stopping (w_cell_heap w' c)" by (simp add: w'_def)
  define xs where "xs = take (ce_step_batch (w_cell_heap w c)) es"
  obtain ib where ib: "inbox_claim_up_to (ce_step_batch (w_cell_heap w c)) (ce_inbox (w_cell_heap w c)) = Done (enumerate cu xs, ib)"
      "queued ib cu (min (ce_step_batch (w_cell_heap w c)) (length es)) (drop (ce_step_batch (w_cell_heap w c)) es)"
      "ib_policy ib = ib_policy (ce_inbox (w_cell_heap w c))"
    using claim_queued [OF h [unfolded holds_mail_def], of "ce_step_batch (w_cell_heap w c)"] unfolding xs_def by blast
  have q: "queued ib cu (length xs) (drop (length xs) es)"
    using ib(2) claimed_part [of "ce_step_batch (w_cell_heap w c)" es] by (simp only: xs_def)
  define w1 where "w1 = on_cell c (\<lambda>ce. ce\<lparr>ce_inbox := ib\<rparr>) w"
  have h1: "holds_mail c cu (length xs) (drop (length xs) es) w1" and o1: "open_box c w1"
    using ib(3) q o by (simp_all add: w1_def holds_mail_def open_box_def)
  have es: "xs @ drop (length xs) es = es" by (simp add: xs_def min_def)
  have "w' = w1 \<and> xs = [] \<or> w' = snd (guard_drop c (enumerate cu xs) w1) \<or>
      (\<exists>i entries. w' = snd (serve_loop host lp i entries (enumerate cu xs) w1))"
  proof -
    have wi: "with_inbox c (inbox_claim_up_to (ce_step_batch (w_cell_heap w c))) w = (Done (enumerate cu xs), w1)"
      using ib(1) by (simp only: with_inbox_Done w1_def)
    have "w' = snd ((if enumerate cu xs = [] then act_ret StIdle
            else (\<lambda>w'. case map_of (w_services w') (lo_path lp) of
                   None \<Rightarrow> (Panicked ''service present for a running loop'', snd (guard_drop (lo_cell lp) (enumerate cu xs) w'))
                 | Some i \<Rightarrow> serve_loop host lp i (ce_msg_entries (w_cell_heap w' (lo_cell lp))) (enumerate cu xs) w')) w1)"
      unfolding w'_def step_service_def c [symmetric] act_bind_def wi prod.case outcome.case ..
    then show ?thesis by (auto simp: act_ret_def c split: option.splits if_splits)
  qed
  then have "mail_left c cu (xs @ drop (length xs) es) w'"
    using h1 ns guard_mail [OF h1] serve_loop_mail [OF ok c o1 h1] by (auto intro: mail_left_refl)
  then show "mail_left c cu es (snd (step_service host lp w))" by (simp add: es w'_def)
qed (rule act_relD [OF any_step(6) [OF ok]])

text \<open>A whole turn of the loop over the cell.\<close>

lemma own_turn_serves:
  assumes ok: "host_ok host" and c: "loop_cell t = Some c"
  shows "act_rel (passes MailServed c) (task_turn host t)"
proof -
  note lf = host_ok_mail [OF ok, of MailServed c]
  note tf = loop_frame.L_turns(1) [OF lf]
  note rf = host_ok_held [OF ok, of MailServed c]
  have park: "act_rel (passes MailServed c) (parked_turn lp watch)" for lp watch
    by (rule act_relI) (auto simp: parked_turn_def take_permit_def passes_refl intro!: passes_on_cell cell_passes_same)
  have idle: "act_rel (passes MailServed c) (act_bind (maybe_snapshot_on_idle host lp) (\<lambda>_. idle_tail lp))" for lp
    by (intro mail.rel_bind region_frame.rel_snapshot_on_idle [OF rf] turn_frame.rel_idle_tail [OF tf] TrueI)
  have es: "act_rel (passes MailServed c) (es_turn host lp watch ph)" if l: "c = lo_cell lp" for lp watch ph
  proof (cases ph)
    case LoopBoot
    then show ?thesis
      by (auto intro!: mail.rel_bind loop_frame.rel_recover [OF lf] turn_frame.rel_announce [OF tf] mail.rel_ret)
  next
    case LoopRunning
    then show ?thesis by (simp add: turn_frame.rel_running [OF tf step_es_serves [OF ok l] idle])
  next
    case LoopDraining
    then show ?thesis by (simp add: turn_frame.rel_drained [OF tf step_es_serves [OF ok l]])
  qed (simp add: park)
  have service: "act_rel (passes MailServed c) (service_turn host lp watch ph)" if l: "c = lo_cell lp" for lp watch ph
  proof (cases ph)
    case LoopBoot
    then show ?thesis by (auto intro!: mail.rel_bind turn_frame.rel_announce [OF tf] mail.rel_ret)
  next
    case LoopRunning
    then show ?thesis
      by (simp add: turn_frame.rel_running [OF tf step_service_serves [OF ok l] turn_frame.rel_idle_tail [OF tf]])
  next
    case LoopDraining
    then show ?thesis by (simp add: turn_frame.rel_drained [OF tf step_es_serves [OF ok l]])
  qed (simp add: park)
  show ?thesis
    using c es service by (cases t rule: loop_cell.cases) (auto intro!: mail.rel_bind mail.rel_ret)
qed

lemma passes_run_task:
  assumes "host_ok host" and "\<And>t. map_of (w_tasks w) i = Some t \<Longrightarrow> passes m c w (snd (task_turn host t w))"
  shows "passes m c w (run_task host i w)"
proof -
  note tf = loop_frame.L_turns(1) [OF host_ok_mail [OF assms(1), of m c]]
  have "passes m c w (set_task i t' w1)" if "passes m c w w1" for t' w1
    by (rule passes_trans [OF that passes_same]) (simp_all add: set_task_def split: option.split)
  moreover have "passes m c w (task_died t w1)" if "passes m c w w1" for t w1
    by (rule passes_trans [OF that turn_frame.R_task_died [OF tf]])
  ultimately show ?thesis
    using assms(2) by (auto simp: run_task_def passes_refl split: option.split prod.split outcome.split)
qed

lemma other_turn_passes:
  assumes "host_ok host" "loop_cell t \<noteq> Some c"
  shows "passes m c w (snd (task_turn host t w))"
  using act_relD [OF loop_frame.rel_task_turn [OF host_ok_mail [OF assms(1)]]] assms(2) by blast

subsection \<open>Runs\<close>

text \<open>A step that is not a turn of a loop over the cell.\<close>

definition unserved_step :: "('st, 'sv, 's) host \<Rightarrow> nat \<Rightarrow> ('st, 'sv, 's) world \<Rightarrow> ('st, 'sv, 's) world \<Rightarrow> bool" where
  "unserved_step host c w w' \<longleftrightarrow> sys_step host w w' \<and>
     (\<forall>i t. map_of (w_tasks w) i = Some t \<longrightarrow> loop_cell t = Some c \<longrightarrow> w' \<noteq> run_task host i w)"

lemma unserved_passes:
  assumes ok: "host_ok host" and st: "unserved_step host c w w'"
  shows "passes m c w w'"
proof -
  have "passes m c w (snd (purge_journal host p w))" for p by (rule passes_same) simp_all
  then consider "passes m c w w'" | i where "w' = run_task host i w"
    using loop_frame.rel_sys_step [OF host_ok_mail [OF ok], of w w' m c] st unfolding unserved_step_def by blast
  then show ?thesis
  proof cases
    case (2 i)
    have "passes m c w (snd (task_turn host t w))" if "map_of (w_tasks w) i = Some t" for t
      using other_turn_passes [OF ok] st that 2 unfolding unserved_step_def by blast
    then show ?thesis unfolding 2 by (rule passes_run_task [OF ok])
  qed
qed

lemma step_serves:
  assumes ok: "host_ok host" and st: "sys_step host w w'"
  shows "passes MailServed c w w'"
proof (cases "unserved_step host c w w'")
  case True
  then show ?thesis by (rule unserved_passes [OF ok])
next
  case False
  then obtain i t where t: "map_of (w_tasks w) i = Some t" "loop_cell t = Some c" "w' = run_task host i w"
    using st unfolding unserved_step_def by blast
  show ?thesis
    unfolding t(3) by (rule passes_run_task [OF ok]) (use t(1) act_relD [OF own_turn_serves [OF ok t(2)]] in auto)
qed

lemma run_passes:
  "(\<And>w w'. S w w' \<Longrightarrow> passes m c w w') \<Longrightarrow> S\<^sup>*\<^sup>* w w' \<Longrightarrow> passes m c w w'"
  by (rotate_tac, induction rule: rtranclp_induct) (auto intro: passes_refl passes_trans)

lemma loops_allocated:
  assumes "world_ok w" "map_of (w_tasks w) i = Some t" "loop_cell t = Some c"
  shows "c < w_next w"
  using assms by (cases t rule: loop_cell.cases) (force simp: world_ok_def tasks_ok_def loop_ok_def cell_of_loop_ok_def)+

text \<open>Between turns nothing is claimed.\<close>

lemma step_settled:
  assumes ok: "host_ok host" and w: "world_ok w" and st: "sys_step host w w'" and s: "settled (w_cell_heap w c)"
  shows "settled (w_cell_heap w' c)"
proof (cases "unserved_step host c w w'")
  case True
  then show ?thesis using unserved_passes [OF ok True, of MailSettled] s by (simp add: passes_def)
next
  case False
  then have "c < w_next w" using st loops_allocated [OF w] unfolding unserved_step_def by blast
  then have "cell_passes MailServed (w_cell_heap w c) (w_cell_heap w' c)"
    using step_serves [OF ok st, of c] by (simp add: passes_def)
  then show ?thesis using s by (fastforce simp: cell_passes_def box_passes_def settled_def)
qed

lemma system_new_settled: "settled (w_cell_heap (system_new store defaults observing wall now any_shell any_service) c)"
  by (rule new_cell_settled) (auto simp: system_new_def new_cell_def cell_new_def)

lemma reachable_settled:
  assumes ok: "host_ok host"
  shows "reachable host w0 w \<Longrightarrow> world_ok w0 \<Longrightarrow> settled (w_cell_heap w0 c) \<Longrightarrow> settled (w_cell_heap w c)"
proof (induction rule: reachable.induct)
  case (rc_step w w')
  then show ?case using step_settled [OF ok _ rc_step.hyps(2)] reachable_ok [OF ok rc_step.hyps(1)] by blast
qed

text \<open>
  C5. A mailbox is a queue over whole runs.  In a reachable system, between turns, nothing of a mailbox
  is claimed and its mail lies contiguous from the cursor; and over any later run, whatever the turns,
  sends, stops, restarts and timeouts and their interleaving, mail leaves it only from the front and joins
  only at the end: nothing is dropped from the middle, reordered or duplicated, until a teardown marks
  the cell as stopping.  In a run without a turn of a loop over the cell, nothing leaves it at all.
  (A mailbox that evicts its oldest mail is excepted.)
\<close>

theorem mailbox_is_fifo:
  assumes "host_ok host"
    and "reachable host (system_new store defaults observing wall now any_shell any_service) w"
    and "(sys_step host)\<^sup>*\<^sup>* w w'"
    and "c < w_next w" "ib_policy (ce_inbox (w_cell_heap w c)) \<noteq> DropOld" "\<not> ce_stopping (w_cell_heap w' c)"
  shows "\<exists>cu es n more.
    queued (ce_inbox (w_cell_heap w c)) cu 0 es \<and> n \<le> length (es @ more) \<and>
    queued (ce_inbox (w_cell_heap w' c)) (cu + n) 0 (drop n (es @ more)) \<and>
    ((unserved_step host c)\<^sup>*\<^sup>* w w' \<longrightarrow> n = 0)"
proof -
  have o: "open_box c w" using assms(4,5) by (simp add: open_box_def)
  have p: "passes MailServed c w w'" by (rule run_passes [OF step_serves [OF assms(1)] assms(3)])
  have "\<not> ce_stopping (w_cell_heap w c)" using passes_open(2) [OF p o] assms(6) by blast
  then obtain cu es where q: "holds_mail c cu 0 es w"
    using reachable_settled [OF assms(1,2) system_new_ok system_new_settled, of c] assms(5)
    by (auto simp: settled_def holds_mail_def)
  show ?thesis
  proof (cases "(unserved_step host c)\<^sup>*\<^sup>* w w'")
    case True
    have "passes MailHeld c w w'" by (rule run_passes [OF unserved_passes [OF assms(1)] True])
    then obtain more where "holds_mail c cu 0 (es @ more) w'" using held_mail [OF _ o assms(6) q] by blast
    then show ?thesis
      using q by (intro exI [of _ cu] exI [of _ es] exI [of _ 0] exI [of _ more]) (simp add: holds_mail_def)
  next
    case False
    then show ?thesis using served_mail [OF p o assms(6) q] q unfolding mail_left_def holds_mail_def by blast
  qed
qed

theorem mailbox_is_fifo_witness:
  "\<exists>w. reachable demo_host demo_start w \<and>
     inbox_peek (ce_inbox (w_cell_heap w 0)) = Done (Some (demo_envelope ''Add'')) \<and>
     (\<exists>cu es n more. queued (ce_inbox (w_cell_heap w 0)) cu 0 es \<and> n \<le> length (es @ more) \<and>
        queued (ce_inbox (w_cell_heap (run_task demo_host 5 w) 0)) (cu + n) 0 (drop n (es @ more)))"
proof -
  obtain w1 where w1: "run_task demo_host 5 demo_running = w1" "demo_like w1"
    "w_tasks w1 = [(4, DoorTask 1 DoorReady), (5, EsTask demo_ticker 3 LoopRunning)]" by (rule demo_boots)
  obtain w2 where w2: "run_task demo_host 5 w1 = w2" "demo_like w2"
    "w_tasks w2 = [(4, DoorTask 1 DoorReady), (5, EsTask demo_ticker 3 LoopParked)]" by (rule demo_parks [OF w1(2,3)])
  obtain w3 where w3: "snd (route demo_host (demo_envelope ''Add'') w2) = w3" "w_tasks w3 = w_tasks w2"
    "inbox_peek (ce_inbox (w_cell_heap w3 (lo_cell demo_ticker))) = Done (Some (demo_envelope ''Add''))"
    "ib_policy (ce_inbox (w_cell_heap w3 0)) = Block" "\<not> ce_stopping (w_cell_heap w3 0)"
    by (rule demo_mailed [OF w2(2,3)])
  have run: "reachable demo_host demo_start w3"
    using rc_step [OF rc_step [OF rc_step [OF demo_running_reachable st_turn, of 5] st_turn, of 5] st_call [OF ap_send],
        of "demo_envelope ''Add''"] by (simp add: w1(1) w2(1) w3(1))
  have mail: "inbox_peek (ce_inbox (w_cell_heap w3 0)) = Done (Some (demo_envelope ''Add''))"
    using w3(3) by (simp add: demo_ticker_def)
  have "sys_step demo_host w2 w3" using st_call [OF ap_send] w3(1) by metis
  then have "w_next w2 \<le> w_next w3"
    using step_serves [OF demo_host_ok] by (metis passes_def)
  then have alloc: "0 < w_next w3" using w2(2) by (simp add: demo_like_def demo_running_more)
  have "run_task demo_host 5 w3 = w3 \<or> run_task demo_host 5 w3 = set_task 5 (Some (EsTask demo_ticker 3 LoopRunning)) (take_permit demo_ticker w3)
      \<or> run_task demo_host 5 w3 = set_task 5 (Some (EsTask demo_ticker 3 LoopParked)) w3"
    by (simp add: run_task_def w3(2) w2(3) parked_turn_def act_bind_def act_ret_def)
  then have "\<not> ce_stopping (w_cell_heap (run_task demo_host 5 w3) 0)"
    using w3(5) by (auto simp: set_task_def take_permit_def on_cell_def demo_ticker_def)
  moreover have "(sys_step demo_host)\<^sup>*\<^sup>* w3 (run_task demo_host 5 w3)" by (rule r_into_rtranclp, rule st_turn)
  ultimately have "\<exists>cu es n more. queued (ce_inbox (w_cell_heap w3 0)) cu 0 es \<and> n \<le> length (es @ more) \<and>
        queued (ce_inbox (w_cell_heap (run_task demo_host 5 w3) 0)) (cu + n) 0 (drop n (es @ more))"
    using mailbox_is_fifo [OF demo_host_ok run [unfolded demo_start_def] _ alloc] w3(4) by (metis overload_policy.distinct)
  with run mail show ?thesis by blast
qed

end
