(* ===== verification/EventLogs.thy ===== *)
theory EventLogs
  imports Mailboxes
begin

text \<open>
  The journals over whole runs (\<open>src/src/journal.rs\<close> under \<open>src/src/kernel.rs\<close> and \<open>src/src/system.rs\<close>): a store
  that extends the journal it is asked to write, and touches no other, is a set of append-only logs under
  every interleaving of the system's steps, and each log has one writer, the tasks at its path.
\<close>

subsection \<open>The log of one path\<close>

text \<open>What a step does to the log of one path; \<open>still\<close> says that it adds nothing.\<close>

definition log_grows ::
  "('s \<Rightarrow> bool) \<Rightarrow> ('s \<Rightarrow> string \<Rightarrow> journaled_event list) \<Rightarrow> bool \<Rightarrow> string \<Rightarrow> ('st, 'sv, 's) world \<Rightarrow> ('st, 'sv, 's) world \<Rightarrow> bool" where
  "log_grows sound hist still p w w' \<longleftrightarrow> (sound (w_store w) \<longrightarrow> sound (w_store w') \<and>
     (\<exists>new. hist (w_store w') p = hist (w_store w) p @ new \<and> (still \<longrightarrow> new = [])))"

lemma log_same: "w_store w' = w_store w \<Longrightarrow> log_grows sound hist still p w w'"
  by (simp add: log_grows_def)

lemma log_trans: "log_grows sound hist still p w w1 \<Longrightarrow> log_grows sound hist still p w1 w2 \<Longrightarrow> log_grows sound hist still p w w2"
  unfolding log_grows_def by (metis append.assoc append_Nil2)

subsection \<open>Everything but the store's own calls leaves the store alone\<close>

lemma push_store: "w_store (snd (direct_push ep e tr w)) = w_store w"
proof -
  define c where "c = ep_cell (w_endpoint_heap w ep)"
  show ?thesis by (cases rule: direct_push_cases [OF c_def, of e tr]) auto
qed

interpretation log: routing_frame "log_grows sound hist still p" for sound hist still p
proof (unfold_locales, goal_cases)
  case (2 w w1 w2) then show ?case by (rule log_trans)
next
  case 10 show ?case by (rule log_same) (rule push_store)
qed (auto intro: log_same simp: on_endpoint_def)

lemma with_inbox_store: "w_store (snd (with_inbox c f w)) = w_store w"
  by (simp add: with_inbox_def split: outcome.split prod.split)

lemma door_after_store: "w_store (snd (door_after c tr answer w)) = w_store w"
  by (cases answer) (simp_all add: door_after_def Let_def case_prod_beta)

lemma door_try_store: "w_store (snd (door_try c e parks w)) = w_store w"
proof (cases "with_inbox c (inbox_push e) w")
  case (Pair r w1)
  have w1: "w_store w1 = w_store w" using with_inbox_store [of c "inbox_push e" w] Pair by simp
  have "w_store (snd (attempt_push c e parks w)) = w_store w"
    using w1 by (simp add: attempt_push_def act_bind_def Pair act_ret_def Let_def split: outcome.split sum.split)
  then show ?thesis
    by (cases "attempt_push c e parks w") (auto simp: door_try_def act_bind_def case_prod_beta door_after_store split: outcome.split)
qed

lemma log_run_task:
  assumes "\<And>t. map_of (w_tasks w) i = Some t \<Longrightarrow> log_grows sound hist still p w (snd (task_turn host t w))"
  shows "log_grows sound hist still p w (run_task host i w)"
proof -
  have "w_store (set_task i t' w1) = w_store w1" "w_store (task_died t w1) = w_store w1" for t' t and w1 :: "('a, 'b, 'c) world"
    by (simp_all add: set_task_def task_died_def door_died_def on_endpoint_def split: option.split task.split)
  with assms show ?thesis
    by (auto simp: run_task_def log_grows_def split: option.split prod.split outcome.split)
qed

text \<open>
  The steps that keep the journal of a path: all but its purge.  The steps foreign to it: neither a turn of
  a task at the path, nor the inline catch-up of a projector started there, nor its purge.
\<close>

definition keeping_step :: "('st, 'sv, 's) host \<Rightarrow> string \<Rightarrow> ('st, 'sv, 's) world \<Rightarrow> ('st, 'sv, 's) world \<Rightarrow> bool" where
  "keeping_step host p w w' \<longleftrightarrow> sys_step host w w' \<and> w' \<noteq> snd (purge_journal host p w)"

definition foreign_step :: "('st, 'sv, 's) host \<Rightarrow> string \<Rightarrow> ('st, 'sv, 's) world \<Rightarrow> ('st, 'sv, 's) world \<Rightarrow> bool" where
  "foreign_step host p w w' \<longleftrightarrow> keeping_step host p w w' \<and>
     (\<forall>i t. map_of (w_tasks w) i = Some t \<longrightarrow> task_path t = Some p \<longrightarrow> w' \<noteq> run_task host i w) \<and>
     (\<forall>code b. pb_path b = Some p \<longrightarrow> w' \<noteq> snd (pb_start_and_catchup host code b w))"

subsection \<open>The contract of an append-only store\<close>

locale event_log =
  fixes jo :: "'s store_ops" and sound :: "'s \<Rightarrow> bool" and hist :: "'s \<Rightarrow> string \<Rightarrow> journaled_event list"
  assumes write_law: "sound s \<Longrightarrow> journal_write jo p s s' \<Longrightarrow>
      sound s' \<and> (\<exists>new. hist s' p = hist s p @ new) \<and> (\<forall>q. q \<noteq> p \<longrightarrow> hist s' q = hist s q)"
    and upkeep_law: "sound s \<Longrightarrow> store_upkeep jo s s' \<Longrightarrow> sound s' \<and> hist s' = hist s"
    and purge_law: "sound s \<Longrightarrow> sound (snd (jo_purge jo p s)) \<and> (\<forall>q. q \<noteq> p \<longrightarrow> hist (snd (jo_purge jo p s)) q = hist s q)"
begin

lemma log_spawns:
  assumes "ho_store host = jo"
  shows "spawn_frame (log_grows sound hist still p) host"
proof (unfold_locales, goal_cases)
  case 2 then show ?case using upkeep_law assms by (auto simp: log_grows_def)
next
  case (6 ce path m o')
  show ?case by (rule act_relI) (rule log_same, simp add: register_actor_def Let_def split: prod.split sum.split)
qed (auto intro: log_same simp: spawn_task_def)

lemma log_steps:
  assumes ok: "host_ok host" and jo: "ho_store host = jo"
  shows "loop_frame (log_grows sound hist still p) host (\<lambda>_. True) (\<lambda>q. \<not> still \<or> q \<noteq> p)"
proof (rule loop_frame.intro [OF log_spawns [OF jo]], unfold_locales, goal_cases)
  case 1 show ?case by (rule ok)
next
  case (2 q w s)
  then have "sound (w_store w) \<Longrightarrow> sound s \<and> (\<exists>new. hist s q = hist (w_store w) q @ new) \<and> (\<forall>r. r \<noteq> q \<longrightarrow> hist s r = hist (w_store w) r)"
    using write_law jo by blast
  with 2(1) show ?case by (cases "q = p") (auto simp: log_grows_def)
next
  case 9 show ?case by (rule act_relI) (rule log_same, rule door_try_store)
qed (auto intro!: act_relI log_same simp: with_inbox_store flush_mailbox_def Let_def set_task_def split: option.split prod.split)

lemma log_purge: "ho_store host = jo \<Longrightarrow> q \<noteq> p \<Longrightarrow> log_grows sound hist still p w (snd (purge_journal host q w))"
  using purge_law by (auto simp: log_grows_def)

lemma log_turn:
  assumes "host_ok host" "ho_store host = jo" "still \<Longrightarrow> task_path t \<noteq> Some p"
  shows "log_grows sound hist still p w (snd (task_turn host t w))"
  by (rule act_relD [OF loop_frame.rel_task_turn [OF log_steps [OF assms(1,2)]]]) (use assms(3) in auto)

lemma log_keeping:
  assumes "host_ok host" "ho_store host = jo" and st: "keeping_step host p w w'"
  shows "log_grows sound hist False p w w'"
proof -
  have "log_grows sound hist False p w (run_task host i w)" for i
    by (rule log_run_task) (rule log_turn [OF assms(1,2)], simp)
  then show ?thesis
    using loop_frame.rel_sys_step [OF log_steps [OF assms(1,2), of False p]] log_purge [OF assms(2)] st
    unfolding keeping_step_def by metis
qed

lemma log_foreign:
  assumes "host_ok host" "ho_store host = jo" and st: "foreign_step host p w w'"
  shows "log_grows sound hist True p w w'"
proof -
  have "log_grows sound hist True p w (run_task host i w)" if "w' = run_task host i w" for i
    by (rule log_run_task) (rule log_turn [OF assms(1,2)], use st that in \<open>auto simp: foreign_step_def\<close>)
  then show ?thesis
    using loop_frame.rel_sys_step [OF log_steps [OF assms(1,2), of True p]] log_purge [OF assms(2)] st
    unfolding foreign_step_def keeping_step_def by metis
qed

lemma log_runs:
  assumes "host_ok host" "ho_store host = jo"
  shows "(keeping_step host p)\<^sup>*\<^sup>* w w' \<Longrightarrow> log_grows sound hist False p w w'"
    "(foreign_step host p)\<^sup>*\<^sup>* w w' \<Longrightarrow> log_grows sound hist True p w w'"
proof -
  show "(keeping_step host p)\<^sup>*\<^sup>* w w' \<Longrightarrow> log_grows sound hist False p w w'"
    by (induction rule: rtranclp_induct) (auto intro: log_same log_trans log_keeping [OF assms])
  show "(foreign_step host p)\<^sup>*\<^sup>* w w' \<Longrightarrow> log_grows sound hist True p w w'"
    by (induction rule: rtranclp_induct) (auto intro: log_same log_trans log_foreign [OF assms])
qed

text \<open>Nothing in a run breaks the store's own invariant.\<close>

lemma log_reachable:
  assumes "host_ok host" "ho_store host = jo"
  shows "reachable host w0 w \<Longrightarrow> sound (w_store w0) \<Longrightarrow> sound (w_store w)"
proof (induction rule: reachable.induct)
  case (rc_step w w')
  have "sound (w_store (snd (purge_journal host q w)))" for q using purge_law rc_step assms(2) by simp
  moreover have "log_grows sound hist False p w (run_task host i w)" for i p
    by (rule log_run_task) (rule log_turn [OF assms], simp)
  ultimately show ?case
    using loop_frame.rel_sys_step [OF log_steps [OF assms, of False] rc_step.hyps(2)] rc_step
    unfolding log_grows_def by metis
qed

end

subsection \<open>The in-memory store\<close>

lemma catchup_extends:
  "catchup_loop scs j ingest = (seqs, j', ingest') \<Longrightarrow>
     (jn_ok j \<longrightarrow> jn_ok j') \<and> (\<exists>new. events_in (jn_entries j') = events_in (jn_entries j) @ new)"
proof (induction scs arbitrary: j ingest seqs)
  case (Cons sc scs)
  define j1 where "j1 = snd (append_event_with_origin (sc_event sc) (CatchUp (sc_journal sc) (sc_seq sc)) ingest j)"
  have j1: "jn_ok j \<longrightarrow> jn_ok j1" "\<exists>e. events_in (jn_entries j1) = events_in (jn_entries j) @ [e]"
    using jn_ok_append by (auto simp: j1_def append_event_with_origin_def Let_def)
  show ?case
  proof (cases "holds_origin (sc_journal sc) (sc_seq sc) j")
    case True
    then show ?thesis using Cons by (auto simp: Let_def split: prod.splits)
  next
    case False
    then obtain seqs1 where "catchup_loop scs j1 (ingest + 1) = (seqs1, j', ingest')"
      using Cons.prems by (auto simp: Let_def j1_def append_event_with_origin_def split: prod.splits)
    from Cons.IH [OF this] j1 show ?thesis by auto
  qed
qed auto

lemma append_extends:
  assumes "append_loop es j ingest = (seqs, j', ingest')"
  shows "\<exists>new. events_in (jn_entries j') = events_in (jn_entries j) @ new"
  using append_loop_facts [OF assms] by blast

interpretation mem_log: event_log mem_ops mem_ok mem_hist
proof (unfold_locales, goal_cases)
  case (1 s p s')
  then consider es where "s' = snd (mem_append p es s)" | scs where "s' = snd (mem_append_catchup p scs s)"
    | q st now where "s' = snd (mem_append_snapshot p q st now s)"
    by (auto simp: journal_write_def mem_ops_def)
  then show ?case
  proof cases
    case (1 es)
    obtain seqs j i where l: "append_loop es (mem_journal s p) (ms_ingest s) = (seqs, j, i)" by (metis prod.exhaust)
    then have "s' = mem_put p j i s" by (simp add: 1 mem_append_def)
    then show ?thesis
      using append_loop_ok [OF _ l] append_extends [OF l] \<open>mem_ok s\<close> by (auto simp: mem_hist_def mem_ok_put mem_ok_journal)
  next
    case (2 scs)
    obtain seqs j i where l: "catchup_loop scs (mem_journal s p) (ms_ingest s) = (seqs, j, i)" by (metis prod.exhaust)
    then have "s' = mem_put p j i s" by (simp add: 2 mem_append_catchup_def)
    then show ?thesis
      using catchup_extends [OF l] \<open>mem_ok s\<close> by (auto simp: mem_hist_def mem_ok_put mem_ok_journal)
  next
    case (3 q st now)
    then show ?thesis
      using \<open>mem_ok s\<close> by (auto simp: mem_append_snapshot_def mem_hist_def mem_ok_put mem_ok_journal jn_ok_snapshot)
        (simp add: jn_append_snapshot_def)
  qed
next
  case (2 s s')
  then show ?case by (auto simp: store_upkeep_def mem_ops_def mem_passivated_def mem_flush_def)
next
  case (3 s p)
  then show ?case
    by (auto simp: mem_ops_def mem_purge_def mem_ok_def mem_hist_def mem_journal_def get_or_def delete_conv'
        distinct_keys_delete split: if_splits)
qed

text \<open>
  C10. The journals of a running system are append-only logs with one writer each.  Over any run of a
  system on the in-memory store, whatever the turns, sends, stops, restarts, crashes and catch-ups and their
  interleaving, and as long as the journal of a path is not purged, its history at any later moment
  extends its history now: no event is lost, rewritten or reordered, and the sequence numbers stay dense
  from zero.  In a run in which no task at that path takes a turn and no projector is caught up there, the
  history does not change at all, whatever the other actors, and the callers, do.
\<close>

theorem journals_are_append_only:
  assumes "host_ok host" "ho_store host = mem_ops"
    and "reachable host (system_new mem_new defaults observing wall now any_shell any_service) w"
    and "(keeping_step host p)\<^sup>*\<^sup>* w w'"
  shows "\<exists>new. mem_hist (w_store w') p = mem_hist (w_store w) p @ new \<and>
    map jd_seq (mem_hist (w_store w') p) = [0..<length (mem_hist (w_store w') p)] \<and>
    ((foreign_step host p)\<^sup>*\<^sup>* w w' \<longrightarrow> new = [])"
proof -
  have ok: "mem_ok (w_store w)"
    using mem_log.log_reachable [OF assms(1-3)] by (simp add: system_new_def mem_ok_new)
  obtain new where new: "mem_ok (w_store w')" "mem_hist (w_store w') p = mem_hist (w_store w) p @ new"
    using mem_log.log_runs(1) [OF assms(1,2,4)] ok by (auto simp: log_grows_def)
  moreover have "new = []" if "(foreign_step host p)\<^sup>*\<^sup>* w w'"
    using mem_log.log_runs(2) [OF assms(1,2) that] ok new by (auto simp: log_grows_def)
  ultimately show ?thesis using mem_hist_seqs [OF new(1)] by blast
qed

theorem journals_are_append_only_witness:
  "\<exists>new. mem_hist (w_store (run_task demo_host 5 demo_running)) ''a'' = mem_hist (w_store demo_running) ''a'' @ new \<and>
     map jd_seq (mem_hist (w_store (run_task demo_host 5 demo_running)) ''a'') =
       [0..<length (mem_hist (w_store (run_task demo_host 5 demo_running)) ''a'')]"
proof -
  obtain w1 where w1: "run_task demo_host 5 demo_running = w1"
    "w_tasks w1 = [(4, DoorTask 1 DoorReady), (5, EsTask demo_ticker 3 LoopRunning)]" by (rule demo_boots)
  have "w_tasks (snd (purge_journal demo_host ''a'' demo_running)) \<noteq> w_tasks w1"
    by (simp add: demo_running_facts(1) w1(2))
  then have "w1 \<noteq> snd (purge_journal demo_host ''a'' demo_running)" by metis
  then have "(keeping_step demo_host ''a'')\<^sup>*\<^sup>* demo_running w1"
    using st_turn [of demo_host demo_running 5] by (intro r_into_rtranclp) (simp add: keeping_step_def w1(1))
  moreover have "ho_store demo_host = mem_ops" by (simp add: demo_host_def)
  ultimately show ?thesis
    using journals_are_append_only [OF demo_host_ok _ demo_running_reachable [unfolded demo_start_def]] w1(1) by blast
qed

end
