(* ===== verification/Budgets.thy ===== *)
theory Budgets
  imports Restarts
begin

text \<open>
  Restart intensity: what the budget of a supervised child (\<open>RestartBudget\<close>, \<open>src/src/supervision.rs\<close>) means
  for the restarts its engine (\<open>supervise_child\<close>, \<open>src/src/kernel.rs\<close>) grants over time.
\<close>

subsection \<open>The restarts an engine grants\<close>

text \<open>
  \<open>restarts_granted host sp ts w\<close>: since the child's failure window was opened by its spawn, its engine has
  answered crashes with a restart at the times \<open>ts\<close> (milliseconds of the clock), and the world is now \<open>w\<close>.
  Between two crashes anything may happen to the world that does not touch this child's failure window
  (only its own engine and a new spawn write it) and does not turn the clock back.
\<close>

inductive restarts_granted ::
  "('st, 'sv, 's) host \<Rightarrow> (64 word) actor_spec \<Rightarrow> nat list \<Rightarrow> ('st, 'sv, 's) world \<Rightarrow> bool"
  for host :: "('st, 'sv, 's) host" and sp :: "(64 word) actor_spec" where
  rg_spawned: "map_of (w_failures w) (sp_path sp) = Some fw_new \<Longrightarrow> restarts_granted host sp [] w"
| rg_between: "restarts_granted host sp ts w \<Longrightarrow> map_of (w_failures w') (sp_path sp) = map_of (w_failures w) (sp_path sp) \<Longrightarrow>
    as_millis (w_now w) \<le> as_millis (w_now w') \<Longrightarrow> restarts_granted host sp ts w'"
| rg_crash: "restarts_granted host sp ts w \<Longrightarrow>
    engine_turn host sp cell watch EngineWaiting w = (Done (Some (cell', EngineBackoff)), w') \<Longrightarrow>
    restarts_granted host sp (ts @ [as_millis (w_now w)]) w'"

definition within :: "nat \<Rightarrow> nat \<Rightarrow> nat list \<Rightarrow> nat" where
  "within t len ts = length (filter (\<lambda>s. t \<le> s \<and> s \<le> t + len) ts)"

lemma within_snoc: "within t len (ts @ [n]) = within t len ts + (if t \<le> n \<and> n \<le> t + len then 1 else 0)"
  by (simp add: within_def)

lemma within_count:
  assumes "n \<le> t + dur_as_millis_u64 (rb_window b)"
  shows "within t (dur_as_millis_u64 (rb_window b)) ts \<le> fw_count n b ts"
  using assms by (induction ts) (auto simp: within_def fw_count_def)

lemma record_failure_alt:
  "record_failure sp w =
     (let now = as_millis (w_now w); old = get_or fw_new (w_failures w) (sp_path sp)
      in (rb_max (sp_budget sp) \<le> fw_count now (sp_budget sp) (old @ [now]),
          w\<lparr>w_failures := AList.update (sp_path sp) (fw_prune now (sp_budget sp) (old @ [now])) (w_failures w)\<rparr>))"
  by (simp add: record_failure_def Let_def fw_exhausted_count fw_count_prune fw_record_def)

lemma crash_seen_grants:
  "crash_seen host sp cell w = (Done (Some (cell', EngineBackoff)), w') \<longleftrightarrow>
     sp_restart sp \<noteq> Never \<and> cell' = cell \<and> record_failure sp w = (False, w')"
  by (auto simp: crash_seen_def act_bind_def act_ret_def split: prod.splits outcome.splits if_splits)

lemma engine_turn_grants:
  "engine_turn host sp cell watch EngineWaiting w = (Done (Some (cell', EngineBackoff)), w') \<longleftrightarrow>
     \<not> watch_value (w_watch_heap w watch) \<and> sp_restart sp \<noteq> Never \<and> cell' = cell \<and>
     (\<exists>c. cell = Some c \<and> ce_crashed (w_cell_heap w c)) \<and> record_failure sp w = (False, w')"
  by (auto simp: crash_seen_grants split: option.split)

text \<open>What the window remembers of the granted restarts, and the bound on them.\<close>

definition budget_kept :: "(64 word) actor_spec \<Rightarrow> nat list \<Rightarrow> ('st, 'sv, 's) world \<Rightarrow> bool" where
  "budget_kept sp ts w \<longleftrightarrow>
     (\<exists>win. map_of (w_failures w) (sp_path sp) = Some win \<and>
        (\<forall>later \<ge> as_millis (w_now w). fw_count later (sp_budget sp) win = fw_count later (sp_budget sp) ts)) \<and>
     (\<forall>s \<in> set ts. s \<le> as_millis (w_now w)) \<and>
     (\<forall>t. within t (dur_as_millis_u64 (rb_window (sp_budget sp))) ts \<le> rb_max (sp_budget sp) - 1)"

lemma budget_kept_crash:
  assumes "budget_kept sp ts w" "record_failure sp w = (False, w')"
  shows "budget_kept sp (ts @ [as_millis (w_now w)]) w'"
proof -
  let ?b = "sp_budget sp" and ?n = "as_millis (w_now w)" and ?len = "dur_as_millis_u64 (rb_window (sp_budget sp))"
  obtain win where win: "map_of (w_failures w) (sp_path sp) = Some win"
    "\<And>later. ?n \<le> later \<Longrightarrow> fw_count later ?b win = fw_count later ?b ts"
    using assms(1) by (auto simp: budget_kept_def)
  have old: "get_or fw_new (w_failures w) (sp_path sp) = win" by (simp add: get_or_def win(1))
  have w': "w' = w\<lparr>w_failures := AList.update (sp_path sp) (fw_prune ?n ?b (win @ [?n])) (w_failures w)\<rparr>"
    and room: "fw_count ?n ?b (ts @ [?n]) < rb_max ?b"
    using assms(2) win(2) by (auto simp: record_failure_alt Let_def old fw_count_append)
  have bound: "within t ?len (ts @ [?n]) \<le> rb_max ?b - 1" for t
  proof (cases "t \<le> ?n \<and> ?n \<le> t + ?len")
    case True
    then show ?thesis using within_count [of ?n t ?b "ts @ [?n]"] room by linarith
  next
    case False
    then show ?thesis using assms(1) unfolding within_snoc budget_kept_def by auto
  qed
  have remembers: "fw_count later ?b (fw_prune ?n ?b (win @ [?n])) = fw_count later ?b (ts @ [?n])" if "?n \<le> later" for later
    using that by (simp add: fw_count_prune fw_count_append win(2))
  show ?thesis using assms(1) bound remembers by (auto simp: budget_kept_def w' map_of_update)
qed

lemma granted_kept: "restarts_granted host sp ts w \<Longrightarrow> budget_kept sp ts w"
proof (induction rule: restarts_granted.induct)
  case (rg_spawned w)
  then show ?case by (simp add: budget_kept_def within_def fw_new_def)
next
  case (rg_between ts w w')
  then show ?case unfolding budget_kept_def by (auto dest: order_trans)
next
  case (rg_crash ts w cell watch cell' w')
  then show ?case using budget_kept_crash engine_turn_grants by blast
qed

text \<open>
  C11. The budget bounds the restarts, over any history and any window.  Whatever happens between a
  child's crashes, at most \<open>max - 1\<close> restarts are granted inside any stretch of time as long as the
  budget's window, wherever the stretch begins; and the budget is no stricter than that: a crash is
  answered by a restart exactly when the policy allows restarts and fewer than \<open>max - 1\<close> restarts were
  granted in the window that ends now.  Old failures are forgiven, and forgetting them by the pruning is
  never visible.
\<close>

theorem restart_intensity:
  assumes "restarts_granted host sp ts w"
    and "\<not> watch_value (w_watch_heap w watch)" and "ce_crashed (w_cell_heap w c)"
  shows "(\<forall>t. within t (dur_as_millis_u64 (rb_window (sp_budget sp))) ts \<le> rb_max (sp_budget sp) - 1) \<and>
    ((\<exists>w'. engine_turn host sp (Some c) watch EngineWaiting w = (Done (Some (Some c, EngineBackoff)), w')) \<longleftrightarrow>
      sp_restart sp \<noteq> Never \<and>
      length (filter (\<lambda>s. as_millis (w_now w) - s \<le> dur_as_millis_u64 (rb_window (sp_budget sp))) ts) + 1 < rb_max (sp_budget sp))"
proof
  let ?n = "as_millis (w_now w)" and ?b = "sp_budget sp"
  have kept: "budget_kept sp ts w" by (rule granted_kept [OF assms(1)])
  then show "\<forall>t. within t (dur_as_millis_u64 (rb_window ?b)) ts \<le> rb_max ?b - 1"
    by (simp add: budget_kept_def)
  obtain win where win: "map_of (w_failures w) (sp_path sp) = Some win" "fw_count ?n ?b win = fw_count ?n ?b ts"
    using kept by (auto simp: budget_kept_def)
  have "fst (record_failure sp w) \<longleftrightarrow> rb_max ?b \<le> fw_count ?n ?b ts + 1"
    by (simp add: record_failure_alt Let_def get_or_def win fw_count_append) (simp add: fw_count_def)
  then show "(\<exists>w'. engine_turn host sp (Some c) watch EngineWaiting w = (Done (Some (Some c, EngineBackoff)), w')) \<longleftrightarrow>
      sp_restart sp \<noteq> Never \<and> length (filter (\<lambda>s. ?n - s \<le> dur_as_millis_u64 (rb_window ?b)) ts) + 1 < rb_max ?b"
    unfolding engine_turn_grants using assms(2,3)
    by (cases "record_failure sp w") (auto simp: fw_count_def)
qed

text \<open>The demonstration child (three per second) crashes at 0 and at 500 milliseconds.\<close>

definition demo_crash_at :: "nat \<Rightarrow> nat list \<Rightarrow> (int, nat, mem_store) world" where
  "demo_crash_at n win = demo_crashed\<lparr>w_failures := [(''a'', win)], w_now := from_millis n\<rparr>"

lemma demo_crash_granted:
  assumes "restarts_granted demo_host demo_spec ts (demo_crash_at n win)"
    and "length win < 2"
  shows "restarts_granted demo_host demo_spec (ts @ [n]) (demo_crash_at n (fw_prune n (budget_per 3 (dur_millis 1000)) (win @ [n])))"
proof -
  have "engine_turn demo_host demo_spec (Some 0) 2 EngineWaiting (demo_crash_at n win) =
      (Done (Some (Some 0, EngineBackoff)), demo_crash_at n (fw_prune n (budget_per 3 (dur_millis 1000)) (win @ [n])))"
    unfolding engine_turn_grants using assms(2) le_less_trans [OF length_filter_le assms(2)]
    by (auto simp: record_failure_alt Let_def demo_crash_at_def demo_crashed_def demo_world_def mark_crashed_def demo_spec_def
        get_or_def fw_count_def budget_per_def not_le)
  from rg_crash [OF assms(1) this] show ?thesis by (simp add: demo_crash_at_def)
qed

theorem restart_intensity_witness:
  "\<exists>w. restarts_granted demo_host demo_spec [0, 500] w \<and> w_now w = from_millis 900 \<and>
     \<not> (\<exists>w'. engine_turn demo_host demo_spec (Some 0) 2 EngineWaiting w = (Done (Some (Some 0, EngineBackoff)), w'))"
proof -
  have "restarts_granted demo_host demo_spec [] (demo_crash_at 0 [])"
    by (rule rg_spawned) (simp add: demo_crash_at_def demo_spec_def fw_new_def)
  from demo_crash_granted [OF this] have "restarts_granted demo_host demo_spec [0] (demo_crash_at 0 [0])"
    by (simp add: fw_prune_def)
  then have "restarts_granted demo_host demo_spec [0] (demo_crash_at 500 [0])"
    by (rule rg_between) (simp_all add: demo_crash_at_def)
  from demo_crash_granted [OF this] have "restarts_granted demo_host demo_spec [0, 500] (demo_crash_at 500 [0, 500])"
    by (simp add: fw_prune_def budget_per_def)
  then have run: "restarts_granted demo_host demo_spec [0, 500] (demo_crash_at 900 [0, 500])"
    by (rule rg_between) (simp_all add: demo_crash_at_def)
  have "\<not> watch_value (w_watch_heap (demo_crash_at 900 [0, 500]) 2)" "ce_crashed (w_cell_heap (demo_crash_at 900 [0, 500]) 0)"
    by (simp_all add: demo_crash_at_def demo_crashed_def demo_world_def mark_crashed_def)
  from restart_intensity [OF run this] run show ?thesis
    by (intro exI [of _ "demo_crash_at 900 [0, 500]"]) (simp add: demo_crash_at_def demo_spec_def budget_per_def)
qed

end
