(* ===== verification/CatchUps.thy ===== *)
theory CatchUps
  imports Configs Restarts "HOL-Library.Multiset"
begin

text \<open>
  What a projector's catch-up achieves (\<open>catch_up_projector\<close>, \<open>src/src/system.rs\<close>) over the in-memory store: the
  facts it must end up with, stated from the journals alone, and that it ends up with exactly those.
\<close>

subsection \<open>The facts a projector is due\<close>

text \<open>
  A source journal counts when it is not the projector's own and, for a member of a projector set, when it
  recorded some fact about the member's key.
\<close>

definition feeds :: "serde \<Rightarrow> registry \<Rightarrow> mem_store \<Rightarrow> string \<Rightarrow> string \<Rightarrow> bool" where
  "feeds sd r s path src \<longleftrightarrow> src \<noteq> path \<and>
     (case projector_set_owning path r of
        None \<Rightarrow> True
      | Some spec \<Rightarrow> \<exists>d \<in> set (mem_hist s src). recorded_payload_key sd (pj_key_field spec) (last_segment path) d)"

text \<open>The facts due: what the sources recorded themselves, of the consumed schemas.\<close>

definition due :: "serde \<Rightarrow> registry \<Rightarrow> mem_store \<Rightarrow> string \<Rightarrow> string list \<Rightarrow> scanned_event \<Rightarrow> bool" where
  "due sd r s path consumed sc \<longleftrightarrow> feeds sd r s path (sc_journal sc) \<and>
     (\<exists>d \<in> set (mem_hist s (sc_journal sc)). jd_origin d = Recorded \<and> ev_schema (jd_event d) \<in> set consumed \<and>
        sc_seq sc = jd_seq d \<and> sc_ingest sc = jd_ingest d \<and> sc_event sc = jd_event d)"

definition fresh_for :: "mem_store \<Rightarrow> string \<Rightarrow> scanned_event \<Rightarrow> bool" where
  "fresh_for s path sc \<longleftrightarrow> \<not> holds_origin (sc_journal sc) (sc_seq sc) (mem_journal s path)"

subsection \<open>The scan and its candidates\<close>

lemma qualifying_mem:
  assumes "mem_ok s"
  shows "qualifying sd mem_ops kf key src s = (list_ex (recorded_payload_key sd kf key) (mem_hist s src), s)"
proof (cases "mem_load src s")
  case (Inl err)
  then show ?thesis by (simp add: mem_load_def Let_def split: option.splits)
next
  case (Inr found)
  then show ?thesis
    using mem_store.load_none [OF assms, of src] mem_load_facts(1) [of src s]
    by (cases found) (auto simp: qualifying_def mem_ops_def)
qed

lemma qualify_each_mem:
  assumes "mem_ok s"
  shows "qualify_each sd mem_ops spec key scs s =
    (filter (\<lambda>sc. list_ex (recorded_payload_key sd (pj_key_field spec) key) (mem_hist s (sc_journal sc))) scs, s)"
  by (induction scs) (simp_all add: qualifying_mem [OF assms])

lemma candidates_mem:
  assumes "ho_store host = mem_ops" "mem_ok (w_store w)"
  shows "candidates host path scanned w =
    (filter (\<lambda>sc. feeds (ho_serde host) (w_registry w) (w_store w) path (sc_journal sc)) scanned, w_store w)"
  by (auto simp: candidates_def assms(1) qualify_each_mem [OF assms(2)] feeds_def list_ex_iff Let_def
      split: option.split intro: filter_cong)

lemma scanned_due:
  assumes "mem_ok s" "mem_scan consumed s = Inr scanned"
  shows "set (filter (\<lambda>sc. feeds sd r s path (sc_journal sc)) scanned) = {sc. due sd r s path consumed sc}"
  using scan_exact_and_ordered [OF assms] by (auto simp: due_def)

text \<open>No fact is scanned twice.\<close>

lemma scan_entry_origins:
  "map scan_origin (List.map_filter (scan_entry schemas p) es) = map (\<lambda>d. (p, jd_seq d)) (filter
     (\<lambda>d. jd_origin d = Recorded \<and> ev_schema (jd_event d) \<in> set schemas) (events_in es))"
proof (induction es)
  case (Cons x es)
  then show ?case
  proof (cases x)
    case (JEvent seq e origin ingest)
    with Cons show ?thesis by (cases origin) (simp_all add: List.map_filter_simps events_in_def scan_origin_def)
  qed (simp add: List.map_filter_simps events_in_def)
qed (simp add: List.map_filter_simps events_in_def)

lemma distinct_journal_scan:
  assumes "jn_ok j"
  shows "distinct (map scan_origin (List.map_filter (scan_entry schemas p) (jn_entries j)))"
proof -
  have "distinct (map jd_seq (events_in (jn_entries j)))" using assms by (simp add: jn_ok_def)
  then have "distinct (map jd_seq (filter P (events_in (jn_entries j))))" for P by (rule distinct_map_filter)
  then show ?thesis unfolding scan_entry_origins by (simp add: distinct_map inj_on_def)
qed

lemma distinct_scan:
  assumes "mem_ok s" "mem_scan schemas s = Inr scanned"
  shows "distinct (map scan_origin scanned)"
proof -
  let ?all = "\<lambda>js. concat (map (\<lambda>(p, j). List.map_filter (scan_entry schemas p) (jn_entries j)) js)"
  have "distinct (map fst js) \<Longrightarrow> \<forall>(p, j) \<in> set js. jn_ok j \<Longrightarrow> distinct (map scan_origin (?all js))" for js
  proof (induction js)
    case (Cons pj js)
    obtain p j where pj: "pj = (p, j)" by fastforce
    have "fst ` scan_origin ` set (List.map_filter (scan_entry schemas p) (jn_entries j)) \<subseteq> {p}"
      by (auto simp: scan_entry_set scan_origin_def)
    moreover have "fst ` scan_origin ` set (?all js) \<subseteq> fst ` set js"
      by (force simp: scan_entry_set scan_origin_def)
    moreover have "p \<notin> fst ` set js" using Cons.prems by (simp add: pj)
    ultimately have "scan_origin ` set (List.map_filter (scan_entry schemas p) (jn_entries j)) \<inter> scan_origin ` set (?all js) = {}"
      by blast
    then show ?case using Cons distinct_journal_scan [of j schemas p] by (simp add: pj)
  qed simp
  moreover have "\<forall>(p, j) \<in> set (ms_journals s). jn_ok j" "distinct (map fst (ms_journals s))"
    using assms(1) by (auto simp: mem_ok_def)
  ultimately have "distinct (map scan_origin (?all (ms_journals s)))" by blast
  moreover have "mset (map scan_origin scanned) = mset (map scan_origin (?all (ms_journals s)))"
    using assms(2) by (auto simp: mem_scan_def)
  ultimately show ?thesis by (metis mset_eq_imp_distinct_iff)
qed

subsection \<open>What the journal records\<close>

text \<open>A catch-up appends exactly the candidates the journal does not hold, in order, each with its origin.\<close>

definition origin_of :: "scanned_event \<Rightarrow> event_origin" where
  "origin_of sc = CatchUp (sc_journal sc) (sc_seq sc)"

lemma newly_recorded_simps [simp]:
  "newly_recorded [] slots = []"
  "newly_recorded (sc # scs) (None # slots) = newly_recorded scs slots"
  "newly_recorded (sc # scs) (Some q # slots) = sc # newly_recorded scs slots"
  by (simp_all add: newly_recorded_def List.map_filter_simps)

lemma catchup_loop_records:
  "catchup_loop scs j i = (seqs, j', i') \<Longrightarrow> distinct (map scan_origin scs) \<Longrightarrow>
   newly_recorded scs seqs = filter (\<lambda>sc. \<not> holds_origin (sc_journal sc) (sc_seq sc) j) scs \<and>
   (\<exists>new. events_in (jn_entries j') = events_in (jn_entries j) @ new \<and>
      map jd_event new = map sc_event (newly_recorded scs seqs) \<and>
      map jd_origin new = map origin_of (newly_recorded scs seqs)) \<and>
   last_snapshot j' = last_snapshot j"
proof (induction scs arbitrary: j i seqs j' i')
  case Nil
  then show ?case by simp
next
  case (Cons sc scs)
  show ?case
  proof (cases "holds_origin (sc_journal sc) (sc_seq sc) j")
    case True
    then obtain seqs1 where l: "catchup_loop scs j i = (seqs1, j', i')" "seqs = None # seqs1"
      using Cons.prems by (auto split: prod.splits)
    with Cons.IH [OF l(1)] Cons.prems(2) True show ?thesis by auto
  next
    case False
    let ?j1 = "snd (append_event_with_origin (sc_event sc) (origin_of sc) i j)"
    obtain seqs1 where l: "catchup_loop scs ?j1 (i + 1) = (seqs1, j', i')" and s: "seqs = Some (jn_next_seq j) # seqs1"
      using Cons.prems False by (auto simp: Let_def append_event_with_origin_def origin_of_def split: prod.splits)
    have e: "jn_entries ?j1 = jn_entries j @ [JEvent (jn_next_seq j) (sc_event sc) (origin_of sc) i]"
      by (simp add: append_event_with_origin_def Let_def)
    have h: "holds_origin p q ?j1 \<longleftrightarrow> holds_origin p q j \<or> (p, q) = scan_origin sc" for p q
      by (auto simp: holds_origin_iff origin_of_def scan_origin_def)
    have keep: "filter (\<lambda>sc. \<not> holds_origin (sc_journal sc) (sc_seq sc) ?j1) scs =
        filter (\<lambda>sc. \<not> holds_origin (sc_journal sc) (sc_seq sc) j) scs"
      using Cons.prems(2) by (intro filter_cong) (auto simp: h scan_origin_def image_iff)
    have snap: "last_snapshot ?j1 = last_snapshot j" by (simp add: last_snapshot_def e)
    have n: "newly_recorded (sc # scs) seqs = sc # newly_recorded scs seqs1" by (simp add: s)
    from Cons.IH [OF l] Cons.prems(2) obtain new where
      ih: "newly_recorded scs seqs1 = filter (\<lambda>sc. \<not> holds_origin (sc_journal sc) (sc_seq sc) ?j1) scs"
      "events_in (jn_entries j') = events_in (jn_entries ?j1) @ new" "map jd_event new = map sc_event (newly_recorded scs seqs1)"
      "map jd_origin new = map origin_of (newly_recorded scs seqs1)" "last_snapshot j' = last_snapshot ?j1"
      by auto
    show ?thesis
      unfolding n using ih e False snap keep
      by (intro conjI exI [of _ "\<lparr>jd_seq = jn_next_seq j, jd_event = sc_event sc, jd_origin = origin_of sc, jd_ingest = i\<rparr> # new"])
        simp_all
  qed
qed

lemma append_catchup_records:
  assumes "mem_ok s" "distinct (map scan_origin scs)" "mem_append_catchup path scs s = (answer, s')"
  shows "\<exists>results new. answer = Inr results \<and> newly_recorded scs results = filter (fresh_for s path) scs \<and> mem_ok s' \<and>
    mem_hist s' = (mem_hist s)(path := mem_hist s path @ new) \<and> mem_snap s' = mem_snap s \<and>
    map jd_event new = map sc_event (filter (fresh_for s path) scs) \<and>
    map jd_origin new = map origin_of (filter (fresh_for s path) scs)"
proof -
  obtain seqs j i where l: "catchup_loop scs (mem_journal s path) (ms_ingest s) = (seqs, j, i)"
    using prod_cases3 by blast
  then have a: "answer = Inr seqs" "s' = mem_put path j i s"
    using assms(3) by (auto simp: mem_append_catchup_def)
  have fresh: "(\<lambda>sc. \<not> holds_origin (sc_journal sc) (sc_seq sc) (mem_journal s path)) = fresh_for s path"
    by (rule ext) (simp add: fresh_for_def)
  have "jn_ok j" using catchup_loop_facts [OF l] mem_ok_journal [OF assms(1)] by blast
  then have ok: "mem_ok s'" using assms(1) by (simp add: a mem_ok_put)
  from catchup_loop_records [OF l assms(2)] obtain new where
    new: "newly_recorded scs seqs = filter (fresh_for s path) scs"
    "events_in (jn_entries j) = events_in (jn_entries (mem_journal s path)) @ new"
    "map jd_event new = map sc_event (filter (fresh_for s path) scs)"
    "map jd_origin new = map origin_of (filter (fresh_for s path) scs)" "last_snapshot j = last_snapshot (mem_journal s path)"
    unfolding fresh by auto
  have "mem_hist s' = (mem_hist s)(path := mem_hist s path @ new)"
    using new(2) by (auto simp: a mem_hist_def)
  moreover have "mem_snap s' = mem_snap s" using new(5) by (auto simp: a mem_snap_def)
  ultimately show ?thesis using a(1) new ok by blast
qed

subsection \<open>The three steps\<close>

text \<open>A projector's author code that never panics folds any list of events.\<close>

definition calm_fold :: "'st es_code \<Rightarrow> bool" where
  "calm_fold c \<longleftrightarrow> (\<forall>ev st. \<exists>st'. ec_apply c ev st = Done st')"

lemma calm_fold_apply:
  assumes "calm_fold c"
  shows "\<exists>st'. apply_all c es (TypedProjector st) = Done (TypedProjector st')"
proof (induction es arbitrary: st)
  case (Cons e es)
  obtain st1 where "ec_apply c e st = Done st1" using assms unfolding calm_fold_def by blast
  then show ?case using Cons.IH by simp
qed simp

text \<open>
  A projector about to catch up: armed, its shell in the default state, its own journal within range and
  its snapshot, if it has one, sound.
\<close>

definition ready_to_catch_up :: "string \<Rightarrow> 'st es_code \<Rightarrow> ('st, 'sv, mem_store) world \<Rightarrow> bool" where
  "ready_to_catch_up path c w \<longleftrightarrow> mem_ok (w_store w) \<and> calm_fold c \<and>
     (\<exists>i. map_of (w_es_state w) path = Some i \<and>
        w_shell_heap w i = \<lparr>dy_shell = TypedProjector (ec_default c), dy_code = c\<rparr>) \<and>
     length (mem_hist (w_store w) path) \<le> u64_max \<and>
     sound_snap c (JObj []) (TypedProjector (ec_default c)) (mem_snap (w_store w) path)
       (map jd_event (mem_hist (w_store w) path))"

lemma own_history_replayed:
  assumes "ho_store host = mem_ops" "ready_to_catch_up path c w"
  shows "\<exists>w1 n st. replay_own host path w = (Done True, w1) \<and> map_of (w_es_state w1) path = Some n \<and>
    w_shell_heap w1 n = \<lparr>dy_shell = TypedProjector st, dy_code = c\<rparr> \<and>
    apply_all c (map jd_event (mem_hist (w_store w) path)) (TypedProjector (ec_default c)) = Done (TypedProjector st) \<and>
    w_store w1 = w_store w \<and> w_registry w1 = w_registry w \<and> w_caught_up w1 = w_caught_up w"
proof -
  obtain i where i: "map_of (w_es_state w) path = Some i"
    "w_shell_heap w i = \<lparr>dy_shell = TypedProjector (ec_default c), dy_code = c\<rparr>" and ok: "mem_ok (w_store w)"
    using assms(2) by (auto simp: ready_to_catch_up_def)
  have load: "load_journal host path w = (mem_load path (w_store w), w)" by (simp add: load_journal_def assms(1) mem_ops_def)
  obtain found where found: "mem_load path (w_store w) = Inr found" using mem_load_succeeds by blast
  show ?thesis
  proof (cases found)
    case None
    then have "mem_hist (w_store w) path = []" using mem_store.load_none [OF ok] found by simp
    then show ?thesis using i by (simp add: replay_own_def load found None replay_with_def)
  next
    case (Some rp)
    have "rebuild c (JObj []) (snapshot_state rp) (rp_tail rp) (TypedProjector (ec_default c)) =
        map_outcome Inr (apply_all c (map jd_event (mem_hist (w_store w) path)) (TypedProjector (ec_default c)))"
      using assms(2) found Some
      by (intro mem_store.rebuild_is_full_fold [OF ok]) (simp_all add: ready_to_catch_up_def)
    moreover obtain st where "apply_all c (map jd_event (mem_hist (w_store w) path)) (TypedProjector (ec_default c)) = Done (TypedProjector st)"
      using calm_fold_apply [of c] assms(2) by (auto simp: ready_to_catch_up_def)
    ultimately show ?thesis
      using i by (simp add: replay_own_def load found Some replay_with_def Let_def map_of_update)
  qed
qed

lemma fold_in_place:
  assumes "apply_all (dy_code (w_shell_heap w i)) evs (dy_shell (w_shell_heap w i)) = Done sh"
  shows "act_each (apply_in_place i) evs w = (Done (), put_shell i sh w)"
  using assms
proof (induction evs arbitrary: w)
  case Nil
  then show ?case by (auto simp: act_ret_def put_shell_same)
next
  case (Cons ev evs)
  obtain sh1 where sh1: "apply_erased (dy_code (w_shell_heap w i)) ev (dy_shell (w_shell_heap w i)) = Done sh1"
    "apply_all (dy_code (w_shell_heap w i)) evs sh1 = Done sh"
    using Cons.prems by (cases "apply_erased (dy_code (w_shell_heap w i)) ev (dy_shell (w_shell_heap w i))") auto
  then have "act_each (apply_in_place i) evs (put_shell i sh1 w) = (Done (), put_shell i sh (put_shell i sh1 w))"
    by (intro Cons.IH) (simp add: put_shell_def)
  moreover have "apply_in_place i ev w = (Done (), put_shell i sh1 w)" by (simp add: apply_in_place_def sh1(1))
  ultimately show ?case by (simp add: act_bind_def)
qed

text \<open>The seeding: what is due and not held is recorded and folded.\<close>

lemma gap_seeded:
  assumes "ho_store host = mem_ops" "mem_ok (w_store w)" "calm_fold c"
    and "map_of (w_es_state w) path = Some n" "w_shell_heap w n = \<lparr>dy_shell = TypedProjector st0, dy_code = c\<rparr>"
  shows "\<exists>facts new st s.
    seed_gap host path consumed w = (Done (length facts), put_shell n st (w\<lparr>w_store := s\<rparr>)) \<and>
    sorted (map sc_ingest facts) \<and> distinct (map scan_origin facts) \<and>
    set facts = {sc. due (ho_serde host) (w_registry w) (w_store w) path consumed sc \<and> fresh_for (w_store w) path sc} \<and>
    mem_hist s = (mem_hist (w_store w))(path := mem_hist (w_store w) path @ new) \<and>
    map jd_event new = map sc_event facts \<and> map jd_origin new = map origin_of facts \<and>
    apply_all c (map sc_event facts) (TypedProjector st0) = Done st"
proof -
  obtain scanned where scan: "mem_scan consumed (w_store w) = Inr scanned" by (simp add: mem_scan_def)
  define cands where "cands = filter (\<lambda>sc. feeds (ho_serde host) (w_registry w) (w_store w) path (sc_journal sc)) scanned"
  define facts where "facts = filter (fresh_for (w_store w) path) cands"
  obtain answer s where app: "mem_append_catchup path cands (w_store w) = (answer, s)" by fastforce
  have dist: "distinct (map scan_origin cands)"
    using distinct_scan [OF assms(2) scan] by (simp add: cands_def distinct_map_filter)
  obtain results new where rec: "answer = Inr results" "newly_recorded cands results = facts"
    "mem_hist s = (mem_hist (w_store w))(path := mem_hist (w_store w) path @ new)"
    "map jd_event new = map sc_event facts" "map jd_origin new = map origin_of facts"
    using append_catchup_records [OF assms(2) dist app] unfolding facts_def by blast
  obtain st where st: "apply_all c (map sc_event facts) (TypedProjector st0) = Done st"
    using calm_fold_apply [OF assms(3)] by blast
  have seed: "jo_scan (ho_store host) consumed (w_store w) = Inr scanned" "candidates host path scanned w = (cands, w_store w)"
    "jo_append_catchup (ho_store host) path cands (w_store w) = (Inr results, s)"
    using scan app candidates_mem [OF assms(1,2)] by (simp_all add: assms(1) mem_ops_def rec(1) cands_def)
  have "act_each (apply_in_place n) (map sc_event facts) (w\<lparr>w_store := s\<rparr>) = (Done (), put_shell n st (w\<lparr>w_store := s\<rparr>))"
    using st assms(5) by (intro fold_in_place) simp
  then have "seed_gap host path consumed w = (Done (length facts), put_shell n st (w\<lparr>w_store := s\<rparr>))"
    using assms(4) by (cases "facts = []") (auto simp: seed_gap_def seed Let_def rec(2) act_bind_def act_ret_def)
  moreover have "set facts = {sc. due (ho_serde host) (w_registry w) (w_store w) path consumed sc \<and> fresh_for (w_store w) path sc}"
    using scanned_due [OF assms(2) scan, of "ho_serde host" "w_registry w" path] by (auto simp: facts_def cands_def)
  moreover have "sorted (map sc_ingest facts)" "distinct (map scan_origin facts)"
    using scan_exact_and_ordered [OF assms(2) scan] distinct_map_filter [OF dist]
    by (simp_all add: facts_def cands_def sorted_filter del: filter_filter)
  ultimately show ?thesis using rec(3-5) st by blast
qed

lemma gone_live:
  assumes "map_of (w_es_state w) (lo_path (ar_loop a)) = Some n"
  shows "map_of (w_es_state (go_live a m w)) (lo_path (ar_loop a)) = Some n"
    "w_shell_heap (go_live a m w) = w_shell_heap w" "w_store (go_live a m w) = w_store w"
    "get_or 0 (w_caught_up (go_live a m w)) (lo_path (ar_loop a)) = get_or 0 (w_caught_up w) (lo_path (ar_loop a)) + 1"
    "\<exists>k watch. (k, EsTask ((ar_loop a)\<lparr>lo_state := Some n\<rparr>) watch LoopBoot) \<in> set (w_tasks (go_live a m w))"
  using assms by (simp_all add: go_live_def Let_def bump_caught_up_def get_or_update)
    (auto simp: start_loop_def new_watch_def start_tracked_def spawn_task_def store_handle_def on_watch_def Let_def split: option.split)

subsection \<open>A catch-up is complete\<close>


text \<open>A counting projector at \<open>a\<close> over a store in which the journal \<open>b\<close> holds one fact.\<close>

definition demo_view :: "(int, nat, mem_store) world" where
  "demo_view = demo_history\<lparr>w_shell_heap := (\<lambda>_. \<lparr>dy_shell = TypedProjector 0, dy_code = demo_code\<rparr>)\<rparr>"

lemma demo_view_store:
  "w_store demo_view = snd (mem_append ''b'' [demo_event] mem_new)"
  "w_registry demo_view = registry_new" "map_of (w_es_state demo_view) ''a'' = Some 0"
  "w_shell_heap demo_view 0 = \<lparr>dy_shell = TypedProjector 0, dy_code = demo_code\<rparr>"
  by (simp_all add: demo_view_def demo_history_def demo_world_def)

lemma demo_view_hist:
  "mem_hist (w_store demo_view) ''a'' = []" "mem_snap (w_store demo_view) ''a'' = None"
  "mem_hist (w_store demo_view) ''b'' = [\<lparr>jd_seq = 0, jd_event = demo_event, jd_origin = Recorded, jd_ingest = 0\<rparr>]"
  "mem_journal (w_store demo_view) ''a'' = journal_new"
  by (simp_all add: demo_view_store mem_hist_def mem_snap_def mem_append_def append_event_def append_event_with_origin_def
      Let_def mem_put_def mem_new_def mem_journal_def get_or_def journal_new_def last_snapshot_def jn_next_seq_def)

lemma demo_view_ready: "ready_to_catch_up ''a'' demo_code demo_view"
proof -
  obtain seqs s where ap: "mem_append ''b'' [demo_event] mem_new = (Inr seqs, s)" by (simp add: mem_append_def case_prod_beta)
  then have "mem_ok (w_store demo_view)" using mem_append_facts(1) [OF mem_ok_new ap] by (simp add: demo_view_store)
  moreover have "calm_fold demo_code" "ec_default demo_code = 0" by (simp_all add: calm_fold_def demo_code_def)
  ultimately show ?thesis
    unfolding ready_to_catch_up_def demo_view_hist using demo_view_store(3,4) by (simp add: sound_snap_def)
qed

lemma demo_projector_fold: "apply_all demo_code es (TypedProjector s) = Done (TypedProjector (s + int (length es)))"
  by (induction es arbitrary: s) (simp_all add: demo_code_def)


end
