(* ===== verification/LongCalls.thy ===== *)
theory LongCalls
  imports Stops CatchUps Wakeups
begin

text \<open>
  The calls of \<open>src/src/system.rs\<close> that wait: the quiescence wait, the wait for a catch-up, the complete reads of
  a projector, the rebuild, the bounded stop with its children and its settle wait, and the shutdown
  sweep with its shared deadline.

  Such a call is a relation between the world in which it is made, its answer and the world in which it
  returns; while it waits, the system takes any number of steps.  Durations are in milliseconds, and
  only waits take time.
\<close>

abbreviation meanwhile :: "('st, 'sv, 's) host \<Rightarrow> ('st, 'sv, 's) world \<Rightarrow> ('st, 'sv, 's) world \<Rightarrow> bool" where
  "meanwhile host \<equiv> (sys_step host)\<^sup>*\<^sup>*"

subsection \<open>Waits\<close>

text \<open>
  The quiescence wait looks until it has seen the path quiet, twice in a row or once after it was busy,
  or until its budget is spent; the third argument is \<open>was_busy\<close>, the answer whether it saw quiet.
\<close>

inductive await_quiescent ::
  "('st, 'sv, 's) host \<Rightarrow> string \<Rightarrow> bool \<Rightarrow> ('st, 'sv, 's) world \<Rightarrow> bool \<Rightarrow> ('st, 'sv, 's) world \<Rightarrow> bool"
  for host :: "('st, 'sv, 's) host" and path :: string where
  aq_expired: "await_quiescent host path busy w False w"
| aq_calm: "is_quiet path w \<Longrightarrow> await_quiescent host path True w True w"
| aq_twice: "is_quiet path w \<Longrightarrow> meanwhile host w w1 \<Longrightarrow> is_quiet path w1 \<Longrightarrow>
     await_quiescent host path False w True w1"
| aq_flip: "is_quiet path w \<Longrightarrow> meanwhile host w w1 \<Longrightarrow> \<not> is_quiet path w1 \<Longrightarrow>
     await_quiescent host path True w1 t w2 \<Longrightarrow> await_quiescent host path False w t w2"
| aq_busy: "\<not> is_quiet path w \<Longrightarrow> meanwhile host w w1 \<Longrightarrow> await_quiescent host path True w1 t w2 \<Longrightarrow>
     await_quiescent host path busy w t w2"

inductive wait_caught_up ::
  "('st, 'sv, 's) host \<Rightarrow> string \<Rightarrow> nat \<Rightarrow> ('st, 'sv, 's) world \<Rightarrow> bool \<Rightarrow> ('st, 'sv, 's) world \<Rightarrow> bool"
  for host :: "('st, 'sv, 's) host" and path :: string and watermark :: nat where
  wc_there: "caught_up_past path watermark w \<Longrightarrow> wait_caught_up host path watermark w True w"
| wc_late: "\<not> caught_up_past path watermark w \<Longrightarrow> wait_caught_up host path watermark w False w"
| wc_again: "\<not> caught_up_past path watermark w \<Longrightarrow> meanwhile host w w1 \<Longrightarrow>
     wait_caught_up host path watermark w1 b w2 \<Longrightarrow> wait_caught_up host path watermark w b w2"

text \<open>The wake of a cold set-owned projector, with its waits.\<close>

inductive wake_until_caught_up ::
  "('st, 'sv, 's) host \<Rightarrow> string \<Rightarrow> ('st, 'sv, 's) world \<Rightarrow> bool outcome \<Rightarrow> ('st, 'sv, 's) world \<Rightarrow> bool"
  for host :: "('st, 'sv, 's) host" and path :: string where
  wk_unowned: "projector_set_owning path (w_registry w) = None \<Longrightarrow> wake_until_caught_up host path w (Done False) w"
| wk_panics: "projector_set_owning path (w_registry w) = Some spec \<Longrightarrow> await_quiescent host path False w t w1 \<Longrightarrow>
     wake_owned host path spec w1 = (Panicked m, w2) \<Longrightarrow> wake_until_caught_up host path w (Panicked m) w2"
| wk_live: "projector_set_owning path (w_registry w) = Some spec \<Longrightarrow> await_quiescent host path False w t w1 \<Longrightarrow>
     wake_owned host path spec w1 = (Done (Inl live), w2) \<Longrightarrow> await_quiescent host path False w2 t' w3 \<Longrightarrow>
     wake_until_caught_up host path w (Done True) w3"
| wk_woken: "projector_set_owning path (w_registry w) = Some spec \<Longrightarrow> await_quiescent host path False w t w1 \<Longrightarrow>
     wake_owned host path spec w1 = (Done (Inr watermark), w2) \<Longrightarrow> wait_caught_up host path watermark w2 b w3 \<Longrightarrow>
     wake_until_caught_up host path w (Done b) w3"

subsection \<open>Complete reads\<close>

text \<open>
  The body the erased and the typed read share: a path with live state is read once it is quiet, a cold
  one after its wake.
\<close>

inductive complete_read ::
  "('st, 'sv, 's) host \<Rightarrow> string \<Rightarrow> (('st, 'sv, 's) world \<Rightarrow> 'r option outcome) \<Rightarrow> ('st, 'sv, 's) world
   \<Rightarrow> 'r option outcome \<Rightarrow> ('st, 'sv, 's) world \<Rightarrow> bool"
  for host :: "('st, 'sv, 's) host" and path :: string and read :: "('st, 'sv, 's) world \<Rightarrow> 'r option outcome" where
  cr_panics: "read_es_state path w = Panicked m \<Longrightarrow> complete_read host path read w (Panicked m) w"
| cr_hot: "read_es_state path w = Done (Some j) \<Longrightarrow> await_quiescent host path False w t w1 \<Longrightarrow>
     complete_read host path read w (read w1) w1"
| cr_wake_panics: "read_es_state path w = Done None \<Longrightarrow> wake_until_caught_up host path w (Panicked m) w1 \<Longrightarrow>
     complete_read host path read w (Panicked m) w1"
| cr_missed: "read_es_state path w = Done None \<Longrightarrow> wake_until_caught_up host path w (Done False) w1 \<Longrightarrow>
     complete_read host path read w (Done None) w1"
| cr_woken: "read_es_state path w = Done None \<Longrightarrow> wake_until_caught_up host path w (Done True) w1 \<Longrightarrow>
     await_quiescent host path False w1 t w2 \<Longrightarrow> complete_read host path read w (read w2) w2"

definition projector_state ::
  "('st, 'sv, 's) host \<Rightarrow> string \<Rightarrow> ('st, 'sv, 's) world \<Rightarrow> json option outcome \<Rightarrow> ('st, 'sv, 's) world \<Rightarrow> bool" where
  "projector_state host path = complete_read host path (read_es_state path)"

definition typed_projector_state ::
  "('st, 'sv, 's) host \<Rightarrow> string \<Rightarrow> ('st \<Rightarrow> 'r) \<Rightarrow> ('st, 'sv, 's) world \<Rightarrow> 'r option outcome
   \<Rightarrow> ('st, 'sv, 's) world \<Rightarrow> bool" where
  "typed_projector_state host path f = complete_read host path (\<lambda>w. Done (read_projector path f w))"

subsection \<open>The bounded stop\<close>

text \<open>
  The settle wait: at most \<open>n\<close> looks, two milliseconds apart, for an instance in the service table or a
  crash.  The flag says whether it saw one.
\<close>

definition is_settled :: "string \<Rightarrow> ('st, 'sv, 's) world \<Rightarrow> bool" where
  "is_settled path w \<longleftrightarrow> has_key (w_services w) path \<or>
     (case map_of (w_cells w) path of None \<Rightarrow> False | Some c \<Rightarrow> ce_crashed (w_cell_heap w c))"

inductive settle ::
  "('st, 'sv, 's) host \<Rightarrow> string \<Rightarrow> nat \<Rightarrow> ('st, 'sv, 's) world \<Rightarrow> nat \<Rightarrow> bool \<Rightarrow> ('st, 'sv, 's) world \<Rightarrow> bool"
  for host :: "('st, 'sv, 's) host" and path :: string where
  se_gives_up: "settle host path 0 w 0 False w"
| se_settled: "is_settled path w \<Longrightarrow> settle host path (Suc n) w 0 True w"
| se_sleeps: "\<not> is_settled path w \<Longrightarrow> meanwhile host w w1 \<Longrightarrow> settle host path n w1 t seen w2 \<Longrightarrow>
     settle host path (Suc n) w (2 + t) seen w2"

text \<open>The join of the told loop, under the budget of the call.\<close>

inductive join_stopped ::
  "('st, 'sv, 's) host \<Rightarrow> nat \<Rightarrow> nat option option \<Rightarrow> ('st, 'sv, 's) world \<Rightarrow> nat \<Rightarrow> join_result
   \<Rightarrow> ('st, 'sv, 's) world \<Rightarrow> bool"
  for host :: "('st, 'sv, 's) host" and remaining :: nat where
  js_nothing: "answer = None \<or> answer = Some None \<Longrightarrow> join_stopped host remaining answer w 0 NothingToJoin w"
| js_joined: "meanwhile host w w1 \<Longrightarrow> map_of (w_tasks w1) i = None \<Longrightarrow> t \<le> remaining \<Longrightarrow>
     join_stopped host remaining (Some (Some i)) w t JoinedLoop w1"
| js_aborted: "meanwhile host w w1 \<Longrightarrow> join_stopped host remaining (Some (Some i)) w remaining (AbortedLoop i) w1"

text \<open>
  The stop and the stops of the children, one after the other under what is left of the budget.  The log
  has, for each child that was stopped, how long that took and whether its settle wait saw it settled.
\<close>

type_synonym stop_log = "(string \<times> nat \<times> bool) list"

definition log_time :: "stop_log \<Rightarrow> nat" where
  "log_time l = sum_list (map (\<lambda>(c, t, seen). t) l)"

inductive stop_bounded ::
    "('st, 'sv, 's) host \<Rightarrow> nat \<Rightarrow> string \<Rightarrow> ('st, 'sv, 's) world \<Rightarrow> stop_log \<Rightarrow> nat \<Rightarrow> bool \<Rightarrow> ('st, 'sv, 's) world \<Rightarrow> bool"
  and stop_each ::
    "('st, 'sv, 's) host \<Rightarrow> nat \<Rightarrow> string list \<Rightarrow> ('st, 'sv, 's) world \<Rightarrow> stop_log \<Rightarrow> ('st, 'sv, 's) world \<Rightarrow> bool"
  for host :: "('st, 'sv, 's) host" where
  sb_spent: "stop_bounded host 0 path w [] 0 False w"
| sb_stops: "0 < remaining \<Longrightarrow> stop_each host remaining (stop_children path w) w log w1 \<Longrightarrow>
     settle host path 500 w1 t seen w2 \<Longrightarrow> stop_signal path w2 = (answer, w3) \<Longrightarrow>
     join_stopped host remaining answer w3 t' joined w4 \<Longrightarrow> stop_finish host path joined w4 = (Done (), w5) \<Longrightarrow>
     stop_bounded host remaining path w log (log_time log + t + t') seen w5"
| sc_done: "stop_each host budget [] w [] w"
| sc_last: "stop_bounded host budget c w l t seen w1 \<Longrightarrow> budget \<le> t \<Longrightarrow>
     stop_each host budget (c # cs) w [(c, t, seen)] w1"
| sc_next: "stop_bounded host budget c w l t seen w1 \<Longrightarrow> t < budget \<Longrightarrow> stop_each host (budget - t) cs w1 log w2 \<Longrightarrow>
     stop_each host budget (c # cs) w ((c, t, seen) # log) w2"

definition stop_timeout :: nat where
  "stop_timeout = 5000"

definition stop_call ::
  "('st, 'sv, 's) host \<Rightarrow> string \<Rightarrow> ('st, 'sv, 's) world \<Rightarrow> stop_log \<Rightarrow> nat \<Rightarrow> bool \<Rightarrow> ('st, 'sv, 's) world \<Rightarrow> bool" where
  "stop_call host path = stop_bounded host stop_timeout path"

inductive rebuild_projector ::
  "('st, 'sv, 's) host \<Rightarrow> string \<Rightarrow> ('st, 'sv, 's) world \<Rightarrow> (registry_error + unit) outcome \<Rightarrow> ('st, 'sv, 's) world \<Rightarrow> bool"
  for host :: "('st, 'sv, 's) host" and path :: string where
  rb_unowned: "rebuild_spec path w = Inl err \<Longrightarrow> rebuild_projector host path w (Done (Inl err)) w"
| rb_panics: "rebuild_spec path w = Inr spec \<Longrightarrow> stop_call host path w log t seen w1 \<Longrightarrow>
     rebuild_after_stop host path spec w1 = (Panicked m, w2) \<Longrightarrow> rebuild_projector host path w (Panicked m) w2"
| rb_unpurged: "rebuild_spec path w = Inr spec \<Longrightarrow> stop_call host path w log t seen w1 \<Longrightarrow>
     rebuild_after_stop host path spec w1 = (Done (Inl err), w2) \<Longrightarrow> rebuild_projector host path w (Done (Inl err)) w2"
| rb_late: "rebuild_spec path w = Inr spec \<Longrightarrow> stop_call host path w log t seen w1 \<Longrightarrow>
     rebuild_after_stop host path spec w1 = (Done (Inr watermark), w2) \<Longrightarrow>
     wait_caught_up host path watermark w2 False w3 \<Longrightarrow> rebuild_projector host path w (Done (Inl InvalidSpec)) w3"
| rb_rebuilt: "rebuild_spec path w = Inr spec \<Longrightarrow> stop_call host path w log t seen w1 \<Longrightarrow>
     rebuild_after_stop host path spec w1 = (Done (Inr watermark), w2) \<Longrightarrow>
     wait_caught_up host path watermark w2 True w3 \<Longrightarrow> await_quiescent host path False w3 q w4 \<Longrightarrow>
     rebuild_projector host path w (Done (Inr ())) w4"

subsection \<open>The shutdown sweep\<close>

text \<open>
  The joins share one deadline.  A loop that outlives it is let go: its task is not aborted, and its path
  is swept with the others.
\<close>

inductive join_told ::
  "('st, 'sv, 's) host \<Rightarrow> nat \<Rightarrow> (string \<times> nat) list \<Rightarrow> ('st, 'sv, 's) world \<Rightarrow> string list \<Rightarrow> nat
   \<Rightarrow> ('st, 'sv, 's) world \<Rightarrow> bool"
  for host :: "('st, 'sv, 's) host" where
  jt_done: "join_told host shared [] w [] 0 w"
| jt_spent: "join_told host 0 js w paths t w1 \<Longrightarrow> join_told host 0 ((p, i) # js) w (p # paths) t w1"
| jt_waits: "0 < shared \<Longrightarrow> meanwhile host w w1 \<Longrightarrow> t \<le> shared \<Longrightarrow> map_of (w_tasks w1) i = None \<or> t = shared \<Longrightarrow>
     join_told host (shared - t) js w1 paths t' w2 \<Longrightarrow> join_told host shared ((p, i) # js) w (p # paths) (t + t') w2"

inductive shutdown_graceful ::
  "('st, 'sv, 's) host \<Rightarrow> nat \<Rightarrow> ('st, 'sv, 's) world \<Rightarrow> nat \<Rightarrow> ('st, 'sv, 's) world \<Rightarrow> bool"
  for host :: "('st, 'sv, 's) host" and deadline :: nat where
  sg_sweeps: "shutdown_begin w = (joins, w1) \<Longrightarrow> join_told host deadline joins w1 paths t w2 \<Longrightarrow>
     shutdown_finish host paths w2 = (Done (), w3) \<Longrightarrow> shutdown_graceful host deadline w t w3"

subsection \<open>A waiting call is a run\<close>

text \<open>
  Each of these calls is a sequence of steps of the system, so what holds in every reachable world holds
  during and after it.
\<close>

lemma quiescent_runs: "await_quiescent host path busy w t w' \<Longrightarrow> meanwhile host w w'"
  by (induction rule: await_quiescent.induct) (auto intro: rtranclp_trans)

lemma quiescent_is_quiet: "await_quiescent host path busy w t w' \<Longrightarrow> t \<Longrightarrow> is_quiet path w'"
  by (induction rule: await_quiescent.induct) auto

lemma caught_up_runs: "wait_caught_up host path watermark w b w' \<Longrightarrow> meanwhile host w w'"
  by (induction rule: wait_caught_up.induct) (auto intro: rtranclp_trans)

lemma caught_up_answer: "wait_caught_up host path watermark w b w' \<Longrightarrow> b \<longleftrightarrow> caught_up_past path watermark w'"
  by (induction rule: wait_caught_up.induct) auto

lemma factory_runs:
  assumes "host_ok host"
  shows "meanwhile host w (snd (act_bind (ho_factory host f p a) (\<lambda>_. act_ret x) w))"
proof -
  have "sys_step host w (snd (ho_factory host f p a w))"
    using assms by (intro st_call ap_setup) (simp add: host_ok_def)
  moreover have "snd (act_bind (ho_factory host f p a) (\<lambda>_. act_ret x) w) = snd (ho_factory host f p a w)"
    by (simp add: act_bind_def act_ret_def split: outcome.split prod.split)
  ultimately show ?thesis by (simp only: r_into_rtranclp)
qed

lemma wake_owned_runs: "host_ok host \<Longrightarrow> wake_owned host path spec w = (r, w') \<Longrightarrow> meanwhile host w w'"
  using factory_runs [of host w "pj_factory spec" path "projector_entity_args spec (wake_key spec path)"
      "Inr (get_or 0 (w_caught_up w) path) :: bool + nat"]
  by (auto simp: wake_owned_def Let_def split: if_splits)

lemma wake_runs:
  assumes "host_ok host"
  shows "wake_until_caught_up host path w r w' \<Longrightarrow> meanwhile host w w'"
  by (induction rule: wake_until_caught_up.induct)
    (meson assms wake_owned_runs quiescent_runs caught_up_runs rtranclp_trans rtranclp.rtrancl_refl)+

lemma read_runs:
  assumes "host_ok host"
  shows "complete_read host path read w r w' \<Longrightarrow> meanwhile host w w'"
  by (induction rule: complete_read.induct)
    (meson assms wake_runs quiescent_runs rtranclp_trans rtranclp.rtrancl_refl)+

lemma settle_runs: "settle host path n w t seen w' \<Longrightarrow> meanwhile host w w'"
  by (induction rule: settle.induct) (auto intro: rtranclp_trans)

lemma signal_runs: "stop_signal path w = (answer, w') \<Longrightarrow> meanwhile host w w'"
  using st_call [OF ap_signal, of host w path] by (simp add: r_into_rtranclp)

lemma finish_runs: "stop_finish host path joined w = (r, w') \<Longrightarrow> meanwhile host w w'"
  using st_stop [of host w path joined] by (simp add: r_into_rtranclp)

lemma join_runs: "join_stopped host remaining answer w t joined w' \<Longrightarrow> meanwhile host w w'"
  by (induction rule: join_stopped.induct) auto

lemma stop_runs:
  "stop_bounded host remaining path w log t seen w' \<Longrightarrow> meanwhile host w w'"
  "stop_each host remaining cs w log' w' \<Longrightarrow> meanwhile host w w'"
  by (induction rule: stop_bounded_stop_each.inducts)
    (auto, meson settle_runs signal_runs join_runs finish_runs rtranclp_trans)

lemma told_runs: "join_told host shared js w paths t w' \<Longrightarrow> meanwhile host w w'"
  by (induction rule: join_told.induct) (auto intro: rtranclp_trans)

lemma shutdown_runs: "shutdown_graceful host deadline w t w' \<Longrightarrow> meanwhile host w w'"
proof (induction rule: shutdown_graceful.induct)
  case (sg_sweeps w joins w1 paths t w2 w3)
  have "meanwhile host w w1" "meanwhile host w2 w3"
    using st_shutdown [of host w] st_sweep [of host w2 paths] sg_sweeps by (simp_all add: r_into_rtranclp)
  then show ?case using told_runs [OF sg_sweeps(2)] by (meson rtranclp_trans)
qed

text \<open>The sweep waits no longer than its deadline and sweeps every path it told.\<close>

lemma join_told_answer: "join_told host shared js w paths t w' \<Longrightarrow> paths = map fst js \<and> t \<le> shared"
  by (induction rule: join_told.induct) auto

subsection \<open>The stop and its children\<close>

lemma settle_time: "settle host path n w t seen w' \<Longrightarrow> (if seen then is_settled path w' else t = 2 * n)"
  by (induction rule: settle.induct) auto

lemma stop_log_facts:
  "stop_bounded host remaining path w log t seen w' \<Longrightarrow> 0 < remaining \<Longrightarrow> \<not> seen \<Longrightarrow> 1000 \<le> t"
  "stop_each host budget cs w log' w' \<Longrightarrow> 0 < budget \<Longrightarrow>
     map fst log' = take (length log') cs \<and> (\<forall>(c, t, seen) \<in> set log'. \<not> seen \<longrightarrow> 1000 \<le> t) \<and>
     (log' \<noteq> [] \<longrightarrow> log_time (butlast log') < budget)"
proof (induction rule: stop_bounded_stop_each.inducts)
  case (sb_stops remaining path w log w1 t seen w2 answer w3 t' joined w4 w5)
  then show ?case using settle_time [of host path 500 w1 t seen w2] by simp
next
  case (sc_last budget c w l t seen w1 cs)
  then show ?case by (auto simp: log_time_def)
next
  case (sc_next budget c w l t seen w1 cs log w2)
  then show ?case by (auto simp: log_time_def)
qed auto

lemma unsettled_log:
  "\<forall>(c, t, seen) \<in> set log. \<not> seen \<Longrightarrow> \<forall>(c, t, seen) \<in> set log. \<not> seen \<longrightarrow> 1000 \<le> t \<Longrightarrow>
     1000 * length log \<le> log_time log"
  by (induction log) (auto simp: log_time_def)


text \<open>A parent \<open>p\<close> with two event-sourced children, under a budget of one second.\<close>

definition demo_family :: "(int, nat, mem_store) world" where
  "demo_family = (demo_world [])
     \<lparr>w_cells := [(''a'', 0), (''b'', 0)], w_services := [],
      w_specs := [(''a'', demo_spec\<lparr>sp_path := ''a'', sp_parent := Some ''p''\<rparr>),
                  (''b'', demo_spec\<lparr>sp_path := ''b'', sp_parent := Some ''p''\<rparr>)]\<rparr>"

lemma settle_unsettled: "\<not> is_settled path w \<Longrightarrow> settle host path n w (2 * n) False w"
proof (induction n)
  case (Suc n)
  then show ?case using se_sleeps [of path w host w n "2 * n" False w] by simp
qed (simp add: se_gives_up)

lemma stops_without_join:
  assumes "0 < remaining" "stop_each host remaining (stop_children path w) w log w1" "\<not> is_settled path w1"
    and "stop_signal path w1 = (answer, w1)" "answer = None \<or> answer = Some None"
    and "stop_finish host path NothingToJoin w1 = (Done (), w2)"
  shows "stop_bounded host remaining path w log (log_time log + 1000) False w2"
  using sb_stops [OF assms(1,2) settle_unsettled [OF assms(3)] assms(4) js_nothing [OF assms(5)] assms(6)] by simp

lemma demo_family_facts:
  "stop_children ''p'' demo_family = [''a'', ''b'']" "stop_children ''a'' demo_family = []"
  "\<not> is_settled ''a'' demo_family" "stop_signal ''a'' demo_family = (Some None, demo_family)"
  by (simp_all add: demo_family_def demo_world_def stop_children_def is_settled_def stop_signal_def take_handle_def
      demo_cell_def cell_new_def has_key_def)

lemma stop_leaves_services:
  "w_services (observe_stopped path reason parent w) = w_services w" "w_services (flush_mailbox path w) = w_services w"
  by (simp_all add: observe_stopped_def observe_def flush_mailbox_def Let_def case_prod_beta split: option.split)

lemma demo_first_child:
  obtains w1 where "stop_finish demo_host ''a'' NothingToJoin demo_family = (Done (), w1)"
    "w_cells w1 = [(''b'', 0)]" "w_services w1 = []" "w_specs w1 = tl (w_specs demo_family)"
proof -
  let ?w = "observe_stopped ''a'' StopNormal (parent_of (flush_mailbox ''a'' demo_family) ''a'')
    (drop_tables ''a'' (flush_mailbox ''a'' demo_family))"
  have f: "w_registry ?w = registry_new" "w_cells ?w = [(''b'', 0)]" "w_services ?w = []" "w_specs ?w = tl (w_specs demo_family)"
    by (simp_all add: drop_tables_def stop_leaves_services)
      (simp_all add: demo_family_def demo_world_def registry_new_def drop_routes_of_def remove_slot_def List.map_filter_simps)
  obtain tr w0 where t: "new_trace_root ?w = (tr, w0)" by fastforce
  then have w0: "\<exists>g. w0 = ?w\<lparr>w_ids := g\<rparr>" by (auto simp: new_trace_root_def split: prod.splits)
  then have "rg_routes (w_registry w0) = []" "rg_projector_sets (w_registry w0) = []"
    using f(1) by (auto simp: registry_new_def)
  from unheard_broadcast [OF this] obtain k where
    "announce_lifecycle demo_host ''a'' LcNormal (actor_tier demo_family ''a'') ?w = (Done (), observe_traced tr k w0)"
    by (auto simp: announce_lifecycle_def publish_def t envelope_raw_def)
  then have "stop_finish demo_host ''a'' NothingToJoin demo_family = (Done (), observe_traced tr k w0)"
    by (simp add: stop_finish_def act_bind_def act_ret_def teardown_tables_def Let_def)
      (simp add: demo_family_def demo_world_def has_key_def)
  moreover have "w_cells (observe_traced tr k w0) = [(''b'', 0)]" "w_services (observe_traced tr k w0) = []"
    "w_specs (observe_traced tr k w0) = tl (w_specs demo_family)"
    using w0 f by (auto simp: observe_traced_def)
  ultimately show ?thesis using that by blast
qed


subsection \<open>A read that overtakes the catch-up\<close>

lemma fresh_mailbox [simp]: "ib_queue (ce_inbox (stamp_es now o' m entries (spawn_cell path o'))) = []"
  by (simp add: stamp_es_def stamp_common_def spawn_cell_def cell_new_def inbox_new_def Let_def split: option.split)

lemma armed_projector:
  assumes "arm_projector path consumed args code opts w = (Done a, w1)"
  shows "\<exists>i. map_of (w_es_state w1) path = Some i \<and>
      w_shell_heap w1 i = \<lparr>dy_shell = TypedProjector (ec_default code), dy_code = code\<rparr>"
    "is_quiet path w1" "w_store w1 = w_store w"
  using assms
  by (auto simp: arm_projector_def arm_es_erased_def Let_def act_bind_def act_do_def register_actor_def arm_tables_def
      insert_slot_def is_quiet_def inbox_debug_len_def endpoint_pending_def resolve_def inbox_len_def endpoint_new_def
      observe_def split: sum.splits outcome.splits prod.splits if_splits)

text \<open>
  C16. A complete read can overtake the catch-up it is to wait for.  A projector that a builder or a
  set's factory has just started has its default state in the table and an empty mailbox, while its
  catch-up is a task that has not run yet.  A read takes the table entry for a live projector and the empty
  mailbox for quiescence, and after its two looks, five milliseconds apart, it answers with the default
  state if the catch-up has not come so far, whatever facts the store holds.  The doc of the read promises the fold of every fact the store holds, captured after the catch-up.
\<close>

theorem projector_read_overtakes_catch_up:
  assumes "pb_start code b w = (Done path, w1)" and "ec_encode code (ec_default code) = Done j"
  shows "projector_state host path w1 (Done (Some j)) w1 \<and>
    typed_projector_state host path f w1 (Done (Some (f (ec_default code)))) w1 \<and> w_store w1 = w_store w"
proof -
  obtain a w0 where arm: "arm_projector path (pb_consumed b) (pb_args b) code (pb_opts b) w = (Done a, w0)"
    and w1: "w1 = snd (spawn_task (CatchUpTask (ar_loop a) (ar_endpoint a) (pb_consumed b)) w0)"
    using assms(1)
    by (auto simp: pb_start_def validated_parts_def act_bind_def act_of_def act_do_def act_ret_def act_panic_def
        split: option.splits outcome.splits prod.splits)
  obtain i where i: "map_of (w_es_state w1) path = Some i"
      "w_shell_heap w1 i = \<lparr>dy_shell = TypedProjector (ec_default code), dy_code = code\<rparr>"
    using armed_projector(1) [OF arm] by (auto simp: w1 spawn_task_def)
  have quiet: "is_quiet path w1" and store: "w_store w1 = w_store w"
    using armed_projector(2,3) [OF arm]
    by (simp_all add: w1 spawn_task_def is_quiet_def inbox_debug_len_def endpoint_pending_def cong: option.case_cong)
  have still: "await_quiescent host path False w1 True w1" by (rule aq_twice [OF quiet _ quiet]) simp
  have json: "read_es_state path w1 = Done (Some j)" using i assms(2) by (simp add: read_es_state_def)
  have typed: "read_projector path f w1 = Some (f (ec_default code))" using i by (simp add: read_projector_def)
  show ?thesis
    using cr_hot [OF json still, of "read_es_state path"] cr_hot [OF json still, of "\<lambda>w. Done (read_projector path f w)"]
      json typed store
    by (simp add: projector_state_def typed_projector_state_def)
qed

text \<open>A counting projector of the tick events, started over a store that holds one.\<close>

definition demo_ticks :: "(int, nat, mem_store) world" where
  "demo_ticks = demo_history\<lparr>w_registry := registry_new
     \<lparr>rg_schemas := [(''Ticked'', \<lparr>sch_name = ''Ticked'', sch_kind = Event, sch_fields = [], sch_description = None\<rparr>)]\<rparr>\<rparr>"

definition demo_ticks_view :: projector_builder where
  "demo_ticks_view = (pb_at ''v'' spawn_projector_builder)\<lparr>pb_consumed := [''Ticked'']\<rparr>"

lemma demo_ticks_starts: "\<exists>w1. pb_start demo_code demo_ticks_view demo_ticks = (Done ''v'', w1)"
proof -
  have "check_consumed (w_registry demo_ticks) [''Ticked''] = Done ()"
    by (simp add: demo_ticks_def schema_of_def table_by_id_def)
  moreover have "\<not> has_key (rg_slots (w_registry (demo_ticks\<lparr>w_projectors := ps\<rparr>))) ''v''" for ps
    by (simp add: demo_ticks_def registry_new_def has_key_def)
  ultimately show ?thesis
    by (simp add: pb_start_def validated_parts_def demo_ticks_view_def pb_at_def spawn_projector_builder_def act_bind_def act_of_def
        act_do_def act_ret_def arm_projector_def arm_es_erased_def Let_def register_actor_def insert_slot_def arm_tables_def
        split_def)
qed

theorem projector_read_overtakes_catch_up_witness:
  "\<exists>w1. pb_start demo_code demo_ticks_view demo_ticks = (Done ''v'', w1) \<and>
     projector_state demo_host ''v'' w1 (Done (Some (JInt 0))) w1 \<and>
     (\<exists>d \<in> set (mem_hist (w_store w1) ''b''). jd_origin d = Recorded \<and> ev_schema (jd_event d) \<in> set (pb_consumed demo_ticks_view))"
proof -
  obtain w1 where start: "pb_start demo_code demo_ticks_view demo_ticks = (Done ''v'', w1)" using demo_ticks_starts by blast
  have "ec_encode demo_code (ec_default demo_code) = Done (JInt 0)" by (simp add: demo_code_def)
  from projector_read_overtakes_catch_up [OF start this, of demo_host "\<lambda>s. s"]
  have "projector_state demo_host ''v'' w1 (Done (Some (JInt 0))) w1" "w_store w1 = w_store demo_view"
    by (simp_all add: demo_ticks_def demo_view_def)
  then show ?thesis using start by (simp add: demo_view_hist demo_event_def event_new_def demo_ticks_view_def)
qed

end
