(* ===== verification/Activations.thy ===== *)
theory Activations
  imports Wakeups
begin

text \<open>
  Activation on demand under refusal (\<open>route_inner\<close> and \<open>resolve_partition\<close> of \<open>src/src/kernel.rs\<close>): what a send
  to a partition set does when the member it resolved refuses it.
\<close>

lemma refused_into_same:
  "inbox_push e ib = Done (Inl refused, ib') \<Longrightarrow> \<not> refused_queued_anyway refused \<Longrightarrow>
     refused_into_envelope refused = e \<and> ib' = ib"
  by (auto simp: inbox_push_def queue_ok_def split: if_splits overload_policy.splits list.splits option.splits prod.splits)

lemma push_refused:
  assumes "inbox_push e (ce_inbox (w_cell_heap w (ep_cell (w_endpoint_heap w ep)))) = Done (Inl refused, ib)"
    and "\<not> refused_queued_anyway refused"
  shows "direct_push ep e tr w = (Done (Inl e), w)"
  using refused_into_same [OF assms] assms
  by (simp add: direct_push_def Let_def act_bind_def act_ret_def with_inbox_Done on_cell_def)

lemma door_gone: "ep_closed (w_endpoint_heap w ep) \<Longrightarrow> deliver_with_retry ep e w = (Inl e, w)"
  by (simp add: deliver_with_retry_def try_deliver_def on_endpoint_def)

text \<open>
  C17. The retry of a send to a partition set goes to the wrong entity.  A command for a live member whose
  mailbox refuses it and whose door is gone is resolved once more, from the member's own path instead of
  the set's: the factory is run for the path \<open>public/key/key\<close>, and the command is delivered there, to
  an entity with a journal of its own, while the member \<open>public/key\<close> never sees it.  The comment at the
  retry says that the entity is activated again and its journal replays.
\<close>

theorem partition_retry_misroutes:
  assumes "en_dest e = APath dest" and "rg_rules (w_registry w) = []" and "\<not> w_shutting_down w"
    and "map_of (rg_partitions (w_registry w)) dest = Some spec"
    and "extract_key (ho_serde host) (w_registry w) e (pt_key_field spec) = Some key"
    and "member = dest @ ''/'' @ key" and "other = member @ ''/'' @ key"
    and "lookup member (w_registry w) = Done (Some info)" and "resolve member (w_registry w) = Some ep"
    and "inbox_push e (ce_inbox (w_cell_heap w (ep_cell (w_endpoint_heap w ep)))) = Done (Inl refused, ib)"
    and "\<not> refused_queued_anyway refused" and "ep_closed (w_endpoint_heap w ep)"
    and "lookup other (w_registry w) = Done None"
    and "ho_factory host (pt_factory spec) other (partition_entity_args spec key) w = (Done (), w1)"
    and "resolve other (w_registry w1) = Some ep1" and "deliver_with_retry ep1 e w1 = (Inr (), w2)"
  shows "route host e w = (Done (Inr other), w2)"
proof -
  have rules: "apply_rules (w_registry w) e dest = (None, None)" using assms(2) by (simp add: apply_rules_def)
  have first: "resolve_partition host e dest (Some spec) projector w = (Done (Inr (Some member)), w)" for projector
    using assms(3,5,6,8) by (simp add: resolve_partition_def)
  have again: "resolve_partition host e member (Some spec) projector w = (Done (Inr (Some other)), w1)" for projector
    using assms(3,5,7,13,14) by (simp add: resolve_partition_def act_bind_def act_ret_def)
  have "deliver_primary host e member ep (Some spec) projector w = (Done (Inr other), w2)" for projector
    using push_refused [OF assms(10,11)] door_gone [OF assms(12)] again assms(15,16)
    by (simp add: deliver_primary_def act_bind_def Let_def)
  then show ?thesis
    using assms(1,3,4,9) first by (simp add: route_def route_path_def rules deliver_tee_def act_bind_def Let_def)
qed

text \<open>
  A set \<open>s\<close> keyed by \<open>id\<close>, whose factory spawns an actor at the path it is given; the member \<open>s/7\<close> has a
  closed mailbox and its door task is gone.
\<close>

definition demo_set :: partition_spec where
  "demo_set = \<lparr>pt_public = ''s'', pt_factory = 0, pt_key_field = ''id'', pt_args_template = None, pt_opts = default_opts\<rparr>"

definition demo_set_host :: "(int, nat, mem_store) host" where
  "demo_set_host = demo_host\<lparr>ho_factory := (\<lambda>f p a.
     act_bind (eb_start manifest_new demo_code (eb_at p spawn_es_builder)) (\<lambda>_. act_ret ()))\<rparr>"

definition demo_set_command :: envelope where
  "demo_set_command = envelope_raw ''Add'' (APath ''s'')
     (payload_value \<lparr>lv_type = ''Add'', lv_fields = [(''id'', ''7'')], lv_json = JNull\<rparr>) \<lparr>tr_trace = 1, tr_causality = 2\<rparr>"

definition demo_set_world :: "(int, nat, mem_store) world" where
  "demo_set_world = (demo_world [])
     \<lparr>w_registry := registry_new\<lparr>rg_partitions := [(''s'', demo_set)],
        rg_slots := [(''s/7'', \<lparr>sl_manifest = manifest_kind EventSourced manifest_new, sl_endpoint = Some 0, sl_inbox_policy = Block\<rparr>)]\<rparr>,
      w_cell_heap := (\<lambda>_. (demo_cell [])\<lparr>ce_inbox := inbox_close (demo_inbox [])\<rparr>),
      w_endpoint_heap := (\<lambda>_. (endpoint_new (Some 4) 0)\<lparr>ep_closed := True\<rparr>)\<rparr>"

lemma demo_set_activates:
  obtains w1 where "ho_factory demo_set_host (pt_factory demo_set) ''s/7/7'' args demo_set_world = (Done (), w1)"
    "resolve ''s/7/7'' (w_registry w1) = Some 2" "w_endpoint_heap w1 2 = endpoint_new (Some 64) 1"
proof -
  have "fst (ho_factory demo_set_host (pt_factory demo_set) ''s/7/7'' args demo_set_world) = Done ()"
    "resolve ''s/7/7'' (w_registry (snd (ho_factory demo_set_host (pt_factory demo_set) ''s/7/7'' args demo_set_world))) = Some 2"
    "w_endpoint_heap (snd (ho_factory demo_set_host (pt_factory demo_set) ''s/7/7'' args demo_set_world)) 2 = endpoint_new (Some 64) 1"
    by (simp_all add: demo_set_host_def demo_set_world_def demo_world_def eb_start_def eb_at_def spawn_es_builder_def
        spawn_es_erased_def arm_es_erased_def act_bind_def register_actor_def Let_def insert_slot_def registry_new_def
        arm_tables_def has_key_def act_do_def act_ret_def start_loop_def new_watch_def start_tracked_def spawn_task_def
        store_handle_def on_cell_def on_watch_def resolve_opts_def default_opts_def front_door_channel_def door_capacity_def
        add_routes_def with_entries_def merged_manifest_def manifest_kind_def manifest_new_def resolve_def observe_def stamp_es_def
        stamp_common_def spawn_cell_def cell_new_def
        split: prod.split sum.split option.split)
  then show ?thesis using that by (metis prod.collapse)
qed

theorem partition_retry_misroutes_witness:
  "\<exists>w2. route demo_set_host demo_set_command demo_set_world = (Done (Inr ''s/7/7''), w2)"
proof -
  obtain w1 where w1: "ho_factory demo_set_host (pt_factory demo_set) ''s/7/7'' (partition_entity_args demo_set ''7'') demo_set_world
      = (Done (), w1)" "resolve ''s/7/7'' (w_registry w1) = Some 2" "w_endpoint_heap w1 2 = endpoint_new (Some 64) 1"
    by (rule demo_set_activates)
  obtain w2 where w2: "deliver_with_retry 2 demo_set_command w1 = (Inr (), w2)"
    by (simp add: deliver_with_retry_def w1(3) try_deliver_def channel_has_room_def endpoint_new_def)
  have route_facts: "en_dest demo_set_command = APath ''s''" "rg_rules (w_registry demo_set_world) = []"
    "\<not> w_shutting_down demo_set_world" "map_of (rg_partitions (w_registry demo_set_world)) ''s'' = Some demo_set"
    "extract_key (ho_serde demo_set_host) (w_registry demo_set_world) demo_set_command (pt_key_field demo_set) = Some ''7''"
    by (simp_all add: demo_set_command_def envelope_raw_def demo_set_world_def demo_world_def registry_new_def extract_key_def
        payload_field_def payload_value_def demo_set_def)
  obtain info where slot: "lookup ''s/7'' (w_registry demo_set_world) = Done (Some info)"
    "resolve ''s/7'' (w_registry demo_set_world) = Some 0" "lookup ''s/7/7'' (w_registry demo_set_world) = Done None"
    by (simp add: lookup_def resolve_def slot_kind_def demo_set_world_def demo_world_def manifest_kind_def registry_new_def)
  have box: "inbox_push demo_set_command (ce_inbox (w_cell_heap demo_set_world (ep_cell (w_endpoint_heap demo_set_world 0)))) =
      Done (Inl (RefClosed demo_set_command), inbox_close (demo_inbox []))" "ep_closed (w_endpoint_heap demo_set_world 0)"
    by (simp_all add: inbox_push_def demo_set_world_def inbox_close_def)
  have "route demo_set_host demo_set_command demo_set_world = (Done (Inr ''s/7/7''), w2)"
    by (rule partition_retry_misroutes [OF route_facts _ _ slot(1,2) box(1) _ box(2) slot(3) w1(1,2) w2]) simp_all
  then show ?thesis by blast
qed

end
