(* ===== verification/Broadcasts.thy ===== *)
theory Broadcasts
  imports Delivery Restarts
begin

text \<open>
  Publishing (\<open>broadcast\<close>, \<open>src/src/kernel.rs\<close>): what a published fact does to the mailboxes of its handlers
  and to everything else.
\<close>

subsection \<open>One copy\<close>

text \<open>The mail waiting in a cell, oldest first, and whether a push is taken at once.\<close>

definition waiting :: "nat \<Rightarrow> ('st, 'sv, 's) world \<Rightarrow> envelope list" where
  "waiting c w = fst (inbox_drain_live (ce_inbox (w_cell_heap w c)))"

definition takes_now :: "'e inbox \<Rightarrow> bool" where
  "takes_now ib \<longleftrightarrow> ib_open ib \<and> (ib_policy ib = Unbounded \<or> length (ib_queue ib) < ib_capacity ib)"

text \<open>
  One copy at an endpoint: behind the waiting mail, with the loop woken, when the mailbox takes it; else at
  the end of the front door's channel; nowhere when that is closed.
\<close>

definition copied :: "envelope \<Rightarrow> nat \<Rightarrow> ('st, 'sv, 's) world \<Rightarrow> ('st, 'sv, 's) world \<Rightarrow> bool" where
  "copied e ep w w' \<longleftrightarrow>
     (let c = ep_cell (w_endpoint_heap w ep)
      in if takes_now (ce_inbox (w_cell_heap w c))
         then waiting c w' = waiting c w @ [e] \<and> ce_work (w_cell_heap w' c) \<and> w_endpoint_heap w' ep = w_endpoint_heap w ep
         else ce_inbox (w_cell_heap w' c) = ce_inbox (w_cell_heap w c) \<and>
              ep_queue (w_endpoint_heap w' ep) = ep_queue (w_endpoint_heap w ep) @
                (if ep_closed (w_endpoint_heap w ep) then [] else [e]))"

text \<open>Nothing else of the world has changed than the given cells and endpoints.\<close>

definition only_at :: "nat set \<Rightarrow> nat set \<Rightarrow> ('st, 'sv, 's) world \<Rightarrow> ('st, 'sv, 's) world \<Rightarrow> bool" where
  "only_at cs eps w w' \<longleftrightarrow>
     (\<forall>c. c \<notin> cs \<longrightarrow> w_cell_heap w' c = w_cell_heap w c) \<and>
     (\<forall>ep. ep \<notin> eps \<longrightarrow> w_endpoint_heap w' ep = w_endpoint_heap w ep) \<and>
     (\<forall>ep. ep_cell (w_endpoint_heap w' ep) = ep_cell (w_endpoint_heap w ep)) \<and>
     w_registry w' = w_registry w \<and> w_tasks w' = w_tasks w \<and> w_dead_letters w' = w_dead_letters w \<and>
     w_next w' = w_next w \<and> w_store w' = w_store w \<and> w_es_state w' = w_es_state w \<and> w_shell_heap w' = w_shell_heap w"

lemma only_at_trans: "only_at A B w w1 \<Longrightarrow> only_at A' B' w1 w2 \<Longrightarrow> only_at (A \<union> A') (B \<union> B') w w2"
  by (simp add: only_at_def)

lemma push_now:
  "takes_now ib \<Longrightarrow> inbox_push e ib = queue_ok e ib"
  by (auto simp: takes_now_def inbox_push_def)

lemma push_later:
  "\<not> takes_now ib \<Longrightarrow> ib_policy ib \<noteq> DropOld \<Longrightarrow>
   \<exists>r. inbox_push e ib = Done (Inl r, ib) \<and> \<not> refused_queued_anyway r \<and> refused_into_envelope r = e"
  by (cases "ib_policy ib") (auto simp: takes_now_def inbox_push_def)

lemma waiting_queue_next: "fst (inbox_drain_live (queue_next e ib)) = fst (inbox_drain_live ib) @ [e]"
  by (simp add: inbox_drain_live_def queue_next_def case_prod_beta drain_live_append)

lemma pushed_only:
  "only_at {c} {} w (pushed_directly c tr None (on_cell c (\<lambda>ce. ce\<lparr>ce_inbox := ib\<rparr>) w))"
proof -
  obtain b where "w_cell_heap (pushed_directly c tr None (on_cell c (\<lambda>ce. ce\<lparr>ce_inbox := ib\<rparr>) w)) =
      (w_cell_heap (on_cell c (\<lambda>ce. ce\<lparr>ce_inbox := ib\<rparr>) w))
        (c := (w_cell_heap (on_cell c (\<lambda>ce. ce\<lparr>ce_inbox := ib\<rparr>) w) c)\<lparr>ce_watermark_fired := b, ce_work := True\<rparr>)"
    using pushed_directly_heap by metis
  then show ?thesis by (simp add: only_at_def pushed_directly_letters)
qed

lemma broadcast_one_copies:
  assumes pol: "ib_policy (ce_inbox (w_cell_heap w (ep_cell (w_endpoint_heap w ep)))) \<noteq> DropOld"
  shows "\<exists>w'. broadcast_one e (p, ep) w = (Done (), w') \<and> copied e ep w w' \<and>
    only_at {ep_cell (w_endpoint_heap w ep)} {ep} w w'"
proof -
  define c where "c = ep_cell (w_endpoint_heap w ep)"
  let ?ib = "ce_inbox (w_cell_heap w c)"
  show ?thesis
  proof (cases "takes_now ?ib")
    case True
    let ?w1 = "on_cell c (\<lambda>ce. ce\<lparr>ce_inbox := queue_next e ?ib\<rparr>) w"
    let ?w2 = "pushed_directly c (en_trace e) None ?w1"
    obtain off where "inbox_push e ?ib = Done (Inr off, queue_next e ?ib)"
      using push_now [OF True, of e] by (simp add: queue_ok_def)
    then have "broadcast_one e (p, ep) w = (Done (), ?w2)"
      by (simp add: broadcast_one_def direct_push_def with_inbox_def act_bind_def act_ret_def c_def [symmetric])
    moreover obtain b where "w_cell_heap ?w2 = (w_cell_heap ?w1)(c := (w_cell_heap ?w1 c)\<lparr>ce_watermark_fired := b, ce_work := True\<rparr>)"
      using pushed_directly_heap by blast
    then have "copied e ep w ?w2"
      using True by (simp add: copied_def Let_def c_def [symmetric] waiting_def waiting_queue_next)
    moreover have "only_at {c} {ep} w ?w2" using pushed_only [of c w "en_trace e" "queue_next e ?ib"] by (simp add: only_at_def)
    ultimately show ?thesis unfolding c_def by blast
  next
    case False
    obtain r where r: "inbox_push e ?ib = Done (Inl r, ?ib)" "\<not> refused_queued_anyway r" "refused_into_envelope r = e"
      using push_later [OF False] pol unfolding c_def by blast
    have same: "on_cell c (ce_inbox_update (\<lambda>_. ?ib)) w = w" by (simp add: on_cell_def fun_upd_idem)
    have "broadcast_one e (p, ep) w = (Done (), snd (deliver_with_retry ep e w))"
      using r by (simp add: broadcast_one_def direct_push_def with_inbox_def act_bind_def act_ret_def act_do_def c_def [symmetric] same)
    moreover have "copied e ep w (snd (deliver_with_retry ep e w))" "only_at {c} {ep} w (snd (deliver_with_retry ep e w))"
      using False
      by (auto simp: copied_def only_at_def Let_def c_def [symmetric] deliver_with_retry_def try_deliver_def deliver_def
          note_channel_accept_def on_endpoint_def)
    ultimately show ?thesis unfolding c_def by blast
  qed
qed

subsection \<open>A copy for every handler\<close>

abbreviation cell_at :: "('st, 'sv, 's) world \<Rightarrow> nat \<Rightarrow> nat" where
  "cell_at w ep \<equiv> ep_cell (w_endpoint_heap w ep)"

lemma copied_cong:
  assumes "only_at cs eps w w1" "cell_at w ep \<notin> cs" "ep \<notin> eps"
  shows "copied e ep w1 w2 \<longleftrightarrow> copied e ep w w2"
  using assms by (simp add: only_at_def copied_def Let_def waiting_def)

lemma copied_stays:
  assumes "copied e ep w w1" "only_at cs eps w1 w2" "cell_at w ep \<notin> cs" "ep \<notin> eps"
  shows "copied e ep w w2"
  using assms by (cases "takes_now (ce_inbox (w_cell_heap w (cell_at w ep)))") (simp_all add: only_at_def copied_def Let_def waiting_def)

lemma each_copied:
  assumes "distinct (map snd ts)" "distinct (map (cell_at w \<circ> snd) ts)"
    and "\<forall>t \<in> set ts. ib_policy (ce_inbox (w_cell_heap w (cell_at w (snd t)))) \<noteq> DropOld"
  shows "\<exists>w'. act_each (broadcast_one e) ts w = (Done (), w') \<and> (\<forall>t \<in> set ts. copied e (snd t) w w') \<and>
    only_at ((cell_at w \<circ> snd) ` set ts) (snd ` set ts) w w'"
  using assms
proof (induction ts arbitrary: w)
  case Nil
  then show ?case by (simp add: act_ret_def only_at_def)
next
  case (Cons t ts)
  obtain p ep where t: "t = (p, ep)" by fastforce
  obtain w1 where w1: "broadcast_one e (p, ep) w = (Done (), w1)" "copied e ep w w1" "only_at {cell_at w ep} {ep} w w1"
    using broadcast_one_copies [of w ep e p] Cons.prems(3) by (auto simp: t)
  have cells: "cell_at w1 q = cell_at w q" for q using w1(3) by (simp add: only_at_def)
  have apart: "cell_at w (snd x) \<noteq> cell_at w ep \<and> snd x \<noteq> ep" if "x \<in> set ts" for x
    using that Cons.prems(1,2) by (force simp: t)
  have "w_cell_heap w1 (cell_at w (snd x)) = w_cell_heap w (cell_at w (snd x))" if "x \<in> set ts" for x
    using apart [OF that] w1(3) by (simp add: only_at_def)
  then have "\<exists>w'. act_each (broadcast_one e) ts w1 = (Done (), w') \<and> (\<forall>t \<in> set ts. copied e (snd t) w1 w') \<and>
      only_at ((cell_at w1 \<circ> snd) ` set ts) (snd ` set ts) w1 w'"
    using Cons.prems by (intro Cons.IH) (simp_all add: cells comp_def)
  then obtain w2 where w2: "act_each (broadcast_one e) ts w1 = (Done (), w2)" "\<forall>t \<in> set ts. copied e (snd t) w1 w2"
    "only_at ((cell_at w \<circ> snd) ` set ts) (snd ` set ts) w1 w2"
    by (auto simp: cells comp_def)
  have "copied e ep w w2"
    using copied_stays [OF w1(2) w2(3)] apart by force
  moreover have "\<forall>x \<in> set ts. copied e (snd x) w w2"
    using w2(2) apart copied_cong [OF w1(3)] by blast
  ultimately show ?case
    using w1(1) w2(1) only_at_trans [OF w1(3) w2(3)] by (intro exI [of _ w2]) (simp add: t act_bind_def)
qed

text \<open>In a well-formed world the endpoints of different paths are different, and so are their cells.\<close>

lemma targets_paths:
  "map fst (List.map_filter (\<lambda>path. map_option (\<lambda>ep. (path, ep)) (resolve path r)) ps) = filter (\<lambda>p. resolve p r \<noteq> None) ps"
  by (induction ps) (auto simp: List.map_filter_simps split: option.split)

lemma targets_resolve: "(p, ep) \<in> set (broadcast_targets r schema) \<longleftrightarrow>
    p \<in> set (handlers_of schema r) \<and> resolve p r = Some ep \<and> projector_set_owning p r = None"
  by (force simp: broadcast_targets_def map_filter_def image_iff)

lemma targets_apart:
  assumes "world_ok w"
  shows "distinct (map (cell_at w \<circ> snd) (broadcast_targets (w_registry w) schema))"
proof -
  let ?r = "w_registry w" and ?ts = "broadcast_targets (w_registry w) schema"
  have "distinct (handlers_of schema ?r)" using assms handlers_of_distinct by (simp add: world_ok_def)
  then have "distinct (map fst ?ts)" unfolding broadcast_targets_def by (simp add: distinct_map_filter targets_paths)
  moreover have "ce_path (w_cell_heap w (cell_at w (snd t))) = fst t" if "t \<in> set ?ts" for t
    using that world_ok_resolve [OF assms, of "fst t" "snd t"] assms targets_resolve [of "fst t" "snd t" ?r schema]
    by (auto simp: world_ok_def cells_ok_def)
  then have "map fst ?ts = map (\<lambda>c. ce_path (w_cell_heap w c)) (map (cell_at w \<circ> snd) ?ts)" by simp
  ultimately show ?thesis by (metis distinct_map)
qed


text \<open>The crashed counter of the restarts as a handler of a fact; one envelope waits in its mailbox.\<close>

definition demo_news :: "(int, nat, mem_store) world" where
  "demo_news = demo_crashed\<lparr>w_registry := (w_registry demo_crashed)\<lparr>rg_routes := [(''Ticked'', Single ''a'')]\<rparr>\<rparr>"

lemma demo_news_ok: "world_ok demo_news"
  by (auto simp: demo_news_def world_ok_def rg_ok_def slots_ok_def slot_ok_def cells_ok_def states_ok_def tasks_ok_def has_key_def
      demo_crashed_def demo_world_def registry_new_def manifest_kind_def manifest_new_def
      endpoint_new_def mark_crashed_def demo_cell_def cell_new_def split: if_splits)


end
