(* ===== verification/Spec2Isabelle.thy ===== *)
theory Spec2Isabelle
  imports DaowLive Stops Derives Exports Services Configs Snapshots EventLogs Budgets LongCalls Activations Broadcasts
begin

text \<open>
  A verification development for \<^bold>\<open>trouper\<close>, an in-process actor runtime in Rust with event-sourced actors,
  service actors and projectors.  Paths below are relative to the repository's source tree.

  \<^bold>\<open>The program.\<close>  A system (\<open>src/src/system.rs\<close>) is a registry (\<open>src/src/registry.rs\<close>: schemas, slots by path,
  routes by schema, partition and projector sets, router rules) and a kernel (\<open>src/src/kernel.rs\<close>: actor
  cells, live states, replies, dead letters).  An actor is a cell with an inbox (\<open>src/src/inbox.rs\<close>), a
  front door that fills the inbox, and a loop that steps it.  A send resolves a destination, may activate
  a member of a set by its shard key (\<open>src/src/pool.rs\<close>), and pushes into the inbox or hands the envelope to
  the door.  A step of an event-sourced actor claims a batch, decides each message on a folded copy,
  appends the events to the journal (\<open>src/src/journal.rs\<close>, durable in \<open>src/src/journal_daow.rs\<close>), acknowledges,
  folds and broadcasts; a projector records the facts it consumes and folds them; a service handles one
  message at a time and may ask (\<open>src/src/context.rs\<close>, \<open>src/src/reply.rs\<close>).  A crash is supervised
  (\<open>src/src/supervision.rs\<close> and the engine in the kernel).  The derive macros (\<open>src/trouper_macros\<close>) generate
  the schemas and the shard-key reads that routing relies on.

  \<^bold>\<open>Conventions.\<close>  A call that may panic returns an \<open>outcome\<close>; an error value is a sum.  A task's step is an
  \<open>act\<close>: a function from a world to an outcome and the world left behind, so that a panic keeps the
  writes made before it.  Shared handles are numbers into the heaps of the world.  Words keep the width
  where the code packs or wraps (ids, floats as bit patterns); counters that only grow by one per event
  are natural numbers, with the saturation or sentinel of the code where it has one.  Code outside the
  repository is a parameter: the JSON library (\<open>serde\<close>), the actor authors' code (\<open>es_code\<close>, the entries,
  the \<open>host\<close> record), the SQL pool (the list of its answers), \<open>syn\<close>'s attribute walk, the text of uuids.

  \<^bold>\<open>The theories\<close>, in the order of the code's layers.

  \<^item> \<open>Prelude\<close>: outcomes, association-list and list lemmas, the collections of simplification rules.
  \<^item> \<open>Inboxes\<close> (\<open>inbox.rs\<close>): every operation on the ring of offset-slot pairs with its claim tombstones; the
    locale \<open>mailbox\<close> states the contract of claim, commit and restore against an abstract queue.  Lemmas:
    nothing is lost or delivered twice, claims come back in order, which calls can panic.
  \<^item> \<open>Schemas\<close> (\<open>json.rs\<close>, \<open>schema.rs\<close>), \<open>Clocks\<close> (\<open>clock.rs\<close>), \<open>Replies\<close> (\<open>reply.rs\<close>), \<open>Supervision\<close> (\<open>supervision.rs\<close>),
    \<open>Payloads\<close> (\<open>envelope.rs\<close>, with the id generator on 64-bit words), \<open>Pools\<close> (\<open>pool.rs\<close>).
  \<^item> \<open>Derives\<close> (\<open>src/trouper_macros/src/expand.rs\<close>): the expansion of the derives against a declarative reading
    of the struct, and the agreement of the key read from a live value with the key read from JSON.
  \<^item> \<open>Journals\<close> (\<open>journal.rs\<close>): entries, wire form, the in-memory store; the locale \<open>journal_store\<close> is the
    contract of a store as the runtime uses it.  \<open>EsActors\<close> (\<open>actor.rs\<close>): shells, rebuild, dispatch.
  \<^item> \<open>Registries\<close> (\<open>registry.rs\<close>): the route table refines a map from schemas to handlers.
  \<^item> \<open>Kernel\<close>: the world.  \<open>Routing\<close>: rules, keys, direct pushes, doors, retries.  \<open>Steps\<close>: the claim guard
    and the two atomic steps, snapshots, flushes.  \<open>Frames\<close> and \<open>StepFrames\<close>: the locales \<open>routing_frame\<close>,
    \<open>region_frame\<close> and \<open>step_frame\<close>, by which a preorder that the elementary writes respect is respected by everything built
    from them; each later invariant is an interpretation.  \<open>StepFacts\<close>: what a step commits.
  \<^item> \<open>Lifecycle\<close>, \<open>Projections\<close>, \<open>Asks\<close>, \<open>Services\<close>, \<open>Tasks\<close>, \<open>Builders\<close>, \<open>Configs\<close>, \<open>Exports\<close>: spawning and
    teardown, the catch-up of projectors, contexts, asks and service adapters, one turn of every kind of
    task, the spawn builders, configurations, and what a host can read off a system.
  \<^item> \<open>Calls\<close>: the relations \<open>wiring\<close> (what a builder or a factory may do to a world) and \<open>api\<close> (the calls a handle
    allows), the contract \<open>host_ok\<close> of the authors' code, and the locale \<open>call_frame\<close>.  \<open>TurnFrames\<close>: the locale
    \<open>turn_frame\<close>, which joins the calls and the steps and covers one turn of every task.
  \<^item> \<open>Wellformed\<close>, \<open>Turns\<close>, \<open>Systems\<close>: the shape invariant \<open>world_ok\<close>, kept by every turn (locale \<open>typed_host\<close>),
    and the step relation \<open>sys_step\<close> that interleaves turns, timeouts and calls from outside.
  \<^item> \<open>LoopFrames\<close>: the locales \<open>spawn_frame\<close> and \<open>loop_frame\<close>, which give \<open>call_frame\<close> and \<open>turn_frame\<close> from a few laws
    about cells and boxes and cover every task and every step of the system.  Its uses: \<open>Wakeups\<close>, a loop
    parked in front of mail has a permit to wake, in every run in which no cell has two loops (a restart of
    a living actor can give it two); \<open>Mailboxes\<close>, over whole runs a mailbox is a queue with nothing claimed
    between turns; and \<open>EventLogs\<close>, over whole runs a journal is an append-only log that only its own actor
    writes (the frames' parameter \<open>own\<close> says whose journals a step may write).
  \<^item> \<open>Delivery\<close>, \<open>Broadcasts\<close>, \<open>Activations\<close>, \<open>Restarts\<close>, \<open>Budgets\<close>, \<open>Stops\<close>, \<open>Snapshots\<close>, \<open>CatchUps\<close>: where an envelope can be, what a
    publish leaves in each mailbox, where a refused command to a partition set goes, what a restart gives back, how many restarts a budget grants over time, what
    stopping leaves, what the cadence of snapshots means for recovery, and which facts a projector holds after
    its catch-up.
  \<^item> \<open>LongCalls\<close>: the calls that wait (quiescence, complete reads, rebuilds, the bounded stop and its children,
    the shutdown sweep) as relations that let the system run while they wait; each is a run of the system.
  \<^item> \<open>DaowStore\<close>, \<open>DaowFacts\<close>, \<open>DaowContract\<close>, \<open>DaowLive\<close>: the write-behind SQLite store over an arbitrary
    sequence of pool answers; the locale \<open>journal_backend\<close>, which \<open>journal_store\<close> entails and the SQLite store
    meets in wire form; and the progress of its writer.

  \<^bold>\<open>What is shown\<close>, by the numbers of the claims in the theories: safety of delivery, steps, crashes,
  durability and teardown; invariants of live state and of the whole world; the return of a crashed
  child and of acknowledged events as liveness; round trips of schemas, wire forms, snapshots and
  observations; the refinement of abstract queues, journals and route maps; and, as error properties,
  behaviours of the code that fall short of what it means to do, each stated as the theorem that exhibits it.

  \<^bold>\<open>Bounds and fuel.\<close>  No definition runs on fuel of the model's own.  \<open>block_hold_max_parks\<close> (10000) is the code's
  bound on how often a door parks one envelope; \<open>max_wakes\<close> (2000) is the code's bound on the wakes of a fake
  wait, and the wait is shown to have answered by the 2001st; the store's recursions
  follow its lists of rows or of pool answers, so they end with them.

  \<^bold>\<open>Not modelled.\<close>  A handler is one step: what other tasks do while a service handler is suspended inside an
  await is the host callback's (its calls are constrained to those a handle allows).  Lock contention
  is absent except where a \<open>try_lock\<close> has an answer of its own (\<open>try_with_es_state\<close>).  When tokio runs a
  task or fires a timer is the step relation's choice.  The effects of an event-sourced \<open>on_stop\<close> (which
  cannot change the world), its panics and tracing output are left out, as are \<open>Debug\<close> texts beyond a variant's name,
  the SQL engine itself, \<open>#[cfg(test)]\<close> counters, and the handle plumbing (\<open>loop_facade\<close>, \<open>NullView\<close>,
  \<open>CountingKernelLock\<close>), which only aliases the tables of the world.  Examples, benches and tests are clients
  of the modelled code.
\<close>

end
